(* ===== verification/Prelude.thy ===== *)
theory Prelude
  imports Main "HOL-Library.State_Monad" "HOL-Library.Word"
begin

text \<open>
  Shared material of the development: the proof collections, weakest preconditions for
  stateful code, sequencing of fallible code, the SQL table operations every repository
  uses, and two's-complement arithmetic on \<open>int64\<close> values.

  Stateful Go code is a value of type \<open>('s, 'a) state\<close> of HOL-Library.State_Monad. A Go
  function with an \<open>error\<close> result returns a sum, with \<open>Inl\<close> for the error, and
  \<open>bindE\<close> is the idiom \<^verbatim>\<open>x, err := f(); if err != nil { return err }\<close>.
\<close>

named_theorems wp_intro \<open>introduction rules, one per operation, for weakest preconditions\<close>

section \<open>Sequencing of fallible code\<close>

abbreviation ret :: "'a \<Rightarrow> ('s, 'a) state" where
  "ret \<equiv> State_Monad.return"

definition returnE :: "'a \<Rightarrow> ('s, 'e + 'a) state" where
  "returnE a = ret (Inr a)"

definition throwE :: "'e \<Rightarrow> ('s, 'e + 'a) state" where
  "throwE e = ret (Inl e)"

definition bindE :: "('s, 'e + 'a) state \<Rightarrow> ('a \<Rightarrow> ('s, 'e + 'b) state) \<Rightarrow> ('s, 'e + 'b) state"
where
  "bindE m f = do { r \<leftarrow> m; case r of Inl e \<Rightarrow> throwE e | Inr a \<Rightarrow> f a }"

text \<open>Wrapping the error of a call, as \<^verbatim>\<open>fmt.Errorf("...: %w", err)\<close> does.\<close>

definition mapErr :: "('e \<Rightarrow> 'f) \<Rightarrow> ('s, 'e + 'a) state \<Rightarrow> ('s, 'f + 'a) state" where
  "mapErr g m = do { r \<leftarrow> m; ret (case r of Inl e \<Rightarrow> Inl (g e) | Inr a \<Rightarrow> Inr a) }"

text \<open>A loop over a slice whose body may fail: the first error ends it.\<close>

primrec forE :: "'x list \<Rightarrow> ('x \<Rightarrow> ('s, 'e + unit) state) \<Rightarrow> ('s, 'e + unit) state" where
  "forE [] f = returnE ()"
| "forE (x # xs) f = bindE (f x) (\<lambda>_. forE xs f)"

lemma run_returnE [simp]: "run_state (returnE a) s = (Inr a, s)"
  by (simp add: returnE_def)

lemma run_throwE [simp]: "run_state (throwE e) s = (Inl e, s)"
  by (simp add: throwE_def)

lemma run_bindE [simp]:
  "run_state (bindE m f) s =
     (case run_state m s of (Inl e, s') \<Rightarrow> (Inl e, s') | (Inr a, s') \<Rightarrow> run_state (f a) s')"
  by (auto simp: bindE_def split: prod.splits sum.splits)

lemma run_mapErr [simp]:
  "run_state (mapErr g m) s =
     (case run_state m s of (Inl e, s') \<Rightarrow> (Inl (g e), s') | (Inr a, s') \<Rightarrow> (Inr a, s'))"
  by (auto simp: mapErr_def split: prod.splits sum.splits)

section \<open>Weakest preconditions\<close>

definition wp :: "('s, 'a) state \<Rightarrow> ('a \<Rightarrow> 's \<Rightarrow> bool) \<Rightarrow> 's \<Rightarrow> bool" where
  "wp m Q s \<longleftrightarrow> (case run_state m s of (a, s') \<Rightarrow> Q a s')"

lemma wp_run: "wp m Q s \<longleftrightarrow> (\<forall>a s'. run_state m s = (a, s') \<longrightarrow> Q a s')"
  by (auto simp: wp_def)

lemma wpD: "wp m Q s \<Longrightarrow> run_state m s = (a, s') \<Longrightarrow> Q a s'"
  by (simp add: wp_def)

lemma wp_mono: "wp m Q s \<Longrightarrow> (\<And>a s'. Q a s' \<Longrightarrow> Q' a s') \<Longrightarrow> wp m Q' s"
  by (auto simp: wp_def)

lemma wp_conj: "wp m P s \<Longrightarrow> wp m Q s \<Longrightarrow> wp m (\<lambda>a s'. P a s' \<and> Q a s') s"
  by (simp add: wp_def split_beta)

text \<open>The answer of a computation and the state it leaves.\<close>

definition answer :: "('s, 'a) state \<Rightarrow> 's \<Rightarrow> 'a" where
  "answer m s = fst (run_state m s)"

definition final :: "('s, 'a) state \<Rightarrow> 's \<Rightarrow> 's" where
  "final m s = snd (run_state m s)"

lemma wp_iff: "wp m Q s \<longleftrightarrow> Q (answer m s) (final m s)"
  by (simp add: wp_def answer_def final_def split_beta)

text \<open>The rules are equations between predicates, so that they also rewrite under binders.\<close>

lemma wp_ret [simp]: "wp (ret a) Q = Q a"
  by (simp add: wp_def fun_eq_iff)

lemma wp_bind [simp]: "wp (State_Monad.bind m f) Q = wp m (\<lambda>a. wp (f a) Q)"
  by (auto simp: wp_def fun_eq_iff split: prod.splits)

lemma wp_get [simp]: "wp State_Monad.get Q = (\<lambda>s. Q s s)"
  by (simp add: wp_def fun_eq_iff)

lemma wp_set [simp]: "wp (State_Monad.set s') Q = (\<lambda>s. Q () s')"
  by (simp add: wp_def fun_eq_iff)

lemma wp_update [simp]: "wp (State_Monad.update f) Q = (\<lambda>s. Q () (f s))"
  by (simp add: State_Monad.update_def)

lemma wp_State [simp]: "wp (State f) Q = (\<lambda>s. case f s of (a, s') \<Rightarrow> Q a s')"
  by (simp add: wp_def fun_eq_iff)

lemma wp_returnE [simp]: "wp (returnE a) Q = Q (Inr a)"
  by (simp add: wp_def fun_eq_iff)

lemma wp_throwE [simp]: "wp (throwE e) Q = Q (Inl e)"
  by (simp add: wp_def fun_eq_iff)

lemma wp_bindE [simp]:
  "wp (bindE m f) Q = wp m (\<lambda>r. case r of Inl e \<Rightarrow> Q (Inl e) | Inr a \<Rightarrow> wp (f a) Q)"
  by (auto simp: wp_def fun_eq_iff split: prod.splits sum.splits)

lemma wp_mapErr [simp]:
  "wp (mapErr g m) Q = wp m (\<lambda>r. Q (case r of Inl e \<Rightarrow> Inl (g e) | Inr a \<Rightarrow> Inr a))"
  by (auto simp: wp_def fun_eq_iff split: prod.splits sum.splits)

text \<open>The loop rule: an invariant that every iteration keeps, whatever it returns.\<close>

lemma wp_forE_invariant:
  assumes "I s"
    and "\<And>x t. x \<in> set xs \<Longrightarrow> I t \<Longrightarrow> wp (f x) (\<lambda>_. I) t"
  shows "wp (forE xs f) (\<lambda>_. I) s"
  using assms
proof (induction xs arbitrary: s)
  case Nil
  then show ?case by simp
next
  case (Cons x xs)
  have "wp (f x) (\<lambda>_. I) s" using Cons.prems by simp
  then have "wp (f x) (\<lambda>r t. I t \<and> (\<forall>t. I t \<longrightarrow> wp (forE xs f) (\<lambda>_. I) t)) s"
    by (rule wp_mono) (use Cons.IH Cons.prems(2) in auto)
  then show ?case
    by (auto elim: wp_mono split: sum.split)
qed

section \<open>SQL tables\<close>

text \<open>
  A table is the list of its rows in insertion order, which is primary-key order for an
  \<^verbatim>\<open>AUTO_INCREMENT\<close> key. \<open>sql_update\<close> is \<^verbatim>\<open>UPDATE ... SET upd WHERE p\<close>; its count is
  MySQL's affected rows, which leaves out rows the assignment does not change.
\<close>

definition sql_update :: "('r \<Rightarrow> bool) \<Rightarrow> ('r \<Rightarrow> 'r) \<Rightarrow> 'r list \<Rightarrow> int \<times> 'r list" where
  "sql_update p upd rows =
     (int (length (filter (\<lambda>r. p r \<and> upd r \<noteq> r) rows)),
      map (\<lambda>r. if p r then upd r else r) rows)"

definition sql_select :: "('r \<Rightarrow> bool) \<Rightarrow> 'r list \<Rightarrow> 'r list" where
  "sql_select p rows = filter p rows"

definition sql_order_by :: "('r \<Rightarrow> int) \<Rightarrow> 'r list \<Rightarrow> 'r list" where
  "sql_order_by k rows = sort_key k rows"

definition sql_limit :: "int \<Rightarrow> 'r list \<Rightarrow> 'r list" where
  "sql_limit n rows = take (nat n) rows"

definition sql_row :: "('r \<Rightarrow> bool) \<Rightarrow> 'r list \<Rightarrow> 'r option" where
  "sql_row p rows = find p rows"

lemma snd_sql_update [simp]: "snd (sql_update p upd rows) = map (\<lambda>r. if p r then upd r else r) rows"
  by (simp add: sql_update_def)

lemma fst_sql_update_pos:
  "0 < fst (sql_update p upd rows) \<longleftrightarrow> (\<exists>r \<in> set rows. p r \<and> upd r \<noteq> r)"
  by (auto simp: sql_update_def filter_empty_conv)

lemma fst_sql_update_zero:
  "fst (sql_update p upd rows) = 0 \<longleftrightarrow> (\<forall>r \<in> set rows. p r \<longrightarrow> upd r = r)"
  by (auto simp: sql_update_def filter_empty_conv)

lemma fst_sql_update_nonneg [simp]: "0 \<le> fst (sql_update p upd rows)"
  by (simp add: sql_update_def)

lemma sql_update_none:
  "\<forall>r \<in> set rows. \<not> p r \<Longrightarrow> sql_update p upd rows = (0, rows)"
  by (auto simp: sql_update_def map_idI filter_empty_conv)

lemma set_sql_limit_order [simp]: "set (sql_limit n (sql_order_by k rows)) \<subseteq> set rows"
  using set_take_subset [of "nat n" "sort_key k rows"] by (auto simp: sql_limit_def sql_order_by_def)

lemma sql_limit_orderD: "r \<in> set (sql_limit n (sql_order_by k rows)) \<Longrightarrow> r \<in> set rows"
  by (rule subsetD [OF set_sql_limit_order])

lemma sql_limit_all: "int (length rows) \<le> n \<Longrightarrow> sql_limit n rows = rows"
  by (simp add: sql_limit_def)

lemma set_sql_select [simp]: "set (sql_select p rows) = {r \<in> set rows. p r}"
  by (simp add: sql_select_def)

lemma sql_row_Some_iff:
  "sql_row p rows = Some r \<Longrightarrow> r \<in> set rows \<and> p r"
  by (auto simp: sql_row_def find_Some_iff)

lemma sql_row_None_iff: "sql_row p rows = None \<longleftrightarrow> (\<forall>r \<in> set rows. \<not> p r)"
  by (auto simp: sql_row_def find_None_iff)

lemma sql_row_snoc:
  "sql_row p (rows @ [r]) =
     (case sql_row p rows of Some x \<Rightarrow> Some x | None \<Rightarrow> if p r then Some r else None)"
  by (induction rows) (auto simp: sql_row_def)

text \<open>A lookup by a key that an update leaves alone.\<close>

lemma sql_row_map:
  assumes "\<And>r. key (f r) = key r"
  shows "sql_row (\<lambda>r. key r = k) (map f rows) = map_option f (sql_row (\<lambda>r. key r = k) rows)"
  using assms by (induction rows) (auto simp: sql_row_def)

text \<open>Updates of the one row with a given key.\<close>

definition put_row :: "('r \<Rightarrow> 'k) \<Rightarrow> 'k \<Rightarrow> 'r \<Rightarrow> 'r list \<Rightarrow> 'r list" where
  "put_row key k r rows = map (\<lambda>x. if key x = k then r else x) rows"

lemma sql_row_key:
  assumes "distinct (map key rows)" "r \<in> set rows"
  shows "sql_row (\<lambda>x. key x = key r) rows = Some r"
  using assms by (induction rows) (auto simp: sql_row_def)

lemma sql_update_hit:
  assumes "distinct (map key rows)" "sql_row (\<lambda>x. key x = k) rows = Some r" "P r"
  shows "sql_update (\<lambda>x. key x = k \<and> P x) f rows = (if f r \<noteq> r then 1 else 0, put_row key k (f r) rows)"
proof -
  have r: "key r = k" "r \<in> set rows" using assms(2) by (auto dest: sql_row_Some_iff)
  have uniq: "x \<in> set rows \<Longrightarrow> key x = k \<longleftrightarrow> x = r" for x
    using assms(1) r by (auto simp: distinct_map inj_on_def)
  have "filter (\<lambda>x. (key x = k \<and> P x) \<and> f x \<noteq> x) rows = filter (\<lambda>x. x = r \<and> f r \<noteq> r) rows"
    using uniq assms(3) by (intro filter_cong) auto
  moreover have "filter (\<lambda>x. x = r) rows = [r]"
    using assms(1) r(2) by (induction rows) (auto simp: filter_empty_conv)
  moreover have "map (\<lambda>x. if key x = k \<and> P x then f x else x) rows = put_row key k (f r) rows"
    unfolding put_row_def using uniq assms(3) by (intro map_cong) auto
  ultimately show ?thesis by (auto simp: sql_update_def)
qed

lemma sql_update_miss:
  assumes "distinct (map key rows)" "\<And>r. sql_row (\<lambda>x. key x = k) rows = Some r \<Longrightarrow> \<not> P r"
  shows "sql_update (\<lambda>x. key x = k \<and> P x) f rows = (0, rows)"
  using assms sql_row_key [OF assms(1)] by (intro sql_update_none) auto

lemma put_row_keys:
  "key r = k \<Longrightarrow> map key (put_row key k r rows) = map key rows"
  by (simp add: put_row_def)

lemma sql_row_put_row:
  assumes "key r = k"
  shows "sql_row (\<lambda>x. key x = j) (put_row key k r rows) =
           (if j = k then map_option (\<lambda>_. r) (sql_row (\<lambda>x. key x = k) rows)
            else sql_row (\<lambda>x. key x = j) rows)"
  using assms by (induction rows) (auto simp: sql_row_def put_row_def)

lemma in_put_row: "x \<in> set (put_row key k r rows) \<Longrightarrow> x = r \<or> x \<in> set rows"
  by (auto simp: put_row_def)

section \<open>Two's-complement arithmetic\<close>

text \<open>
  Go's \<^verbatim>\<open>int64\<close> (and so \<^verbatim>\<open>time.Duration\<close> and \<^verbatim>\<open>int\<close>) wraps around. Values are kept as
  \<open>int\<close> and the operations that can overflow apply \<open>wrap64\<close>.
\<close>

definition wrap64 :: "int \<Rightarrow> int" where
  "wrap64 x = (x + 2 ^ 63) mod 2 ^ 64 - 2 ^ 63"

lemma wrap64_range: "- (2 ^ 63) \<le> wrap64 x \<and> wrap64 x < 2 ^ 63"
  unfolding wrap64_def
  using pos_mod_sign [of "2 ^ 64" "x + 2 ^ 63"] pos_mod_bound [of "2 ^ 64" "x + 2 ^ 63"]
  by simp

lemma wrap64_id: "- (2 ^ 63) \<le> x \<Longrightarrow> x < 2 ^ 63 \<Longrightarrow> wrap64 x = x"
  by (simp add: wrap64_def)

lemma wrap64_signed_word: "wrap64 x = sint (word_of_int x :: 64 word)"
  by (simp add: wrap64_def signed_take_bit_eq_take_bit_shift take_bit_eq_mod sint_sbintrunc')

section \<open>Lists of identified rows\<close>

lemma filter_map_same:
  assumes "\<And>r. P (f r) = P r"
  shows "length (filter P (map f rows)) = length (filter P rows)"
  using assms by (induction rows) auto

lemma distinct_map_snoc:
  "distinct (map key (rows @ [r])) \<longleftrightarrow> distinct (map key rows) \<and> key r \<notin> key ` set rows"
  by auto

end
