(* ===== verification/GoStd.thy ===== *)
theory GoStd
  imports Prelude
begin

text \<open>
  The parts of Go's language and standard library the program uses: \<^verbatim>\<open>error\<close> values with
  \<^verbatim>\<open>errors.Is\<close> and \<^verbatim>\<open>errors.As\<close>, \<^verbatim>\<open>strconv\<close>, \<^verbatim>\<open>strings\<close>, \<^verbatim>\<open>time\<close> and \<^verbatim>\<open>encoding/json\<close>.
  A Go string is its bytes, a \<open>string\<close> here.
\<close>

section \<open>Errors\<close>

text \<open>
  \<open>ErrNew\<close> is a value made by \<^verbatim>\<open>errors.New\<close> or by \<^verbatim>\<open>fmt.Errorf\<close> without \<^verbatim>\<open>%w\<close>; the
  sentinels of the program have pairwise different texts, so the text stands for the
  identity. \<open>ErrIO\<close> is an error of a network round trip, \<open>RedisNil\<close> and \<open>RedisErr\<close>
  the replies of Redis, \<open>MySQLError\<close> a server error with its number and text,
  \<open>ErrWrap pre e post\<close> a \<^verbatim>\<open>fmt.Errorf\<close> with \<^verbatim>\<open>%w\<close> at \<open>e\<close>, and \<open>AppError\<close> a
  \<^verbatim>\<open>*apperr.Error\<close> (pkg/errors/error.go), which has no \<^verbatim>\<open>Unwrap\<close> method.
\<close>

datatype goerr =
    ErrNew string
  | ErrIO string
  | RedisNil
  | RedisErr string
  | MySQLError int string
  | ErrWrap string goerr string
  | AppError int string "goerr option"

type_synonym 'a result = "goerr + 'a"

definition sql_ErrNoRows :: goerr where
  "sql_ErrNoRows = ErrNew ''sql: no rows in result set''"

definition sql_ErrTxDone :: goerr where
  "sql_ErrTxDone = ErrNew ''sql: transaction has already been committed or rolled back''"

text \<open>\<^verbatim>\<open>errors.Is\<close>: the chain is followed through \<^verbatim>\<open>%w\<close> only.\<close>

primrec errors_Is :: "goerr \<Rightarrow> goerr \<Rightarrow> bool" where
  "errors_Is (ErrNew s) t = (ErrNew s = t)"
| "errors_Is (ErrIO s) t = (ErrIO s = t)"
| "errors_Is RedisNil t = (RedisNil = t)"
| "errors_Is (RedisErr s) t = (RedisErr s = t)"
| "errors_Is (MySQLError n s) t = (MySQLError n s = t)"
| "errors_Is (ErrWrap pre e post) t = (ErrWrap pre e post = t \<or> errors_Is e t)"
| "errors_Is (AppError c m k) t = (AppError c m k = t)"

text \<open>\<^verbatim>\<open>errors.As\<close> with a \<^verbatim>\<open>**mysql.MySQLError\<close> target: the number of the first one.\<close>

primrec errors_As_MySQLError :: "goerr \<Rightarrow> int option" where
  "errors_As_MySQLError (ErrNew s) = None"
| "errors_As_MySQLError (ErrIO s) = None"
| "errors_As_MySQLError RedisNil = None"
| "errors_As_MySQLError (RedisErr s) = None"
| "errors_As_MySQLError (MySQLError n s) = Some n"
| "errors_As_MySQLError (ErrWrap pre e post) = errors_As_MySQLError e"
| "errors_As_MySQLError (AppError c m k) = None"

section \<open>strconv\<close>

definition digit_char :: "nat \<Rightarrow> char" where
  "digit_char d = char_of (48 + d)"

fun nat_decimal :: "nat \<Rightarrow> string" where
  "nat_decimal n =
     (if n < 10 then [digit_char n] else nat_decimal (n div 10) @ [digit_char (n mod 10)])"

declare nat_decimal.simps [simp del]

text \<open>\<^verbatim>\<open>strconv.FormatInt(i, 10)\<close>, which \<^verbatim>\<open>%d\<close> and \<^verbatim>\<open>strconv.Itoa\<close> also print.\<close>

definition FormatInt :: "int \<Rightarrow> string" where
  "FormatInt i = (if i < 0 then CHR ''-'' # nat_decimal (nat (- i)) else nat_decimal (nat i))"

definition is_digit :: "char \<Rightarrow> bool" where
  "is_digit c \<longleftrightarrow> 48 \<le> (of_char c :: nat) \<and> (of_char c :: nat) \<le> 57"

definition digit_val :: "char \<Rightarrow> nat" where
  "digit_val c = of_char c - 48"

definition err_syntax :: "string \<Rightarrow> goerr" where
  "err_syntax s = ErrNew (''strconv.ParseInt: parsing '' @ s @ '': invalid syntax'')"

definition err_range :: "string \<Rightarrow> goerr" where
  "err_range s = ErrNew (''strconv.ParseInt: parsing '' @ s @ '': value out of range'')"

text \<open>The digit loop of \<^verbatim>\<open>strconv.ParseUint\<close> for base 10 and 64 bits; \<open>s\<close> is the whole input.\<close>

fun ParseUint_loop :: "string \<Rightarrow> nat \<Rightarrow> string \<Rightarrow> nat result" where
  "ParseUint_loop s n [] = Inr n"
| "ParseUint_loop s n (c # cs) =
     (if \<not> is_digit c then Inl (err_syntax s)
      else if 2 ^ 64 \<le> 10 * n + digit_val c then Inl (err_range s)
      else ParseUint_loop s (10 * n + digit_val c) cs)"

text \<open>\<^verbatim>\<open>strconv.ParseInt(s, 10, 64)\<close>.\<close>

definition ParseInt :: "string \<Rightarrow> int result" where
  "ParseInt s =
     (if s = [] then Inl (err_syntax s)
      else let neg = (hd s = CHR ''-'');
               body = (if hd s = CHR ''-'' \<or> hd s = CHR ''+'' then tl s else s)
           in if body = [] then Inl (err_syntax s)
              else case ParseUint_loop s 0 body of
                     Inl e \<Rightarrow> Inl e
                   | Inr un \<Rightarrow>
                       if \<not> neg \<and> 2 ^ 63 \<le> un then Inl (err_range s)
                       else if neg \<and> 2 ^ 63 < un then Inl (err_range s)
                       else Inr (if neg then - int un else int un))"

lemma of_char_digit [simp]: "d < 10 \<Longrightarrow> (of_char (digit_char d) :: nat) = 48 + d"
  by (simp add: digit_char_def)

lemma is_digit_digit_char [simp]: "d < 10 \<Longrightarrow> is_digit (digit_char d)"
  by (simp add: is_digit_def)

lemma digit_val_digit_char [simp]: "d < 10 \<Longrightarrow> digit_val (digit_char d) = d"
  by (simp add: digit_val_def)

lemma nat_decimal_not_Nil [simp]: "nat_decimal n \<noteq> []"
  by (subst nat_decimal.simps) simp

lemma nat_decimal_digits: "c \<in> set (nat_decimal n) \<Longrightarrow> is_digit c"
proof (induction n rule: nat_decimal.induct)
  case (1 n)
  then show ?case
    by (cases "n < 10") (auto simp: nat_decimal.simps [of n])
qed

lemma ParseUint_loop_append:
  "ParseUint_loop s n (xs @ ys) =
     (case ParseUint_loop s n xs of Inl e \<Rightarrow> Inl e | Inr m \<Rightarrow> ParseUint_loop s m ys)"
  by (induction s n xs rule: ParseUint_loop.induct) auto

lemma ParseUint_nat_decimal:
  "n < 2 ^ 64 \<Longrightarrow> ParseUint_loop s 0 (nat_decimal n) = Inr n"
proof (induction n rule: nat_decimal.induct)
  case (1 n)
  show ?case
  proof (cases "n < 10")
    case True
    then show ?thesis by (simp add: nat_decimal.simps [of n])
  next
    case False
    with 1 have "ParseUint_loop s 0 (nat_decimal (n div 10)) = Inr (n div 10)" by simp
    moreover have "\<not> 2 ^ 64 \<le> 10 * (n div 10) + n mod 10" using "1.prems" by simp
    ultimately show ?thesis
      using False by (simp add: nat_decimal.simps [of n] ParseUint_loop_append)
  qed
qed

lemma not_digit_sign [simp]: "\<not> is_digit (CHR ''-'')" "\<not> is_digit (CHR ''+'')" "\<not> is_digit (CHR '':'')"
  by (simp_all add: is_digit_def)

lemma hd_nat_decimal: "is_digit (hd (nat_decimal n))"
  by (rule nat_decimal_digits [of _ n]) simp

lemma hd_nat_decimal_sign [simp]:
  "hd (nat_decimal n) \<noteq> CHR ''-''" "hd (nat_decimal n) \<noteq> CHR ''+''"
  using hd_nat_decimal [of n] not_digit_sign by metis+

text \<open>Printing and parsing an \<^verbatim>\<open>int64\<close> are inverse.\<close>

lemma ParseInt_FormatInt [simp]:
  assumes "- (2 ^ 63) \<le> i" and "i < 2 ^ 63"
  shows "ParseInt (FormatInt i) = Inr i"
proof (cases "i < 0")
  case True
  with assms have "nat (- i) \<le> 2 ^ 63" by simp
  with True show ?thesis
    by (simp add: ParseInt_def FormatInt_def ParseUint_nat_decimal Let_def)
next
  case False
  with assms have "nat i < 2 ^ 63" by (simp add: nat_less_iff)
  with False show ?thesis
    by (simp add: ParseInt_def FormatInt_def ParseUint_nat_decimal Let_def)
qed

lemma ParseUint_nat_decimal_unique: "ParseUint_loop s 0 (nat_decimal n) = Inr m \<Longrightarrow> m = n"
proof (induction n arbitrary: m rule: nat_decimal.induct)
  case (1 n)
  show ?case
  proof (cases "n < 10")
    case True
    with 1 show ?thesis by (simp add: nat_decimal.simps [of n] split: if_splits)
  next
    case False
    with 1 show ?thesis
      by (auto simp: nat_decimal.simps [of n] ParseUint_loop_append split: sum.splits if_splits)
  qed
qed

lemma ParseInt_FormatInt_unique: "ParseInt (FormatInt i) = Inr j \<Longrightarrow> j = i"
  by (cases "i < 0") (auto simp: ParseInt_def FormatInt_def Let_def
      dest!: ParseUint_nat_decimal_unique split: sum.splits if_splits)

text \<open>A parsed value always fits: no caller of \<^verbatim>\<open>ParseInt\<close> sees a wrapped number.\<close>

lemma ParseInt_range: "ParseInt s = Inr i \<Longrightarrow> - (2 ^ 63) \<le> i \<and> i < 2 ^ 63"
  by (auto simp: ParseInt_def Let_def split: if_splits sum.splits)

lemma foldl_nat_decimal: "foldl (\<lambda>n c. 10 * n + digit_val c) 0 (nat_decimal n) = n"
proof (induction n rule: nat_decimal.induct)
  case (1 n)
  then show ?case
    by (cases "n < 10") (simp_all add: nat_decimal.simps [of n])
qed

lemma nat_decimal_inject [simp]: "nat_decimal m = nat_decimal n \<longleftrightarrow> m = n"
  by (metis foldl_nat_decimal)

lemma nat_decimal_not_sign [simp]:
  "nat_decimal n \<noteq> CHR ''-'' # s" "CHR ''-'' # s \<noteq> nat_decimal n"
  using hd_nat_decimal_sign(1) [of n] by (metis list.sel(1))+

lemma FormatInt_inject [simp]: "FormatInt i = FormatInt j \<longleftrightarrow> i = j"
  by (auto simp: FormatInt_def)

lemma FormatInt_no_colon [simp]: "CHR '':'' \<notin> set (FormatInt i)"
  by (auto simp: FormatInt_def dest: nat_decimal_digits)

lemma FormatInt_not_Nil [simp]: "FormatInt i \<noteq> []"
  by (simp add: FormatInt_def)

section \<open>strings\<close>

text \<open>
  The UTF-8 encodings of Unicode's white space, which \<^verbatim>\<open>strings.TrimSpace\<close> removes at both
  ends of a valid UTF-8 string.
\<close>

definition space_seqs :: "string list" where
  "space_seqs =
     [[CHR 0x20], [CHR 0x09], [CHR 0x0A], [CHR 0x0B], [CHR 0x0C], [CHR 0x0D],
      [CHR 0xC2, CHR 0x85], [CHR 0xC2, CHR 0xA0], [CHR 0xE1, CHR 0x9A, CHR 0x80],
      [CHR 0xE2, CHR 0x80, CHR 0x80], [CHR 0xE2, CHR 0x80, CHR 0x81],
      [CHR 0xE2, CHR 0x80, CHR 0x82], [CHR 0xE2, CHR 0x80, CHR 0x83],
      [CHR 0xE2, CHR 0x80, CHR 0x84], [CHR 0xE2, CHR 0x80, CHR 0x85],
      [CHR 0xE2, CHR 0x80, CHR 0x86], [CHR 0xE2, CHR 0x80, CHR 0x87],
      [CHR 0xE2, CHR 0x80, CHR 0x88], [CHR 0xE2, CHR 0x80, CHR 0x89],
      [CHR 0xE2, CHR 0x80, CHR 0x8A], [CHR 0xE2, CHR 0x80, CHR 0xA8],
      [CHR 0xE2, CHR 0x80, CHR 0xA9], [CHR 0xE2, CHR 0x80, CHR 0xAF],
      [CHR 0xE2, CHR 0x81, CHR 0x9F], [CHR 0xE3, CHR 0x80, CHR 0x80]]"

definition HasPrefix :: "string \<Rightarrow> string \<Rightarrow> bool" where
  "HasPrefix s p \<longleftrightarrow> take (length p) s = p"

definition TrimPrefix :: "string \<Rightarrow> string \<Rightarrow> string" where
  "TrimPrefix s p = (if HasPrefix s p then drop (length p) s else s)"

text \<open>The prefix of \<open>s\<close> among \<open>seqs\<close>, removed until there is none.\<close>

function trim_left_seqs :: "string list \<Rightarrow> string \<Rightarrow> string" where
  "trim_left_seqs seqs s =
     (case find (\<lambda>q. q \<noteq> [] \<and> HasPrefix s q) seqs of
        None \<Rightarrow> s
      | Some q \<Rightarrow> trim_left_seqs seqs (drop (length q) s))"
  by pat_completeness auto
termination
proof (relation "measure (length \<circ> snd)")
  fix seqs :: "string list" and s q
  assume "find (\<lambda>q. q \<noteq> [] \<and> HasPrefix s q) seqs = Some q"
  then have "q \<noteq> []" "HasPrefix s q" by (auto simp: find_Some_iff)
  then show "((seqs, drop (length q) s), (seqs, s)) \<in> measure (length \<circ> snd)"
    by (cases s) (auto simp: HasPrefix_def)
qed simp

declare trim_left_seqs.simps [simp del]

definition TrimSpace :: "string \<Rightarrow> string" where
  "TrimSpace s = rev (trim_left_seqs (map rev space_seqs) (rev (trim_left_seqs space_seqs s)))"

lemma HasPrefix_append [simp]: "HasPrefix (p @ s) p"
  by (simp add: HasPrefix_def)

lemma TrimPrefix_append [simp]: "TrimPrefix (p @ s) p = s"
  by (simp add: TrimPrefix_def)

lemma TrimSpace_Nil [simp]: "TrimSpace [] = []"
  by (simp add: TrimSpace_def trim_left_seqs.simps space_seqs_def HasPrefix_def)

text \<open>\<^verbatim>\<open>truncate(s, n)\<close> of the two repositories cuts bytes, not runes.\<close>

definition truncate_str :: "string \<Rightarrow> int \<Rightarrow> string" where
  "truncate_str s n = (if int (length s) \<le> n then s else take (nat n) s)"

lemma length_truncate_str: "0 \<le> n \<Longrightarrow> int (length (truncate_str s n)) \<le> n"
  by (auto simp: truncate_str_def)

section \<open>time\<close>

text \<open>
  A \<^verbatim>\<open>time.Time\<close> is its Unix time in nanoseconds, a \<^verbatim>\<open>time.Duration\<close> a number of
  nanoseconds. \<open>datetime3\<close> is the value a \<^verbatim>\<open>DATETIME(3)\<close> column keeps: MySQL rounds to
  the millisecond.
\<close>

definition Millisecond :: int where "Millisecond = 1000000"
definition Second :: int where "Second = 1000 * Millisecond"
definition Minute :: int where "Minute = 60 * Second"
definition Hour :: int where "Hour = 60 * Minute"

lemmas duration_defs = Millisecond_def Second_def Minute_def Hour_def

definition UnixMilli :: "int \<Rightarrow> int" where
  "UnixMilli t = t div Millisecond"

definition datetime3 :: "int \<Rightarrow> int" where
  "datetime3 t = (t + Millisecond div 2) div Millisecond * Millisecond"

lemma datetime3_mono: "s \<le> t \<Longrightarrow> datetime3 s \<le> datetime3 t"
  by (simp add: datetime3_def Millisecond_def zdiv_mono1)

lemma datetime3_idem [simp]: "datetime3 (datetime3 t) = datetime3 t"
  by (simp add: datetime3_def Millisecond_def)

lemma datetime3_close: "\<bar>datetime3 t - t\<bar> \<le> 500000"
  by (simp add: datetime3_def Millisecond_def)

lemma UnixMilli_mono: "s \<le> t \<Longrightarrow> UnixMilli s \<le> UnixMilli t"
  by (simp add: UnixMilli_def Millisecond_def zdiv_mono1)

section \<open>encoding/json\<close>

text \<open>
  A JSON document as \<^verbatim>\<open>encoding/json\<close> and a MySQL \<^verbatim>\<open>JSON\<close> column hold it; a number keeps
  its literal, an object its members in order. Columns and payloads carry documents: the
  byte syntax between \<^verbatim>\<open>Marshal\<close> and \<^verbatim>\<open>Unmarshal\<close> is not modelled.
\<close>

datatype json =
    JNull
  | JBool bool
  | JNum string
  | JStr string
  | JArr "json list"
  | JObj "(string \<times> json) list"

definition err_unmarshal :: goerr where
  "err_unmarshal = ErrNew ''json: cannot unmarshal value into Go struct field''"

definition ascii_fold :: "char \<Rightarrow> char" where
  "ascii_fold c =
     (let n = (of_char c :: nat) in if 65 \<le> n \<and> n \<le> 90 then char_of (n + 32) else c)"

text \<open>Member names match a field's tag exactly or up to ASCII case.\<close>

definition field_matches :: "string \<Rightarrow> string \<Rightarrow> bool" where
  "field_matches tag name \<longleftrightarrow> map ascii_fold tag = map ascii_fold name"

text \<open>Decoding one member into an \<^verbatim>\<open>int64\<close> or \<^verbatim>\<open>string\<close> field with its current value.\<close>

fun decode_int64 :: "json \<Rightarrow> int \<Rightarrow> int result" where
  "decode_int64 JNull cur = Inr cur"
| "decode_int64 (JNum lit) cur =
     (case ParseInt lit of Inl _ \<Rightarrow> Inl err_unmarshal | Inr i \<Rightarrow> Inr i)"
| "decode_int64 _ cur = Inl err_unmarshal"

fun decode_string :: "json \<Rightarrow> string \<Rightarrow> string result" where
  "decode_string JNull cur = Inr cur"
| "decode_string (JStr s) cur = Inr s"
| "decode_string _ cur = Inl err_unmarshal"

text \<open>The members of an object from left to right: a later member overwrites an earlier one.\<close>

fun decode_int64_field :: "string \<Rightarrow> (string \<times> json) list \<Rightarrow> int \<Rightarrow> int result" where
  "decode_int64_field tag [] cur = Inr cur"
| "decode_int64_field tag ((k, v) # ms) cur =
     (if field_matches tag k
      then (case decode_int64 v cur of
              Inl e \<Rightarrow> Inl e | Inr i \<Rightarrow> decode_int64_field tag ms i)
      else decode_int64_field tag ms cur)"

fun decode_string_field :: "string \<Rightarrow> (string \<times> json) list \<Rightarrow> string \<Rightarrow> string result" where
  "decode_string_field tag [] cur = Inr cur"
| "decode_string_field tag ((k, v) # ms) cur =
     (if field_matches tag k
      then (case decode_string v cur of
              Inl e \<Rightarrow> Inl e | Inr s \<Rightarrow> decode_string_field tag ms s)
      else decode_string_field tag ms cur)"

end
