(* ===== verification/RedisStore.thy ===== *)
theory RedisStore
  imports GoStd "HOL-Library.Char_ord" "HOL-Library.List_Lexorder" "HOL-Library.Product_Lexorder"
begin

text \<open>
  The Redis keyspace and the commands the program sends. A command is a state transformer
  on the keyspace that takes the server's time in milliseconds, since a key whose expiry
  has passed is as good as absent. A command on a key of another type answers
  \<^verbatim>\<open>WRONGTYPE\<close>. A Lua script is a sequence of commands under \<open>bindE\<close>: an error reply
  aborts the script and leaves what it has written.
\<close>

section \<open>Keys and values\<close>

datatype rval =
    RString string
  | RHash "(string \<times> string) list"
  | RList "string list"
  | RZset "(string \<times> int) list"

type_synonym kv = "string \<Rightarrow> (rval \<times> int option) option"

type_synonym 'a rcmd = "(kv, 'a result) state"

definition err_wrongtype :: goerr where
  "err_wrongtype = RedisErr ''WRONGTYPE Operation against a key holding the wrong kind of value''"

definition err_not_int :: goerr where
  "err_not_int = RedisErr ''ERR value is not an integer or out of range''"

definition live :: "int \<Rightarrow> kv \<Rightarrow> string \<Rightarrow> (rval \<times> int option) option" where
  "live now m k =
     (case m k of
        None \<Rightarrow> None
      | Some (v, None) \<Rightarrow> Some (v, None)
      | Some (v, Some t) \<Rightarrow> if now < t then Some (v, Some t) else None)"

text \<open>Redis reads a counter from its canonical decimal form only.\<close>

definition redis_int :: "string \<Rightarrow> int option" where
  "redis_int s = (case ParseInt s of Inl _ \<Rightarrow> None | Inr i \<Rightarrow> if FormatInt i = s then Some i else None)"

definition in_int64 :: "int \<Rightarrow> bool" where
  "in_int64 i \<longleftrightarrow> - (2 ^ 63) \<le> i \<and> i < 2 ^ 63"

section \<open>Strings\<close>

definition redis_GET :: "int \<Rightarrow> string \<Rightarrow> string option rcmd" where
  "redis_GET now k = do {
     m \<leftarrow> State_Monad.get;
     ret (case live now m k of
            None \<Rightarrow> Inr None
          | Some (RString s, _) \<Rightarrow> Inr (Some s)
          | Some _ \<Rightarrow> Inl err_wrongtype) }"

text \<open>\<^verbatim>\<open>SET k v PX ttl\<close>\<close>

definition redis_SET_PX :: "int \<Rightarrow> string \<Rightarrow> string \<Rightarrow> int \<Rightarrow> unit rcmd" where
  "redis_SET_PX now k v ttl = do {
     _ \<leftarrow> State_Monad.update (\<lambda>m. m(k \<mapsto> (RString v, Some (now + ttl))));
     returnE () }"

definition redis_SETNX :: "int \<Rightarrow> string \<Rightarrow> string \<Rightarrow> bool rcmd" where
  "redis_SETNX now k v = do {
     m \<leftarrow> State_Monad.get;
     case live now m k of
       None \<Rightarrow> do { _ \<leftarrow> State_Monad.set (m(k \<mapsto> (RString v, None))); returnE True }
     | Some _ \<Rightarrow> returnE False }"

definition redis_DEL :: "int \<Rightarrow> string \<Rightarrow> int rcmd" where
  "redis_DEL now k = do {
     m \<leftarrow> State_Monad.get;
     _ \<leftarrow> State_Monad.set (m(k := None));
     returnE (if live now m k = None then 0 else 1) }"

text \<open>\<^verbatim>\<open>INCR\<close> and \<^verbatim>\<open>DECR\<close>: an absent key counts as 0, the expiry is kept.\<close>

definition redis_INCRBY :: "int \<Rightarrow> string \<Rightarrow> int \<Rightarrow> int rcmd" where
  "redis_INCRBY now k d = do {
     m \<leftarrow> State_Monad.get;
     case live now m k of
       None \<Rightarrow> do { _ \<leftarrow> State_Monad.set (m(k \<mapsto> (RString (FormatInt d), None))); returnE d }
     | Some (RString s, e) \<Rightarrow>
         (case redis_int s of
            None \<Rightarrow> throwE err_not_int
          | Some i \<Rightarrow>
              if in_int64 (i + d)
              then do { _ \<leftarrow> State_Monad.set (m(k \<mapsto> (RString (FormatInt (i + d)), e)));
                        returnE (i + d) }
              else throwE err_not_int)
     | Some _ \<Rightarrow> throwE err_wrongtype }"

definition redis_INCR :: "int \<Rightarrow> string \<Rightarrow> int rcmd" where
  "redis_INCR now k = redis_INCRBY now k 1"

definition redis_DECR :: "int \<Rightarrow> string \<Rightarrow> int rcmd" where
  "redis_DECR now k = redis_INCRBY now k (- 1)"

section \<open>Hashes\<close>

text \<open>The fields of a hash are an association list without duplicate names.\<close>

definition hput :: "string \<Rightarrow> string \<Rightarrow> (string \<times> string) list \<Rightarrow> (string \<times> string) list" where
  "hput f v h = (f, v) # filter (\<lambda>(g, _). g \<noteq> f) h"

definition hdel :: "string \<Rightarrow> (string \<times> string) list \<Rightarrow> (string \<times> string) list" where
  "hdel f h = filter (\<lambda>(g, _). g \<noteq> f) h"

definition redis_HGET :: "int \<Rightarrow> string \<Rightarrow> string \<Rightarrow> string option rcmd" where
  "redis_HGET now k f = do {
     m \<leftarrow> State_Monad.get;
     ret (case live now m k of
            None \<Rightarrow> Inr None
          | Some (RHash h, _) \<Rightarrow> Inr (map_of h f)
          | Some _ \<Rightarrow> Inl err_wrongtype) }"

definition redis_HSETNX :: "int \<Rightarrow> string \<Rightarrow> string \<Rightarrow> string \<Rightarrow> bool rcmd" where
  "redis_HSETNX now k f v = do {
     m \<leftarrow> State_Monad.get;
     case live now m k of
       None \<Rightarrow> do { _ \<leftarrow> State_Monad.set (m(k \<mapsto> (RHash [(f, v)], None))); returnE True }
     | Some (RHash h, e) \<Rightarrow>
         (if map_of h f = None
          then do { _ \<leftarrow> State_Monad.set (m(k \<mapsto> (RHash (hput f v h), e))); returnE True }
          else returnE False)
     | Some _ \<Rightarrow> throwE err_wrongtype }"

definition redis_HINCRBY :: "int \<Rightarrow> string \<Rightarrow> string \<Rightarrow> int \<Rightarrow> int rcmd" where
  "redis_HINCRBY now k f d = do {
     m \<leftarrow> State_Monad.get;
     case live now m k of
       None \<Rightarrow>
         do { _ \<leftarrow> State_Monad.set (m(k \<mapsto> (RHash [(f, FormatInt d)], None))); returnE d }
     | Some (RHash h, e) \<Rightarrow>
         (case map_of h f of
            None \<Rightarrow>
              do { _ \<leftarrow> State_Monad.set (m(k \<mapsto> (RHash (hput f (FormatInt d) h), e))); returnE d }
          | Some s \<Rightarrow>
              (case redis_int s of
                 None \<Rightarrow> throwE err_not_int
               | Some i \<Rightarrow>
                   if in_int64 (i + d)
                   then do {
                     _ \<leftarrow> State_Monad.set (m(k \<mapsto> (RHash (hput f (FormatInt (i + d)) h), e)));
                     returnE (i + d) }
                   else throwE err_not_int))
     | Some _ \<Rightarrow> throwE err_wrongtype }"

text \<open>A hash, list or sorted set that becomes empty is removed with its key.\<close>

definition redis_HDEL :: "int \<Rightarrow> string \<Rightarrow> string \<Rightarrow> unit rcmd" where
  "redis_HDEL now k f = do {
     m \<leftarrow> State_Monad.get;
     case live now m k of
       None \<Rightarrow> returnE ()
     | Some (RHash h, e) \<Rightarrow>
         do { _ \<leftarrow> State_Monad.set
                 (m(k := (if hdel f h = [] then None else Some (RHash (hdel f h), e))));
              returnE () }
     | Some _ \<Rightarrow> throwE err_wrongtype }"

lemma map_of_hput [simp]: "map_of (hput f v h) = (map_of h)(f \<mapsto> v)"
proof
  fix g
  show "map_of (hput f v h) g = ((map_of h)(f \<mapsto> v)) g"
    by (induction h) (auto simp: hput_def)
qed

lemma map_of_hdel [simp]: "map_of (hdel f h) = (map_of h)(f := None)"
proof
  fix g
  show "map_of (hdel f h) g = ((map_of h)(f := None)) g"
    by (induction h) (auto simp: hdel_def)
qed

lemma hdel_Nil_iff [simp]: "hdel f h = [] \<longleftrightarrow> fst ` set h \<subseteq> {f}"
  by (auto simp: hdel_def filter_empty_conv)

section \<open>Lists\<close>

definition put_list :: "string \<Rightarrow> string list \<Rightarrow> int option \<Rightarrow> kv \<Rightarrow> kv" where
  "put_list k xs e m = m(k := (if xs = [] then None else Some (RList xs, e)))"

definition redis_on_list :: "int \<Rightarrow> string \<Rightarrow> (string list \<Rightarrow> 'a \<times> string list) \<Rightarrow> 'a rcmd" where
  "redis_on_list now k f = do {
     m \<leftarrow> State_Monad.get;
     case live now m k of
       None \<Rightarrow> (case f [] of (a, xs) \<Rightarrow>
         do { _ \<leftarrow> State_Monad.set (put_list k xs None m); returnE a })
     | Some (RList ys, e) \<Rightarrow> (case f ys of (a, xs) \<Rightarrow>
         do { _ \<leftarrow> State_Monad.set (put_list k xs e m); returnE a })
     | Some _ \<Rightarrow> throwE err_wrongtype }"

definition redis_RPUSH :: "int \<Rightarrow> string \<Rightarrow> string \<Rightarrow> int rcmd" where
  "redis_RPUSH now k v = redis_on_list now k (\<lambda>xs. (int (length xs) + 1, xs @ [v]))"

definition redis_LPUSH :: "int \<Rightarrow> string \<Rightarrow> string \<Rightarrow> int rcmd" where
  "redis_LPUSH now k v = redis_on_list now k (\<lambda>xs. (int (length xs) + 1, v # xs))"

text \<open>\<^verbatim>\<open>LREM k 1 v\<close> removes the first occurrence.\<close>

definition redis_LREM1 :: "int \<Rightarrow> string \<Rightarrow> string \<Rightarrow> int rcmd" where
  "redis_LREM1 now k v =
     redis_on_list now k (\<lambda>xs. (if v \<in> set xs then 1 else 0, remove1 v xs))"

text \<open>\<^verbatim>\<open>BLPOP k timeout\<close>: the key and the head, or nothing once the timeout has passed.\<close>

definition redis_BLPOP :: "int \<Rightarrow> string \<Rightarrow> (string list) option rcmd" where
  "redis_BLPOP now k =
     redis_on_list now k (\<lambda>xs. case xs of [] \<Rightarrow> (None, []) | y # ys \<Rightarrow> (Some [k, y], ys))"

section \<open>Sorted sets\<close>

definition zput :: "string \<Rightarrow> int \<Rightarrow> (string \<times> int) list \<Rightarrow> (string \<times> int) list" where
  "zput v score z = (v, score) # filter (\<lambda>(u, _). u \<noteq> v) z"

definition put_zset :: "string \<Rightarrow> (string \<times> int) list \<Rightarrow> int option \<Rightarrow> kv \<Rightarrow> kv" where
  "put_zset k z e m = m(k := (if z = [] then None else Some (RZset z, e)))"

definition redis_on_zset ::
  "int \<Rightarrow> string \<Rightarrow> ((string \<times> int) list \<Rightarrow> 'a \<times> (string \<times> int) list) \<Rightarrow> 'a rcmd"
where
  "redis_on_zset now k f = do {
     m \<leftarrow> State_Monad.get;
     case live now m k of
       None \<Rightarrow> (case f [] of (a, z) \<Rightarrow>
         do { _ \<leftarrow> State_Monad.set (put_zset k z None m); returnE a })
     | Some (RZset y, e) \<Rightarrow> (case f y of (a, z) \<Rightarrow>
         do { _ \<leftarrow> State_Monad.set (put_zset k z e m); returnE a })
     | Some _ \<Rightarrow> throwE err_wrongtype }"

definition redis_ZADD :: "int \<Rightarrow> string \<Rightarrow> int \<Rightarrow> string \<Rightarrow> unit rcmd" where
  "redis_ZADD now k score v = redis_on_zset now k (\<lambda>z. ((), zput v score z))"

definition redis_ZREM :: "int \<Rightarrow> string \<Rightarrow> string \<Rightarrow> int rcmd" where
  "redis_ZREM now k v =
     redis_on_zset now k
       (\<lambda>z. (if v \<in> fst ` set z then 1 else 0, filter (\<lambda>(u, _). u \<noteq> v) z))"

text \<open>\<^verbatim>\<open>ZRANGEBYSCORE k -inf max LIMIT 0 n\<close>: by score, then by member; a negative count is no limit.\<close>

definition redis_ZRANGEBYSCORE :: "int \<Rightarrow> string \<Rightarrow> int \<Rightarrow> int \<Rightarrow> string list rcmd" where
  "redis_ZRANGEBYSCORE now k hi n =
     redis_on_zset now k
       (\<lambda>z. let due = map fst (sort_key (\<lambda>(v, s). (s, v)) (filter (\<lambda>(_, s). s \<le> hi) z))
            in (if n < 0 then due else take (nat n) due, z))"

section \<open>Views of the keyspace\<close>

text \<open>
  The contents of a list or sorted-set key. The program sets no expiry on such keys, and an
  absent key is an empty collection; \<open>list_key\<close> and \<open>zset_key\<close> say that a key holds
  such a collection or nothing.
\<close>

definition rlist :: "kv \<Rightarrow> string \<Rightarrow> string list" where
  "rlist m k = (case m k of Some (RList xs, None) \<Rightarrow> xs | _ \<Rightarrow> [])"

definition rzset :: "kv \<Rightarrow> string \<Rightarrow> (string \<times> int) list" where
  "rzset m k = (case m k of Some (RZset z, None) \<Rightarrow> z | _ \<Rightarrow> [])"

definition list_key :: "kv \<Rightarrow> string \<Rightarrow> bool" where
  "list_key m k \<longleftrightarrow> (case m k of None \<Rightarrow> True | Some (RList _, None) \<Rightarrow> True | _ \<Rightarrow> False)"

definition zset_key :: "kv \<Rightarrow> string \<Rightarrow> bool" where
  "zset_key m k \<longleftrightarrow> (case m k of None \<Rightarrow> True | Some (RZset _, None) \<Rightarrow> True | _ \<Rightarrow> False)"

lemma live_upd_other [simp]: "k' \<noteq> k \<Longrightarrow> live now (m(k := x)) k' = live now m k'"
  by (simp add: live_def)

lemma live_upd_None [simp]: "live now (m(k := None)) k = None"
  by (simp add: live_def)

lemma live_upd_Some [simp]:
  "live now (m(k \<mapsto> (v, None))) k = Some (v, None)"
  "now < t \<Longrightarrow> live now (m(k \<mapsto> (v, Some t))) k = Some (v, Some t)"
  by (simp_all add: live_def)

lemma live_upd_live:
  "live now m k = Some (v, e) \<Longrightarrow> live now (m(k \<mapsto> (v', e))) k = Some (v', e)"
  by (auto simp: live_def split: option.splits prod.splits if_splits)

lemma redis_int_FormatInt [simp]: "in_int64 i \<Longrightarrow> redis_int (FormatInt i) = Some i"
  by (simp add: redis_int_def in_int64_def)

lemma redis_on_list_spec:
  assumes "list_key m k"
  shows "run_state (redis_on_list now k f) m =
           (Inr (fst (f (rlist m k))), put_list k (snd (f (rlist m k))) None m)"
  using assms
  by (auto simp: redis_on_list_def list_key_def rlist_def live_def
      split: option.splits prod.splits rval.splits)

lemma redis_on_zset_spec:
  assumes "zset_key m k"
  shows "run_state (redis_on_zset now k f) m =
           (Inr (fst (f (rzset m k))), put_zset k (snd (f (rzset m k))) None m)"
  using assms
  by (auto simp: redis_on_zset_def zset_key_def rzset_def live_def
      split: option.splits prod.splits rval.splits)

lemma put_list_view [simp]:
  "rlist (put_list k xs None m) k = xs"
  "list_key (put_list k xs None m) k"
  by (auto simp: rlist_def list_key_def put_list_def)

lemma put_zset_view [simp]:
  "rzset (put_zset k z None m) k = z"
  "zset_key (put_zset k z None m) k"
  by (auto simp: rzset_def zset_key_def put_zset_def)

lemma put_list_other [simp]:
  assumes "k' \<noteq> k"
  shows "live now (put_list k xs e m) k' = live now m k'"
    and "rlist (put_list k xs e m) k' = rlist m k'"
    and "rzset (put_list k xs e m) k' = rzset m k'"
    and "list_key (put_list k xs e m) k' = list_key m k'"
    and "zset_key (put_list k xs e m) k' = zset_key m k'"
  using assms by (simp_all add: put_list_def rlist_def rzset_def list_key_def zset_key_def live_def)

lemma put_zset_other [simp]:
  assumes "k' \<noteq> k"
  shows "live now (put_zset k z e m) k' = live now m k'"
    and "rlist (put_zset k z e m) k' = rlist m k'"
    and "rzset (put_zset k z e m) k' = rzset m k'"
    and "list_key (put_zset k z e m) k' = list_key m k'"
    and "zset_key (put_zset k z e m) k' = zset_key m k'"
  using assms by (simp_all add: put_zset_def rlist_def rzset_def list_key_def zset_key_def live_def)

lemma set_zput [simp]: "set (zput v s z) = insert (v, s) {(u, t) \<in> set z. u \<noteq> v}"
  by (auto simp: zput_def)

lemma fst_set_zput [simp]: "fst ` set (zput v s z) = insert v (fst ` set z)"
  by force

end
