(* ===== verification/World.thy ===== *)
theory World
  imports RedisStore
begin

text \<open>
  What the program's processes share: the MySQL database (schema of examples/Quan/sql), the
  transaction in progress, the Redis keyspace, the clock, and the calls made to the metrics
  sink. Every round trip to MySQL or Redis may fail in two ways: the request is lost
  (\<open>Drop\<close>, nothing happened) or the reply is lost (\<open>Lost\<close>, it happened). Which round
  trips fail is the script \<open>w_faults\<close>, one entry per round trip, and theorems quantify
  over all scripts. \<open>w_ticks\<close> says how far the clock moves before each reading of it.

  The last section is \<^verbatim>\<open>pkg/mysql/tx.go\<close>, the transaction manager. A transaction works on
  its own copy of the database until it commits; statements of other connections see the
  committed state. Transactions do not overlap: the row lock that every writing transaction
  of the program takes first (\<^verbatim>\<open>SELECT ... FOR UPDATE\<close>) serialises those on the same row.
\<close>

section \<open>Tables\<close>

record campaign_row =
  cp_coupon_id :: int
  cp_total_stock :: int
  cp_available_stock :: int
  cp_per_user_limit :: int
  cp_status :: string
  cp_start_at :: int
  cp_end_at :: int
  cp_updated_at :: int

record claim_row =
  cl_claim_id :: int
  cl_coupon_id :: int
  cl_user_id :: int
  cl_status :: string
  cl_idempotency_key :: "string option"
  cl_created_at :: int
  cl_updated_at :: int

record task_row =
  tk_task_id :: int
  tk_task_type :: string
  tk_biz_id :: string
  tk_status :: string
  tk_payload_json :: json
  tk_retry_count :: int
  tk_max_retry :: int
  tk_next_retry_at :: "int option"
  tk_last_error :: string
  tk_created_at :: int
  tk_updated_at :: int

record event_row =
  ev_event_id :: int
  ev_event_type :: string
  ev_aggregate_type :: string
  ev_aggregate_id :: string
  ev_payload_json :: json
  ev_status :: string
  ev_retry_count :: int
  ev_next_retry_at :: int
  ev_last_error :: string
  ev_created_at :: int
  ev_updated_at :: int

text \<open>
  \<open>db_collate\<close> is the collation of the text columns: two texts are equal to MySQL when
  their collation keys are. It is a parameter, since the server's collation is not part of
  the repository.
\<close>

record db =
  db_campaigns :: "campaign_row list"
  db_claims :: "claim_row list"
  db_tasks :: "task_row list"
  db_events :: "event_row list"
  db_next_claim_id :: int
  db_next_task_id :: int
  db_next_event_id :: int
  db_collate :: "string \<Rightarrow> string"

section \<open>The world\<close>

datatype fault = NoFault | Drop string | Lost string

datatype metric_call =
    SetOutboxPending int
  | IncTaskRetry
  | IncTaskDLQ
  | IncConsumeSuccess
  | IncConsumeFailure
  | ObserveCouponClaim string string
  | ObserveTaskRecovery string int
  | ObserveAppError int

record world =
  w_db :: db
  w_tx :: "db option"
  w_kv :: kv
  w_now :: int
  w_ticks :: "nat list"
  w_faults :: "fault list"
  w_metrics :: "metric_call list"

type_synonym 'a io = "(world, 'a) state"

definition next_fault :: "fault io" where
  "next_fault = State (\<lambda>w. case w_faults w of
     [] \<Rightarrow> (NoFault, w) | f # fs \<Rightarrow> (f, w\<lparr>w_faults := fs\<rparr>))"

definition time_Now :: "int io" where
  "time_Now = State (\<lambda>w. case w_ticks w of
     [] \<Rightarrow> (w_now w, w)
   | t # ts \<Rightarrow> (w_now w + int t, w\<lparr>w_now := w_now w + int t, w_ticks := ts\<rparr>))"

definition metric :: "metric_call \<Rightarrow> unit io" where
  "metric c = State_Monad.update (\<lambda>w. w\<lparr>w_metrics := w_metrics w @ [c]\<rparr>)"

section \<open>Round trips\<close>

type_synonym 'a stmt = "db \<Rightarrow> 'a result \<times> db"

definition db_exec :: "'a stmt \<Rightarrow> 'a result io" where
  "db_exec st = do {
     f \<leftarrow> next_fault;
     case f of
       NoFault \<Rightarrow> State (\<lambda>w. case st (w_db w) of (r, d) \<Rightarrow> (r, w\<lparr>w_db := d\<rparr>))
     | Drop e \<Rightarrow> throwE (ErrIO e)
     | Lost e \<Rightarrow> State (\<lambda>w. (Inl (ErrIO e), w\<lparr>w_db := snd (st (w_db w))\<rparr>)) }"

definition tx_exec :: "'a stmt \<Rightarrow> 'a result io" where
  "tx_exec st = do {
     f \<leftarrow> next_fault;
     State (\<lambda>w. case w_tx w of
        None \<Rightarrow> (Inl sql_ErrTxDone, w)
      | Some d \<Rightarrow>
          (case f of
             NoFault \<Rightarrow> (case st d of (r, d') \<Rightarrow> (r, w\<lparr>w_tx := Some d'\<rparr>))
           | Drop e \<Rightarrow> (Inl (ErrIO e), w)
           | Lost e \<Rightarrow> (Inl (ErrIO e), w\<lparr>w_tx := Some (snd (st d))\<rparr>))) }"

definition redis_exec :: "(int \<Rightarrow> 'a rcmd) \<Rightarrow> 'a result io" where
  "redis_exec cmd = do {
     f \<leftarrow> next_fault;
     case f of
       NoFault \<Rightarrow> State (\<lambda>w. case run_state (cmd (UnixMilli (w_now w))) (w_kv w) of
                     (r, m) \<Rightarrow> (r, w\<lparr>w_kv := m\<rparr>))
     | Drop e \<Rightarrow> throwE (ErrIO e)
     | Lost e \<Rightarrow> State (\<lambda>w. (Inl (ErrIO e),
                     w\<lparr>w_kv := snd (run_state (cmd (UnixMilli (w_now w))) (w_kv w))\<rparr>)) }"

text \<open>A \<^verbatim>\<open>QueryRow(...).Scan\<close>: no row is \<^verbatim>\<open>sql.ErrNoRows\<close>.\<close>

definition query_row :: "(db \<Rightarrow> 'a option) \<Rightarrow> 'a stmt" where
  "query_row q d = (case q d of None \<Rightarrow> Inl sql_ErrNoRows | Some r \<Rightarrow> Inr r, d)"

definition query_rows :: "(db \<Rightarrow> 'a) \<Rightarrow> 'a stmt" where
  "query_rows q d = (Inr (q d), d)"

text \<open>The duplicate-key error of MySQL, number 1062.\<close>

definition err_duplicate :: goerr where
  "err_duplicate = MySQLError 1062 ''Error 1062 (23000): Duplicate entry''"

definition isDuplicateKey :: "goerr \<Rightarrow> bool" where
  "isDuplicateKey err = (case errors_As_MySQLError err of Some n \<Rightarrow> n = 1062 | None \<Rightarrow> False)"

lemma isDuplicateKey_simps [simp]:
  "isDuplicateKey err_duplicate" "\<not> isDuplicateKey (ErrIO e)" "\<not> isDuplicateKey sql_ErrTxDone"
  by (simp_all add: isDuplicateKey_def err_duplicate_def sql_ErrTxDone_def)

lemma snd_query_row [simp]: "snd (query_row q d) = d"
  by (simp add: query_row_def)

lemma snd_query_rows [simp]: "snd (query_rows q d) = d"
  by (simp add: query_rows_def)

lemma fst_query_rows [simp]: "fst (query_rows q d) = Inr (q d)"
  by (simp add: query_rows_def)

section \<open>Rules for the primitive operations\<close>

lemma world_same [simp]:
  "w\<lparr>w_faults := w_faults w\<rparr> = w" "w\<lparr>w_now := w_now w, w_ticks := w_ticks w\<rparr> = w"
  "w\<lparr>w_db := w_db w\<rparr> = w" "w\<lparr>w_kv := w_kv w\<rparr> = w"
  by simp_all

lemma wp_next_fault [wp_intro]:
  assumes "\<And>f fs. Q f (w\<lparr>w_faults := fs\<rparr>)"
  shows "wp next_fault Q w"
  using assms [of NoFault "w_faults w"] assms
  by (simp add: next_fault_def split: list.split)

lemma wp_time_Now [wp_intro]:
  assumes "\<And>t ts. w_now w \<le> t \<Longrightarrow> Q t (w\<lparr>w_now := t, w_ticks := ts\<rparr>)"
  shows "wp time_Now Q w"
proof (cases "w_ticks w")
  case Nil
  have "Q (w_now w) (w\<lparr>w_now := w_now w, w_ticks := w_ticks w\<rparr>)" by (rule assms) simp
  then have "Q (w_now w) w" by (simp only: world_same)
  with Nil show ?thesis by (simp add: time_Now_def)
next
  case (Cons t ts)
  with assms show ?thesis by (simp add: time_Now_def)
qed

lemma wp_metric [simp]: "wp (metric c) Q = (\<lambda>w. Q () (w\<lparr>w_metrics := w_metrics w @ [c]\<rparr>))"
  by (simp add: metric_def)

lemma wp_db_exec [wp_intro]:
  assumes "\<And>fs. Q (fst (st (w_db w))) (w\<lparr>w_faults := fs, w_db := snd (st (w_db w))\<rparr>)"
    and "\<And>fs e. Q (Inl (ErrIO e)) (w\<lparr>w_faults := fs\<rparr>)"
    and "\<And>fs e. Q (Inl (ErrIO e)) (w\<lparr>w_faults := fs, w_db := snd (st (w_db w))\<rparr>)"
  shows "wp (db_exec st) Q w"
  unfolding db_exec_def wp_bind
  by (rule wp_next_fault) (use assms in \<open>auto simp: split_beta split: fault.split\<close>)

lemma wp_tx_exec [wp_intro]:
  assumes "w_tx w = Some d"
    and "\<And>fs. Q (fst (st d)) (w\<lparr>w_faults := fs, w_tx := Some (snd (st d))\<rparr>)"
    and "\<And>fs e. Q (Inl (ErrIO e)) (w\<lparr>w_faults := fs\<rparr>)"
    and "\<And>fs e. Q (Inl (ErrIO e)) (w\<lparr>w_faults := fs, w_tx := Some (snd (st d))\<rparr>)"
  shows "wp (tx_exec st) Q w"
  unfolding tx_exec_def wp_bind
  by (rule wp_next_fault) (use assms in \<open>auto simp: split_beta split: fault.split\<close>)

lemma wp_redis_exec [wp_intro]:
  fixes cmd w
  defines "out \<equiv> run_state (cmd (UnixMilli (w_now w))) (w_kv w)"
  assumes "\<And>fs. Q (fst out) (w\<lparr>w_faults := fs, w_kv := snd out\<rparr>)"
    and "\<And>fs e. Q (Inl (ErrIO e)) (w\<lparr>w_faults := fs\<rparr>)"
    and "\<And>fs e. Q (Inl (ErrIO e)) (w\<lparr>w_faults := fs, w_kv := snd out\<rparr>)"
  shows "wp (redis_exec cmd) Q w"
  unfolding redis_exec_def wp_bind
  by (rule wp_next_fault) (use assms(2-) in \<open>auto simp: out_def split_beta split: fault.split\<close>)

text \<open>Without faults and with the clock standing still, the operations are functions.\<close>

lemma run_next_fault_none [simp]: "w_faults w = [] \<Longrightarrow> run_state next_fault w = (NoFault, w)"
  by (simp add: next_fault_def)

lemma run_db_exec_none [simp]:
  "w_faults w = [] \<Longrightarrow>
     run_state (db_exec st) w = (fst (st (w_db w)), w\<lparr>w_db := snd (st (w_db w))\<rparr>)"
  by (simp add: db_exec_def split_beta)

lemma run_tx_exec_none [simp]:
  "w_faults w = [] \<Longrightarrow> w_tx w = Some d \<Longrightarrow>
     run_state (tx_exec st) w = (fst (st d), w\<lparr>w_tx := Some (snd (st d))\<rparr>)"
  by (simp add: tx_exec_def split_beta)

lemma run_redis_exec_none [simp]:
  "w_faults w = [] \<Longrightarrow>
     run_state (redis_exec cmd) w =
       (fst (run_state (cmd (UnixMilli (w_now w))) (w_kv w)),
        w\<lparr>w_kv := snd (run_state (cmd (UnixMilli (w_now w))) (w_kv w))\<rparr>)"
  by (simp add: redis_exec_def split_beta)

lemma run_time_Now_none [simp]: "w_ticks w = [] \<Longrightarrow> run_state time_Now w = (w_now w, w)"
  by (simp add: time_Now_def)

lemma run_metric [simp]: "run_state (metric c) w = ((), w\<lparr>w_metrics := w_metrics w @ [c]\<rparr>)"
  by (simp add: metric_def State_Monad.update_def)

text \<open>A world in which nothing fails and the clock stands still.\<close>

definition calm :: "world \<Rightarrow> bool" where
  "calm w \<longleftrightarrow> w_faults w = [] \<and> w_ticks w = []"

lemma calm_simps [simp]:
  "calm (w\<lparr>w_db := d\<rparr>) = calm w" "calm (w\<lparr>w_kv := m\<rparr>) = calm w" "calm (w\<lparr>w_tx := x\<rparr>) = calm w"
  "calm (w\<lparr>w_metrics := c\<rparr>) = calm w"
  by (simp_all add: calm_def)

lemma calm_runs [simp]:
  "calm w \<Longrightarrow> run_state next_fault w = (NoFault, w)"
  "calm w \<Longrightarrow> run_state time_Now w = (w_now w, w)"
  "calm w \<Longrightarrow> run_state (db_exec st) w = (fst (st (w_db w)), w\<lparr>w_db := snd (st (w_db w))\<rparr>)"
  "calm w \<Longrightarrow> run_state (redis_exec cmd) w =
       (fst (run_state (cmd (UnixMilli (w_now w))) (w_kv w)),
        w\<lparr>w_kv := snd (run_state (cmd (UnixMilli (w_now w))) (w_kv w))\<rparr>)"
  "calm w \<Longrightarrow> w_tx w = Some d \<Longrightarrow>
     run_state (tx_exec st) w = (fst (st d), w\<lparr>w_tx := Some (snd (st d))\<rparr>)"
  by (simp_all add: calm_def)

section \<open>The transaction manager\<close>

text \<open>How a callback ends: it returns (with an error or a result) or it panics.\<close>

datatype 'a outcome = Returned "'a result" | Panicked string

text \<open>
  The end of a transaction. A rollback gives the tables back; InnoDB does not give back the
  \<^verbatim>\<open>AUTO_INCREMENT\<close> values the transaction drew.
\<close>

definition rolled_back :: "db \<Rightarrow> db \<Rightarrow> db" where
  "rolled_back d0 d =
     d0\<lparr>db_next_claim_id := db_next_claim_id d, db_next_task_id := db_next_task_id d,
        db_next_event_id := db_next_event_id d\<rparr>"

definition tx_Rollback :: "unit io" where
  "tx_Rollback = State_Monad.update (\<lambda>w. case w_tx w of
     None \<Rightarrow> w | Some d \<Rightarrow> w\<lparr>w_db := rolled_back (w_db w) d, w_tx := None\<rparr>)"

definition tx_Commit :: "unit result io" where
  "tx_Commit = do {
     f \<leftarrow> next_fault;
     case f of
       NoFault \<Rightarrow> do {
         _ \<leftarrow> State_Monad.update (\<lambda>w. case w_tx w of
                None \<Rightarrow> w | Some d \<Rightarrow> w\<lparr>w_db := d, w_tx := None\<rparr>);
         returnE () }
     | Drop e \<Rightarrow> do { _ \<leftarrow> tx_Rollback; throwE (ErrIO e) }
     | Lost e \<Rightarrow> do {
         _ \<leftarrow> State_Monad.update (\<lambda>w. case w_tx w of
                None \<Rightarrow> w | Some d \<Rightarrow> w\<lparr>w_db := d, w_tx := None\<rparr>);
         throwE (ErrIO e) } }"

definition db_BeginTx :: "unit result io" where
  "db_BeginTx = do {
     f \<leftarrow> next_fault;
     case f of
       NoFault \<Rightarrow> do { _ \<leftarrow> State_Monad.update (\<lambda>w. w\<lparr>w_tx := Some (w_db w)\<rparr>); returnE () }
     | Drop e \<Rightarrow> throwE (ErrIO e)
     | Lost e \<Rightarrow> throwE (ErrIO e) }"

text \<open>\<^verbatim>\<open>TxManager.WithinTx\<close>; a nil callback is \<open>None\<close>.\<close>

definition WithinTx :: "'a outcome io option \<Rightarrow> 'a outcome io" where
  "WithinTx fn = (case fn of
     None \<Rightarrow> ret (Returned (Inl (ErrNew ''tx callback is nil'')))
   | Some f \<Rightarrow> do {
       b \<leftarrow> db_BeginTx;
       case b of
         Inl err \<Rightarrow> ret (Returned (Inl (ErrWrap ''begin tx: '' err '''')))
       | Inr _ \<Rightarrow> do {
           out \<leftarrow> f;
           case out of
             Panicked p \<Rightarrow> do { _ \<leftarrow> tx_Rollback; ret (Panicked p) }
           | Returned (Inl err) \<Rightarrow> do { _ \<leftarrow> tx_Rollback; ret (Returned (Inl err)) }
           | Returned (Inr a) \<Rightarrow> do {
               c \<leftarrow> tx_Commit;
               case c of
                 Inl err \<Rightarrow> ret (Returned (Inl (ErrWrap ''commit tx: '' err '''')))
               | Inr _ \<Rightarrow> ret (Returned (Inr a)) } } })"

text \<open>A callback that returns: none of the program's callbacks panics.\<close>

definition within_tx :: "'a result io \<Rightarrow> 'a result io" where
  "within_tx f = do {
     out \<leftarrow> WithinTx (Some (do { r \<leftarrow> f; ret (Returned r) }));
     ret (case out of Returned r \<Rightarrow> r | Panicked p \<Rightarrow> Inl (ErrNew p)) }"

text \<open>What a transaction's callback may change besides the transaction: faults and the clock.\<close>

definition same_env :: "world \<Rightarrow> world \<Rightarrow> bool" where
  "same_env w w' \<longleftrightarrow> w_kv w' = w_kv w \<and> w_metrics w' = w_metrics w \<and> w_now w \<le> w_now w'"

lemma same_env_refl [simp]: "same_env w w"
  by (simp add: same_env_def)

lemma same_env_trans: "same_env u v \<Longrightarrow> same_env v w \<Longrightarrow> same_env u w"
  by (auto simp: same_env_def)

lemma same_env_upd [simp]:
  "same_env w (w'\<lparr>w_faults := fs\<rparr>) = same_env w w'"
  "same_env w (w'\<lparr>w_ticks := ts\<rparr>) = same_env w w'"
  "same_env w (w'\<lparr>w_db := d\<rparr>) = same_env w w'"
  "same_env w (w'\<lparr>w_tx := x\<rparr>) = same_env w w'"
  "same_env (w\<lparr>w_faults := fs\<rparr>) w' = same_env w w'"
  "same_env (w\<lparr>w_db := d\<rparr>) w' = same_env w w'"
  "same_env (w\<lparr>w_tx := x\<rparr>) w' = same_env w w'"
  by (simp_all add: same_env_def)

abbreviation begin_err :: "string \<Rightarrow> goerr" where
  "begin_err e \<equiv> ErrWrap ''begin tx: '' (ErrIO e) []"

abbreviation commit_err :: "string \<Rightarrow> goerr" where
  "commit_err e \<equiv> ErrWrap ''commit tx: '' (ErrIO e) []"

text \<open>
  The rule for transactions: from what the callback does to its copy \<open>d\<close> of the database
  (\<open>R\<close>) follows what is committed, what is rolled back, and with which answer.
\<close>

lemma wp_within_tx:
  assumes body: "\<And>fs. wp f (\<lambda>r w'. \<exists>d. w_tx w' = Some d \<and> w_db w' = w_db w \<and> same_env w w' \<and> R r d)
                        (w\<lparr>w_faults := fs, w_tx := Some (w_db w)\<rparr>)"
    and begin_fails: "\<And>e w'. w_db w' = w_db w \<Longrightarrow> w_tx w' = w_tx w \<Longrightarrow> same_env w w' \<Longrightarrow>
                        Q (Inl (begin_err e)) w'"
    and committed: "\<And>a w'. R (Inr a) (w_db w') \<Longrightarrow> w_tx w' = None \<Longrightarrow> same_env w w' \<Longrightarrow>
                        Q (Inr a) w'"
    and commit_fails: "\<And>e w'. \<exists>a. R (Inr a) (w_db w') \<or> (\<exists>d. R (Inr a) d \<and> w_db w' = rolled_back (w_db w) d) \<Longrightarrow>
                        w_tx w' = None \<Longrightarrow> same_env w w' \<Longrightarrow> Q (Inl (commit_err e)) w'"
    and failed: "\<And>e w'. \<exists>d. R (Inl e) d \<and> w_db w' = rolled_back (w_db w) d \<Longrightarrow> w_tx w' = None \<Longrightarrow>
                        same_env w w' \<Longrightarrow> Q (Inl e) w'"
  shows "wp (within_tx f) Q w"
proof -
  let ?B = "\<lambda>r w'. \<exists>d. w_tx w' = Some d \<and> w_db w' = w_db w \<and> same_env w w' \<and> R r d"
  let ?unpack = "\<lambda>out. Q (case out of Returned r \<Rightarrow> r | Panicked p \<Rightarrow> Inl (ErrNew p))"
  let ?after = "\<lambda>r. wp (case r of
      Inl err \<Rightarrow> do { _ \<leftarrow> tx_Rollback; ret (Returned (Inl err)) }
    | Inr a \<Rightarrow> do {
        c \<leftarrow> tx_Commit;
        case c of
          Inl err \<Rightarrow> ret (Returned (Inl (ErrWrap ''commit tx: '' err [])))
        | Inr _ \<Rightarrow> ret (Returned (Inr a)) }) ?unpack"
  have after: "?B r w' \<Longrightarrow> ?after r w'" for r w'
    by (cases r)
      (auto simp: tx_Rollback_def tx_Commit_def intro!: wp_next_fault failed committed commit_fails
        split: fault.split, (blast)+)
  have run: "wp f ?after (w\<lparr>w_faults := fs, w_tx := Some (w_db w)\<rparr>)" for fs
    by (rule wp_mono [OF body]) (rule after)
  show ?thesis
    unfolding within_tx_def WithinTx_def db_BeginTx_def
    using run begin_fails
    by (auto intro!: wp_next_fault split: fault.split)
qed

text \<open>A transaction without faults.\<close>

lemma run_within_tx_none:
  assumes "w_faults w = []"
    and "run_state f (w\<lparr>w_tx := Some (w_db w)\<rparr>) = (r, w1)" and "w_faults w1 = []" and "w_tx w1 = Some d"
  shows "run_state (within_tx f) w =
           (r, case r of Inl e \<Rightarrow> w1\<lparr>w_db := rolled_back (w_db w1) d, w_tx := None\<rparr>
                       | Inr a \<Rightarrow> w1\<lparr>w_db := d, w_tx := None\<rparr>)"
  using assms
  by (simp add: within_tx_def WithinTx_def db_BeginTx_def tx_Commit_def tx_Rollback_def
      State_Monad.update_def split: sum.split)

section \<open>Inside a transaction\<close>

text \<open>Only the transaction's copy of the database (now \<open>d\<close>) and the clock have changed.\<close>

definition tx_to :: "world \<Rightarrow> db \<Rightarrow> world \<Rightarrow> bool" where
  "tx_to w d w' \<longleftrightarrow> w_tx w' = Some d \<and> w_db w' = w_db w \<and> same_env w w'"

definition counters_le :: "db \<Rightarrow> db \<Rightarrow> bool" where
  "counters_le d d' \<longleftrightarrow>
     db_next_claim_id d \<le> db_next_claim_id d' \<and> db_next_task_id d \<le> db_next_task_id d' \<and>
     db_next_event_id d \<le> db_next_event_id d'"

lemma counters_le_refl [simp]: "counters_le d d"
  by (simp add: counters_le_def)

lemma counters_le_trans [trans]: "counters_le a b \<Longrightarrow> counters_le b c \<Longrightarrow> counters_le a c"
  by (auto simp: counters_le_def)

lemma counters_le_tables [simp]:
  "counters_le d (d'\<lparr>db_campaigns := a\<rparr>) = counters_le d d'" "counters_le d (d'\<lparr>db_claims := b\<rparr>) = counters_le d d'"
  "counters_le d (d'\<lparr>db_tasks := t\<rparr>) = counters_le d d'" "counters_le d (d'\<lparr>db_events := e\<rparr>) = counters_le d d'"
  "counters_le (d\<lparr>db_campaigns := a\<rparr>) d' = counters_le d d'" "counters_le (d\<lparr>db_claims := b\<rparr>) d' = counters_le d d'"
  "counters_le (d\<lparr>db_tasks := t\<rparr>) d' = counters_le d d'" "counters_le (d\<lparr>db_events := e\<rparr>) d' = counters_le d d'"
  by (simp_all add: counters_le_def)

lemma tx_to_trans: "tx_to u d v \<Longrightarrow> tx_to v d' w \<Longrightarrow> tx_to u d' w"
  by (auto simp: tx_to_def intro: same_env_trans)

lemma tx_to_tx: "tx_to w d w' \<Longrightarrow> w_tx w' = Some d"
  by (simp add: tx_to_def)

text \<open>A statement of the transaction: it answers, or an error is raised before or after its effect.\<close>

lemma wp_tx_stmt:
  assumes "w_tx w = Some d"
    and "\<And>w'. tx_to w (snd (st d)) w' \<Longrightarrow> Q (fst (st d)) w'"
    and "\<And>e w'. tx_to w d w' \<or> tx_to w (snd (st d)) w' \<Longrightarrow> Q (Inl (ErrIO e)) w'"
  shows "wp (tx_exec st) Q w"
  by (rule wp_tx_exec [OF assms(1)]) (use assms in \<open>auto simp: tx_to_def\<close>)

lemma wp_tx_clock:
  assumes "w_tx w = Some d" and "\<And>t w'. tx_to w d w' \<Longrightarrow> w_now w \<le> t \<Longrightarrow> Q t w'"
  shows "wp time_Now Q w"
  by (rule wp_time_Now) (use assms in \<open>auto simp: tx_to_def same_env_def\<close>)

lemma errors_Is_no_rows [simp]:
  "errors_Is sql_ErrNoRows sql_ErrNoRows" "ErrIO e \<noteq> sql_ErrNoRows" "sql_ErrNoRows \<noteq> ErrIO e"
  by (simp_all add: sql_ErrNoRows_def)

end
