(* ===== verification/AppErrors.thy ===== *)
theory AppErrors
  imports World
begin

text \<open>
  pkg/errors and the trace-id part of pkg/log: application errors with an HTTP code, their
  rendering, and the mapping to HTTP status and response body. Only the trace id of a
  \<^verbatim>\<open>context.Context\<close> is observable in the program's results; cancellation of a context
  shows up as a failed round trip.
\<close>

section \<open>Trace ids\<close>

datatype ctx = NilCtx | Ctx "string option"

definition context_Background :: ctx where
  "context_Background = Ctx None"

definition WithTraceID :: "ctx \<Rightarrow> string \<Rightarrow> ctx" where
  "WithTraceID c i = Ctx (Some i)"

definition TraceIDFromContext :: "ctx \<Rightarrow> string" where
  "TraceIDFromContext c = (case c of NilCtx \<Rightarrow> '''' | Ctx None \<Rightarrow> '''' | Ctx (Some s) \<Rightarrow> s)"

lemma TraceID_roundtrip [simp]: "TraceIDFromContext (WithTraceID c i) = i"
  by (simp add: TraceIDFromContext_def WithTraceID_def)

section \<open>Codes and errors\<close>

definition CodeOK :: int where "CodeOK = 0"
definition CodeBadRequest :: int where "CodeBadRequest = 400"
definition CodeConflict :: int where "CodeConflict = 409"
definition CodeTooManyRequests :: int where "CodeTooManyRequests = 429"
definition CodeNotFound :: int where "CodeNotFound = 404"
definition CodeInternalError :: int where "CodeInternalError = 500"

lemmas code_defs =
  CodeOK_def CodeBadRequest_def CodeConflict_def CodeTooManyRequests_def CodeNotFound_def
  CodeInternalError_def

definition apperr_New :: "int \<Rightarrow> string \<Rightarrow> goerr" where
  "apperr_New code msg = AppError code msg None"

definition apperr_Wrap :: "int \<Rightarrow> string \<Rightarrow> goerr \<Rightarrow> goerr" where
  "apperr_Wrap code msg err = AppError code msg (Some err)"

text \<open>The \<^verbatim>\<open>Error()\<close> text of an error.\<close>

primrec errstr :: "goerr \<Rightarrow> string" and errstr_opt :: "goerr option \<Rightarrow> string" where
  "errstr (ErrNew s) = s"
| "errstr (ErrIO s) = s"
| "errstr RedisNil = ''redis: nil''"
| "errstr (RedisErr s) = s"
| "errstr (MySQLError n s) = s"
| "errstr (ErrWrap pre e post) = pre @ errstr e @ post"
| "errstr (AppError code msg cause) = FormatInt code @ '':'' @ msg @ errstr_opt cause"
| "errstr_opt None = ''''"
| "errstr_opt (Some e) = '': '' @ errstr e"

section \<open>HTTP\<close>

text \<open>\<^verbatim>\<open>HTTPStatus\<close>: only a \<^verbatim>\<open>*Error\<close> itself has a code, not one wrapped by \<^verbatim>\<open>%w\<close>.\<close>

definition HTTPStatus :: "goerr option \<Rightarrow> int" where
  "HTTPStatus err = (case err of
     None \<Rightarrow> 200
   | Some (AppError code _ _) \<Rightarrow>
       if code = CodeBadRequest then 400
       else if code = CodeConflict then 409
       else if code = CodeTooManyRequests then 429
       else if code = CodeNotFound then 404
       else 500
   | Some _ \<Rightarrow> 500)"

record response =
  rs_status :: int
  rs_body :: "json option"

text \<open>The JSON of \<^verbatim>\<open>Response\<close>; an empty trace id is left out.\<close>

definition response_json :: "int \<Rightarrow> string \<Rightarrow> string \<Rightarrow> json" where
  "response_json code msg trace =
     JObj ([(''code'', JNum (FormatInt code)), (''message'', JStr msg)] @
           (if trace = '''' then [] else [(''trace_id'', JStr trace)]))"

type_synonym reporter = "(int \<Rightarrow> unit io) option"

definition report :: "reporter \<Rightarrow> int \<Rightarrow> unit io" where
  "report rep code = (case rep of None \<Rightarrow> ret () | Some f \<Rightarrow> f code)"

definition WriteHTTPWithContext :: "reporter \<Rightarrow> ctx \<Rightarrow> goerr option \<Rightarrow> response io" where
  "WriteHTTPWithContext rep c err = (case err of
     None \<Rightarrow> ret \<lparr>rs_status = HTTPStatus err, rs_body = None\<rparr>
   | Some e \<Rightarrow>
       let (code, msg) = (case e of AppError code msg _ \<Rightarrow> (code, msg)
                                  | _ \<Rightarrow> (CodeInternalError, ''internal error''))
       in do {
         _ \<leftarrow> report rep code;
         ret \<lparr>rs_status = HTTPStatus err,
              rs_body = Some (response_json code msg (TraceIDFromContext c))\<rparr> })"

definition WriteHTTP :: "reporter \<Rightarrow> goerr option \<Rightarrow> response io" where
  "WriteHTTP rep err = WriteHTTPWithContext rep context_Background err"

text \<open>The success envelope \<^verbatim>\<open>writeOK\<close> of the two HTTP handlers.\<close>

definition writeOK :: "ctx \<Rightarrow> json \<Rightarrow> response" where
  "writeOK c data =
     \<lparr>rs_status = 200,
      rs_body = Some (JObj ([(''code'', JNum (FormatInt 0)), (''message'', JStr ''ok''), (''data'', data)] @
        (if TraceIDFromContext c = '''' then [] else [(''trace_id'', JStr (TraceIDFromContext c))])))\<rparr>"

lemma HTTPStatus_range: "HTTPStatus err \<in> {200, 400, 404, 409, 429, 500}"
  by (auto simp: HTTPStatus_def split: option.split goerr.split)

lemma HTTPStatus_codes [simp]:
  "HTTPStatus (Some (apperr_New CodeBadRequest m)) = 400"
  "HTTPStatus (Some (apperr_New CodeConflict m)) = 409"
  "HTTPStatus (Some (apperr_New CodeTooManyRequests m)) = 429"
  "HTTPStatus (Some (apperr_New CodeNotFound m)) = 404"
  "HTTPStatus (Some (apperr_Wrap CodeInternalError m e)) = 500"
  by (simp_all add: HTTPStatus_def apperr_New_def apperr_Wrap_def code_defs)

end
