(* ===== verification/OutboxRepository.thy ===== *)
theory OutboxRepository
  imports AppErrors
begin

text \<open>
  examples/Quan/internal/outbox: the event model (model.go) and the repository over the
  \<^verbatim>\<open>outbox_events\<close> table (repository.go).
\<close>

section \<open>Model\<close>

definition outbox_StatusPending :: string where "outbox_StatusPending = ''PENDING''"
definition outbox_StatusDispatching :: string where "outbox_StatusDispatching = ''DISPATCHING''"
definition outbox_StatusPublished :: string where "outbox_StatusPublished = ''PUBLISHED''"
definition outbox_StatusSuspended :: string where "outbox_StatusSuspended = ''SUSPENDED''"
definition EventTypeTaskCreated :: string where "EventTypeTaskCreated = ''TASK_CREATED''"

lemmas outbox_status_defs =
  outbox_StatusPending_def outbox_StatusDispatching_def outbox_StatusPublished_def
  outbox_StatusSuspended_def

lemma outbox_status_distinct [simp]:
  "outbox_StatusPending \<noteq> outbox_StatusDispatching" "outbox_StatusDispatching \<noteq> outbox_StatusPending"
  "outbox_StatusPending \<noteq> outbox_StatusPublished" "outbox_StatusPublished \<noteq> outbox_StatusPending"
  "outbox_StatusPending \<noteq> outbox_StatusSuspended" "outbox_StatusSuspended \<noteq> outbox_StatusPending"
  "outbox_StatusDispatching \<noteq> outbox_StatusPublished" "outbox_StatusPublished \<noteq> outbox_StatusDispatching"
  "outbox_StatusDispatching \<noteq> outbox_StatusSuspended" "outbox_StatusSuspended \<noteq> outbox_StatusDispatching"
  "outbox_StatusPublished \<noteq> outbox_StatusSuspended" "outbox_StatusSuspended \<noteq> outbox_StatusPublished"
  by (simp_all add: outbox_status_defs)

record outbox_Event =
  Event_ID :: int
  Event_EventType :: string
  Event_AggregateType :: string
  Event_AggregateID :: string
  Event_PayloadJSON :: json
  Event_Status :: string
  Event_RetryCount :: int
  Event_LastError :: string

record CreateEventParams =
  EventParams_EventType :: string
  EventParams_AggregateType :: string
  EventParams_AggregateID :: string
  EventParams_PayloadJSON :: json

definition MarshalTaskCreatedPayload :: "int \<Rightarrow> json" where
  "MarshalTaskCreatedPayload taskID = JObj [(''task_id'', JNum (FormatInt taskID))]"

text \<open>\<^verbatim>\<open>json.Unmarshal\<close> into \<^verbatim>\<open>TaskCreatedPayload\<close>; the result is its \<^verbatim>\<open>TaskID\<close>.\<close>

definition ParseTaskCreatedPayload :: "json \<Rightarrow> int result" where
  "ParseTaskCreatedPayload payload = (case payload of
     JNull \<Rightarrow> Inr 0
   | JObj members \<Rightarrow> decode_int64_field ''task_id'' members 0
   | _ \<Rightarrow> Inl err_unmarshal)"

lemma ParseTaskCreatedPayload_Marshal [simp]:
  "in_int64 taskID \<Longrightarrow> ParseTaskCreatedPayload (MarshalTaskCreatedPayload taskID) = Inr taskID"
  by (simp add: ParseTaskCreatedPayload_def MarshalTaskCreatedPayload_def field_matches_def in_int64_def)

section \<open>Statements\<close>

definition wrapE :: "string \<Rightarrow> 'a result io \<Rightarrow> 'a result io" where
  "wrapE pre m = mapErr (\<lambda>e. ErrWrap pre e '''') m"

definition insert_event :: "CreateEventParams \<Rightarrow> int \<Rightarrow> int stmt" where
  "insert_event p now d =
     (Inr (db_next_event_id d),
      d\<lparr>db_events := db_events d @
          [\<lparr>ev_event_id = db_next_event_id d,
            ev_event_type = EventParams_EventType p,
            ev_aggregate_type = EventParams_AggregateType p,
            ev_aggregate_id = EventParams_AggregateID p,
            ev_payload_json = EventParams_PayloadJSON p,
            ev_status = outbox_StatusPending,
            ev_retry_count = 0,
            ev_next_retry_at = datetime3 now,
            ev_last_error = '''',
            ev_created_at = datetime3 now,
            ev_updated_at = datetime3 now\<rparr>],
        db_next_event_id := db_next_event_id d + 1\<rparr>)"

definition update_events :: "(event_row \<Rightarrow> bool) \<Rightarrow> (event_row \<Rightarrow> event_row) \<Rightarrow> int stmt" where
  "update_events p upd d =
     (Inr (fst (sql_update p upd (db_events d))),
      d\<lparr>db_events := snd (sql_update p upd (db_events d))\<rparr>)"

definition event_of_row :: "event_row \<Rightarrow> outbox_Event" where
  "event_of_row r =
     \<lparr>Event_ID = ev_event_id r, Event_EventType = ev_event_type r,
      Event_AggregateType = ev_aggregate_type r, Event_AggregateID = ev_aggregate_id r,
      Event_PayloadJSON = ev_payload_json r, Event_Status = ev_status r,
      Event_RetryCount = ev_retry_count r, Event_LastError = ev_last_error r\<rparr>"

section \<open>Repository\<close>

definition outbox_CreateTx :: "CreateEventParams \<Rightarrow> outbox_Event result io" where
  "outbox_CreateTx p = do {
     now \<leftarrow> time_Now;
     bindE (wrapE ''insert outbox event: '' (tx_exec (insert_event p now))) (\<lambda>newID.
       returnE \<lparr>Event_ID = newID, Event_EventType = EventParams_EventType p,
                Event_AggregateType = EventParams_AggregateType p,
                Event_AggregateID = EventParams_AggregateID p,
                Event_PayloadJSON = EventParams_PayloadJSON p,
                Event_Status = outbox_StatusPending, Event_RetryCount = 0,
                Event_LastError = ''''\<rparr>) }"

definition default_limit :: "int \<Rightarrow> int" where
  "default_limit limit = (if limit \<le> 0 then 100 else limit)"

definition dispatchable_events :: "int \<Rightarrow> int \<Rightarrow> db \<Rightarrow> event_row list" where
  "dispatchable_events now limit d =
     sql_limit limit (sql_order_by ev_event_id
       (sql_select (\<lambda>e. ev_status e = outbox_StatusPending \<and> ev_next_retry_at e \<le> now) (db_events d)))"

definition ListDispatchable :: "int \<Rightarrow> outbox_Event list result io" where
  "ListDispatchable limit = do {
     now \<leftarrow> time_Now;
     wrapE ''query dispatchable outbox events: ''
       (db_exec (query_rows (\<lambda>d. map event_of_row (dispatchable_events now (default_limit limit) d)))) }"

definition CountPending :: "int result io" where
  "CountPending =
     wrapE ''count pending outbox events: ''
       (db_exec (query_rows (\<lambda>d. int (length (sql_select
          (\<lambda>e. ev_status e \<in> {outbox_StatusPending, outbox_StatusDispatching, outbox_StatusSuspended})
          (db_events d))))))"

definition TryMarkDispatching :: "int \<Rightarrow> bool result io" where
  "TryMarkDispatching eventID = do {
     now \<leftarrow> time_Now;
     bindE (wrapE ''mark outbox event dispatching: '' (db_exec (update_events
              (\<lambda>e. ev_event_id e = eventID \<and> ev_status e = outbox_StatusPending)
              (\<lambda>e. e\<lparr>ev_status := outbox_StatusDispatching, ev_last_error := '''',
                     ev_updated_at := datetime3 now\<rparr>))))
       (\<lambda>affected. returnE (affected > 0)) }"

definition MarkPublished :: "int \<Rightarrow> unit result io" where
  "MarkPublished eventID = do {
     now \<leftarrow> time_Now;
     bindE (wrapE ''mark outbox event published: '' (db_exec (update_events
              (\<lambda>e. ev_event_id e = eventID \<and> ev_status e = outbox_StatusDispatching)
              (\<lambda>e. e\<lparr>ev_status := outbox_StatusPublished, ev_last_error := '''',
                     ev_updated_at := datetime3 now\<rparr>))))
       (\<lambda>_. returnE ()) }"

definition MarkRetry :: "int \<Rightarrow> int \<Rightarrow> string \<Rightarrow> unit result io" where
  "MarkRetry eventID delay lastErr = do {
     t \<leftarrow> time_Now;
     now \<leftarrow> time_Now;
     bindE (wrapE ''mark outbox event retry: '' (db_exec (update_events
              (\<lambda>e. ev_event_id e = eventID \<and> ev_status e = outbox_StatusDispatching)
              (\<lambda>e. e\<lparr>ev_status := outbox_StatusPending, ev_retry_count := ev_retry_count e + 1,
                     ev_next_retry_at := datetime3 (t + delay),
                     ev_last_error := truncate_str lastErr 255, ev_updated_at := datetime3 now\<rparr>))))
       (\<lambda>_. returnE ()) }"

definition outbox_MarkSuspended :: "int \<Rightarrow> string \<Rightarrow> unit result io" where
  "outbox_MarkSuspended eventID lastErr = do {
     now \<leftarrow> time_Now;
     bindE (wrapE ''mark outbox event suspended: '' (db_exec (update_events
              (\<lambda>e. ev_event_id e = eventID \<and>
                    ev_status e \<in> {outbox_StatusPending, outbox_StatusDispatching})
              (\<lambda>e. e\<lparr>ev_status := outbox_StatusSuspended, ev_last_error := truncate_str lastErr 255,
                     ev_updated_at := datetime3 now\<rparr>))))
       (\<lambda>_. returnE ()) }"

definition stale_events :: "int \<Rightarrow> int \<Rightarrow> db \<Rightarrow> int list" where
  "stale_events staleBefore limit d =
     map ev_event_id (sql_limit limit (sql_order_by ev_updated_at
       (sql_select (\<lambda>e. ev_status e = outbox_StatusDispatching \<and> ev_updated_at e \<le> staleBefore)
          (db_events d))))"

definition RecoverStaleDispatching :: "int \<Rightarrow> int \<Rightarrow> int result io" where
  "RecoverStaleDispatching staleBefore limit = do {
     now \<leftarrow> time_Now;
     wrapE ''recover stale dispatching outbox events: '' (db_exec (\<lambda>d. update_events
       (\<lambda>e. ev_event_id e \<in> set (stale_events staleBefore (default_limit limit) d))
       (\<lambda>e. e\<lparr>ev_status := outbox_StatusPending,
              ev_last_error := ''dispatch timeout recovered for retry'',
              ev_updated_at := datetime3 now\<rparr>) d)) }"

section \<open>What the operations do\<close>

text \<open>
  \<open>idle\<close>: only the clock and the fault script have moved. \<open>events_upd p upd\<close>: besides
  that, the events that satisfy \<open>p\<close> have been updated.
\<close>

definition idle :: "world \<Rightarrow> world \<Rightarrow> bool" where
  "idle w w' \<longleftrightarrow> same_env w w' \<and> w_tx w' = w_tx w \<and> w_db w' = w_db w"

definition events_upd :: "(event_row \<Rightarrow> bool) \<Rightarrow> (event_row \<Rightarrow> event_row) \<Rightarrow> world \<Rightarrow> world \<Rightarrow> bool" where
  "events_upd p upd w w' \<longleftrightarrow>
     same_env w w' \<and> w_tx w' = w_tx w \<and>
     w_db w' = (w_db w)\<lparr>db_events := map (\<lambda>e. if p e then upd e else e) (db_events (w_db w))\<rparr>"

definition outbox_row :: "world \<Rightarrow> int \<Rightarrow> event_row option" where
  "outbox_row w i = sql_row (\<lambda>e. ev_event_id e = i) (db_events (w_db w))"

lemma idle_refl [simp]: "idle w w"
  by (simp add: idle_def)

lemma idle_trans: "idle u v \<Longrightarrow> idle v w \<Longrightarrow> idle u w"
  by (auto simp: idle_def intro: same_env_trans)

lemma outbox_row_idle: "idle w w' \<Longrightarrow> outbox_row w' = outbox_row w"
  by (simp add: idle_def outbox_row_def fun_eq_iff)

lemma outbox_row_upd:
  assumes "events_upd p upd w w'" and "\<And>e. ev_event_id (upd e) = ev_event_id e"
  shows "outbox_row w' j = map_option (\<lambda>e. if p e then upd e else e) (outbox_row w j)"
proof -
  have "\<And>e. ev_event_id (if p e then upd e else e) = ev_event_id e"
    using assms(2) by simp
  with assms(1) show ?thesis
    by (simp add: outbox_row_def events_upd_def sql_row_map)
qed

lemma wp_wrapE [simp]:
  "wp (wrapE pre m) Q = wp m (\<lambda>r. Q (case r of Inl e \<Rightarrow> Inl (ErrWrap pre e '''') | Inr a \<Rightarrow> Inr a))"
  by (simp add: wrapE_def)

lemma run_wrapE [simp]:
  "run_state (wrapE pre m) s =
     (case run_state m s of (Inl e, s') \<Rightarrow> (Inl (ErrWrap pre e ''''), s') | (Inr a, s') \<Rightarrow> (Inr a, s'))"
  by (simp add: wrapE_def)

text \<open>The shape shared by the state-changing operations: read the clock, run one update.\<close>

lemma wp_clock_update_events:
  assumes "\<And>now w'. w_now w \<le> now \<Longrightarrow> events_upd p (upd now) w w' \<Longrightarrow>
             Q (Inr (k (fst (sql_update p (upd now) (db_events (w_db w)))))) w'"
    and "\<And>e now w'. w_now w \<le> now \<Longrightarrow> idle w w' \<or> events_upd p (upd now) w w' \<Longrightarrow> Q (Inl e) w'"
  shows "wp (State_Monad.bind time_Now (\<lambda>now.
           bindE (wrapE pre (db_exec (update_events p (upd now)))) (\<lambda>n. returnE (k n)))) Q w"
  by (auto intro!: wp_time_Now wp_db_exec assms
      simp: update_events_def events_upd_def idle_def same_env_def)

definition dispatching_row :: "int \<Rightarrow> event_row \<Rightarrow> event_row" where
  "dispatching_row now e =
     e\<lparr>ev_status := outbox_StatusDispatching, ev_last_error := '''', ev_updated_at := datetime3 now\<rparr>"

definition published_row :: "int \<Rightarrow> event_row \<Rightarrow> event_row" where
  "published_row now e =
     e\<lparr>ev_status := outbox_StatusPublished, ev_last_error := '''', ev_updated_at := datetime3 now\<rparr>"

definition retry_row :: "int \<Rightarrow> string \<Rightarrow> int \<Rightarrow> event_row \<Rightarrow> event_row" where
  "retry_row due lastErr now e =
     e\<lparr>ev_status := outbox_StatusPending, ev_retry_count := ev_retry_count e + 1,
       ev_next_retry_at := datetime3 due, ev_last_error := truncate_str lastErr 255,
       ev_updated_at := datetime3 now\<rparr>"

definition suspended_row :: "string \<Rightarrow> int \<Rightarrow> event_row \<Rightarrow> event_row" where
  "suspended_row lastErr now e =
     e\<lparr>ev_status := outbox_StatusSuspended, ev_last_error := truncate_str lastErr 255,
       ev_updated_at := datetime3 now\<rparr>"

definition recovered_row :: "int \<Rightarrow> event_row \<Rightarrow> event_row" where
  "recovered_row now e =
     e\<lparr>ev_status := outbox_StatusPending, ev_last_error := ''dispatch timeout recovered for retry'',
       ev_updated_at := datetime3 now\<rparr>"

lemmas event_row_defs =
  dispatching_row_def published_row_def retry_row_def suspended_row_def recovered_row_def

lemma event_row_fields [simp]:
  "ev_event_id (dispatching_row now e) = ev_event_id e"
  "ev_event_id (published_row now e) = ev_event_id e"
  "ev_event_id (retry_row due m now e) = ev_event_id e"
  "ev_event_id (suspended_row m now e) = ev_event_id e"
  "ev_event_id (recovered_row now e) = ev_event_id e"
  "ev_payload_json (dispatching_row now e) = ev_payload_json e"
  "ev_payload_json (published_row now e) = ev_payload_json e"
  "ev_payload_json (retry_row due m now e) = ev_payload_json e"
  "ev_payload_json (suspended_row m now e) = ev_payload_json e"
  "ev_payload_json (recovered_row now e) = ev_payload_json e"
  "ev_status (dispatching_row now e) = outbox_StatusDispatching"
  "ev_status (published_row now e) = outbox_StatusPublished"
  "ev_status (retry_row due m now e) = outbox_StatusPending"
  "ev_status (suspended_row m now e) = outbox_StatusSuspended"
  "ev_status (recovered_row now e) = outbox_StatusPending"
  by (simp_all add: event_row_defs)

lemma dispatching_changes: "ev_status e = outbox_StatusPending \<Longrightarrow> dispatching_row now e \<noteq> e"
  by (metis event_row_fields(11) outbox_status_distinct(1))

abbreviation event_at :: "int \<Rightarrow> string set \<Rightarrow> event_row \<Rightarrow> bool" where
  "event_at i S e \<equiv> ev_event_id e = i \<and> ev_status e \<in> S"

lemma wp_TryMarkDispatching [wp_intro]:
  assumes "\<And>now w'. w_now w \<le> now \<Longrightarrow>
             events_upd (event_at i {outbox_StatusPending}) (dispatching_row now) w w' \<Longrightarrow>
             Q (Inr (\<exists>e \<in> set (db_events (w_db w)). event_at i {outbox_StatusPending} e)) w'"
    and "\<And>e now w'. w_now w \<le> now \<Longrightarrow> idle w w' \<or>
             events_upd (event_at i {outbox_StatusPending}) (dispatching_row now) w w' \<Longrightarrow> Q (Inl e) w'"
  shows "wp (TryMarkDispatching i) Q w"
proof -
  have eq: "(0 < fst (sql_update (event_at i {outbox_StatusPending}) (dispatching_row now) rows)) =
        (\<exists>e \<in> set rows. event_at i {outbox_StatusPending} e)" for rows now
    by (auto simp: fst_sql_update_pos dispatching_changes)
  have "wp (State_Monad.bind time_Now (\<lambda>now. bindE (wrapE ''mark outbox event dispatching: ''
          (db_exec (update_events (event_at i {outbox_StatusPending}) (dispatching_row now))))
          (\<lambda>n. returnE (0 < n)))) Q w"
    by (rule wp_clock_update_events) (use assms in \<open>auto simp: eq [simplified]\<close>)
  then show ?thesis
    by (simp add: TryMarkDispatching_def dispatching_row_def [abs_def])
qed

lemma wp_MarkPublished [wp_intro]:
  assumes "\<And>now w' r. w_now w \<le> now \<Longrightarrow> idle w w' \<and> (\<exists>e. r = Inl e) \<or>
             events_upd (event_at i {outbox_StatusDispatching}) (published_row now) w w' \<Longrightarrow> Q r w'"
  shows "wp (MarkPublished i) Q w"
proof -
  have "wp (State_Monad.bind time_Now (\<lambda>now. bindE (wrapE ''mark outbox event published: ''
          (db_exec (update_events (event_at i {outbox_StatusDispatching}) (published_row now))))
          (\<lambda>n. returnE ((\<lambda>_. ()) n)))) Q w"
    by (rule wp_clock_update_events) (use assms in auto)
  then show ?thesis by (simp add: MarkPublished_def published_row_def [abs_def])
qed

lemma wp_MarkRetry [wp_intro]:
  assumes "\<And>t now w' r. w_now w \<le> t \<Longrightarrow> t \<le> now \<Longrightarrow> idle w w' \<and> (\<exists>e. r = Inl e) \<or>
             events_upd (event_at i {outbox_StatusDispatching}) (retry_row (t + delay) m now) w w' \<Longrightarrow> Q r w'"
  shows "wp (MarkRetry i delay m) Q w"
proof -
  have "wp (State_Monad.bind time_Now (\<lambda>now. bindE (wrapE ''mark outbox event retry: ''
          (db_exec (update_events (event_at i {outbox_StatusDispatching}) (retry_row (t + delay) m now))))
          (\<lambda>n. returnE ((\<lambda>_. ()) n)))) Q (w\<lparr>w_now := t, w_ticks := ts\<rparr>)" if "w_now w \<le> t" for t ts
    by (rule wp_clock_update_events)
      (use assms that in \<open>auto simp: events_upd_def idle_def same_env_def\<close>)
  then show ?thesis
    by (simp add: MarkRetry_def retry_row_def [abs_def] wp_time_Now)
qed

lemma wp_outbox_MarkSuspended [wp_intro]:
  assumes "\<And>now w' r. w_now w \<le> now \<Longrightarrow> idle w w' \<and> (\<exists>e. r = Inl e) \<or>
             events_upd (event_at i {outbox_StatusPending, outbox_StatusDispatching})
               (suspended_row m now) w w' \<Longrightarrow> Q r w'"
  shows "wp (outbox_MarkSuspended i m) Q w"
proof -
  have "wp (State_Monad.bind time_Now (\<lambda>now. bindE (wrapE ''mark outbox event suspended: ''
          (db_exec (update_events (event_at i {outbox_StatusPending, outbox_StatusDispatching})
             (suspended_row m now)))) (\<lambda>n. returnE ((\<lambda>_. ()) n)))) Q w"
    by (rule wp_clock_update_events) (use assms in auto)
  then show ?thesis by (simp add: outbox_MarkSuspended_def suspended_row_def [abs_def])
qed

lemma wp_ListDispatchable [wp_intro]:
  assumes "\<And>now w'. w_now w \<le> now \<Longrightarrow> idle w w' \<Longrightarrow>
             Q (Inr (map event_of_row (dispatchable_events now (default_limit n) (w_db w)))) w'"
    and "\<And>e w'. idle w w' \<Longrightarrow> Q (Inl e) w'"
  shows "wp (ListDispatchable n) Q w"
  unfolding ListDispatchable_def
  by (auto intro!: wp_time_Now wp_db_exec assms simp: idle_def same_env_def)

lemma wp_CountPending [wp_intro]:
  assumes "\<And>r w'. idle w w' \<Longrightarrow> Q r w'"
  shows "wp CountPending Q w"
  unfolding CountPending_def
  by (auto intro!: wp_db_exec assms simp: idle_def same_env_def)

lemma wp_RecoverStaleDispatching [wp_intro]:
  assumes "\<And>r now w'. w_now w \<le> now \<Longrightarrow> idle w w' \<and> (\<exists>e. r = Inl e) \<or>
             events_upd (\<lambda>e. ev_event_id e \<in> set (stale_events before (default_limit n) (w_db w)))
               (recovered_row now) w w' \<Longrightarrow> Q r w'"
  shows "wp (RecoverStaleDispatching before n) Q w"
  unfolding RecoverStaleDispatching_def
  by (auto intro!: wp_time_Now wp_db_exec assms
      simp: update_events_def events_upd_def idle_def same_env_def recovered_row_def [abs_def])

definition with_event :: "CreateEventParams \<Rightarrow> int \<Rightarrow> db \<Rightarrow> db" where
  "with_event p now d = snd (insert_event p now d)"

lemma wp_outbox_CreateTx:
  assumes "w_tx w = Some d"
    and "\<And>now evt w'. tx_to w (with_event p now d) w' \<Longrightarrow> w_now w \<le> now \<Longrightarrow> Q (Inr evt) w'"
    and "\<And>e w' d'. tx_to w d' w' \<Longrightarrow> counters_le d d' \<Longrightarrow> Q (Inl e) w'"
  shows "wp (outbox_CreateTx p) Q w"
  unfolding outbox_CreateTx_def wp_bind
proof (rule wp_tx_clock [OF assms(1)], unfold wp_bindE wp_wrapE, rule wp_tx_stmt [where d = d], goal_cases)
  case (1 now w1)
  then show ?case by (simp add: tx_to_tx)
next
  case (2 now w1 w2)
  then show ?case using assms(2) tx_to_trans [OF 2(1,3)] by (simp add: with_event_def insert_event_def)
next
  case (3 now w1 e w2)
  then have "tx_to w d w2 \<or> tx_to w (with_event p now d) w2"
    using tx_to_trans [OF 3(1)] by (auto simp: with_event_def)
  moreover have "counters_le d (with_event p now d)"
    by (simp add: with_event_def insert_event_def counters_le_def)
  ultimately show ?case using assms(3) by auto
qed

end
