(* ===== verification/TaskQueue.thy ===== *)
theory TaskQueue
  imports OutboxRepository
begin

text \<open>
  examples/Quan/internal/task/queue.go: the ready list, the retry set and the dead-letter
  list in Redis. A task id is stored in decimal. \<open>qview\<close> is the abstract queue (two lists
  and a scored set) and each operation is shown to refine the obvious operation on it.
\<close>

section \<open>Configuration and operations\<close>

record QueueConfig =
  ReadyKey :: string
  RetryKey :: string
  DLQKey :: string

definition QueueConfig_withDefaults :: "QueueConfig \<Rightarrow> QueueConfig" where
  "QueueConfig_withDefaults c =
     (let c1 = (if ReadyKey c = '''' then c\<lparr>ReadyKey := ''queue:task:ready''\<rparr> else c);
          c2 = (if RetryKey c1 = '''' then c1\<lparr>RetryKey := ''queue:task:retry''\<rparr> else c1)
      in if DLQKey c2 = '''' then c2\<lparr>DLQKey := ''queue:task:dlq''\<rparr> else c2)"

text \<open>\<^verbatim>\<open>NewQueue\<close>: the client is present or nil; the queue is its effective configuration.\<close>

definition NewQueue :: "bool \<Rightarrow> QueueConfig \<Rightarrow> QueueConfig result" where
  "NewQueue client cfg =
     (if \<not> client then Inl (ErrNew ''task queue redis client is nil'')
      else Inr (QueueConfig_withDefaults cfg))"

definition PublishReady :: "QueueConfig \<Rightarrow> int \<Rightarrow> unit result io" where
  "PublishReady q taskID =
     bindE (redis_exec (\<lambda>now. redis_RPUSH now (ReadyKey q) (FormatInt taskID))) (\<lambda>_. returnE ())"

definition PushDLQ :: "QueueConfig \<Rightarrow> int \<Rightarrow> unit result io" where
  "PushDLQ q taskID =
     bindE (redis_exec (\<lambda>now. redis_RPUSH now (DLQKey q) (FormatInt taskID))) (\<lambda>_. returnE ())"

definition replay_script :: "QueueConfig \<Rightarrow> string \<Rightarrow> int \<Rightarrow> int rcmd" where
  "replay_script q task now =
     bindE (redis_LREM1 now (DLQKey q) task) (\<lambda>removed.
       if removed > 0 then bindE (redis_RPUSH now (ReadyKey q) task) (\<lambda>_. returnE removed)
       else returnE removed)"

definition ReplayFromDLQ :: "QueueConfig \<Rightarrow> int \<Rightarrow> bool result io" where
  "ReplayFromDLQ q taskID =
     bindE (redis_exec (replay_script q (FormatInt taskID))) (\<lambda>res. returnE (res > 0))"

definition rollback_script :: "QueueConfig \<Rightarrow> string \<Rightarrow> int \<Rightarrow> int rcmd" where
  "rollback_script q task now =
     bindE (redis_LREM1 now (ReadyKey q) task) (\<lambda>removed.
       if removed > 0 then bindE (redis_LPUSH now (DLQKey q) task) (\<lambda>_. returnE removed)
       else returnE removed)"

definition RollbackReplay :: "QueueConfig \<Rightarrow> int \<Rightarrow> unit result io" where
  "RollbackReplay q taskID =
     bindE (redis_exec (rollback_script q (FormatInt taskID))) (\<lambda>_. returnE ())"

definition ScheduleRetry :: "QueueConfig \<Rightarrow> int \<Rightarrow> int \<Rightarrow> unit result io" where
  "ScheduleRetry q taskID retryAt =
     redis_exec (\<lambda>now. redis_ZADD now (RetryKey q) (UnixMilli retryAt) (FormatInt taskID))"

text \<open>\<^verbatim>\<open>PopReady\<close>: \<open>None\<close> is its \<^verbatim>\<open>false\<close>, after a timeout on an empty list.\<close>

definition PopReady :: "QueueConfig \<Rightarrow> int option result io" where
  "PopReady q =
     bindE (redis_exec (\<lambda>now. redis_BLPOP now (ReadyKey q))) (\<lambda>res.
       case res of
         None \<Rightarrow> returnE None
       | Some xs \<Rightarrow>
           if length xs \<noteq> 2 then throwE (ErrNew ''invalid BLPOP result'')
           else (case ParseInt (xs ! 1) of
                   Inl e \<Rightarrow> throwE (ErrWrap ''invalid task id in ready queue: '' e '''')
                 | Inr taskID \<Rightarrow> returnE (Some taskID)))"

text \<open>\<^verbatim>\<open>MoveDueRetryToReady\<close> returns the count together with the error.\<close>

primrec move_ids :: "QueueConfig \<Rightarrow> string list \<Rightarrow> int \<Rightarrow> (int \<times> goerr option) io" where
  "move_ids q [] moved = ret (moved, None)"
| "move_ids q (v # ids) moved = do {
     removed \<leftarrow> redis_exec (\<lambda>now. redis_ZREM now (RetryKey q) v);
     case removed of
       Inl err \<Rightarrow> ret (moved, Some err)
     | Inr n \<Rightarrow>
         if n = 0 then move_ids q ids moved
         else do {
           pushed \<leftarrow> redis_exec (\<lambda>now. redis_RPUSH now (ReadyKey q) v);
           case pushed of
             Inl err \<Rightarrow> do {
               t \<leftarrow> time_Now;
               _ \<leftarrow> redis_exec (\<lambda>now. redis_ZADD now (RetryKey q) (UnixMilli t) v);
               ret (moved, Some err) }
           | Inr _ \<Rightarrow> move_ids q ids (moved + 1) } }"

definition MoveDueRetryToReady :: "QueueConfig \<Rightarrow> int \<Rightarrow> (int \<times> goerr option) io" where
  "MoveDueRetryToReady q batch = do {
     t \<leftarrow> time_Now;
     ids \<leftarrow> redis_exec (\<lambda>now. redis_ZRANGEBYSCORE now (RetryKey q) (UnixMilli t) (default_limit batch));
     case ids of
       Inl err \<Rightarrow> ret (0, Some err)
     | Inr xs \<Rightarrow> move_ids q xs 0 }"

section \<open>The abstract queue\<close>

record queue_view =
  qv_ready :: "string list"
  qv_retry :: "(string \<times> int) list"
  qv_dlq :: "string list"

definition queue_ok :: "QueueConfig \<Rightarrow> world \<Rightarrow> bool" where
  "queue_ok q w \<longleftrightarrow>
     list_key (w_kv w) (ReadyKey q) \<and> list_key (w_kv w) (DLQKey q) \<and> zset_key (w_kv w) (RetryKey q) \<and>
     distinct [ReadyKey q, RetryKey q, DLQKey q]"

definition qview :: "QueueConfig \<Rightarrow> world \<Rightarrow> queue_view" where
  "qview q w =
     \<lparr>qv_ready = rlist (w_kv w) (ReadyKey q), qv_retry = rzset (w_kv w) (RetryKey q),
      qv_dlq = rlist (w_kv w) (DLQKey q)\<rparr>"

text \<open>An operation of the queue changes only the three keys (and the clock and the script).\<close>

definition queue_frame :: "QueueConfig \<Rightarrow> world \<Rightarrow> world \<Rightarrow> bool" where
  "queue_frame q w w' \<longleftrightarrow>
     w_db w' = w_db w \<and> w_tx w' = w_tx w \<and> w_metrics w' = w_metrics w \<and> w_now w \<le> w_now w' \<and>
     (\<forall>k. k \<notin> {ReadyKey q, RetryKey q, DLQKey q} \<longrightarrow> w_kv w' k = w_kv w k)"

definition queue_upd :: "QueueConfig \<Rightarrow> (queue_view \<Rightarrow> queue_view) \<Rightarrow> world \<Rightarrow> world \<Rightarrow> bool" where
  "queue_upd q f w w' \<longleftrightarrow> queue_ok q w' \<and> queue_frame q w w' \<and> qview q w' = f (qview q w)"

lemma queue_frame_refl [simp]: "queue_frame q w w"
  by (simp add: queue_frame_def)

lemma queue_frame_trans: "queue_frame q u v \<Longrightarrow> queue_frame q v w \<Longrightarrow> queue_frame q u w"
  by (auto simp: queue_frame_def)

lemma queue_frame_upd [simp]:
  "queue_frame q w (w'\<lparr>w_faults := fs\<rparr>) = queue_frame q w w'"
  "queue_frame q w (w'\<lparr>w_ticks := ts\<rparr>) = queue_frame q w w'"
  by (simp_all add: queue_frame_def)

lemma queue_ok_faults [simp]:
  "queue_ok q (w\<lparr>w_faults := fs\<rparr>) = queue_ok q w" "queue_ok q (w\<lparr>w_now := t\<rparr>) = queue_ok q w"
  "queue_ok q (w\<lparr>w_ticks := ts\<rparr>) = queue_ok q w" "queue_ok q (w\<lparr>w_db := d\<rparr>) = queue_ok q w"
  "queue_ok q (w\<lparr>w_tx := x\<rparr>) = queue_ok q w"
  "qview q (w\<lparr>w_faults := fs\<rparr>) = qview q w" "qview q (w\<lparr>w_now := t\<rparr>) = qview q w"
  "qview q (w\<lparr>w_ticks := ts\<rparr>) = qview q w" "qview q (w\<lparr>w_db := d\<rparr>) = qview q w"
  "qview q (w\<lparr>w_tx := x\<rparr>) = qview q w"
  by (simp_all add: queue_ok_def qview_def)

lemma queue_same_env: "same_env w w' \<Longrightarrow> queue_ok q w' = queue_ok q w \<and> qview q w' = qview q w"
  by (simp add: same_env_def queue_ok_def qview_def)

text \<open>The three keys are pairwise different, so an update of one leaves the others.\<close>

lemma queue_put_ready:
  assumes "queue_ok q w"
  shows "queue_upd q (\<lambda>v. v\<lparr>qv_ready := xs\<rparr>) w
           (w\<lparr>w_faults := fs, w_kv := put_list (ReadyKey q) xs None (w_kv w)\<rparr>)"
  using assms
  by (auto simp: queue_upd_def queue_ok_def qview_def queue_frame_def) (auto simp: put_list_def)

lemma queue_put_dlq:
  assumes "queue_ok q w"
  shows "queue_upd q (\<lambda>v. v\<lparr>qv_dlq := xs\<rparr>) w
           (w\<lparr>w_faults := fs, w_kv := put_list (DLQKey q) xs None (w_kv w)\<rparr>)"
  using assms
  by (auto simp: queue_upd_def queue_ok_def qview_def queue_frame_def) (auto simp: put_list_def)

lemma queue_put_retry:
  assumes "queue_ok q w"
  shows "queue_upd q (\<lambda>v. v\<lparr>qv_retry := z\<rparr>) w
           (w\<lparr>w_faults := fs, w_kv := put_zset (RetryKey q) z None (w_kv w)\<rparr>)"
  using assms
  by (auto simp: queue_upd_def queue_ok_def qview_def queue_frame_def) (auto simp: put_zset_def)

lemma queue_upd_id [simp]: "queue_ok q w \<Longrightarrow> queue_upd q (\<lambda>v. v) w (w\<lparr>w_faults := fs\<rparr>)"
  by (simp add: queue_upd_def queue_frame_def)

text \<open>
  A command whose run is known: it answers and its effect happened, or it fails and the
  effect did or did not happen.
\<close>

lemma wp_redis_known:
  assumes "run_state (cmd (UnixMilli (w_now w))) (w_kv w) = (Inr a, m)"
    and "\<And>fs. Q (Inr a) (w\<lparr>w_faults := fs, w_kv := m\<rparr>)"
    and "\<And>fs e. Q (Inl (ErrIO e)) (w\<lparr>w_faults := fs\<rparr>)"
    and "\<And>fs e. Q (Inl (ErrIO e)) (w\<lparr>w_faults := fs, w_kv := m\<rparr>)"
  shows "wp (redis_exec cmd) Q w"
  by (rule wp_redis_exec) (simp_all add: assms)

lemma queue_runs:
  assumes "queue_ok q w"
  shows "run_state (redis_RPUSH now (ReadyKey q) v) (w_kv w) =
           (Inr (int (length (qv_ready (qview q w))) + 1),
            put_list (ReadyKey q) (qv_ready (qview q w) @ [v]) None (w_kv w))"
    and "run_state (redis_RPUSH now (DLQKey q) v) (w_kv w) =
           (Inr (int (length (qv_dlq (qview q w))) + 1),
            put_list (DLQKey q) (qv_dlq (qview q w) @ [v]) None (w_kv w))"
    and "run_state (redis_ZADD now (RetryKey q) score v) (w_kv w) =
           (Inr (), put_zset (RetryKey q) (zput v score (qv_retry (qview q w))) None (w_kv w))"
    and "run_state (redis_ZREM now (RetryKey q) v) (w_kv w) =
           (Inr (if v \<in> fst ` set (qv_retry (qview q w)) then 1 else 0),
            put_zset (RetryKey q) (filter (\<lambda>(u, _). u \<noteq> v) (qv_retry (qview q w))) None (w_kv w))"
  using assms
  by (simp_all add: redis_RPUSH_def redis_ZADD_def redis_ZREM_def redis_on_list_spec
      redis_on_zset_spec queue_ok_def qview_def)

lemma wp_PublishReady [wp_intro]:
  assumes "queue_ok q w"
    and "\<And>r w'. queue_upd q (\<lambda>v. v\<lparr>qv_ready := qv_ready v @ [FormatInt i]\<rparr>) w w' \<or>
           (\<exists>e. r = Inl e) \<and> queue_upd q (\<lambda>v. v) w w' \<Longrightarrow> Q r w'"
  shows "wp (PublishReady q i) Q w"
  unfolding PublishReady_def wp_bindE
  by (rule wp_redis_known [OF queue_runs(1) [OF assms(1)]])
    (use assms queue_put_ready [OF assms(1)] in \<open>auto simp: queue_upd_def\<close>)

lemma wp_PushDLQ [wp_intro]:
  assumes "queue_ok q w"
    and "\<And>r w'. queue_upd q (\<lambda>v. v\<lparr>qv_dlq := qv_dlq v @ [FormatInt i]\<rparr>) w w' \<or>
           (\<exists>e. r = Inl e) \<and> queue_upd q (\<lambda>v. v) w w' \<Longrightarrow> Q r w'"
  shows "wp (PushDLQ q i) Q w"
  unfolding PushDLQ_def wp_bindE
  by (rule wp_redis_known [OF queue_runs(2) [OF assms(1)]])
    (use assms queue_put_dlq [OF assms(1)] in \<open>auto simp: queue_upd_def\<close>)

lemma wp_ScheduleRetry [wp_intro]:
  assumes "queue_ok q w"
    and "\<And>r w'. queue_upd q (\<lambda>v. v\<lparr>qv_retry := zput (FormatInt i) (UnixMilli at) (qv_retry v)\<rparr>) w w' \<or>
           (\<exists>e. r = Inl e) \<and> queue_upd q (\<lambda>v. v) w w' \<Longrightarrow> Q r w'"
  shows "wp (ScheduleRetry q i at) Q w"
  unfolding ScheduleRetry_def
  by (rule wp_redis_known [OF queue_runs(3) [OF assms(1)]])
    (use assms queue_put_retry [OF assms(1)] in \<open>auto simp: queue_upd_def\<close>)

lemma queue_scripts:
  assumes "queue_ok q w"
  shows "run_state (redis_BLPOP now (ReadyKey q)) (w_kv w) =
           (case qv_ready (qview q w) of
              [] \<Rightarrow> (Inr None, put_list (ReadyKey q) [] None (w_kv w))
            | v # vs \<Rightarrow> (Inr (Some [ReadyKey q, v]), put_list (ReadyKey q) vs None (w_kv w)))"
    and "run_state (replay_script q v now) (w_kv w) =
           (if v \<in> set (qv_dlq (qview q w))
            then (Inr 1, put_list (ReadyKey q) (qv_ready (qview q w) @ [v]) None
                     (put_list (DLQKey q) (remove1 v (qv_dlq (qview q w))) None (w_kv w)))
            else (Inr 0, put_list (DLQKey q) (qv_dlq (qview q w)) None (w_kv w)))"
    and "run_state (rollback_script q v now) (w_kv w) =
           (if v \<in> set (qv_ready (qview q w))
            then (Inr 1, put_list (DLQKey q) (v # qv_dlq (qview q w)) None
                     (put_list (ReadyKey q) (remove1 v (qv_ready (qview q w))) None (w_kv w)))
            else (Inr 0, put_list (ReadyKey q) (qv_ready (qview q w)) None (w_kv w)))"
  using assms
  by (auto simp: redis_BLPOP_def replay_script_def rollback_script_def redis_LREM1_def redis_RPUSH_def
      redis_LPUSH_def redis_on_list_spec queue_ok_def qview_def remove1_idem split: list.split)

lemma wp_PopReady [wp_intro]:
  assumes ok: "queue_ok q w"
    and empty: "\<And>w'. qv_ready (qview q w) = [] \<Longrightarrow> queue_upd q (\<lambda>v. v) w w' \<Longrightarrow> Q (Inr None) w'"
    and cons: "\<And>v vs w'. qv_ready (qview q w) = v # vs \<Longrightarrow> queue_upd q (\<lambda>x. x\<lparr>qv_ready := vs\<rparr>) w w' \<Longrightarrow>
           Q (case ParseInt v of Inl e \<Rightarrow> Inl (ErrWrap ''invalid task id in ready queue: '' e '''')
                               | Inr i \<Rightarrow> Inr (Some i)) w'"
    and fails: "\<And>e w'. queue_upd q (\<lambda>v. v) w w' \<or>
           queue_upd q (\<lambda>v. v\<lparr>qv_ready := tl (qv_ready v)\<rparr>) w w' \<Longrightarrow> Q (Inl (ErrIO e)) w'"
  shows "wp (PopReady q) Q w"
proof (cases "qv_ready (qview q w)")
  case Nil
  note run = queue_scripts(1) [OF ok, unfolded Nil list.case]
  have "queue_upd q (\<lambda>v. v) w (w\<lparr>w_faults := fs, w_kv := put_list (ReadyKey q) [] None (w_kv w)\<rparr>)" for fs
    using queue_put_ready [OF ok, of "[]"] Nil by (simp add: queue_upd_def)
  with Nil ok empty fails show ?thesis
    unfolding PopReady_def wp_bindE
    by (intro wp_redis_known [OF run]) auto
next
  case (Cons v vs)
  note run = queue_scripts(1) [OF ok, unfolded Cons list.case]
  have "queue_upd q (\<lambda>x. x\<lparr>qv_ready := vs\<rparr>) w
          (w\<lparr>w_faults := fs, w_kv := put_list (ReadyKey q) vs None (w_kv w)\<rparr>)" for fs
    by (rule queue_put_ready [OF ok])
  moreover from this have "queue_upd q (\<lambda>x. x\<lparr>qv_ready := tl (qv_ready x)\<rparr>) w
          (w\<lparr>w_faults := fs, w_kv := put_list (ReadyKey q) vs None (w_kv w)\<rparr>)" for fs
    using Cons by (simp add: queue_upd_def)
  ultimately show ?thesis
    unfolding PopReady_def wp_bindE using ok cons [OF Cons] fails
    by (cases "ParseInt v") (auto intro!: wp_redis_known [OF run])
qed

lemma queue_put_both:
  assumes "queue_ok q w"
  shows "queue_upd q (\<lambda>v. v\<lparr>qv_ready := xs, qv_dlq := ys\<rparr>) w
           (w\<lparr>w_faults := fs, w_kv := put_list (ReadyKey q) xs None (put_list (DLQKey q) ys None (w_kv w))\<rparr>)"
    and "queue_upd q (\<lambda>v. v\<lparr>qv_ready := xs, qv_dlq := ys\<rparr>) w
           (w\<lparr>w_faults := fs, w_kv := put_list (DLQKey q) ys None (put_list (ReadyKey q) xs None (w_kv w))\<rparr>)"
  using assms
  by (auto simp: queue_upd_def queue_ok_def qview_def queue_frame_def) (auto simp: put_list_def)

text \<open>Moving a dead letter back to the ready list is one script: both or neither.\<close>

lemma wp_ReplayFromDLQ [wp_intro]:
  assumes ok: "queue_ok q w"
    and found: "\<And>r w'. FormatInt i \<in> set (qv_dlq (qview q w)) \<Longrightarrow> r = Inr True \<or> (\<exists>e. r = Inl e) \<Longrightarrow>
           queue_upd q (\<lambda>v. v\<lparr>qv_ready := qv_ready v @ [FormatInt i],
                                qv_dlq := remove1 (FormatInt i) (qv_dlq v)\<rparr>) w w' \<Longrightarrow> Q r w'"
    and missing: "\<And>w'. FormatInt i \<notin> set (qv_dlq (qview q w)) \<Longrightarrow> queue_upd q (\<lambda>v. v) w w' \<Longrightarrow>
           Q (Inr False) w'"
    and fails: "\<And>e w'. queue_upd q (\<lambda>v. v) w w' \<Longrightarrow> Q (Inl e) w'"
  shows "wp (ReplayFromDLQ q i) Q w"
proof (cases "FormatInt i \<in> set (qv_dlq (qview q w))")
  case True
  note run = queue_scripts(2) [OF ok, of "FormatInt i" "UnixMilli (w_now w)"]
  have "queue_upd q (\<lambda>v. v\<lparr>qv_ready := qv_ready v @ [FormatInt i],
          qv_dlq := remove1 (FormatInt i) (qv_dlq v)\<rparr>) w
          (w\<lparr>w_faults := fs, w_kv := snd (run_state (replay_script q (FormatInt i) (UnixMilli (w_now w))) (w_kv w))\<rparr>)" for fs
    using queue_put_both(1) [OF ok] True by (simp add: run queue_upd_def)
  with True run found fails ok show ?thesis
    unfolding ReplayFromDLQ_def wp_bindE by (intro wp_redis_known) auto
next
  case False
  note run = queue_scripts(2) [OF ok, of "FormatInt i" "UnixMilli (w_now w)"]
  have "queue_upd q (\<lambda>v. v) w
          (w\<lparr>w_faults := fs, w_kv := snd (run_state (replay_script q (FormatInt i) (UnixMilli (w_now w))) (w_kv w))\<rparr>)" for fs
    using queue_put_dlq [OF ok, of "qv_dlq (qview q w)" fs] False by (simp add: run queue_upd_def)
  with False run missing fails ok show ?thesis
    unfolding ReplayFromDLQ_def wp_bindE by (intro wp_redis_known) auto
qed

section \<open>Moving due retries\<close>

definition zrem :: "string \<Rightarrow> (string \<times> int) list \<Rightarrow> (string \<times> int) list" where
  "zrem v z = filter (\<lambda>(u, _). u \<noteq> v) z"

definition zids :: "(string \<times> int) list \<Rightarrow> string set" where
  "zids z = fst ` set z"

definition retry_ids :: "queue_view \<Rightarrow> string set" where
  "retry_ids v = zids (qv_retry v)"

definition qmembers :: "queue_view \<Rightarrow> string set" where
  "qmembers v = set (qv_ready v) \<union> retry_ids v"

lemma zids_zrem [simp]: "zids (zrem v z) = zids z - {v}"
  by (force simp: zids_def zrem_def)

lemma zids_zput [simp]: "zids (zput v s z) = insert v (zids z)"
  by (simp add: zids_def del: set_zput)

lemma retry_ids_upd [simp]:
  "retry_ids (x\<lparr>qv_ready := xs\<rparr>) = retry_ids x" "retry_ids (x\<lparr>qv_retry := z\<rparr>) = zids z"
  "zids (qv_retry x) = retry_ids x"
  by (simp_all add: retry_ids_def)

lemma zrem_idle: "v \<notin> retry_ids x \<Longrightarrow> x\<lparr>qv_retry := zrem v (qv_retry x)\<rparr> = x"
proof -
  assume "v \<notin> retry_ids x"
  then have "zrem v (qv_retry x) = qv_retry x"
    by (force simp: retry_ids_def zids_def zrem_def filter_id_conv)
  then show ?thesis by simp
qed

text \<open>
  What one pass over due ids does, whatever fails: ids only move from the retry set to the
  end of the ready list; without an error none is lost; with an error at most one is, the
  one that was being moved.
\<close>

definition moved_view :: "string list \<Rightarrow> goerr option \<Rightarrow> queue_view \<Rightarrow> queue_view \<Rightarrow> bool" where
  "moved_view ids err x y \<longleftrightarrow>
     qv_dlq y = qv_dlq x \<and>
     (\<exists>ys. qv_ready y = qv_ready x @ ys \<and> set ys \<subseteq> set ids \<inter> retry_ids x) \<and>
     retry_ids y \<subseteq> retry_ids x \<and>
     (case err of
        None \<Rightarrow> qmembers x \<subseteq> qmembers y \<and> retry_ids y \<inter> set ids = {}
      | Some _ \<Rightarrow> \<exists>i \<in> set ids. qmembers x \<subseteq> insert i (qmembers y))"

lemma moved_view_skip:
  "v \<notin> retry_ids x \<Longrightarrow> moved_view ids err x y \<Longrightarrow> moved_view (v # ids) err x y"
  by (fastforce simp: moved_view_def split: option.splits)

lemma moved_view_step:
  assumes "v \<in> retry_ids x" and "z = x\<lparr>qv_ready := qv_ready x @ [v], qv_retry := zrem v (qv_retry x)\<rparr>"
    and "moved_view ids err z y"
  shows "moved_view (v # ids) err x y"
proof -
  have z: "retry_ids z = retry_ids x - {v}" "qv_ready z = qv_ready x @ [v]" "qv_dlq z = qv_dlq x"
    using assms(2) by simp_all
  obtain ys where ys: "qv_ready y = qv_ready x @ v # ys" "set ys \<subseteq> set ids \<inter> (retry_ids x - {v})"
    using assms(3) z by (auto simp: moved_view_def)
  have "set (v # ys) \<subseteq> set (v # ids) \<inter> retry_ids x" using ys(2) assms(1) by auto
  moreover have "v \<notin> retry_ids y" using assms(3) z by (auto simp: moved_view_def)
  moreover have sub: "qmembers x \<subseteq> qmembers z" using z by (auto simp: qmembers_def)
  moreover have "\<exists>i \<in> set (v # ids). qmembers x \<subseteq> insert i (qmembers y)" if some: "err = Some e" for e
  proof -
    obtain i where i: "i \<in> set ids" "qmembers z \<subseteq> insert i (qmembers y)"
      using assms(3) some by (auto simp: moved_view_def)
    with subset_trans [OF sub i(2)] show ?thesis by auto
  qed
  moreover have "qmembers x \<subseteq> qmembers y" "retry_ids y \<inter> set (v # ids) = {}" if "err = None"
    using assms(3) that subset_trans [OF sub] \<open>v \<notin> retry_ids y\<close> by (auto simp: moved_view_def)
  moreover have "qv_dlq y = qv_dlq x" "retry_ids y \<subseteq> retry_ids x"
    using assms(3) z by (auto simp: moved_view_def)
  ultimately show ?thesis
    unfolding moved_view_def using ys(1) by (cases err) (simp_all, blast+)
qed

text \<open>The move of \<open>v\<close> fails half way: it is still in one of the two places, or lost.\<close>

lemma moved_view_fail:
  assumes "qv_dlq y = qv_dlq x"
    and "qv_ready y = qv_ready x \<or> qv_ready y = qv_ready x @ [v] \<and> v \<in> retry_ids x"
    and "retry_ids x - {v} \<subseteq> retry_ids y" "retry_ids y \<subseteq> retry_ids x"
  shows "moved_view (v # ids) (Some err) x y"
  using assms by (auto simp: moved_view_def qmembers_def)

definition moved_ok :: "QueueConfig \<Rightarrow> string list \<Rightarrow> goerr option \<Rightarrow> world \<Rightarrow> world \<Rightarrow> bool" where
  "moved_ok q ids err w w' \<longleftrightarrow>
     queue_ok q w' \<and> queue_frame q w w' \<and> moved_view ids err (qview q w) (qview q w')"

lemma wp_RPUSH_ready:
  assumes "queue_ok q w"
    and "\<And>r w'. queue_upd q (\<lambda>x. x\<lparr>qv_ready := qv_ready x @ [v]\<rparr>) w w' \<or>
           (\<exists>e. r = Inl e) \<and> queue_upd q (\<lambda>x. x) w w' \<Longrightarrow> Q r w'"
  shows "wp (redis_exec (\<lambda>now. redis_RPUSH now (ReadyKey q) v)) Q w"
  by (rule wp_redis_known [OF queue_runs(1) [OF assms(1)]])
    (use assms queue_put_ready [OF assms(1)] in \<open>auto simp: queue_upd_def\<close>)

lemma wp_ZADD_retry:
  assumes "queue_ok q w"
    and "\<And>r w'. queue_upd q (\<lambda>x. x\<lparr>qv_retry := zput v s (qv_retry x)\<rparr>) w w' \<or>
           (\<exists>e. r = Inl e) \<and> queue_upd q (\<lambda>x. x) w w' \<Longrightarrow> Q r w'"
  shows "wp (redis_exec (\<lambda>now. redis_ZADD now (RetryKey q) s v)) Q w"
  by (rule wp_redis_known [OF queue_runs(3) [OF assms(1)]])
    (use assms queue_put_retry [OF assms(1)] in \<open>auto simp: queue_upd_def\<close>)

lemma wp_ZREM_retry:
  assumes ok: "queue_ok q w"
    and "\<And>w'. queue_upd q (\<lambda>x. x\<lparr>qv_retry := zrem v (qv_retry x)\<rparr>) w w' \<Longrightarrow>
           Q (Inr (if v \<in> retry_ids (qview q w) then 1 else 0)) w'"
    and "\<And>e w'. queue_upd q (\<lambda>x. x\<lparr>qv_retry := zrem v (qv_retry x)\<rparr>) w w' \<or>
           queue_upd q (\<lambda>x. x) w w' \<Longrightarrow> Q (Inl e) w'"
  shows "wp (redis_exec (\<lambda>now. redis_ZREM now (RetryKey q) v)) Q w"
proof (rule wp_redis_known [OF queue_runs(4) [OF ok]], goal_cases)
  case (1 fs)
  show ?case unfolding zids_def [symmetric] retry_ids_upd
    by (rule assms(2)) (use queue_put_retry [OF ok] in \<open>simp add: queue_upd_def zrem_def\<close>)
next
  case (2 fs e)
  show ?case by (rule assms(3)) (use ok in simp)
next
  case (3 fs e)
  show ?case
    by (rule assms(3)) (use queue_put_retry [OF ok] in \<open>simp add: queue_upd_def zrem_def\<close>)
qed

text \<open>From the removal of \<open>v\<close> on: it is pushed and the pass goes on, or the pass ends with the error.\<close>

lemma wp_move_pushed:
  assumes rest: "\<And>w2 k. queue_ok q w2 \<Longrightarrow> wp (move_ids q ids k) (\<lambda>(n, err) w'. moved_ok q ids err w2 w') w2"
    and removed: "queue_upd q (\<lambda>x. x\<lparr>qv_retry := zrem v (qv_retry x)\<rparr>) w w1"
    and v: "v \<in> retry_ids (qview q w)"
  shows "wp (redis_exec (\<lambda>now. redis_RPUSH now (ReadyKey q) v)) (\<lambda>pushed. wp (case pushed of
         Inl err \<Rightarrow> do { t \<leftarrow> time_Now;
           _ \<leftarrow> redis_exec (\<lambda>now. redis_ZADD now (RetryKey q) (UnixMilli t) v);
           ret (moved, Some err) }
       | Inr _ \<Rightarrow> move_ids q ids (moved + 1))
     (\<lambda>(n, err) w'. moved_ok q (v # ids) err w w')) w1"
proof (rule wp_RPUSH_ready, goal_cases)
  case 1
  then show ?case using removed by (simp add: queue_upd_def)
next
  case (2 r w2)
  have fail: "moved_ok q (v # ids) (Some err) w w4"
    if "w_now w2 \<le> t" and 3: "queue_upd q (\<lambda>x. x\<lparr>qv_retry := zput v s (qv_retry x)\<rparr>) (w2\<lparr>w_now := t, w_ticks := ts\<rparr>) w4 \<or>
             queue_upd q (\<lambda>x. x) (w2\<lparr>w_now := t, w_ticks := ts\<rparr>) w4" for w4 s t ts err
  proof -
    have "queue_frame q w w4"
      using removed 2 that by (auto simp: queue_upd_def queue_frame_def)
    moreover have "moved_view (v # ids) (Some err) (qview q w) (qview q w4)"
      using removed 2 3 v by (auto simp: queue_upd_def intro!: moved_view_fail)
    ultimately show ?thesis using 3 by (auto simp: moved_ok_def queue_upd_def)
  qed
  have ok2: "queue_ok q w2" using 2 by (auto simp: queue_upd_def)
  show ?case
  proof (cases r)
    case (Inl err)
    then show ?thesis using ok2
      by simp (rule wp_time_Now, rule wp_ZADD_retry, simp, rule fail, assumption, blast)
  next
    case (Inr n)
    then have "queue_frame q w w2 \<and> qview q w2 = qview q w
        \<lparr>qv_ready := qv_ready (qview q w) @ [v], qv_retry := zrem v (qv_retry (qview q w))\<rparr>"
      using 2 removed queue_frame_trans [of q w w1 w2] by (auto simp: queue_upd_def)
    with v have "moved_ok q ids err w2 w' \<Longrightarrow> moved_ok q (v # ids) err w w'" for err w'
      by (auto simp: moved_ok_def intro: moved_view_step queue_frame_trans)
    with wp_mono [OF rest [OF ok2]] Inr show ?thesis by auto
  qed
qed

lemma wp_move_ids:
  assumes "queue_ok q w"
  shows "wp (move_ids q ids moved) (\<lambda>(n, err) w'. moved_ok q ids err w w') w"
  using assms
proof (induction ids arbitrary: w moved)
  case Nil
  then show ?case by (simp add: moved_ok_def moved_view_def)
next
  case (Cons v ids)
  note ok = Cons.prems
  show ?case
    unfolding move_ids.simps wp_bind
  proof (rule wp_ZREM_retry [OF ok], goal_cases)
    case (1 w1)
    show ?case
    proof (cases "v \<in> retry_ids (qview q w)")
      case True
      then show ?thesis using wp_move_pushed [OF Cons.IH 1 True] by simp
    next
      case False
      then have "queue_upd q (\<lambda>x. x) w w1" using 1 zrem_idle by (simp add: queue_upd_def)
      then have "moved_ok q ids err w1 w' \<Longrightarrow> moved_ok q (v # ids) err w w'" for err w'
        using False by (auto simp: moved_ok_def queue_upd_def intro: moved_view_skip queue_frame_trans)
      with False wp_mono [OF Cons.IH [of w1]] 1 show ?thesis by (auto simp: queue_upd_def)
    qed
  next
    case (2 e w1)
    then show ?case
      by (auto simp: moved_ok_def queue_upd_def intro!: moved_view_fail)
  qed
qed

text \<open>The whole pass. The ids it looks at are those whose score is due.\<close>

definition due_ids :: "queue_view \<Rightarrow> int \<Rightarrow> int \<Rightarrow> string list" where
  "due_ids v hi n =
     take (nat n) (map fst (sort_key (\<lambda>(v, s). (s, v)) (filter (\<lambda>(_, s). s \<le> hi) (qv_retry v))))"

lemma run_ZRANGE_due:
  assumes "queue_ok q w" and "0 < n"
  shows "run_state (redis_ZRANGEBYSCORE now (RetryKey q) hi n) (w_kv w) =
           (Inr (due_ids (qview q w) hi n), put_zset (RetryKey q) (qv_retry (qview q w)) None (w_kv w))"
  using assms
  by (simp add: redis_ZRANGEBYSCORE_def redis_on_zset_spec queue_ok_def qview_def due_ids_def Let_def)

lemma wp_MoveDueRetryToReady:
  assumes ok: "queue_ok q w"
    and Q: "\<And>t n err w'. w_now w \<le> t \<Longrightarrow>
         moved_ok q (due_ids (qview q w) (UnixMilli t) (default_limit batch)) err w w' \<Longrightarrow> Q (n, err) w'"
    and unread: "\<And>n err w'. queue_upd q (\<lambda>v. v) w w' \<Longrightarrow> Q (n, Some err) w'"
  shows "wp (MoveDueRetryToReady q batch) Q w"
  unfolding MoveDueRetryToReady_def wp_bind
proof (rule wp_time_Now)
  fix t ts assume t: "w_now w \<le> t"
  let ?w = "w\<lparr>w_now := t, w_ticks := ts\<rparr>"
  let ?ids = "due_ids (qview q w) (UnixMilli t) (default_limit batch)"
  have ok': "queue_ok q ?w" and lim: "0 < default_limit batch"
    using ok by (simp_all add: default_limit_def)
  have same: "queue_upd q (\<lambda>v. v) w
      (?w\<lparr>w_faults := fs, w_kv := put_zset (RetryKey q) (qv_retry (qview q w)) None (w_kv w)\<rparr>)" for fs
    using queue_put_retry [OF ok, of "qv_retry (qview q w)" fs] t
    by (simp add: queue_upd_def queue_frame_def queue_ok_def qview_def)
  have moves: "wp (move_ids q ?ids 0) Q w2" if u: "queue_upd q (\<lambda>v. v) w w2" for w2
  proof (rule wp_mono [OF wp_move_ids])
    show "queue_ok q w2" using u by (simp add: queue_upd_def)
    fix r :: "int \<times> goerr option" and w'
    assume "(case r of (n, err) \<Rightarrow> \<lambda>w'. moved_ok q ?ids err w2 w') w'"
    then have "moved_ok q ?ids (snd r) w w'"
      using u queue_frame_trans [of q w w2 w'] by (auto simp: moved_ok_def queue_upd_def split_beta)
    then show "Q r w'" using Q [OF t] by (metis prod.collapse)
  qed
  show "wp (redis_exec (\<lambda>now. redis_ZRANGEBYSCORE now (RetryKey q) (UnixMilli t) (default_limit batch)))
     (\<lambda>a. wp (case a of Inl err \<Rightarrow> ret (0, Some err) | Inr xs \<Rightarrow> move_ids q xs 0) Q) ?w"
    using same [simplified] ok t
    by (intro wp_redis_known [OF run_ZRANGE_due [OF ok' lim]])
      (auto intro!: moves unread simp: queue_upd_def queue_frame_def)
qed

end
