(* ===== verification/OutboxRelay.thy ===== *)
theory OutboxRelay
  imports TaskQueue
begin

text \<open>
  examples/Quan/internal/outbox/relay.go: the relay that moves committed outbox events to
  the ready queue. The Go interfaces it is built on are records of operations; the locale
  \<open>relay_env\<close> states what it relies on of them, whatever fails, and \<open>relay_live\<close> what
  they do when nothing fails. Both are interpreted on the MySQL repository and the Redis
  queue.
\<close>

section \<open>Configuration\<close>

record RelayConfig =
  Relay_Enabled :: bool
  Relay_PollInterval :: int
  Relay_BatchSize :: int
  Relay_BackoffBase :: int
  Relay_DispatchTimeout :: int

definition RelayConfig_withDefaults :: "RelayConfig \<Rightarrow> RelayConfig" where
  "RelayConfig_withDefaults c =
     (let c = (if Relay_PollInterval c \<le> 0 then c\<lparr>Relay_PollInterval := 500 * Millisecond\<rparr> else c);
          c = (if Relay_BatchSize c \<le> 0 then c\<lparr>Relay_BatchSize := 100\<rparr> else c);
          c = (if Relay_BackoffBase c \<le> 0 then c\<lparr>Relay_BackoffBase := 1 * Second\<rparr> else c);
          c = (if Relay_DispatchTimeout c \<le> 0 then c\<lparr>Relay_DispatchTimeout := 5 * Second\<rparr> else c)
      in c)"

section \<open>The relay\<close>

record 's relayRepository =
  rr_ListDispatchable :: "int \<Rightarrow> ('s, outbox_Event list result) state"
  rr_CountPending :: "('s, int result) state"
  rr_TryMarkDispatching :: "int \<Rightarrow> ('s, bool result) state"
  rr_MarkPublished :: "int \<Rightarrow> ('s, unit result) state"
  rr_MarkRetry :: "int \<Rightarrow> int \<Rightarrow> string \<Rightarrow> ('s, unit result) state"
  rr_MarkSuspended :: "int \<Rightarrow> string \<Rightarrow> ('s, unit result) state"
  rr_RecoverStaleDispatching :: "int \<Rightarrow> int \<Rightarrow> ('s, int result) state"

record 's ReadyPublisher =
  rp_PublishReady :: "int \<Rightarrow> ('s, unit result) state"

record 's relayMetrics =
  rm_SetOutboxPending :: "int \<Rightarrow> ('s, unit) state"

definition noopRelayMetrics :: "'s relayMetrics" where
  "noopRelayMetrics = \<lparr>rm_SetOutboxPending = (\<lambda>_. ret ())\<rparr>"

text \<open>A relay: its configuration and, when it is enabled, what it is connected to.\<close>

record 's relay_ports =
  Relay_repo :: "'s relayRepository"
  Relay_publisher :: "'s ReadyPublisher"
  Relay_metrics :: "'s relayMetrics"

record 's Relay =
  Relay_cfg :: RelayConfig
  Relay_ports :: "'s relay_ports option"

definition NewRelay ::
  "'s relayRepository option \<Rightarrow> 's ReadyPublisher option \<Rightarrow> RelayConfig \<Rightarrow> 's Relay result"
where
  "NewRelay repo publisher cfg0 =
     (let cfg = RelayConfig_withDefaults cfg0 in
      if \<not> Relay_Enabled cfg then Inr \<lparr>Relay_cfg = cfg, Relay_ports = None\<rparr>
      else case repo of
        None \<Rightarrow> Inl (ErrNew ''outbox relay repository is nil'')
      | Some r \<Rightarrow> (case publisher of
          None \<Rightarrow> Inl (ErrNew ''outbox relay publisher is nil'')
        | Some p \<Rightarrow> Inr \<lparr>Relay_cfg = cfg,
              Relay_ports = Some \<lparr>Relay_repo = r, Relay_publisher = p,
                                  Relay_metrics = noopRelayMetrics\<rparr>\<rparr>))"

definition Relay_SetMetrics :: "'s Relay option \<Rightarrow> 's relayMetrics option \<Rightarrow> 's Relay option" where
  "Relay_SetMetrics r metrics = (case (r, metrics) of
     (Some x, Some m) \<Rightarrow> Some (x\<lparr>Relay_ports := map_option (\<lambda>p. p\<lparr>Relay_metrics := m\<rparr>) (Relay_ports x)\<rparr>)
   | _ \<Rightarrow> r)"

definition relayBackoff :: "int \<Rightarrow> int \<Rightarrow> int" where
  "relayBackoff retryCount base =
     (let n = (if retryCount < 0 then 0 else retryCount);
          n = (if n > 8 then 8 else n)
      in wrap64 (base * 2 ^ nat n))"

text \<open>One event of a batch; \<^verbatim>\<open>continue\<close> is a return without error.\<close>

definition dispatch_event ::
  "'s relayRepository \<Rightarrow> 's ReadyPublisher \<Rightarrow> RelayConfig \<Rightarrow> outbox_Event \<Rightarrow> ('s, unit result) state"
where
  "dispatch_event repo publisher cfg evt =
     bindE (rr_TryMarkDispatching repo (Event_ID evt)) (\<lambda>ok.
       if \<not> ok then returnE ()
       else case ParseTaskCreatedPayload (Event_PayloadJSON evt) of
         Inl parseErr \<Rightarrow> do {
           _ \<leftarrow> rr_MarkSuspended repo (Event_ID evt) (''invalid outbox payload: '' @ errstr parseErr);
           returnE () }
       | Inr taskID \<Rightarrow>
           if taskID \<le> 0 then do {
             _ \<leftarrow> rr_MarkSuspended repo (Event_ID evt) ''invalid task_id in outbox payload'';
             returnE () }
           else do {
             pub \<leftarrow> rp_PublishReady publisher taskID;
             case pub of
               Inl pubErr \<Rightarrow> do {
                 _ \<leftarrow> rr_MarkRetry repo (Event_ID evt)
                        (relayBackoff (Event_RetryCount evt) (Relay_BackoffBase cfg)) (errstr pubErr);
                 returnE () }
             | Inr _ \<Rightarrow> do { _ \<leftarrow> rr_MarkPublished repo (Event_ID evt); returnE () } })"

definition dispatchOnce ::
  "'s relayRepository \<Rightarrow> 's ReadyPublisher \<Rightarrow> RelayConfig \<Rightarrow> ('s, unit result) state"
where
  "dispatchOnce repo publisher cfg =
     bindE (rr_ListDispatchable repo (Relay_BatchSize cfg)) (\<lambda>events.
       forE events (dispatch_event repo publisher cfg))"

text \<open>
  One round of the loop in \<^verbatim>\<open>run\<close>. The clock is a parameter, since the relay reads it itself
  for the stale bound. The result is the error the loop logs.
\<close>

definition relay_round :: "('s, int) state \<Rightarrow> RelayConfig \<Rightarrow> 's relay_ports \<Rightarrow> ('s, unit result) state" where
  "relay_round clock cfg p = do {
     c \<leftarrow> rr_CountPending (Relay_repo p);
     _ \<leftarrow> (case c of Inr cnt \<Rightarrow> rm_SetOutboxPending (Relay_metrics p) cnt | Inl _ \<Rightarrow> ret ());
     now \<leftarrow> clock;
     _ \<leftarrow> rr_RecoverStaleDispatching (Relay_repo p) (now - Relay_DispatchTimeout cfg) (Relay_BatchSize cfg);
     dispatchOnce (Relay_repo p) (Relay_publisher p) cfg }"

text \<open>\<^verbatim>\<open>run\<close>, cancelled after the ticker has fired \<open>n\<close> times.\<close>

primrec relay_run :: "('s, int) state \<Rightarrow> RelayConfig \<Rightarrow> 's relay_ports \<Rightarrow> nat \<Rightarrow> ('s, unit) state" where
  "relay_run clock cfg p 0 = do { _ \<leftarrow> relay_round clock cfg p; ret () }"
| "relay_run clock cfg p (Suc n) = do { _ \<leftarrow> relay_round clock cfg p; relay_run clock cfg p n }"

text \<open>\<^verbatim>\<open>Start\<close> up to \<^verbatim>\<open>Stop\<close>: a nil or disabled relay does nothing.\<close>

definition Relay_StartStop :: "('s, int) state \<Rightarrow> 's Relay option \<Rightarrow> nat \<Rightarrow> ('s, unit) state" where
  "Relay_StartStop clock r n = (case r of
     None \<Rightarrow> ret ()
   | Some x \<Rightarrow>
       if \<not> Relay_Enabled (Relay_cfg x) then ret ()
       else case Relay_ports x of
         None \<Rightarrow> ret ()
       | Some p \<Rightarrow> relay_run clock (Relay_cfg x) p n)"

section \<open>Backoff and defaults\<close>

lemma relayBackoff_exact:
  assumes "0 \<le> base" "base < 2 ^ 55"
  shows "relayBackoff n base = base * 2 ^ nat (max 0 (min 8 n))"
proof -
  let ?k = "nat (max 0 (min 8 n))"
  have "(2::int) ^ ?k \<le> 2 ^ 8" by (rule power_increasing) auto
  then have "base * 2 ^ ?k \<le> base * 256" using assms(1) by (intro mult_left_mono) auto
  moreover have "0 \<le> base * 2 ^ ?k" using assms(1) by simp
  ultimately have "wrap64 (base * 2 ^ ?k) = base * 2 ^ ?k" using assms(2) by (intro wrap64_id) auto
  moreover have "relayBackoff n base = wrap64 (base * 2 ^ ?k)"
    by (simp add: relayBackoff_def Let_def max_def min_def)
  ultimately show ?thesis by simp
qed

lemma RelayConfig_withDefaults_pos:
  "0 < Relay_PollInterval (RelayConfig_withDefaults c)" "0 < Relay_BatchSize (RelayConfig_withDefaults c)"
  "0 < Relay_BackoffBase (RelayConfig_withDefaults c)" "0 < Relay_DispatchTimeout (RelayConfig_withDefaults c)"
  "Relay_Enabled (RelayConfig_withDefaults c) = Relay_Enabled c"
  by (simp_all add: RelayConfig_withDefaults_def Let_def Millisecond_def Second_def)

lemma NewRelay_connected:
  "NewRelay repo pub cfg = Inr r \<Longrightarrow> Relay_Enabled (Relay_cfg r) \<longleftrightarrow> Relay_ports r \<noteq> None"
  by (auto simp: NewRelay_def Let_def split: if_splits option.splits)

section \<open>What the relay relies on\<close>

text \<open>One event's status moves from one of \<open>S\<close> to \<open>T\<close>, or nothing happens.\<close>

definition status_move :: "string set \<Rightarrow> string \<Rightarrow> int \<Rightarrow> (int \<rightharpoonup> string) \<Rightarrow> (int \<rightharpoonup> string) \<Rightarrow> bool" where
  "status_move S T i m m' \<longleftrightarrow> m' = m \<or> (\<exists>s \<in> S. m i = Some s) \<and> m' = m(i \<mapsto> T)"

definition task_of_payload :: "json option \<Rightarrow> int option" where
  "task_of_payload p = (case p of
     None \<Rightarrow> None
   | Some j \<Rightarrow> (case ParseTaskCreatedPayload j of Inl _ \<Rightarrow> None | Inr t \<Rightarrow> if t \<le> 0 then None else Some t))"

text \<open>
  What may happen to one event while the ids \<open>ys\<close> are appended to the ready list: it is
  published only when its task's id is among them, and suspended only when its payload
  names no task; an event that is neither pending nor being dispatched does not move.
\<close>

definition relay_event :: "string list \<Rightarrow> json option \<Rightarrow> string option \<Rightarrow> string option \<Rightarrow> bool" where
  "relay_event ys p st st' \<longleftrightarrow>
     st' = st \<or>
     st \<in> {Some outbox_StatusPending, Some outbox_StatusDispatching} \<and>
     (st' \<in> {Some outbox_StatusPending, Some outbox_StatusDispatching} \<or>
      st' = Some outbox_StatusPublished \<and> (\<exists>t. task_of_payload p = Some t \<and> FormatInt t \<in> set ys) \<or>
      st' = Some outbox_StatusSuspended \<and> task_of_payload p = None)"

lemma relay_event_trans:
  "relay_event ys p a b \<Longrightarrow> relay_event zs p b c \<Longrightarrow> relay_event (ys @ zs) p a c"
  by (auto simp: relay_event_def)

lemma relay_event_refl [simp]: "relay_event ys p a a"
  by (simp add: relay_event_def)

locale relay_env =
  fixes repo :: "'s relayRepository"
    and pub :: "'s ReadyPublisher"
    and invar :: "'s \<Rightarrow> bool"
    and status :: "'s \<Rightarrow> int \<rightharpoonup> string"
    and payload :: "'s \<Rightarrow> int \<rightharpoonup> json"
    and ready :: "'s \<Rightarrow> string list"
  assumes list_law: "invar s \<Longrightarrow> wp (rr_ListDispatchable repo n)
      (\<lambda>r s'. invar s' \<and> status s' = status s \<and> payload s' = payload s \<and> ready s' = ready s \<and>
         (\<forall>es e. r = Inr es \<longrightarrow> e \<in> set es \<longrightarrow> payload s (Event_ID e) = Some (Event_PayloadJSON e))) s"
    and dispatching_law: "invar s \<Longrightarrow> wp (rr_TryMarkDispatching repo i)
      (\<lambda>r s'. invar s' \<and> payload s' = payload s \<and> ready s' = ready s \<and>
         status_move {outbox_StatusPending} outbox_StatusDispatching i (status s) (status s') \<and>
         (r = Inr True \<longrightarrow> status s' i = Some outbox_StatusDispatching)) s"
    and published_law: "invar s \<Longrightarrow> wp (rr_MarkPublished repo i)
      (\<lambda>r s'. invar s' \<and> payload s' = payload s \<and> ready s' = ready s \<and>
         status_move {outbox_StatusDispatching} outbox_StatusPublished i (status s) (status s')) s"
    and retry_law: "invar s \<Longrightarrow> wp (rr_MarkRetry repo i d m)
      (\<lambda>r s'. invar s' \<and> payload s' = payload s \<and> ready s' = ready s \<and>
         status_move {outbox_StatusDispatching} outbox_StatusPending i (status s) (status s')) s"
    and suspended_law: "invar s \<Longrightarrow> wp (rr_MarkSuspended repo i m)
      (\<lambda>r s'. invar s' \<and> payload s' = payload s \<and> ready s' = ready s \<and>
         status_move {outbox_StatusPending, outbox_StatusDispatching} outbox_StatusSuspended i
           (status s) (status s')) s"
    and publish_law: "invar s \<Longrightarrow> wp (rp_PublishReady pub t)
      (\<lambda>r s'. invar s' \<and> payload s' = payload s \<and> status s' = status s \<and>
         (ready s' = ready s @ [FormatInt t] \<or> (\<exists>e. r = Inl e) \<and> ready s' = ready s)) s"
    and count_law: "invar s \<Longrightarrow> wp (rr_CountPending repo)
      (\<lambda>r s'. invar s' \<and> payload s' = payload s \<and> status s' = status s \<and> ready s' = ready s) s"
    and recover_law: "invar s \<Longrightarrow> wp (rr_RecoverStaleDispatching repo t n)
      (\<lambda>r s'. invar s' \<and> payload s' = payload s \<and> ready s' = ready s \<and>
         (\<forall>i. status s' i = status s i \<or>
              status s i = Some outbox_StatusDispatching \<and> status s' i = Some outbox_StatusPending)) s"
begin

definition relay_safe :: "'s \<Rightarrow> 's \<Rightarrow> bool" where
  "relay_safe s s' \<longleftrightarrow>
     invar s' \<and> payload s' = payload s \<and>
     (\<exists>ys. ready s' = ready s @ ys \<and> (\<forall>i. relay_event ys (payload s i) (status s i) (status s' i)))"

lemma relay_safe_refl: "invar s \<Longrightarrow> relay_safe s s"
  by (simp add: relay_safe_def)

lemma relay_safe_trans: "relay_safe s t \<Longrightarrow> relay_safe t u \<Longrightarrow> relay_safe s u"
  unfolding relay_safe_def by (metis append.assoc relay_event_trans)

lemma relay_safe_invar: "relay_safe s t \<Longrightarrow> invar t"
  by (simp add: relay_safe_def)

text \<open>Steps that push nothing.\<close>

lemma relay_safe_move:
  assumes "invar s'" "payload s' = payload s" "ready s' = ready s"
    and "status_move S T i (status s) (status s')"
    and "S \<subseteq> {outbox_StatusPending, outbox_StatusDispatching}"
    and "T \<in> {outbox_StatusPending, outbox_StatusDispatching} \<or>
         T = outbox_StatusSuspended \<and> task_of_payload (payload s i) = None"
  shows "relay_safe s s'"
proof -
  have "relay_event [] (payload s j) (status s j) (status s' j)" for j
    using assms(4-6) by (cases "j = i") (auto simp: status_move_def relay_event_def)
  with assms(1-3) show ?thesis by (auto simp: relay_safe_def)
qed

text \<open>The push and the mark after it, taken together.\<close>

lemma relay_safe_publish:
  assumes "payload s1 = payload s" "status s1 = status s" "ready s1 = ready s @ [FormatInt t]"
    and "invar s2" "payload s2 = payload s1" "ready s2 = ready s1"
    and "status_move {outbox_StatusDispatching} outbox_StatusPublished i (status s1) (status s2)"
    and "task_of_payload (payload s i) = Some t"
  shows "relay_safe s s2"
proof -
  have "relay_event [FormatInt t] (payload s j) (status s j) (status s2 j)" for j
    using assms by (cases "j = i") (auto simp: status_move_def relay_event_def)
  with assms show ?thesis by (auto simp: relay_safe_def)
qed

lemma relay_safe_failed_push:
  assumes "payload s1 = payload s" "status s1 = status s" "ready s1 = ready s @ [FormatInt t] \<or> ready s1 = ready s"
    and "invar s2" "payload s2 = payload s1" "ready s2 = ready s1"
    and "status_move {outbox_StatusDispatching} outbox_StatusPending i (status s1) (status s2)"
  shows "relay_safe s s2"
proof -
  have "relay_event ys (payload s j) (status s j) (status s2 j)" for j ys
    using assms by (cases "j = i") (auto simp: status_move_def relay_event_def)
  with assms show ?thesis by (auto simp: relay_safe_def)
qed

lemma wp_deliver:
  assumes "invar s" and "task_of_payload (payload s i) = Some t"
  shows "wp (do {
           r \<leftarrow> rp_PublishReady pub t;
           case r of
             Inl pubErr \<Rightarrow> do { _ \<leftarrow> rr_MarkRetry repo i d (errstr pubErr); returnE () }
           | Inr _ \<Rightarrow> do { _ \<leftarrow> rr_MarkPublished repo i; returnE () } }) (\<lambda>_ s'. relay_safe s s') s"
  unfolding wp_bind
proof (rule wp_mono [OF publish_law [OF assms(1)]], goal_cases)
  case (1 r s1)
  then show ?case
  proof (cases r)
    case (Inl e)
    show ?thesis unfolding Inl sum.case wp_bind wp_returnE
      by (rule wp_mono [OF retry_law]) (use 1 in \<open>auto intro: relay_safe_failed_push\<close>)
  next
    case (Inr u)
    show ?thesis unfolding Inr sum.case wp_bind wp_returnE
      by (rule wp_mono [OF published_law]) (use 1 Inr assms(2) in \<open>auto intro: relay_safe_publish\<close>)
  qed
qed

lemma wp_suspend:
  assumes "invar s" and "task_of_payload (payload s i) = None"
  shows "wp (do { _ \<leftarrow> rr_MarkSuspended repo i m; returnE () }) (\<lambda>_ s'. relay_safe s s') s"
  unfolding wp_bind wp_returnE
  by (rule wp_mono [OF suspended_law [OF assms(1)]]) (use assms in \<open>auto intro: relay_safe_move\<close>)

lemma wp_dispatch_event:
  assumes "invar s" and p: "payload s (Event_ID evt) = Some (Event_PayloadJSON evt)"
  shows "wp (dispatch_event repo pub cfg evt) (\<lambda>_ s'. relay_safe s s') s"
  unfolding dispatch_event_def wp_bindE
proof (rule wp_mono [OF dispatching_law [OF assms(1)]], goal_cases)
  case (1 r s1)
  then have s1: "relay_safe s s1" by (auto intro: relay_safe_move)
  have inv1: "invar s1" and p1: "payload s1 (Event_ID evt) = Some (Event_PayloadJSON evt)"
    using 1 p by auto
  have rest: "wp m (\<lambda>_ s'. relay_safe s s') s1" if "wp m (\<lambda>_ s'. relay_safe s1 s') s1" for m
    using that by (rule wp_mono) (rule relay_safe_trans [OF s1])
  show ?case
  proof (cases r)
    case (Inl e)
    then show ?thesis using s1 by simp
  next
    case (Inr ok)
    then show ?thesis
      using s1 p1 inv1
      by (auto simp: task_of_payload_def simp del: wp_bind split: sum.split
          intro!: rest wp_suspend wp_deliver)
  qed
qed

lemma wp_dispatchOnce:
  assumes "invar s"
  shows "wp (dispatchOnce repo pub cfg) (\<lambda>_ s'. relay_safe s s') s"
  unfolding dispatchOnce_def wp_bindE
proof (rule wp_mono [OF list_law [OF assms]], goal_cases)
  case (1 r s1)
  then have s1: "relay_safe s s1" by (auto simp: relay_safe_def)
  have "wp (forE es (dispatch_event repo pub cfg)) (\<lambda>_. relay_safe s) s1" if es: "r = Inr es" for es
  proof (rule wp_forE_invariant [where I = "relay_safe s", OF s1])
    fix e t
    assume e: "e \<in> set es" and t: "relay_safe s t"
    then have "invar t" "payload t (Event_ID e) = Some (Event_PayloadJSON e)"
      using 1 es by (auto simp: relay_safe_def)
    then show "wp (dispatch_event repo pub cfg e) (\<lambda>_. relay_safe s) t"
      by (rule wp_mono [OF wp_dispatch_event]) (rule relay_safe_trans [OF t])
  qed
  with s1 show ?case by (auto split: sum.split)
qed

end

text \<open>The loop around it, which also reads the clock and reports a gauge.\<close>

locale relay_loop = relay_env repo pub invar status payload ready
  for repo :: "'s relayRepository" and pub and invar and status and payload and ready +
  fixes clock :: "('s, int) state" and mets :: "'s relayMetrics"
  assumes clock_law: "invar s \<Longrightarrow> wp clock
      (\<lambda>r s'. invar s' \<and> payload s' = payload s \<and> status s' = status s \<and> ready s' = ready s) s"
    and metrics_law: "invar s \<Longrightarrow> wp (rm_SetOutboxPending mets n)
      (\<lambda>r s'. invar s' \<and> payload s' = payload s \<and> status s' = status s \<and> ready s' = ready s) s"
begin

definition ports :: "'s relay_ports" where
  "ports = \<lparr>Relay_repo = repo, Relay_publisher = pub, Relay_metrics = mets\<rparr>"

lemma relay_safe_same:
  assumes "invar s'" "payload s' = payload s" "status s' = status s" "ready s' = ready s"
  shows "relay_safe s s'"
  using assms by (simp add: relay_safe_def)

lemma relay_safe_recover:
  assumes "invar s'" "payload s' = payload s" "ready s' = ready s"
    and "\<forall>i. status s' i = status s i \<or>
              status s i = Some outbox_StatusDispatching \<and> status s' i = Some outbox_StatusPending"
  shows "relay_safe s s'"
proof -
  have "relay_event [] (payload s i) (status s i) (status s' i)" for i
    using assms(4) [rule_format, of i] by (auto simp: relay_event_def)
  with assms show ?thesis by (simp add: relay_safe_def)
qed

text \<open>Composition of safe steps.\<close>

lemma wp_then_safe:
  assumes "wp m (\<lambda>_ t. relay_safe s t) s" and "\<And>a t. relay_safe s t \<Longrightarrow> invar t \<Longrightarrow> wp (f a) (\<lambda>_ u. relay_safe t u) t"
  shows "wp (State_Monad.bind m f) (\<lambda>_ u. relay_safe s u) s"
  unfolding wp_bind
proof (rule wp_mono [OF assms(1)])
  fix a t assume t: "relay_safe s t"
  show "wp (f a) (\<lambda>_ u. relay_safe s u) t"
    by (rule wp_mono [OF assms(2) [OF t relay_safe_invar [OF t]]]) (rule relay_safe_trans [OF t])
qed

lemma wp_relay_round:
  assumes "invar s"
  shows "wp (relay_round clock cfg ports) (\<lambda>_ s'. relay_safe s s') s"
  unfolding relay_round_def ports_def relay_ports.simps
proof (rule wp_then_safe, goal_cases)
  case 1
  show ?case by (rule wp_mono [OF count_law [OF assms]]) (auto intro: relay_safe_same)
next
  case (2 c t)
  show ?case
  proof (rule wp_then_safe, goal_cases)
    case 1
    show ?case using 2 metrics_law [OF 2(2)]
      by (auto simp: relay_safe_refl split: sum.split intro!: wp_mono [OF metrics_law] intro: relay_safe_same)
  next
    case (2 u t)
    show ?case
    proof (rule wp_then_safe, goal_cases)
      case 1
      show ?case by (rule wp_mono [OF clock_law [OF 2(2)]]) (auto intro: relay_safe_same)
    next
      case (2 now t)
      show ?case
        by (rule wp_then_safe)
          (auto intro!: wp_mono [OF recover_law [OF 2(2)]] wp_dispatchOnce intro: relay_safe_recover)
    qed
  qed
qed

lemma wp_relay_run:
  "invar s \<Longrightarrow> wp (relay_run clock cfg ports n) (\<lambda>_ s'. relay_safe s s') s"
proof (induction n arbitrary: s)
  case 0
  then show ?case using wp_relay_round by simp
next
  case (Suc n)
  show ?case unfolding relay_run.simps
    by (rule wp_then_safe [OF wp_relay_round [OF Suc.prems] Suc.IH])
qed

end

text \<open>When nothing fails, every event of the batch is delivered.\<close>

locale relay_live = relay_env repo pub invar status payload ready
  for repo :: "'s relayRepository" and pub and invar and status and payload and ready +
  fixes quiet :: "'s \<Rightarrow> bool" and due :: "'s \<Rightarrow> int \<Rightarrow> int list"
  assumes list_quiet: "invar s \<Longrightarrow> quiet s \<Longrightarrow> wp (rr_ListDispatchable repo n)
      (\<lambda>r s'. quiet s' \<and> (\<exists>es. r = Inr es \<and> map Event_ID es = due s n)) s"
    and due_pending: "invar s \<Longrightarrow> i \<in> set (due s n) \<Longrightarrow> status s i = Some outbox_StatusPending"
    and due_distinct: "invar s \<Longrightarrow> distinct (due s n)"
    and dispatching_quiet: "invar s \<Longrightarrow> quiet s \<Longrightarrow> status s i = Some outbox_StatusPending \<Longrightarrow>
      wp (rr_TryMarkDispatching repo i) (\<lambda>r s'. quiet s' \<and> r = Inr True) s"
    and published_quiet: "invar s \<Longrightarrow> quiet s \<Longrightarrow> status s i = Some outbox_StatusDispatching \<Longrightarrow>
      wp (rr_MarkPublished repo i) (\<lambda>r s'. quiet s' \<and> status s' i = Some outbox_StatusPublished) s"
    and suspended_quiet: "invar s \<Longrightarrow> quiet s \<Longrightarrow> wp (rr_MarkSuspended repo i m) (\<lambda>r s'. quiet s') s"
    and publish_quiet: "invar s \<Longrightarrow> quiet s \<Longrightarrow> wp (rp_PublishReady pub t) (\<lambda>r s'. quiet s' \<and> r = Inr ()) s"
begin

definition delivered :: "json option \<Rightarrow> int \<Rightarrow> 's \<Rightarrow> bool" where
  "delivered p i s \<longleftrightarrow> (\<forall>t. task_of_payload p = Some t \<longrightarrow>
     status s i = Some outbox_StatusPublished \<and> FormatInt t \<in> set (ready s))"

lemma delivered_stays: "relay_safe s s' \<Longrightarrow> delivered p i s \<Longrightarrow> delivered p i s'"
proof (unfold delivered_def, intro allI impI)
  fix t assume safe: "relay_safe s s'" and t: "task_of_payload p = Some t"
    and "\<forall>t. task_of_payload p = Some t \<longrightarrow> status s i = Some outbox_StatusPublished \<and> FormatInt t \<in> set (ready s)"
  then have s: "status s i = Some outbox_StatusPublished" "FormatInt t \<in> set (ready s)" by auto
  from safe obtain ys where ys: "ready s' = ready s @ ys"
    "relay_event ys (payload s i) (status s i) (status s' i)"
    unfolding relay_safe_def by blast
  from ys(2) s(1) have "status s' i = Some outbox_StatusPublished" by (auto simp: relay_event_def)
  with s(2) ys(1) show "status s' i = Some outbox_StatusPublished \<and> FormatInt t \<in> set (ready s')" by simp
qed

lemma wp_deliver_quiet:
  assumes "invar s" "quiet s" "status s i = Some outbox_StatusDispatching"
  shows "wp (do {
           r \<leftarrow> rp_PublishReady pub t;
           case r of
             Inl pubErr \<Rightarrow> do { _ \<leftarrow> rr_MarkRetry repo i d (errstr pubErr); returnE () }
           | Inr _ \<Rightarrow> do { _ \<leftarrow> rr_MarkPublished repo i; returnE () } })
         (\<lambda>r s'. r = Inr () \<and> quiet s' \<and> status s' i = Some outbox_StatusPublished \<and>
            FormatInt t \<in> set (ready s') \<and> (\<forall>j. j \<noteq> i \<longrightarrow> status s' j = status s j)) s"
  unfolding wp_bind
proof (rule wp_mono [OF wp_conj [OF publish_law [OF assms(1)] publish_quiet [OF assms(1,2)]]], goal_cases)
  case (1 r s1)
  then have r: "r = Inr ()" and s1: "invar s1" "quiet s1" "status s1 i = Some outbox_StatusDispatching"
    using assms(3) by auto
  show ?case unfolding r sum.case wp_bind wp_returnE
    by (rule wp_mono [OF wp_conj [OF published_law [OF s1(1)] published_quiet [OF s1]]])
      (use 1 in \<open>auto simp: status_move_def\<close>)
qed

lemma wp_suspend_quiet:
  assumes "invar s" "quiet s"
  shows "wp (do { _ \<leftarrow> rr_MarkSuspended repo i m; returnE () })
           (\<lambda>r s'. r = Inr () \<and> quiet s' \<and> (\<forall>j. j \<noteq> i \<longrightarrow> status s' j = status s j)) s"
  unfolding wp_bind wp_returnE
  by (rule wp_mono [OF wp_conj [OF suspended_law suspended_quiet]])
    (use assms in \<open>auto simp: status_move_def\<close>)

lemma wp_dispatch_event_quiet:
  assumes "invar s" "quiet s" "status s (Event_ID evt) = Some outbox_StatusPending"
    and p: "payload s (Event_ID evt) = Some (Event_PayloadJSON evt)"
  shows "wp (dispatch_event repo pub cfg evt)
           (\<lambda>r s'. r = Inr () \<and> quiet s' \<and> delivered (payload s (Event_ID evt)) (Event_ID evt) s' \<and>
              (\<forall>j. j \<noteq> Event_ID evt \<longrightarrow> status s' j = status s j)) s"
  unfolding dispatch_event_def wp_bindE
proof (rule wp_mono [OF wp_conj [OF dispatching_law [OF assms(1)] dispatching_quiet [OF assms(1-3)]]], goal_cases)
  case (1 r s1)
  then have r: "r = Inr True" and s1: "invar s1" "quiet s1"
      "status s1 (Event_ID evt) = Some outbox_StatusDispatching"
    and frame: "\<forall>j. j \<noteq> Event_ID evt \<longrightarrow> status s1 j = status s j"
    by (auto simp: status_move_def)
  show ?case
  proof (cases "task_of_payload (payload s (Event_ID evt))")
    case None
    show ?thesis
      using None r p frame
      by (auto simp: task_of_payload_def delivered_def simp del: wp_bind split: sum.splits if_splits
          intro!: wp_mono [OF wp_suspend_quiet [OF s1(1,2)]])
  next
    case (Some t)
    then have "ParseTaskCreatedPayload (Event_PayloadJSON evt) = Inr t" "\<not> t \<le> 0"
      using p by (auto simp: task_of_payload_def split: sum.splits if_splits)
    then show ?thesis
      using wp_mono [OF wp_deliver_quiet [OF s1, of t]] Some r frame
      by (auto simp: delivered_def simp del: wp_bind)
  qed
qed

lemma wp_dispatch_all_quiet:
  assumes "invar s" "quiet s" "distinct (map Event_ID es)"
    and "\<forall>e \<in> set es. status s (Event_ID e) = Some outbox_StatusPending \<and>
           payload s (Event_ID e) = Some (Event_PayloadJSON e)"
  shows "wp (forE es (dispatch_event repo pub cfg))
           (\<lambda>r s'. r = Inr () \<and> quiet s' \<and>
              (\<forall>e \<in> set es. delivered (payload s (Event_ID e)) (Event_ID e) s')) s"
  using assms
proof (induction es arbitrary: s)
  case Nil
  then show ?case by simp
next
  case (Cons e es)
  have e: "status s (Event_ID e) = Some outbox_StatusPending" "payload s (Event_ID e) = Some (Event_PayloadJSON e)"
    using Cons.prems(4) by auto
  show ?case unfolding forE.simps wp_bindE
  proof (rule wp_mono [OF wp_conj [OF wp_dispatch_event [OF Cons.prems(1) e(2)]
            wp_dispatch_event_quiet [OF Cons.prems(1,2) e]]], goal_cases)
    case (1 r s1)
    then have p: "payload s1 = payload s" and r: "r = Inr ()" and inv: "invar s1" "quiet s1"
      by (auto simp: relay_safe_def)
    have "wp (forE es (dispatch_event repo pub cfg))
           (\<lambda>r s'. r = Inr () \<and> quiet s' \<and>
              (\<forall>e \<in> set es. delivered (payload s1 (Event_ID e)) (Event_ID e) s')) s1"
      by (rule Cons.IH [OF inv]) (use Cons.prems(3,4) 1 p in \<open>auto simp: image_iff\<close>)
    moreover have "wp (forE es (dispatch_event repo pub cfg)) (\<lambda>_. relay_safe s1) s1"
    proof (rule wp_forE_invariant [where I = "relay_safe s1", OF relay_safe_refl [OF inv(1)]])
      fix x t assume x: "x \<in> set es" and t: "relay_safe s1 t"
      then have "invar t" "payload t (Event_ID x) = Some (Event_PayloadJSON x)"
        using Cons.prems(4) p by (auto simp: relay_safe_def)
      then show "wp (dispatch_event repo pub cfg x) (\<lambda>_. relay_safe s1) t"
        by (rule wp_mono [OF wp_dispatch_event]) (rule relay_safe_trans [OF t])
    qed
    ultimately show ?case unfolding r sum.case
      by (rule wp_mono [OF wp_conj]) (use 1 p in \<open>auto intro: delivered_stays\<close>)
  qed
qed

lemma wp_dispatchOnce_quiet:
  assumes "invar s" "quiet s"
  shows "wp (dispatchOnce repo pub cfg)
           (\<lambda>r s'. r = Inr () \<and> quiet s' \<and>
              (\<forall>i \<in> set (due s (Relay_BatchSize cfg)). delivered (payload s i) i s')) s"
  unfolding dispatchOnce_def wp_bindE
proof (rule wp_mono [OF wp_conj [OF list_law [OF assms(1)] list_quiet [OF assms]]], goal_cases)
  case (1 r s1)
  then obtain es where r: "r = Inr es" and ids: "map Event_ID es = due s (Relay_BatchSize cfg)"
    and s1: "invar s1" "quiet s1" "status s1 = status s" "payload s1 = payload s" by auto
  have mem: "Event_ID e \<in> set (due s (Relay_BatchSize cfg))" if "e \<in> set es" for e
    using that unfolding ids [symmetric] by simp
  have "wp (forE es (dispatch_event repo pub cfg))
           (\<lambda>r s'. r = Inr () \<and> quiet s' \<and>
              (\<forall>e \<in> set es. delivered (payload s1 (Event_ID e)) (Event_ID e) s')) s1"
    by (rule wp_dispatch_all_quiet [OF s1(1,2)])
      (use 1 r s1 ids mem due_distinct [OF assms(1)] due_pending [OF assms(1)] in auto)
  then show ?case unfolding r sum.case
    by (rule wp_mono) (use s1 in \<open>auto simp: ids [symmetric]\<close>)
qed

end

section \<open>The relay on MySQL and Redis\<close>

definition outbox_repository :: "world relayRepository" where
  "outbox_repository =
     \<lparr>rr_ListDispatchable = ListDispatchable, rr_CountPending = CountPending,
      rr_TryMarkDispatching = TryMarkDispatching, rr_MarkPublished = MarkPublished,
      rr_MarkRetry = MarkRetry, rr_MarkSuspended = outbox_MarkSuspended,
      rr_RecoverStaleDispatching = RecoverStaleDispatching\<rparr>"

definition queue_publisher :: "QueueConfig \<Rightarrow> world ReadyPublisher" where
  "queue_publisher q = \<lparr>rp_PublishReady = PublishReady q\<rparr>"

definition outbox_metrics :: "world relayMetrics" where
  "outbox_metrics = \<lparr>rm_SetOutboxPending = (\<lambda>n. metric (SetOutboxPending n))\<rparr>"

lemma outbox_ports [simp]:
  "rr_ListDispatchable outbox_repository = ListDispatchable"
  "rr_CountPending outbox_repository = CountPending"
  "rr_TryMarkDispatching outbox_repository = TryMarkDispatching"
  "rr_MarkPublished outbox_repository = MarkPublished"
  "rr_MarkRetry outbox_repository = MarkRetry"
  "rr_MarkSuspended outbox_repository = outbox_MarkSuspended"
  "rr_RecoverStaleDispatching outbox_repository = RecoverStaleDispatching"
  "rp_PublishReady (queue_publisher q) = PublishReady q"
  "rm_SetOutboxPending outbox_metrics = (\<lambda>n. metric (SetOutboxPending n))"
  by (simp_all add: outbox_repository_def queue_publisher_def outbox_metrics_def)

definition relay_inv :: "QueueConfig \<Rightarrow> world \<Rightarrow> bool" where
  "relay_inv q w \<longleftrightarrow> queue_ok q w \<and> distinct (map ev_event_id (db_events (w_db w)))"

definition event_status :: "world \<Rightarrow> int \<rightharpoonup> string" where
  "event_status w i = map_option ev_status (outbox_row w i)"

definition event_payload :: "world \<Rightarrow> int \<rightharpoonup> json" where
  "event_payload w i = map_option ev_payload_json (outbox_row w i)"

definition ready_list :: "QueueConfig \<Rightarrow> world \<Rightarrow> string list" where
  "ready_list q w = qv_ready (qview q w)"

lemmas relay_views = relay_inv_def event_status_def event_payload_def ready_list_def

lemma relay_views_idle:
  assumes "idle w w'"
  shows "relay_inv q w' = relay_inv q w" "event_status w' = event_status w"
    "event_payload w' = event_payload w" "ready_list q w' = ready_list q w"
  using assms queue_same_env [of w w' q] outbox_row_idle [OF assms]
  by (auto simp: relay_views idle_def fun_eq_iff)

lemma map_ids_upd:
  "(\<And>e. ev_event_id (upd e) = ev_event_id e) \<Longrightarrow>
     map ev_event_id (map (\<lambda>e. if p e then upd e else e) es) = map ev_event_id es"
  by simp

lemma relay_views_upd:
  assumes "events_upd p upd w w'"
    and "\<And>e. ev_event_id (upd e) = ev_event_id e" "\<And>e. ev_payload_json (upd e) = ev_payload_json e"
  shows "relay_inv q w' = relay_inv q w" "event_payload w' = event_payload w" "ready_list q w' = ready_list q w"
    "event_status w' i = (case outbox_row w i of None \<Rightarrow> None | Some e \<Rightarrow> Some (ev_status (if p e then upd e else e)))"
proof -
  have env: "queue_ok q w' = queue_ok q w" "qview q w' = qview q w"
    using assms(1) queue_same_env [of w w' q] by (auto simp: events_upd_def)
  have "map ev_event_id (db_events (w_db w')) = map ev_event_id (db_events (w_db w))"
    using assms(1,2) by (auto simp: events_upd_def)
  with env show "relay_inv q w' = relay_inv q w" "ready_list q w' = ready_list q w"
    by (simp_all add: relay_inv_def ready_list_def)
  show "event_payload w' = event_payload w"
    using assms(3) by (auto simp: event_payload_def fun_eq_iff outbox_row_upd [OF assms(1,2)]
        option.map_comp o_def intro!: option.map_cong)
  show "event_status w' i = (case outbox_row w i of None \<Rightarrow> None | Some e \<Rightarrow> Some (ev_status (if p e then upd e else e)))"
    by (auto simp: event_status_def outbox_row_upd [OF assms(1,2)] split: option.split)
qed

lemma outbox_row_id: "outbox_row w i = Some e \<Longrightarrow> ev_event_id e = i \<and> e \<in> set (db_events (w_db w))"
  by (auto simp: outbox_row_def dest!: sql_row_Some_iff)

lemma outbox_row_member:
  assumes "distinct (map ev_event_id (db_events (w_db w)))" "e \<in> set (db_events (w_db w))"
  shows "outbox_row w (ev_event_id e) = Some e"
proof (cases "outbox_row w (ev_event_id e)")
  case None
  then show ?thesis using assms(2) by (auto simp: outbox_row_def sql_row_None_iff)
next
  case (Some e')
  then have "ev_event_id e' = ev_event_id e" "e' \<in> set (db_events (w_db w))" by (auto dest: outbox_row_id)
  with assms have "e' = e" by (auto simp: distinct_map inj_on_def)
  with Some show ?thesis by simp
qed

lemma stale_event_row:
  assumes "distinct (map ev_event_id (db_events (w_db w)))"
    and "outbox_row w i = Some e" "i \<in> set (stale_events t n (w_db w))"
  shows "ev_status e = outbox_StatusDispatching"
proof -
  obtain x where x: "x \<in> set (db_events (w_db w))" "ev_status x = outbox_StatusDispatching" "ev_event_id x = i"
    using assms(3) by (auto simp: stale_events_def dest!: sql_limit_orderD)
  with outbox_row_member [OF assms(1) x(1)] assms(2) show ?thesis by simp
qed

text \<open>An update of one event is a move of its status.\<close>

lemma relay_move_upd:
  assumes "events_upd (event_at i S) upd w w'"
    and "\<And>e. ev_event_id (upd e) = ev_event_id e" "\<And>e. ev_payload_json (upd e) = ev_payload_json e"
    and T: "\<And>e. ev_status (upd e) = T"
  shows "status_move S T i (event_status w) (event_status w')"
proof -
  have st: "event_status w' j = (case outbox_row w j of None \<Rightarrow> None
      | Some e \<Rightarrow> Some (if j = i \<and> ev_status e \<in> S then T else ev_status e))" for j
    using relay_views_upd(4) [OF assms(1-3), of j] outbox_row_id [of w j] T
    by (auto split: option.splits)
  show ?thesis
  proof (cases "\<exists>e. outbox_row w i = Some e \<and> ev_status e \<in> S")
    case True
    then have "event_status w' = (event_status w)(i \<mapsto> T)"
      by (auto simp: fun_eq_iff st event_status_def [of w] split: option.split)
    with True show ?thesis by (auto simp: status_move_def event_status_def)
  next
    case False
    then have "event_status w' = event_status w"
      by (auto simp: fun_eq_iff st event_status_def [of w] split: option.split)
    then show ?thesis by (simp add: status_move_def)
  qed
qed

lemma relay_views_queue:
  assumes "queue_upd q f w w'" "relay_inv q w"
  shows "relay_inv q w'" "event_status w' = event_status w" "event_payload w' = event_payload w"
    "ready_list q w' = qv_ready (f (qview q w))"
  using assms by (auto simp: queue_upd_def queue_frame_def relay_views outbox_row_def fun_eq_iff)

interpretation outbox_relay:
  relay_loop outbox_repository "queue_publisher q" "relay_inv q" event_status event_payload
    "ready_list q" time_Now outbox_metrics for q
proof (unfold_locales, goal_cases)
  case (1 s n)
  have "event_payload s (Event_ID e) = Some (Event_PayloadJSON e)"
    if "e \<in> event_of_row ` set (dispatchable_events now k (w_db s))" for e now k
    using that 1
    by (auto simp: dispatchable_events_def event_of_row_def event_payload_def relay_inv_def outbox_row_member
        dest!: sql_limit_orderD)
  with 1 show ?case by (auto intro!: wp_ListDispatchable simp: relay_views_idle)
next
  case (2 s i)
  then have "e \<in> set (db_events (w_db s)) \<Longrightarrow> outbox_row s (ev_event_id e) = Some e" for e
    by (simp add: relay_inv_def outbox_row_member)
  with 2 show ?case
    by (auto intro!: wp_TryMarkDispatching simp: relay_views_idle relay_views_upd status_move_def
        dest: relay_move_upd [where T = outbox_StatusDispatching])
next
  case (3 s i)
  then show ?case
    by (auto intro!: wp_MarkPublished simp: relay_views_idle relay_views_upd
        simp: status_move_def dest: relay_move_upd [where T = outbox_StatusPublished])
next
  case (4 s i d m)
  then show ?case
    by (auto intro!: wp_MarkRetry simp: relay_views_idle relay_views_upd
        simp: status_move_def dest: relay_move_upd [where T = outbox_StatusPending])
next
  case (5 s i m)
  then show ?case
    by (auto intro!: wp_outbox_MarkSuspended simp: relay_views_idle relay_views_upd
        simp: status_move_def dest: relay_move_upd [where T = outbox_StatusSuspended])
next
  case (6 s t)
  then show ?case
    by (auto intro!: wp_PublishReady simp: relay_views_queue) (auto simp: relay_inv_def ready_list_def)
next
  case (7 s)
  then show ?case by (auto intro!: wp_CountPending simp: relay_views_idle)
next
  case (8 s t n)
  then have "event_status w' i = event_status s i \<or>
      event_status s i = Some outbox_StatusDispatching \<and> event_status w' i = Some outbox_StatusPending"
    if "events_upd (\<lambda>e. ev_event_id e \<in> set (stale_events t k (w_db s))) (recovered_row now) s w'" for w' i k now
    using relay_views_upd(4) [OF that, of i] stale_event_row [of s i _ t k] outbox_row_id [of s i]
    by (fastforce simp: event_status_def [of s] relay_inv_def split: option.splits)
  with 8 show ?case
    by (auto intro!: wp_RecoverStaleDispatching simp: relay_views_idle relay_views_upd(1-3))
next
  case (9 s)
  then show ?case
    by (auto intro!: wp_time_Now simp: relay_views fun_eq_iff outbox_row_def)
next
  case (10 s n)
  then show ?case by (simp add: relay_views fun_eq_iff outbox_row_def queue_ok_def qview_def)
qed

definition due_events :: "world \<Rightarrow> int \<Rightarrow> int list" where
  "due_events w n = map ev_event_id (dispatchable_events (w_now w) (default_limit n) (w_db w))"

interpretation outbox_relay_calm:
  relay_live outbox_repository "queue_publisher q" "relay_inv q" event_status event_payload
    "ready_list q" calm due_events for q
proof (unfold_locales, goal_cases)
  case (1 s n)
  then show ?case
    by (simp add: wp_def ListDispatchable_def query_rows_def due_events_def event_of_row_def o_def)
next
  case (2 s i n)
  then obtain e where e: "e \<in> set (dispatchable_events (w_now s) (default_limit n) (w_db s))" "i = ev_event_id e"
    by (auto simp: due_events_def)
  then have "e \<in> set (db_events (w_db s))" "ev_status e = outbox_StatusPending"
    by (auto simp: dispatchable_events_def dest!: sql_limit_orderD)
  with 2 e(2) show ?case by (simp add: event_status_def relay_inv_def outbox_row_member)
next
  case (3 s n)
  have "inj_on f A \<Longrightarrow> B \<subseteq> A \<Longrightarrow> inj_on f B" for f :: "event_row \<Rightarrow> int" and A B
    by (rule inj_on_subset)
  with 3 show ?case
    unfolding due_events_def dispatchable_events_def sql_limit_def sql_order_by_def sql_select_def
      relay_inv_def take_map [symmetric]
    by (intro distinct_take) (auto simp: distinct_map)
next
  case (4 s i)
  then have "\<exists>e \<in> set (db_events (w_db s)). ev_event_id e = i \<and> ev_status e = outbox_StatusPending"
    by (auto simp: event_status_def dest: outbox_row_id)
  with 4 show ?case
    by (auto simp: wp_def TryMarkDispatching_def update_events_def fst_sql_update_pos
        dispatching_row_def [symmetric] dispatching_changes)
next
  case (5 s i)
  then obtain e where e: "sql_row (\<lambda>e. ev_event_id e = i) (db_events (w_db s)) = Some e"
      "ev_event_id e = i" "ev_status e = outbox_StatusDispatching"
    by (auto simp: event_status_def outbox_row_def dest: sql_row_Some_iff)
  with 5 show ?case
    by (simp add: wp_def MarkPublished_def update_events_def event_status_def outbox_row_def sql_row_map)
next
  case (6 s i m)
  then show ?case by (simp add: wp_def outbox_MarkSuspended_def update_events_def)
next
  case (7 s t)
  then have "queue_ok q s" by (simp add: relay_inv_def)
  from queue_runs(1) [OF this] 7 show ?case by (simp add: wp_def PublishReady_def)
qed

section \<open>Properties\<close>

definition world_ports :: "QueueConfig \<Rightarrow> world relay_ports" where
  "world_ports q = \<lparr>Relay_repo = outbox_repository, Relay_publisher = queue_publisher q,
                    Relay_metrics = outbox_metrics\<rparr>"

lemma outbox_relay_ports: "outbox_relay.ports q = world_ports q"
  by (simp add: outbox_relay.ports_def world_ports_def)

text \<open>A world to evaluate on: two pending events, one of them with a payload that names no task.\<close>

definition demo_queue :: QueueConfig where
  "demo_queue = QueueConfig_withDefaults \<lparr>ReadyKey = '''', RetryKey = '''', DLQKey = ''''\<rparr>"

definition demo_event :: "int \<Rightarrow> json \<Rightarrow> string \<Rightarrow> event_row" where
  "demo_event i p st =
     \<lparr>ev_event_id = i, ev_event_type = EventTypeTaskCreated, ev_aggregate_type = ''coupon_claim'',
      ev_aggregate_id = ''7'', ev_payload_json = p, ev_status = st, ev_retry_count = 0,
      ev_next_retry_at = 0, ev_last_error = '''', ev_created_at = 0, ev_updated_at = 0\<rparr>"

definition demo_db :: "event_row list \<Rightarrow> db" where
  "demo_db es =
     \<lparr>db_campaigns = [], db_claims = [], db_tasks = [], db_events = es, db_next_claim_id = 1,
      db_next_task_id = 1, db_next_event_id = 10, db_collate = (\<lambda>s. s)\<rparr>"

definition demo_world :: "event_row list \<Rightarrow> fault list \<Rightarrow> world" where
  "demo_world es fs =
     \<lparr>w_db = demo_db es, w_tx = None, w_kv = (\<lambda>_. None), w_now = Hour, w_ticks = [], w_faults = fs,
      w_metrics = []\<rparr>"

definition demo_events :: "event_row list" where
  "demo_events =
     [demo_event 1 (MarshalTaskCreatedPayload 42) outbox_StatusPending,
      demo_event 2 (MarshalTaskCreatedPayload 43) outbox_StatusDispatching,
      demo_event 3 JNull outbox_StatusPending]"

definition demo_relay :: RelayConfig where
  "demo_relay = RelayConfig_withDefaults
     \<lparr>Relay_Enabled = True, Relay_PollInterval = 0, Relay_BatchSize = 0, Relay_BackoffBase = 0,
      Relay_DispatchTimeout = 0\<rparr>"

lemma demo_relay_inv: "relay_inv demo_queue (demo_world demo_events fs)"
  by (simp add: relay_inv_def queue_ok_def demo_queue_def QueueConfig_withDefaults_def demo_world_def
      demo_db_def demo_events_def demo_event_def list_key_def zset_key_def)

text \<open>
  C7. Safety of the relay. Let the relay run for any number of rounds, with any round trips to
  MySQL and Redis lost on the way there or on the way back. The ready list only grows; an event
  becomes PUBLISHED only if the id of its task was pushed during the run; it becomes SUSPENDED
  only if its payload names no task; a pending or dispatching event with a valid payload is
  never dropped; published and suspended events do not change; payloads do not change.
\<close>

theorem relay_run_safe:
  assumes "relay_inv q w"
  shows "let w' = final (relay_run time_Now cfg (world_ports q) n) w in
         \<exists>ys. ready_list q w' = ready_list q w @ ys \<and> event_payload w' = event_payload w \<and>
           (\<forall>i. relay_event ys (event_payload w i) (event_status w i) (event_status w' i))"
  using outbox_relay.wp_relay_run [OF assms(1), of cfg n]
  by (auto simp: Let_def wp_iff outbox_relay.relay_safe_def outbox_relay_ports)

theorem relay_run_safe_witness:
  "let w = demo_world demo_events [NoFault, NoFault, NoFault, NoFault, Lost ''reset'', Drop ''timeout''];
       w' = final (relay_run time_Now demo_relay (world_ports demo_queue) 1) w
   in \<exists>ys. ready_list demo_queue w' = ready_list demo_queue w @ ys \<and> event_payload w' = event_payload w \<and>
           (\<forall>i. relay_event ys (event_payload w i) (event_status w i) (event_status w' i))"
  using relay_run_safe [OF demo_relay_inv] unfolding Let_def .

text \<open>
  Delivery by one pass of the relay. When no round trip fails, \<open>dispatchOnce\<close> returns
  without error and every pending event that is due and within the batch, and whose payload names
  a task, is PUBLISHED and its task's id is in the ready list.
\<close>

theorem dispatchOnce_delivers:
  assumes "relay_inv q w" and "calm w"
    and "i \<in> set (due_events w (Relay_BatchSize cfg))" and "task_of_payload (event_payload w i) = Some t"
  shows "let m = dispatchOnce outbox_repository (queue_publisher q) cfg in
         answer m w = Inr () \<and> event_status (final m w) i = Some outbox_StatusPublished \<and>
         FormatInt t \<in> set (ready_list q (final m w))"
  using outbox_relay_calm.wp_dispatchOnce_quiet [OF assms(1,2), of cfg] assms(3,4)
  by (auto simp: Let_def wp_iff outbox_relay_calm.delivered_def)

lemma demo_due: "1 \<in> set (due_events (demo_world demo_events []) (Relay_BatchSize demo_relay))"
  by (simp add: due_events_def dispatchable_events_def demo_world_def demo_db_def demo_events_def
      demo_event_def sql_select_def sql_order_by_def sql_limit_def demo_relay_def duration_defs
      RelayConfig_withDefaults_def default_limit_def Let_def)

lemma demo_payload: "task_of_payload (event_payload (demo_world demo_events []) 1) = Some 42"
  by (simp add: event_payload_def outbox_row_def demo_world_def demo_db_def demo_events_def demo_event_def
      sql_row_def task_of_payload_def in_int64_def)

theorem dispatchOnce_delivers_witness:
  "let m = dispatchOnce outbox_repository (queue_publisher demo_queue) demo_relay;
       w = demo_world demo_events []
   in answer m w = Inr () \<and> event_status (final m w) 1 = Some outbox_StatusPublished \<and>
      FormatInt 42 \<in> set (ready_list demo_queue (final m w))"
  using dispatchOnce_delivers [OF demo_relay_inv _ demo_due demo_payload]
  by (simp add: Let_def calm_def demo_world_def)

text \<open>The events a recovery picks up, and the events then due, when a batch holds them all.\<close>

definition open_events :: "db \<Rightarrow> event_row list" where
  "open_events d = filter (\<lambda>e. ev_status e \<in> {outbox_StatusPending, outbox_StatusDispatching}) (db_events d)"

lemma length_filter_implies: "(\<And>x. x \<in> set xs \<Longrightarrow> P (f x) \<Longrightarrow> Q x) \<Longrightarrow> length (filter P (map f xs)) \<le> length (filter Q xs)"
  by (induction xs) (auto simp: le_SucI)

lemma stale_events_all:
  assumes "e \<in> set (db_events d)" "ev_status e = outbox_StatusDispatching" "ev_updated_at e \<le> t"
    and "int (length (open_events d)) \<le> n"
  shows "ev_event_id e \<in> set (stale_events t n d)"
proof -
  have "length (filter (\<lambda>e. ev_status e = outbox_StatusDispatching \<and> ev_updated_at e \<le> t) (map id (db_events d)))
      \<le> length (open_events d)"
    unfolding open_events_def by (rule length_filter_implies) auto
  then have "int (length (sql_order_by ev_updated_at (sql_select
      (\<lambda>e. ev_status e = outbox_StatusDispatching \<and> ev_updated_at e \<le> t) (db_events d)))) \<le> n"
    using assms(4) by (simp add: sql_order_by_def sql_select_def)
  with assms(1-3) show ?thesis by (auto simp: stale_events_def sql_limit_all sql_order_by_def)
qed

lemma due_events_all:
  assumes "e \<in> set (db_events (w_db w))" "ev_status e = outbox_StatusPending" "ev_next_retry_at e \<le> w_now w"
    and "int (length (open_events (w_db w))) \<le> n" "0 < n"
  shows "ev_event_id e \<in> set (due_events w n)"
proof -
  have "length (filter (\<lambda>e. ev_status e = outbox_StatusPending \<and> ev_next_retry_at e \<le> w_now w) (map id (db_events (w_db w))))
      \<le> length (open_events (w_db w))"
    unfolding open_events_def by (rule length_filter_implies) auto
  then have "int (length (sql_order_by ev_event_id (sql_select
      (\<lambda>e. ev_status e = outbox_StatusPending \<and> ev_next_retry_at e \<le> w_now w) (db_events (w_db w))))) \<le> n"
    using assms(4) by (simp add: sql_order_by_def sql_select_def)
  with assms show ?thesis
    by (auto simp: due_events_def dispatchable_events_def sql_limit_all sql_order_by_def default_limit_def)
qed

definition recovered_world :: "RelayConfig \<Rightarrow> world \<Rightarrow> world" where
  "recovered_world cfg w =
     final (do { c \<leftarrow> CountPending;
                 _ \<leftarrow> (case c of Inr cnt \<Rightarrow> metric (SetOutboxPending cnt) | Inl _ \<Rightarrow> ret ());
                 now \<leftarrow> time_Now;
                 RecoverStaleDispatching (now - Relay_DispatchTimeout cfg) (Relay_BatchSize cfg) }) w"

lemma relay_round_split:
  "calm w \<Longrightarrow> relay_inv q w \<Longrightarrow>
     run_state (relay_round time_Now cfg (world_ports q)) w =
     run_state (dispatchOnce outbox_repository (queue_publisher q) cfg) (recovered_world cfg w)"
  by (simp add: relay_round_def world_ports_def recovered_world_def final_def CountPending_def
      RecoverStaleDispatching_def update_events_def)

lemma recovered_world_calm:
  assumes "calm w" "0 < Relay_BatchSize cfg"
  shows "recovered_world cfg w =
     (w\<lparr>w_db := (w_db w)\<lparr>db_events := map (\<lambda>e.
            if ev_event_id e \<in> set (stale_events (w_now w - Relay_DispatchTimeout cfg) (Relay_BatchSize cfg) (w_db w))
            then recovered_row (w_now w) e else e) (db_events (w_db w))\<rparr>,
        w_metrics := w_metrics w @ [SetOutboxPending (int (length (sql_select
          (\<lambda>e. ev_status e \<in> {outbox_StatusPending, outbox_StatusDispatching, outbox_StatusSuspended})
          (db_events (w_db w)))))]\<rparr>)"
  using assms
  by (simp add: recovered_world_def final_def CountPending_def RecoverStaleDispatching_def update_events_def
      recovered_row_def default_limit_def)

text \<open>
  C8. Recovery of interrupted dispatches. Take an event that some relay left in DISPATCHING for longer
  than the dispatch timeout (it crashed, or the mark after the push was lost), whose retry time has come and whose payload names a task.
  If no round trip fails, the clock stands still, and the batch is positive and not smaller than the number of events that are pending or being
  dispatched, then one round of a relay recovers the event and delivers it: it is PUBLISHED and its task's id is in the ready list.
\<close>

theorem relay_round_recovers_stale:
  assumes "relay_inv q w" and "calm w"
    and e: "e \<in> set (db_events (w_db w))" "ev_status e = outbox_StatusDispatching"
      "ev_updated_at e \<le> w_now w - Relay_DispatchTimeout cfg" "ev_next_retry_at e \<le> w_now w"
    and batch: "0 < Relay_BatchSize cfg" "int (length (open_events (w_db w))) \<le> Relay_BatchSize cfg"
    and t: "task_of_payload (Some (ev_payload_json e)) = Some t"
  shows "let m = relay_round time_Now cfg (world_ports q) in
         answer m w = Inr () \<and> event_status (final m w) (ev_event_id e) = Some outbox_StatusPublished \<and>
         FormatInt t \<in> set (ready_list q (final m w))"
proof -
  let ?w = "recovered_world cfg w"
  let ?stale = "set (stale_events (w_now w - Relay_DispatchTimeout cfg) (Relay_BatchSize cfg) (w_db w))"
  note w1 = recovered_world_calm [OF assms(2) batch(1)]
  have ids: "ev_event_id e \<in> ?stale" by (rule stale_events_all [OF e(1-3) batch(2)])
  have events: "db_events (w_db ?w) =
      map (\<lambda>e. if ev_event_id e \<in> ?stale then recovered_row (w_now w) e else e) (db_events (w_db w))"
    by (simp add: w1)
  have dispatching: "ev_status x = outbox_StatusDispatching" if "x \<in> set (db_events (w_db w))" "ev_event_id x \<in> ?stale" for x
    using assms(1) that(2) outbox_row_member [OF _ that(1)] stale_event_row unfolding relay_inv_def by blast
  have "length (open_events (w_db ?w)) \<le> length (open_events (w_db w))"
    unfolding open_events_def events by (rule length_filter_implies) (auto simp: dispatching split: if_splits)
  then have backlog: "int (length (open_events (w_db ?w))) \<le> Relay_BatchSize cfg" using batch(2) by simp
  have calm: "calm ?w" using assms(2) by (simp add: w1)
  have inv: "relay_inv q ?w"
    using assms(1) unfolding relay_inv_def events by (simp add: w1 queue_ok_def o_def if_distrib cong: if_cong)
  have mem: "recovered_row (w_now w) e \<in> set (db_events (w_db ?w))" using e(1) ids by (force simp: events)
  have due: "ev_event_id e \<in> set (due_events ?w (Relay_BatchSize cfg))"
    by (rule due_events_all [OF mem, unfolded event_row_fields, OF refl _ backlog batch(1)])
      (simp add: w1 recovered_row_def e(4))
  have "event_payload ?w (ev_event_id e) = Some (ev_payload_json e)"
    using outbox_row_member [OF _ mem] inv by (simp add: event_payload_def relay_inv_def)
  then have "task_of_payload (event_payload ?w (ev_event_id e)) = Some t" using t by simp
  from dispatchOnce_delivers [OF inv calm due this] show ?thesis
    by (simp add: Let_def answer_def final_def relay_round_split [OF assms(2,1)])
qed

theorem relay_round_recovers_stale_witness:
  "let m = relay_round time_Now demo_relay (world_ports demo_queue); w = demo_world demo_events []
   in answer m w = Inr () \<and> event_status (final m w) 2 = Some outbox_StatusPublished \<and>
      FormatInt 43 \<in> set (ready_list demo_queue (final m w))"
  using relay_round_recovers_stale
    [of demo_queue "demo_world demo_events []" "demo_events ! 1" demo_relay 43, OF demo_relay_inv]
  by (simp add: demo_world_def calm_def demo_db_def demo_events_def demo_event_def demo_relay_def open_events_def
      RelayConfig_withDefaults_def Let_def duration_defs task_of_payload_def in_int64_def)

text \<open>
  The delay before an event is retried doubles with each failed attempt, up to 256 times the
  base delay, and does not overflow \<open>int64\<close> for base delays below \<open>2 ^ 55\<close> nanoseconds.
\<close>

theorem relayBackoff_doubles:
  assumes "0 < base" "base < 2 ^ 55"
  shows "relayBackoff n base = base * 2 ^ nat (max 0 (min 8 n)) \<and>
         base \<le> relayBackoff n base \<and> relayBackoff n base \<le> 256 * base \<and> relayBackoff n base < 2 ^ 63"
proof -
  let ?k = "nat (max 0 (min 8 n))"
  have "(2::int) ^ ?k \<le> 2 ^ 8" by (rule power_increasing) auto
  moreover have "(1::int) \<le> 2 ^ ?k" by simp
  ultimately have le: "base * 2 ^ ?k \<le> base * 256" "base * 1 \<le> base * 2 ^ ?k"
    using assms(1) by (auto intro!: mult_left_mono simp del: mult_1_right)
  have "base * 256 < 2 ^ 63" using assms(2) by simp
  with le(1) have "base * 2 ^ ?k < 2 ^ 63" by (rule order.strict_trans1)
  with le assms show ?thesis by (simp add: relayBackoff_exact)
qed

theorem relayBackoff_doubles_witness:
  "relayBackoff 3 Second = Second * 2 ^ nat (max 0 (min 8 3)) \<and> relayBackoff 3 Second = 8 * Second"
  using relayBackoff_doubles [of Second 3] by (simp add: duration_defs)

end
