(* ===== verification/TaskRepository.thy ===== *)
theory TaskRepository
  imports OutboxRepository
begin

text \<open>
  examples/Quan/internal/task: the task model (model.go) and the repository over the
  \<^verbatim>\<open>async_tasks\<close> table (repository*.go). The life cycle of a task is the transition relation
  \<open>task_trans\<close>, one rule per operation of the repository that changes a status; every
  operation is shown to make no other change.
\<close>

section \<open>Model\<close>

definition task_StatusPending :: string where "task_StatusPending = ''PENDING''"
definition task_StatusRunning :: string where "task_StatusRunning = ''RUNNING''"
definition task_StatusSuccess :: string where "task_StatusSuccess = ''SUCCESS''"
definition task_StatusFailed :: string where "task_StatusFailed = ''FAILED''"
definition task_StatusSuspended :: string where "task_StatusSuspended = ''SUSPENDED''"
definition task_StatusDead :: string where "task_StatusDead = ''DEAD''"

lemmas task_status_defs =
  task_StatusPending_def task_StatusRunning_def task_StatusSuccess_def task_StatusFailed_def
  task_StatusSuspended_def task_StatusDead_def

lemma task_status_distinct [simp]:
  "task_StatusPending \<noteq> task_StatusRunning" "task_StatusRunning \<noteq> task_StatusPending"
  "task_StatusPending \<noteq> task_StatusSuccess" "task_StatusSuccess \<noteq> task_StatusPending"
  "task_StatusPending \<noteq> task_StatusFailed" "task_StatusFailed \<noteq> task_StatusPending"
  "task_StatusPending \<noteq> task_StatusSuspended" "task_StatusSuspended \<noteq> task_StatusPending"
  "task_StatusPending \<noteq> task_StatusDead" "task_StatusDead \<noteq> task_StatusPending"
  "task_StatusRunning \<noteq> task_StatusSuccess" "task_StatusSuccess \<noteq> task_StatusRunning"
  "task_StatusRunning \<noteq> task_StatusFailed" "task_StatusFailed \<noteq> task_StatusRunning"
  "task_StatusRunning \<noteq> task_StatusSuspended" "task_StatusSuspended \<noteq> task_StatusRunning"
  "task_StatusRunning \<noteq> task_StatusDead" "task_StatusDead \<noteq> task_StatusRunning"
  "task_StatusSuccess \<noteq> task_StatusFailed" "task_StatusFailed \<noteq> task_StatusSuccess"
  "task_StatusSuccess \<noteq> task_StatusSuspended" "task_StatusSuspended \<noteq> task_StatusSuccess"
  "task_StatusSuccess \<noteq> task_StatusDead" "task_StatusDead \<noteq> task_StatusSuccess"
  "task_StatusFailed \<noteq> task_StatusSuspended" "task_StatusSuspended \<noteq> task_StatusFailed"
  "task_StatusFailed \<noteq> task_StatusDead" "task_StatusDead \<noteq> task_StatusFailed"
  "task_StatusSuspended \<noteq> task_StatusDead" "task_StatusDead \<noteq> task_StatusSuspended"
  by (simp_all add: task_status_defs)

definition TaskTypeSendCouponNotice :: string where
  "TaskTypeSendCouponNotice = ''SEND_COUPON_NOTICE''"

record AsyncTask =
  Task_ID :: int
  Task_TaskType :: string
  Task_BizID :: string
  Task_Status :: string
  Task_Payload :: json
  Task_RetryCount :: int
  Task_MaxRetry :: int
  Task_NextRetry :: "int option"
  Task_LastError :: string
  Task_CreatedAt :: int
  Task_UpdatedAt :: int

record CreateTaskParams =
  TaskParams_TaskType :: string
  TaskParams_BizID :: string
  TaskParams_Payload :: json
  TaskParams_MaxRetry :: int

definition RecoverySourceRetryDue :: string where "RecoverySourceRetryDue = ''retry_due''"
definition RecoverySourceSuspended :: string where "RecoverySourceSuspended = ''suspended''"
definition RecoverySourceStaleRunning :: string where "RecoverySourceStaleRunning = ''stale_running''"

record RecoveryCandidate =
  Candidate_TaskID :: int
  Candidate_Source :: string
  Candidate_RecoverAt :: int

record SendCouponNoticePayload =
  Notice_ClaimID :: int
  Notice_CouponID :: int
  Notice_UserID :: int
  Notice_TraceID :: string

text \<open>\<^verbatim>\<open>json.Marshal\<close> of that payload; an empty trace id is omitted.\<close>

definition MarshalPayload :: "SendCouponNoticePayload \<Rightarrow> json" where
  "MarshalPayload p = JObj
     ([(''claim_id'', JNum (FormatInt (Notice_ClaimID p))),
       (''coupon_id'', JNum (FormatInt (Notice_CouponID p))),
       (''user_id'', JNum (FormatInt (Notice_UserID p)))]
      @ (if Notice_TraceID p = '''' then [] else [(''trace_id'', JStr (Notice_TraceID p))]))"

definition ErrTaskDuplicate :: goerr where "ErrTaskDuplicate = ErrNew ''task duplicate''"
definition ErrTaskNotFound :: goerr where "ErrTaskNotFound = ErrNew ''task not found''"
definition ErrTaskNotReplayable :: goerr where "ErrTaskNotReplayable = ErrNew ''task not replayable''"

definition taskBackoff :: "int \<Rightarrow> int \<Rightarrow> int" where
  "taskBackoff retryCount base0 =
     (let base = (if base0 \<le> 0 then 1 * Second else base0);
          n = (if retryCount < 0 then 0 else retryCount);
          n = (if n > 8 then 8 else n)
      in wrap64 (base * 2 ^ nat n))"

section \<open>Statements\<close>

text \<open>The insert fails on the unique key (task_type, biz_id), after drawing an id.\<close>

definition insert_task :: "CreateTaskParams \<Rightarrow> int \<Rightarrow> int stmt" where
  "insert_task p now d =
     (let d1 = d\<lparr>db_next_task_id := db_next_task_id d + 1\<rparr> in
      if (\<exists>r \<in> set (db_tasks d). db_collate d (tk_task_type r) = db_collate d (TaskParams_TaskType p) \<and>
                                  db_collate d (tk_biz_id r) = db_collate d (TaskParams_BizID p))
      then (Inl err_duplicate, d1)
      else (Inr (db_next_task_id d),
            d1\<lparr>db_tasks := db_tasks d @
              [\<lparr>tk_task_id = db_next_task_id d, tk_task_type = TaskParams_TaskType p,
                tk_biz_id = TaskParams_BizID p, tk_status = task_StatusPending,
                tk_payload_json = TaskParams_Payload p, tk_retry_count = 0,
                tk_max_retry = TaskParams_MaxRetry p, tk_next_retry_at = None,
                tk_last_error = '''', tk_created_at = datetime3 now, tk_updated_at = datetime3 now\<rparr>]\<rparr>))"

definition update_tasks :: "(task_row \<Rightarrow> bool) \<Rightarrow> (task_row \<Rightarrow> task_row) \<Rightarrow> int stmt" where
  "update_tasks p upd d =
     (Inr (fst (sql_update p upd (db_tasks d))),
      d\<lparr>db_tasks := snd (sql_update p upd (db_tasks d))\<rparr>)"

definition scanTask :: "task_row \<Rightarrow> AsyncTask" where
  "scanTask r =
     \<lparr>Task_ID = tk_task_id r, Task_TaskType = tk_task_type r, Task_BizID = tk_biz_id r,
      Task_Status = tk_status r, Task_Payload = tk_payload_json r,
      Task_RetryCount = tk_retry_count r, Task_MaxRetry = tk_max_retry r,
      Task_NextRetry = tk_next_retry_at r, Task_LastError = tk_last_error r,
      Task_CreatedAt = tk_created_at r, Task_UpdatedAt = tk_updated_at r\<rparr>"

section \<open>Creation and queries\<close>

definition task_CreateTx :: "CreateTaskParams \<Rightarrow> AsyncTask result io" where
  "task_CreateTx p0 = do {
     let p = (if TaskParams_MaxRetry p0 \<le> 0 then p0\<lparr>TaskParams_MaxRetry := 5\<rparr> else p0);
     now \<leftarrow> time_Now;
     bindE (mapErr (\<lambda>err. if isDuplicateKey err then ErrTaskDuplicate
                          else ErrWrap ''insert async task: '' err '''')
              (tx_exec (insert_task p now))) (\<lambda>taskID.
       returnE \<lparr>Task_ID = taskID, Task_TaskType = TaskParams_TaskType p, Task_BizID = TaskParams_BizID p,
                Task_Status = task_StatusPending, Task_Payload = TaskParams_Payload p,
                Task_RetryCount = 0, Task_MaxRetry = TaskParams_MaxRetry p, Task_NextRetry = None,
                Task_LastError = '''', Task_CreatedAt = now, Task_UpdatedAt = now\<rparr>) }"

definition task_Create :: "CreateTaskParams \<Rightarrow> AsyncTask result io" where
  "task_Create p = within_tx (task_CreateTx p)"

definition task_GetByID :: "int \<Rightarrow> AsyncTask result io" where
  "task_GetByID taskID =
     db_exec (query_row (\<lambda>d. map_option scanTask (sql_row (\<lambda>r. tk_task_id r = taskID) (db_tasks d))))"

definition GetByTypeBiz :: "string \<Rightarrow> string \<Rightarrow> AsyncTask result io" where
  "GetByTypeBiz taskType bizID =
     db_exec (query_row (\<lambda>d. map_option scanTask (sql_row (\<lambda>r.
        db_collate d (tk_task_type r) = db_collate d taskType \<and>
        db_collate d (tk_biz_id r) = db_collate d bizID) (db_tasks d))))"

definition scanRecoveryCandidates :: "string \<Rightarrow> (task_row \<Rightarrow> int) \<Rightarrow> task_row list \<Rightarrow> RecoveryCandidate list" where
  "scanRecoveryCandidates source recoverAt rows =
     map (\<lambda>r. \<lparr>Candidate_TaskID = tk_task_id r, Candidate_Source = source,
               Candidate_RecoverAt = recoverAt r\<rparr>) rows"

definition due_failed_tasks :: "int \<Rightarrow> int \<Rightarrow> db \<Rightarrow> task_row list" where
  "due_failed_tasks now limit d =
     sql_limit limit (sql_order_by (\<lambda>r. the (tk_next_retry_at r)) (sql_select
       (\<lambda>r. tk_status r = task_StatusFailed \<and>
            (case tk_next_retry_at r of None \<Rightarrow> False | Some t \<Rightarrow> t \<le> now)) (db_tasks d)))"

definition stale_tasks :: "string \<Rightarrow> int \<Rightarrow> int \<Rightarrow> db \<Rightarrow> task_row list" where
  "stale_tasks status staleBefore limit d =
     sql_limit limit (sql_order_by tk_updated_at (sql_select
       (\<lambda>r. tk_status r = status \<and> tk_updated_at r \<le> staleBefore) (db_tasks d)))"

definition ListDueFailedForCompensation :: "int \<Rightarrow> RecoveryCandidate list result io" where
  "ListDueFailedForCompensation limit = do {
     now \<leftarrow> time_Now;
     wrapE ''list due failed tasks for compensation: '' (db_exec (query_rows (\<lambda>d.
       scanRecoveryCandidates RecoverySourceRetryDue (\<lambda>r. the (tk_next_retry_at r))
         (due_failed_tasks now (default_limit limit) d)))) }"

definition ListSuspendedForCompensation :: "int \<Rightarrow> int \<Rightarrow> RecoveryCandidate list result io" where
  "ListSuspendedForCompensation staleBefore limit =
     wrapE ''list suspended tasks for compensation: '' (db_exec (query_rows (\<lambda>d.
       scanRecoveryCandidates RecoverySourceSuspended tk_updated_at
         (stale_tasks task_StatusSuspended staleBefore (default_limit limit) d))))"

definition ListStaleRunningForCompensation :: "int \<Rightarrow> int \<Rightarrow> RecoveryCandidate list result io" where
  "ListStaleRunningForCompensation staleBefore limit =
     wrapE ''list stale running tasks for compensation: '' (db_exec (query_rows (\<lambda>d.
       scanRecoveryCandidates RecoverySourceStaleRunning tk_updated_at
         (stale_tasks task_StatusRunning staleBefore (default_limit limit) d))))"

section \<open>Changes of state\<close>

definition running_task :: "int \<Rightarrow> task_row \<Rightarrow> task_row" where
  "running_task now r =
     r\<lparr>tk_status := task_StatusRunning, tk_last_error := '''', tk_updated_at := datetime3 now\<rparr>"

definition success_task :: "int \<Rightarrow> task_row \<Rightarrow> task_row" where
  "success_task now r =
     r\<lparr>tk_status := task_StatusSuccess, tk_last_error := '''', tk_next_retry_at := None,
       tk_updated_at := datetime3 now\<rparr>"

definition suspended_task :: "string \<Rightarrow> int \<Rightarrow> task_row \<Rightarrow> task_row" where
  "suspended_task lastErr now r =
     r\<lparr>tk_status := task_StatusSuspended, tk_last_error := truncate_str lastErr 255,
       tk_next_retry_at := None, tk_updated_at := datetime3 now\<rparr>"

definition replay_task :: "int \<Rightarrow> task_row \<Rightarrow> task_row" where
  "replay_task now r =
     r\<lparr>tk_status := task_StatusFailed, tk_next_retry_at := None, tk_updated_at := datetime3 now\<rparr>"

definition restored_task :: "int \<Rightarrow> task_row \<Rightarrow> task_row" where
  "restored_task now r = r\<lparr>tk_status := task_StatusDead, tk_updated_at := datetime3 now\<rparr>"

definition dead_task :: "int \<Rightarrow> string \<Rightarrow> int \<Rightarrow> task_row \<Rightarrow> task_row" where
  "dead_task retryCount lastErr now r =
     r\<lparr>tk_status := task_StatusDead, tk_retry_count := retryCount, tk_next_retry_at := None,
       tk_last_error := truncate_str lastErr 255, tk_updated_at := datetime3 now\<rparr>"

definition retry_task :: "int \<Rightarrow> int \<Rightarrow> string \<Rightarrow> int \<Rightarrow> task_row \<Rightarrow> task_row" where
  "retry_task retryCount next lastErr now r =
     r\<lparr>tk_status := task_StatusFailed, tk_retry_count := retryCount,
       tk_next_retry_at := Some (datetime3 next), tk_last_error := truncate_str lastErr 255,
       tk_updated_at := datetime3 now\<rparr>"

definition recovered_task :: "string \<Rightarrow> int \<Rightarrow> task_row \<Rightarrow> task_row" where
  "recovered_task lastErr now r =
     r\<lparr>tk_status := task_StatusFailed, tk_next_retry_at := Some (datetime3 now),
       tk_last_error := truncate_str lastErr 255, tk_updated_at := datetime3 now\<rparr>"

definition TryMarkRunning :: "int \<Rightarrow> AsyncTask option result io" where
  "TryMarkRunning taskID = do {
     now \<leftarrow> time_Now;
     bindE (wrapE ''mark task running: '' (db_exec (update_tasks
              (\<lambda>r. tk_task_id r = taskID \<and> tk_status r \<in> {task_StatusPending, task_StatusFailed})
              (running_task now))))
       (\<lambda>affected.
          if affected = 0 then returnE None
          else bindE (mapErr (\<lambda>err. if errors_Is err sql_ErrNoRows then ErrTaskNotFound else err)
                        (task_GetByID taskID)) (\<lambda>task. returnE (Some task))) }"

definition MarkSuccess :: "int \<Rightarrow> unit result io" where
  "MarkSuccess taskID = do {
     now \<leftarrow> time_Now;
     bindE (wrapE ''mark task success: '' (db_exec (update_tasks
              (\<lambda>r. tk_task_id r = taskID \<and> tk_status r \<in> {task_StatusRunning}) (success_task now))))
       (\<lambda>_. returnE ()) }"

definition task_MarkSuspended :: "int \<Rightarrow> string \<Rightarrow> unit result io" where
  "task_MarkSuspended taskID lastErr = do {
     now \<leftarrow> time_Now;
     bindE (wrapE ''mark task suspended: '' (db_exec (update_tasks
              (\<lambda>r. tk_task_id r = taskID \<and> tk_status r \<in> {task_StatusRunning})
              (suspended_task lastErr now))))
       (\<lambda>_. returnE ()) }"

definition MarkReplayReady :: "int \<Rightarrow> unit result io" where
  "MarkReplayReady taskID = do {
     now \<leftarrow> time_Now;
     bindE (wrapE ''mark task replay ready: '' (db_exec (update_tasks
              (\<lambda>r. tk_task_id r = taskID \<and> tk_status r \<in> {task_StatusDead, task_StatusFailed})
              (replay_task now))))
       (\<lambda>affected.
          if affected > 0 then returnE ()
          else bindE (mapErr (\<lambda>err. if errors_Is err sql_ErrNoRows then ErrTaskNotFound
                                    else ErrWrap ''query task replay status: '' err '''')
                 (db_exec (query_row (\<lambda>d. map_option tk_status
                    (sql_row (\<lambda>r. tk_task_id r = taskID) (db_tasks d))))))
               (\<lambda>status. throwE (ErrWrap '''' ErrTaskNotReplayable ('': status='' @ status)))) }"

definition RestoreDeadAfterReplayFailure :: "int \<Rightarrow> unit result io" where
  "RestoreDeadAfterReplayFailure taskID = do {
     now \<leftarrow> time_Now;
     bindE (wrapE ''restore dead task after replay failure: '' (db_exec (update_tasks
              (\<lambda>r. tk_task_id r = taskID \<and> tk_status r \<in> {task_StatusFailed}) (restored_task now))))
       (\<lambda>_. returnE ()) }"

definition MarkRecoveredForRetry :: "int \<Rightarrow> string \<Rightarrow> bool result io" where
  "MarkRecoveredForRetry taskID lastErr = do {
     now \<leftarrow> time_Now;
     bindE (wrapE ''mark task recovered for retry: '' (db_exec (update_tasks
              (\<lambda>r. tk_task_id r = taskID \<and> tk_status r \<in> {task_StatusRunning, task_StatusSuspended})
              (recovered_task lastErr now))))
       (\<lambda>affected. returnE (affected > 0)) }"

text \<open>\<^verbatim>\<open>MarkFailed\<close> locks the row, so its read and its write are of one transaction.\<close>

definition markFailed_tx :: "int \<Rightarrow> string \<Rightarrow> int \<Rightarrow> (bool \<times> int option) result io" where
  "markFailed_tx taskID lastErr backoffBase =
     bindE (mapErr (\<lambda>err. if errors_Is err sql_ErrNoRows then ErrTaskNotFound
                          else ErrWrap ''query task for retry: '' err '''')
              (tx_exec (query_row (\<lambda>d. map_option
                 (\<lambda>r. (tk_status r, tk_retry_count r, tk_max_retry r))
                 (sql_row (\<lambda>r. tk_task_id r = taskID) (db_tasks d)))))) (\<lambda>(status, retryCount0, maxRetry).
       if status \<noteq> task_StatusRunning then returnE (False, None)
       else do {
         let retryCount = retryCount0 + 1;
         now \<leftarrow> time_Now;
         if retryCount \<ge> maxRetry then
           bindE (wrapE ''mark task dead: '' (tx_exec (update_tasks (\<lambda>r. tk_task_id r = taskID)
                    (dead_task retryCount lastErr now))))
             (\<lambda>_. returnE (True, None))
         else do {
           let next = now + taskBackoff retryCount backoffBase;
           bindE (wrapE ''mark task retry: '' (tx_exec (update_tasks (\<lambda>r. tk_task_id r = taskID)
                    (retry_task retryCount next lastErr now))))
             (\<lambda>_. returnE (False, Some next)) } })"

definition MarkFailed :: "int \<Rightarrow> string \<Rightarrow> int \<Rightarrow> (bool \<times> int option) result io" where
  "MarkFailed taskID lastErr backoffBase = within_tx (markFailed_tx taskID lastErr backoffBase)"

section \<open>The life cycle of a task\<close>

inductive task_trans :: "task_row \<Rightarrow> task_row \<Rightarrow> bool" where
  trans_run: "tk_status r \<in> {task_StatusPending, task_StatusFailed} \<Longrightarrow> task_trans r (running_task now r)"
| trans_success: "tk_status r = task_StatusRunning \<Longrightarrow> task_trans r (success_task now r)"
| trans_suspend: "tk_status r = task_StatusRunning \<Longrightarrow> task_trans r (suspended_task m now r)"
| trans_dead: "tk_status r = task_StatusRunning \<Longrightarrow> tk_max_retry r \<le> tk_retry_count r + 1 \<Longrightarrow>
    task_trans r (dead_task (tk_retry_count r + 1) m now r)"
| trans_retry: "tk_status r = task_StatusRunning \<Longrightarrow> tk_retry_count r + 1 < tk_max_retry r \<Longrightarrow>
    task_trans r (retry_task (tk_retry_count r + 1) next m now r)"
| trans_recover: "tk_status r \<in> {task_StatusRunning, task_StatusSuspended} \<Longrightarrow>
    task_trans r (recovered_task m now r)"
| trans_replay: "tk_status r \<in> {task_StatusDead, task_StatusFailed} \<Longrightarrow> task_trans r (replay_task now r)"
| trans_restore: "tk_status r = task_StatusFailed \<Longrightarrow> task_trans r (restored_task now r)"

inductive_cases task_transE: "task_trans r r'"

abbreviation task_reaches :: "task_row \<Rightarrow> task_row \<Rightarrow> bool" where
  "task_reaches \<equiv> task_trans\<^sup>*\<^sup>*"

lemmas task_row_defs =
  running_task_def success_task_def suspended_task_def replay_task_def restored_task_def
  dead_task_def retry_task_def recovered_task_def

lemma task_row_ids [simp]:
  "tk_task_id (running_task now r) = tk_task_id r" "tk_task_id (success_task now r) = tk_task_id r"
  "tk_task_id (suspended_task m now r) = tk_task_id r" "tk_task_id (replay_task now r) = tk_task_id r"
  "tk_task_id (restored_task now r) = tk_task_id r" "tk_task_id (dead_task n m now r) = tk_task_id r"
  "tk_task_id (retry_task n d m now r) = tk_task_id r" "tk_task_id (recovered_task m now r) = tk_task_id r"
  by (simp_all add: task_row_defs)

lemma task_row_statuses [simp]:
  "tk_status (running_task now r) = task_StatusRunning" "tk_status (success_task now r) = task_StatusSuccess"
  "tk_status (suspended_task m now r) = task_StatusSuspended" "tk_status (replay_task now r) = task_StatusFailed"
  "tk_status (restored_task now r) = task_StatusDead" "tk_status (dead_task n m now r) = task_StatusDead"
  "tk_status (retry_task n d m now r) = task_StatusFailed" "tk_status (recovered_task m now r) = task_StatusFailed"
  by (simp_all add: task_row_defs)

text \<open>What no operation changes, and what only grows.\<close>

definition task_identity :: "task_row \<Rightarrow> int \<times> string \<times> string \<times> json \<times> int \<times> int" where
  "task_identity r = (tk_task_id r, tk_task_type r, tk_biz_id r, tk_payload_json r, tk_max_retry r, tk_created_at r)"

lemma task_trans_identity: "task_trans r r' \<Longrightarrow> task_identity r' = task_identity r"
  by (erule task_transE) (simp_all add: task_identity_def task_row_defs)

lemma task_trans_retry_count:
  "task_trans r r' \<Longrightarrow> tk_retry_count r \<le> tk_retry_count r' \<and> tk_retry_count r' \<le> tk_retry_count r + 1"
  by (erule task_transE) (simp_all add: task_row_defs)

definition task_wf :: "task_row \<Rightarrow> bool" where
  "task_wf r \<longleftrightarrow>
     tk_status r \<in> {task_StatusPending, task_StatusRunning, task_StatusSuccess, task_StatusFailed,
                     task_StatusSuspended, task_StatusDead} \<and>
     length (tk_last_error r) \<le> 255 \<and> 0 \<le> tk_retry_count r \<and>
     (tk_next_retry_at r \<noteq> None \<longrightarrow>
        tk_status r \<in> {task_StatusFailed, task_StatusRunning, task_StatusDead})"

lemma length_truncate_255 [simp]: "length (truncate_str m 255) \<le> 255"
  using length_truncate_str [of 255 m] by simp

lemma task_trans_wf: "task_trans r r' \<Longrightarrow> task_wf r \<Longrightarrow> task_wf r'"
  by (erule task_transE) (auto simp: task_wf_def task_row_defs)

lemma task_trans_success_final: "task_trans r r' \<Longrightarrow> tk_status r \<noteq> task_StatusSuccess"
  by (erule task_transE) auto

lemma task_reaches_success:
  assumes "task_reaches r r'" "tk_status r = task_StatusSuccess"
  shows "r' = r"
  using assms by (induction rule: converse_rtranclp_induct) (auto dest: task_trans_success_final)

lemma task_reaches_keeps:
  assumes "task_reaches r r'"
  shows "task_identity r' = task_identity r \<and> tk_retry_count r \<le> tk_retry_count r' \<and> (task_wf r \<longrightarrow> task_wf r')"
  using assms
proof (induction rule: rtranclp_induct)
  case base
  then show ?case by simp
next
  case (step y z)
  then show ?case
    using task_trans_identity [OF step(2)] task_trans_retry_count [OF step(2)] task_trans_wf [OF step(2)] by auto
qed

section \<open>What the operations do\<close>

definition task_at :: "world \<Rightarrow> int \<Rightarrow> task_row option" where
  "task_at w i = sql_row (\<lambda>r. tk_task_id r = i) (db_tasks (w_db w))"

definition tasks_ok :: "world \<Rightarrow> bool" where
  "tasks_ok w \<longleftrightarrow> distinct (map tk_task_id (db_tasks (w_db w)))"

text \<open>The row of task \<open>i\<close> has been replaced by \<open>r\<close>.\<close>

definition task_put :: "int \<Rightarrow> task_row \<Rightarrow> world \<Rightarrow> world \<Rightarrow> bool" where
  "task_put i r w w' \<longleftrightarrow>
     same_env w w' \<and> w_tx w' = w_tx w \<and> tk_task_id r = i \<and>
     w_db w' = (w_db w)\<lparr>db_tasks := put_row tk_task_id i r (db_tasks (w_db w))\<rparr>"

lemma task_at_idle: "idle w w' \<Longrightarrow> task_at w' = task_at w"
  by (simp add: idle_def task_at_def fun_eq_iff)

lemma tasks_ok_idle: "idle w w' \<Longrightarrow> tasks_ok w' = tasks_ok w"
  by (simp add: idle_def tasks_ok_def)

lemma task_at_put:
  "task_put i r w w' \<Longrightarrow> task_at w i \<noteq> None \<Longrightarrow> task_at w' = (task_at w)(i \<mapsto> r)"
  by (auto simp: task_put_def task_at_def sql_row_put_row fun_eq_iff)

lemma tasks_ok_put: "task_put i r w w' \<Longrightarrow> tasks_ok w' = tasks_ok w"
  by (simp add: task_put_def tasks_ok_def put_row_keys)

lemma task_at_id: "task_at w i = Some r \<Longrightarrow> tk_task_id r = i \<and> r \<in> set (db_tasks (w_db w))"
  by (auto simp: task_at_def dest!: sql_row_Some_iff)

lemma task_at_member: "tasks_ok w \<Longrightarrow> r \<in> set (db_tasks (w_db w)) \<Longrightarrow> task_at w (tk_task_id r) = Some r"
  by (simp add: tasks_ok_def task_at_def sql_row_key)

definition task_moved ::
  "int \<Rightarrow> string set \<Rightarrow> (int \<Rightarrow> task_row \<Rightarrow> task_row) \<Rightarrow> world \<Rightarrow> world \<Rightarrow> bool"
where
  "task_moved i S f w w' \<longleftrightarrow>
     (\<exists>r now. task_at w i = Some r \<and> tk_status r \<in> S \<and> w_now w \<le> now \<and> now \<le> w_now w' \<and>
              task_put i (f now r) w w')"

definition task_not_in :: "int \<Rightarrow> string set \<Rightarrow> world \<Rightarrow> bool" where
  "task_not_in i S w \<longleftrightarrow> (\<forall>r. task_at w i = Some r \<longrightarrow> tk_status r \<notin> S)"

text \<open>
  The shape of the operations: read the clock, update the task if its status is one of \<open>S\<close>,
  and go on with the number of rows changed.
\<close>

lemma wp_task_update:
  assumes ok: "tasks_ok w" and f: "\<And>now r. tk_task_id (f now r) = tk_task_id r"
    and hit: "\<And>r now w'. task_at w i = Some r \<Longrightarrow> tk_status r \<in> S \<Longrightarrow> w_now w \<le> now \<Longrightarrow> now \<le> w_now w' \<Longrightarrow>
           task_put i (f now r) w w' \<Longrightarrow> wp (K (if f now r \<noteq> r then 1 else 0)) Q w'"
    and miss: "\<And>w'. task_not_in i S w \<Longrightarrow> idle w w' \<Longrightarrow> wp (K 0) Q w'"
    and fail: "\<And>e w'. task_moved i S f w w' \<or> idle w w' \<Longrightarrow> Q (Inl (ErrWrap pre (ErrIO e) [])) w'"
  shows "wp (State_Monad.bind time_Now (\<lambda>now.
           bindE (wrapE pre (db_exec (update_tasks (\<lambda>r. tk_task_id r = i \<and> tk_status r \<in> S) (f now)))) K)) Q w"
proof -
  note dist = ok [unfolded tasks_ok_def]
  show ?thesis
  proof (cases "\<exists>r. task_at w i = Some r \<and> tk_status r \<in> S")
    case True
    then obtain r where r: "task_at w i = Some r" "tk_status r \<in> S" by blast
    have upd: "sql_update (\<lambda>r. tk_task_id r = i \<and> tk_status r \<in> S) (f now) (db_tasks (w_db w)) =
        (if f now r \<noteq> r then 1 else 0, put_row tk_task_id i (f now r) (db_tasks (w_db w)))" for now
      using r by (intro sql_update_hit [OF dist]) (auto simp: task_at_def)
    let ?w = "\<lambda>now ts fs. w\<lparr>w_now := now, w_ticks := ts, w_faults := fs,
        w_db := (w_db w)\<lparr>db_tasks := put_row tk_task_id i (f now r) (db_tasks (w_db w))\<rparr>\<rparr>"
    have put: "task_put i (f now r) w (?w now ts fs)" if "w_now w \<le> now" for now ts fs
      using that r f by (auto simp: task_put_def same_env_def dest: task_at_id)
    have "wp (K (if f now r \<noteq> r then 1 else 0)) Q (?w now ts fs)"
      and "Q (Inl (ErrWrap pre (ErrIO e) [])) (?w now ts fs)" if "w_now w \<le> now" for now ts fs e
      using hit [OF r that _ put [OF that]] fail [of "?w now ts fs"] put [OF that, where ts = ts and fs = fs] r that
      by (auto simp: task_moved_def)
    moreover have "Q (Inl (ErrWrap pre (ErrIO e) [])) (w\<lparr>w_now := now, w_ticks := ts, w_faults := fs\<rparr>)"
      if "w_now w \<le> now" for now ts fs e
      using that by (intro fail) (simp add: idle_def same_env_def)
    ultimately show ?thesis
      by (auto intro!: wp_time_Now wp_db_exec simp: update_tasks_def upd)
  next
    case False
    have upd: "sql_update (\<lambda>r. tk_task_id r = i \<and> tk_status r \<in> S) (f now) (db_tasks (w_db w)) =
        (0, db_tasks (w_db w))" for now
      using False by (intro sql_update_miss [OF dist]) (auto simp: task_at_def)
    with False show ?thesis
      by (auto intro!: wp_time_Now wp_db_exec miss fail
          simp: update_tasks_def idle_def same_env_def task_not_in_def)
  qed
qed

lemma wp_task_mark:
  assumes "tasks_ok w" and "\<And>now r. tk_task_id (f now r) = tk_task_id r"
    and "\<And>w'. task_moved i S f w w' \<or> idle w w' \<and> task_not_in i S w \<Longrightarrow> Q (Inr ()) w'"
    and "\<And>e w'. task_moved i S f w w' \<or> idle w w' \<Longrightarrow> Q (Inl e) w'"
  shows "wp (State_Monad.bind time_Now (\<lambda>now.
           bindE (wrapE pre (db_exec (update_tasks (\<lambda>r. tk_task_id r = i \<and> tk_status r \<in> S) (f now))))
             (\<lambda>_. returnE ()))) Q w"
  by (rule wp_task_update [OF assms(1,2)])
    (use assms(3,4) in \<open>auto simp: task_moved_def\<close>)

lemma wp_MarkSuccess [wp_intro]:
  assumes "tasks_ok w"
    and "\<And>w'. task_moved i {task_StatusRunning} success_task w w' \<or>
           idle w w' \<and> task_not_in i {task_StatusRunning} w \<Longrightarrow> Q (Inr ()) w'"
    and "\<And>e w'. task_moved i {task_StatusRunning} success_task w w' \<or> idle w w' \<Longrightarrow> Q (Inl e) w'"
  shows "wp (MarkSuccess i) Q w"
  unfolding MarkSuccess_def by (rule wp_task_mark) (use assms in simp_all)

lemma wp_task_MarkSuspended [wp_intro]:
  assumes "tasks_ok w"
    and "\<And>w'. task_moved i {task_StatusRunning} (suspended_task m) w w' \<or>
           idle w w' \<and> task_not_in i {task_StatusRunning} w \<Longrightarrow> Q (Inr ()) w'"
    and "\<And>e w'. task_moved i {task_StatusRunning} (suspended_task m) w w' \<or> idle w w' \<Longrightarrow> Q (Inl e) w'"
  shows "wp (task_MarkSuspended i m) Q w"
  unfolding task_MarkSuspended_def by (rule wp_task_mark) (use assms in simp_all)

lemma wp_RestoreDead [wp_intro]:
  assumes "tasks_ok w"
    and "\<And>w'. task_moved i {task_StatusFailed} restored_task w w' \<or>
           idle w w' \<and> task_not_in i {task_StatusFailed} w \<Longrightarrow> Q (Inr ()) w'"
    and "\<And>e w'. task_moved i {task_StatusFailed} restored_task w w' \<or> idle w w' \<Longrightarrow> Q (Inl e) w'"
  shows "wp (RestoreDeadAfterReplayFailure i) Q w"
  unfolding RestoreDeadAfterReplayFailure_def by (rule wp_task_mark) (use assms in simp_all)

lemma status_changes:
  "tk_status r \<in> S \<Longrightarrow> tk_status r' \<notin> S \<Longrightarrow> r' \<noteq> r"
  by auto

lemma wp_MarkRecovered [wp_intro]:
  assumes "tasks_ok w"
    and "\<And>w'. task_moved i {task_StatusRunning, task_StatusSuspended} (recovered_task m) w w' \<Longrightarrow> Q (Inr True) w'"
    and "\<And>w'. task_not_in i {task_StatusRunning, task_StatusSuspended} w \<Longrightarrow> idle w w' \<Longrightarrow> Q (Inr False) w'"
    and "\<And>e w'. task_moved i {task_StatusRunning, task_StatusSuspended} (recovered_task m) w w' \<or> idle w w' \<Longrightarrow>
           Q (Inl e) w'"
  shows "wp (MarkRecoveredForRetry i m) Q w"
  unfolding MarkRecoveredForRetry_def
proof (rule wp_task_update [OF assms(1)], goal_cases)
  case (2 r now w')
  then have "recovered_task m now r \<noteq> r"
    using status_changes [OF 2(2), of "recovered_task m now r"] by simp
  with 2 show ?case using assms(2) by (auto simp: task_moved_def)
qed (use assms(3,4) in auto)

lemma wp_task_GetByID [wp_intro]:
  assumes "\<And>w'. idle w w' \<Longrightarrow>
             Q (case task_at w i of None \<Rightarrow> Inl sql_ErrNoRows | Some r \<Rightarrow> Inr (scanTask r)) w'"
    and "\<And>e w'. idle w w' \<Longrightarrow> Q (Inl (ErrIO e)) w'"
  shows "wp (task_GetByID i) Q w"
  unfolding task_GetByID_def
proof (rule wp_db_exec, goal_cases)
  case (1 fs)
  have "idle w (w\<lparr>w_faults := fs\<rparr>)" by (simp add: idle_def)
  from assms(1) [OF this] show ?case
    by (cases "task_at w i") (simp_all add: query_row_def task_at_def)
qed (use assms(2) in \<open>auto simp: query_row_def idle_def\<close>)

lemma task_moved_idle: "task_moved i S f w w1 \<Longrightarrow> idle w1 w' \<Longrightarrow> task_moved i S f w w'"
  by (fastforce simp: task_moved_def task_put_def idle_def same_env_def)

lemma wp_TryMarkRunning [wp_intro]:
  assumes ok: "tasks_ok w"
    and claimed: "\<And>w' r'. task_moved i {task_StatusPending, task_StatusFailed} running_task w w' \<Longrightarrow>
           task_at w' i = Some r' \<Longrightarrow> Q (Inr (Some (scanTask r'))) w'"
    and other: "\<And>w'. task_not_in i {task_StatusPending, task_StatusFailed} w \<Longrightarrow> idle w w' \<Longrightarrow> Q (Inr None) w'"
    and fail: "\<And>e w'. task_moved i {task_StatusPending, task_StatusFailed} running_task w w' \<or> idle w w' \<Longrightarrow>
           Q (Inl e) w'"
  shows "wp (TryMarkRunning i) Q w"
  unfolding TryMarkRunning_def
proof (rule wp_task_update [OF ok], goal_cases)
  case (2 r now w1)
  then have ne: "running_task now r \<noteq> r"
    using status_changes [OF 2(2), of "running_task now r"] by simp
  have moved: "task_moved i {task_StatusPending, task_StatusFailed} running_task w w1"
    using 2 by (auto simp: task_moved_def)
  have row: "task_at w1 i = Some (running_task now r)"
    using task_at_put [OF 2(5)] 2(1) by simp
  show ?case
    using ne row moved
    by (auto intro!: wp_task_GetByID fail claimed simp: task_at_idle intro: task_moved_idle)
qed (use other fail in auto)

lemma wp_MarkReplayReady [wp_intro]:
  assumes ok: "tasks_ok w"
    and ready: "\<And>w'. task_moved i {task_StatusDead, task_StatusFailed} replay_task w w' \<Longrightarrow> Q (Inr ()) w'"
    and not_found: "\<And>w'. task_at w i = None \<Longrightarrow> idle w w' \<Longrightarrow> Q (Inl ErrTaskNotFound) w'"
    and other: "\<And>w' s. task_at w i \<noteq> None \<Longrightarrow>
           idle w w' \<or> task_moved i {task_StatusDead, task_StatusFailed} replay_task w w' \<Longrightarrow>
           Q (Inl (ErrWrap [] ErrTaskNotReplayable s)) w'"
    and fail: "\<And>e pre w'. task_moved i {task_StatusDead, task_StatusFailed} replay_task w w' \<or> idle w w' \<Longrightarrow>
           Q (Inl (ErrWrap pre (ErrIO e) [])) w'"
  shows "wp (MarkReplayReady i) Q w"
  unfolding MarkReplayReady_def
proof (rule wp_task_update [OF ok], goal_cases)
  case (2 r now w1)
  have moved: "task_moved i {task_StatusDead, task_StatusFailed} replay_task w w1"
    using 2 by (auto simp: task_moved_def)
  have row: "sql_row (\<lambda>r. tk_task_id r = i) (db_tasks (w_db w1)) = Some (replay_task now r)"
    using task_at_put [OF 2(5)] 2(1) unfolding task_at_def [symmetric] by simp
  have idle: "idle w1 (w1\<lparr>w_faults := fs\<rparr>)" for fs by (simp add: idle_def)
  show ?case
    using moved row 2(1) task_moved_idle [OF moved idle]
    by (auto intro!: wp_db_exec fail other ready simp: query_row_def sql_ErrNoRows_def)
next
  case (3 w1)
  have idle: "idle w (w1\<lparr>w_faults := fs\<rparr>)" for fs using 3(2) by (simp add: idle_def)
  have row: "sql_row (\<lambda>r. tk_task_id r = i) (db_tasks (w_db w1)) = task_at w i"
    using 3(2) by (simp add: task_at_def idle_def)
  show ?case
    using idle row
    by (cases "task_at w i")
      (auto intro!: wp_db_exec fail other not_found simp: query_row_def sql_ErrNoRows_def)
qed (use fail in auto)

section \<open>A failed attempt\<close>

lemma rolled_back_tables [simp]:
  "rolled_back d d = d" "rolled_back d (d\<lparr>db_tasks := x\<rparr>) = d" "rolled_back d (d\<lparr>db_events := y\<rparr>) = d"
  by (simp_all add: rolled_back_def)

text \<open>What the transaction of \<^verbatim>\<open>MarkFailed\<close> has done to its copy \<open>d'\<close> of the database.\<close>

definition failed_outcome ::
  "int \<Rightarrow> string \<Rightarrow> int \<Rightarrow> world \<Rightarrow> (bool \<times> int option) result \<Rightarrow> db \<Rightarrow> bool"
where
  "failed_outcome i m base w res d' \<longleftrightarrow> (case res of
     Inl e \<Rightarrow> \<exists>x. d' = (w_db w)\<lparr>db_tasks := x\<rparr>
   | Inr (dead, next) \<Rightarrow> \<exists>r now. task_at w i = Some r \<and> w_now w \<le> now \<and>
       (if tk_status r \<noteq> task_StatusRunning then \<not> dead \<and> next = None \<and> d' = w_db w
        else if tk_max_retry r \<le> tk_retry_count r + 1
        then dead \<and> next = None \<and> d' = (w_db w)\<lparr>db_tasks :=
               put_row tk_task_id i (dead_task (tk_retry_count r + 1) m now r) (db_tasks (w_db w))\<rparr>
        else \<not> dead \<and> next = Some (now + taskBackoff (tk_retry_count r + 1) base) \<and>
             d' = (w_db w)\<lparr>db_tasks := put_row tk_task_id i
               (retry_task (tk_retry_count r + 1) (now + taskBackoff (tk_retry_count r + 1) base) m now r)
               (db_tasks (w_db w))\<rparr>))"

lemma failed_outcome_Inl [simp]:
  "failed_outcome i m base w (Inl e) (w_db w)"
  "failed_outcome i m base w (Inl e) ((w_db w)\<lparr>db_tasks := x\<rparr>)"
proof -
  have "\<exists>x. w_db w = (w_db w)\<lparr>db_tasks := x\<rparr>" by (rule exI [of _ "db_tasks (w_db w)"]) simp
  then show "failed_outcome i m base w (Inl e) (w_db w)" by (simp add: failed_outcome_def)
qed (auto simp: failed_outcome_def)

lemma failed_outcome_Inr:
  assumes "task_at w i = Some r" "w_now w \<le> now"
  shows "tk_status r \<noteq> task_StatusRunning \<Longrightarrow> failed_outcome i m base w (Inr (False, None)) (w_db w)"
    and "tk_status r = task_StatusRunning \<Longrightarrow> tk_max_retry r \<le> tk_retry_count r + 1 \<Longrightarrow>
      failed_outcome i m base w (Inr (True, None)) ((w_db w)\<lparr>db_tasks :=
        put_row tk_task_id i (dead_task (tk_retry_count r + 1) m now r) (db_tasks (w_db w))\<rparr>)"
    and "tk_status r = task_StatusRunning \<Longrightarrow> \<not> tk_max_retry r \<le> tk_retry_count r + 1 \<Longrightarrow>
      failed_outcome i m base w (Inr (False, Some (now + taskBackoff (tk_retry_count r + 1) base)))
        ((w_db w)\<lparr>db_tasks := put_row tk_task_id i
          (retry_task (tk_retry_count r + 1) (now + taskBackoff (tk_retry_count r + 1) base) m now r)
          (db_tasks (w_db w))\<rparr>)"
  using assms by (auto simp: failed_outcome_def)

lemma update_task_by_id:
  assumes "distinct (map tk_task_id (db_tasks d))" "sql_row (\<lambda>r. tk_task_id r = i) (db_tasks d) = Some r"
  shows "snd (update_tasks (\<lambda>r. tk_task_id r = i) f d) = d\<lparr>db_tasks := put_row tk_task_id i (f r) (db_tasks d)\<rparr>"
    and "\<exists>n. fst (update_tasks (\<lambda>r. tk_task_id r = i) f d) = Inr n"
  using sql_update_hit [of tk_task_id "db_tasks d" i r "\<lambda>_. True" f] assms
  by (simp_all add: update_tasks_def)

lemma wp_markFailed_tx:
  assumes ok: "tasks_ok w"
  shows "wp (markFailed_tx i m base)
           (\<lambda>r w'. \<exists>d. w_tx w' = Some d \<and> w_db w' = w_db w \<and> same_env w w' \<and> failed_outcome i m base w r d)
           (w\<lparr>w_faults := fs, w_tx := Some (w_db w)\<rparr>)"
    (is "wp _ ?Q _")
proof -
  note dist = ok [unfolded tasks_ok_def]
  show ?thesis
  proof (cases "task_at w i")
    case None
    then have "sql_row (\<lambda>r. tk_task_id r = i) (db_tasks (w_db w)) = None" by (simp add: task_at_def)
    then show ?thesis unfolding markFailed_tx_def wp_bindE wp_mapErr
      by (intro wp_tx_exec [where d = "w_db w"])
        (auto simp: query_row_def)
  next
    case (Some r)
    then have row: "sql_row (\<lambda>r. tk_task_id r = i) (db_tasks (w_db w)) = Some r" by (simp add: task_at_def)
    have upd: "wp (bindE (wrapE pre (tx_exec (update_tasks (\<lambda>r. tk_task_id r = i) f))) (\<lambda>_. returnE a)) ?Q
         (w\<lparr>w_faults := fs, w_tx := Some (w_db w), w_now := now, w_ticks := ts\<rparr>)"
      if "w_now w \<le> now"
        "failed_outcome i m base w (Inr a) ((w_db w)\<lparr>db_tasks := put_row tk_task_id i (f r) (db_tasks (w_db w))\<rparr>)"
      for pre f a now ts fs
      using update_task_by_id [OF dist row, of f] that
      by (auto intro!: wp_tx_exec [where d = "w_db w"] simp: same_env_def)
    show ?thesis unfolding markFailed_tx_def wp_bindE wp_mapErr
    proof (rule wp_tx_exec [where d = "w_db w"], goal_cases)
      case (2 gs)
      show ?case
        using Some row failed_outcome_Inr(1) [OF Some order_refl]
        by (auto simp: query_row_def Let_def simp del: wp_bindE
            intro!: wp_time_Now upd failed_outcome_Inr(2,3) [OF Some])
    qed (auto simp: query_row_def)
  qed
qed

text \<open>
  The rule for \<^verbatim>\<open>MarkFailed\<close>. Its answer says which of the three things was committed; an error
  leaves the task as it was, or (when only the answer to the commit was lost) as committed.
\<close>

definition task_failed :: "int \<Rightarrow> string \<Rightarrow> int \<Rightarrow> bool \<times> int option \<Rightarrow> world \<Rightarrow> world \<Rightarrow> bool" where
  "task_failed i m base res w w' \<longleftrightarrow> (\<exists>r now. task_at w i = Some r \<and> w_now w \<le> now \<and>
     (if tk_status r \<noteq> task_StatusRunning then res = (False, None) \<and> idle w w'
      else if tk_max_retry r \<le> tk_retry_count r + 1
      then res = (True, None) \<and> task_put i (dead_task (tk_retry_count r + 1) m now r) w w'
      else res = (False, Some (now + taskBackoff (tk_retry_count r + 1) base)) \<and>
           task_put i (retry_task (tk_retry_count r + 1) (now + taskBackoff (tk_retry_count r + 1) base) m now r) w w'))"

lemma failed_outcome_committed:
  assumes "failed_outcome i m base w (Inr a) (w_db w')" "w_tx w = None" "w_tx w' = None" "same_env w w'"
  shows "task_failed i m base a w w'"
proof -
  obtain r now where r: "task_at w i = Some r" "w_now w \<le> now"
    and cases: "if tk_status r \<noteq> task_StatusRunning then a = (False, None) \<and> w_db w' = w_db w
        else if tk_max_retry r \<le> tk_retry_count r + 1
        then a = (True, None) \<and> w_db w' = (w_db w)\<lparr>db_tasks :=
               put_row tk_task_id i (dead_task (tk_retry_count r + 1) m now r) (db_tasks (w_db w))\<rparr>
        else a = (False, Some (now + taskBackoff (tk_retry_count r + 1) base)) \<and>
             w_db w' = (w_db w)\<lparr>db_tasks := put_row tk_task_id i
               (retry_task (tk_retry_count r + 1) (now + taskBackoff (tk_retry_count r + 1) base) m now r)
               (db_tasks (w_db w))\<rparr>"
    using assms(1) by (auto simp: failed_outcome_def split: if_splits)
  show ?thesis
    unfolding task_failed_def
    by (rule exI [of _ r], rule exI [of _ now])
      (use r cases assms(2-4) task_at_id [OF r(1)] in \<open>simp add: idle_def task_put_def split: if_splits\<close>)
qed

lemma wp_MarkFailed [wp_intro]:
  assumes ok: "tasks_ok w" and tx: "w_tx w = None"
    and marked: "\<And>a w'. task_failed i m base a w w' \<Longrightarrow> Q (Inr a) w'"
    and fail: "\<And>e w'. idle w w' \<or> (\<exists>a. task_failed i m base a w w') \<Longrightarrow> Q (Inl e) w'"
  shows "wp (MarkFailed i m base) Q w"
  unfolding MarkFailed_def
proof (rule wp_within_tx [OF wp_markFailed_tx [OF ok]], goal_cases)
  case (1 e w')
  then show ?case using tx by (intro fail) (simp add: idle_def)
next
  case (2 a w')
  show ?case by (rule marked [OF failed_outcome_committed [OF 2(1) tx 2(2,3)]])
next
  case (3 e w')
  then obtain a where a: "failed_outcome i m base w (Inr a) (w_db w') \<or>
      (\<exists>d. failed_outcome i m base w (Inr a) d \<and> w_db w' = rolled_back (w_db w) d)" by blast
  have "rolled_back (w_db w) d = w_db w" if "failed_outcome i m base w (Inr a) d" for d
    using that by (auto simp: failed_outcome_def split: if_splits)
  with a 3(2,3) tx have "idle w w' \<or> task_failed i m base a w w'"
    using failed_outcome_committed [of i m base w a w'] by (auto simp: idle_def)
  then show ?case by (intro fail) blast
next
  case (4 e w')
  then have "idle w w'" using tx by (auto simp: failed_outcome_def idle_def)
  then show ?case by (intro fail) simp
qed

section \<open>Creation\<close>

definition task_defaults :: "CreateTaskParams \<Rightarrow> CreateTaskParams" where
  "task_defaults p = (if TaskParams_MaxRetry p \<le> 0 then p\<lparr>TaskParams_MaxRetry := 5\<rparr> else p)"

definition same_task_key :: "db \<Rightarrow> string \<Rightarrow> string \<Rightarrow> task_row \<Rightarrow> bool" where
  "same_task_key d ty biz r \<longleftrightarrow>
     db_collate d (tk_task_type r) = db_collate d ty \<and> db_collate d (tk_biz_id r) = db_collate d biz"

definition with_task :: "CreateTaskParams \<Rightarrow> int \<Rightarrow> db \<Rightarrow> db" where
  "with_task p now d =
     d\<lparr>db_next_task_id := db_next_task_id d + 1, db_tasks := db_tasks d @
       [\<lparr>tk_task_id = db_next_task_id d, tk_task_type = TaskParams_TaskType p,
         tk_biz_id = TaskParams_BizID p, tk_status = task_StatusPending,
         tk_payload_json = TaskParams_Payload p, tk_retry_count = 0,
         tk_max_retry = TaskParams_MaxRetry (task_defaults p), tk_next_retry_at = None,
         tk_last_error = [], tk_created_at = datetime3 now, tk_updated_at = datetime3 now\<rparr>]\<rparr>"

lemma insert_task_eq:
  "insert_task (task_defaults p) now d =
     (if \<exists>r \<in> set (db_tasks d). same_task_key d (TaskParams_TaskType p) (TaskParams_BizID p) r
      then (Inl err_duplicate, d\<lparr>db_next_task_id := db_next_task_id d + 1\<rparr>)
      else (Inr (db_next_task_id d), with_task p now d))"
  by (simp add: insert_task_def same_task_key_def with_task_def task_defaults_def Let_def)

lemma wp_task_CreateTx:
  assumes "w_tx w = Some d"
    and "\<And>now t w'. \<forall>r \<in> set (db_tasks d). \<not> same_task_key d (TaskParams_TaskType p) (TaskParams_BizID p) r \<Longrightarrow>
           Task_ID t = db_next_task_id d \<Longrightarrow> Task_Status t = task_StatusPending \<Longrightarrow>
           tx_to w (with_task p now d) w' \<Longrightarrow> Q (Inr t) w'"
    and "\<And>r w'. r \<in> set (db_tasks d) \<Longrightarrow> same_task_key d (TaskParams_TaskType p) (TaskParams_BizID p) r \<Longrightarrow>
           tx_to w (d\<lparr>db_next_task_id := db_next_task_id d + 1\<rparr>) w' \<Longrightarrow> Q (Inl ErrTaskDuplicate) w'"
    and "\<And>e w' d'. tx_to w d' w' \<Longrightarrow> counters_le d d' \<Longrightarrow> Q (Inl (ErrWrap ''insert async task: '' (ErrIO e) [])) w'"
  shows "wp (task_CreateTx p) Q w"
  unfolding task_CreateTx_def Let_def task_defaults_def [symmetric] wp_bind
proof (rule wp_tx_clock [OF assms(1)], unfold wp_bindE wp_mapErr, rule wp_tx_stmt [where d = d], goal_cases)
  case (1 now w1)
  then show ?case by (simp add: tx_to_tx)
next
  case (2 now w1 w2)
  then show ?case
    using assms(2,3) tx_to_trans [OF 2(1,3)] by (auto simp: insert_task_eq split: if_splits)
next
  case (3 now w1 e w2)
  have "counters_le d (snd (insert_task (task_defaults p) now d))"
    by (simp add: insert_task_eq counters_le_def with_task_def)
  moreover have "tx_to w d w2 \<or> tx_to w (snd (insert_task (task_defaults p) now d)) w2"
    using 3 tx_to_trans [OF 3(1)] by blast
  ultimately show ?case using assms(4) by auto
qed

lemma wp_GetByTypeBiz:
  assumes "\<And>w'. idle w w' \<Longrightarrow>
      Q (case sql_row (same_task_key (w_db w) ty biz) (db_tasks (w_db w)) of
           None \<Rightarrow> Inl sql_ErrNoRows | Some r \<Rightarrow> Inr (scanTask r)) w'"
    and "\<And>e w'. idle w w' \<Longrightarrow> Q (Inl (ErrIO e)) w'"
  shows "wp (GetByTypeBiz ty biz) Q w"
  unfolding GetByTypeBiz_def
proof (rule wp_db_exec, goal_cases)
  case (1 fs)
  have "idle w (w\<lparr>w_faults := fs\<rparr>)" by (simp add: idle_def)
  from assms(1) [OF this] show ?case
    by (cases "sql_row (same_task_key (w_db w) ty biz) (db_tasks (w_db w))")
      (simp_all add: query_row_def same_task_key_def [abs_def])
qed (use assms(2) in \<open>auto simp: query_row_def idle_def\<close>)

end
