(* ===== verification/TaskConsumer.thy ===== *)
theory TaskConsumer
  imports TaskQueue TaskRepository
begin

text \<open>
  examples/Quan/internal/task/handler.go and consumer.go: the registry of task handlers, the notice
  handler, and the consumer that takes task ids from the ready list, runs their handler and
  records what became of them. The locale \<open>consumer_env\<close> states what the consumer relies on; its
  client lemmas hold for any implementation and are applied to the MySQL repository and the Redis
  queue by interpretation.
\<close>

section \<open>Handlers\<close>

type_synonym 's TaskHandler = "ctx \<Rightarrow> AsyncTask \<Rightarrow> ('s, unit result) state"

type_synonym 's HandlerRegistry = "string \<rightharpoonup> 's TaskHandler"

definition NewHandlerRegistry :: "'s HandlerRegistry" where
  "NewHandlerRegistry = (\<lambda>_. None)"

definition Registry_Register :: "'s HandlerRegistry \<Rightarrow> string \<Rightarrow> 's TaskHandler \<Rightarrow> 's HandlerRegistry" where
  "Registry_Register r taskType h = r(taskType \<mapsto> h)"

definition Registry_Handle :: "'s HandlerRegistry \<Rightarrow> ctx \<Rightarrow> AsyncTask \<Rightarrow> ('s, unit result) state" where
  "Registry_Handle r ctx task = (case r (Task_TaskType task) of
     None \<Rightarrow> throwE (ErrNew (''task handler not found: '' @ Task_TaskType task))
   | Some h \<Rightarrow> h ctx task)"

fun decode_string_field :: "string \<Rightarrow> (string \<times> json) list \<Rightarrow> string \<Rightarrow> string result" where
  "decode_string_field tag [] cur = Inr cur"
| "decode_string_field tag ((k, v) # ms) cur =
     (if field_matches tag k
      then (case decode_string v cur of Inl e \<Rightarrow> Inl e | Inr s \<Rightarrow> decode_string_field tag ms s)
      else decode_string_field tag ms cur)"

text \<open>\<^verbatim>\<open>json.Unmarshal\<close> into \<^verbatim>\<open>SendCouponNoticePayload\<close>; which type error comes first is not observed.\<close>

definition UnmarshalNoticePayload :: "json \<Rightarrow> SendCouponNoticePayload result" where
  "UnmarshalNoticePayload payload = (case payload of
     JNull \<Rightarrow> Inr \<lparr>Notice_ClaimID = 0, Notice_CouponID = 0, Notice_UserID = 0, Notice_TraceID = ''''\<rparr>
   | JObj ms \<Rightarrow>
       (case (decode_int64_field ''claim_id'' ms 0, decode_int64_field ''coupon_id'' ms 0,
              decode_int64_field ''user_id'' ms 0, decode_string_field ''trace_id'' ms '''') of
          (Inr c, Inr k, Inr u, Inr t) \<Rightarrow>
            Inr \<lparr>Notice_ClaimID = c, Notice_CouponID = k, Notice_UserID = u, Notice_TraceID = t\<rparr>
        | _ \<Rightarrow> Inl err_unmarshal)
   | _ \<Rightarrow> Inl err_unmarshal)"

text \<open>The notice handler decodes the payload and writes a log line, which is not modelled.\<close>

definition SendCouponNoticeHandler :: "'s TaskHandler" where
  "SendCouponNoticeHandler ctx task = (case UnmarshalNoticePayload (Task_Payload task) of
     Inl err \<Rightarrow> throwE (ErrWrap ''decode SEND_COUPON_NOTICE payload: '' err '''')
   | Inr _ \<Rightarrow> returnE ())"

lemma UnmarshalNoticePayload_Marshal:
  assumes "in_int64 (Notice_ClaimID p)" "in_int64 (Notice_CouponID p)" "in_int64 (Notice_UserID p)"
  shows "UnmarshalNoticePayload (MarshalPayload p) = Inr p"
  using assms
  by (cases p) (auto simp: UnmarshalNoticePayload_def MarshalPayload_def field_matches_def in_int64_def
      ascii_fold_def)

section \<open>Configuration\<close>

record ConsumeConfig =
  Consume_Enabled :: bool
  Consume_Workers :: int
  Consume_PollInterval :: int
  Consume_ReadyTimeout :: int
  Consume_RetryBackoff :: int
  Consume_RetryMoveBatch :: int
  Consume_DefaultMaxRetry :: int

definition ConsumeConfig_withDefaults :: "ConsumeConfig \<Rightarrow> ConsumeConfig" where
  "ConsumeConfig_withDefaults c =
     (let c = (if Consume_Workers c \<le> 0 then c\<lparr>Consume_Workers := 4\<rparr> else c);
          c = (if Consume_PollInterval c \<le> 0 then c\<lparr>Consume_PollInterval := 200 * Millisecond\<rparr> else c);
          c = (if Consume_ReadyTimeout c \<le> 0 then c\<lparr>Consume_ReadyTimeout := 1 * Second\<rparr> else c);
          c = (if Consume_RetryBackoff c \<le> 0 then c\<lparr>Consume_RetryBackoff := 2 * Second\<rparr> else c);
          c = (if Consume_RetryMoveBatch c \<le> 0 then c\<lparr>Consume_RetryMoveBatch := 100\<rparr> else c);
          c = (if Consume_DefaultMaxRetry c \<le> 0 then c\<lparr>Consume_DefaultMaxRetry := 5\<rparr> else c)
      in c)"

section \<open>The consumer\<close>

record 's consumerRepository =
  cr_TryMarkRunning :: "int \<Rightarrow> ('s, AsyncTask option result) state"
  cr_MarkFailed :: "int \<Rightarrow> string \<Rightarrow> int \<Rightarrow> ('s, (bool \<times> int option) result) state"
  cr_MarkSuccess :: "int \<Rightarrow> ('s, unit result) state"
  cr_MarkSuspended :: "int \<Rightarrow> string \<Rightarrow> ('s, unit result) state"

record 's consumerQueue =
  cq_MoveDueRetryToReady :: "int \<Rightarrow> ('s, int \<times> goerr option) state"
  cq_PopReady :: "('s, int option result) state"
  cq_PushDLQ :: "int \<Rightarrow> ('s, unit result) state"
  cq_ScheduleRetry :: "int \<Rightarrow> int \<Rightarrow> ('s, unit result) state"

record 's consumerMetrics =
  cm_IncTaskRetry :: "('s, unit) state"
  cm_IncTaskDLQ :: "('s, unit) state"
  cm_IncConsumeSuccess :: "('s, unit) state"
  cm_IncConsumeFailure :: "('s, unit) state"

definition noopConsumerMetrics :: "'s consumerMetrics" where
  "noopConsumerMetrics = \<lparr>cm_IncTaskRetry = ret (), cm_IncTaskDLQ = ret (), cm_IncConsumeSuccess = ret (),
     cm_IncConsumeFailure = ret ()\<rparr>"

record 's consumer_ports =
  Consumer_repo :: "'s consumerRepository"
  Consumer_queue :: "'s consumerQueue"
  Consumer_registry :: "'s HandlerRegistry"
  Consumer_metrics :: "'s consumerMetrics"

record 's Consumer =
  Consumer_cfg :: ConsumeConfig
  Consumer_ports :: "'s consumer_ports option"

definition NewConsumer ::
  "'s consumerRepository option \<Rightarrow> 's consumerQueue option \<Rightarrow> 's HandlerRegistry option \<Rightarrow> ConsumeConfig \<Rightarrow>
     's Consumer result"
where
  "NewConsumer repo queue registry cfg0 =
     (let cfg = ConsumeConfig_withDefaults cfg0 in
      if \<not> Consume_Enabled cfg then Inr \<lparr>Consumer_cfg = cfg, Consumer_ports = None\<rparr>
      else case repo of
        None \<Rightarrow> Inl (ErrNew ''task consumer repository is nil'')
      | Some r \<Rightarrow> (case queue of
          None \<Rightarrow> Inl (ErrNew ''task consumer queue is nil'')
        | Some q \<Rightarrow> (case registry of
            None \<Rightarrow> Inl (ErrNew ''task consumer registry is nil'')
          | Some g \<Rightarrow> Inr \<lparr>Consumer_cfg = cfg, Consumer_ports = Some \<lparr>Consumer_repo = r, Consumer_queue = q,
                Consumer_registry = g, Consumer_metrics = noopConsumerMetrics\<rparr>\<rparr>)))"

definition Consumer_SetMetrics :: "'s Consumer option \<Rightarrow> 's consumerMetrics option \<Rightarrow> 's Consumer option" where
  "Consumer_SetMetrics c metrics = (case (c, metrics) of
     (Some x, Some m) \<Rightarrow> Some (x\<lparr>Consumer_ports := map_option (\<lambda>p. p\<lparr>Consumer_metrics := m\<rparr>) (Consumer_ports x)\<rparr>)
   | _ \<Rightarrow> c)"

text \<open>What \<^verbatim>\<open>consumeTask\<close> does when the handler failed with \<open>err\<close>.\<close>

definition consume_failed :: "'s consumer_ports \<Rightarrow> ConsumeConfig \<Rightarrow> AsyncTask \<Rightarrow> goerr \<Rightarrow> ('s, unit result) state" where
  "consume_failed p cfg task err = do {
     _ \<leftarrow> cm_IncConsumeFailure (Consumer_metrics p);
     bindE (cr_MarkFailed (Consumer_repo p) (Task_ID task) (errstr err) (Consume_RetryBackoff cfg)) (\<lambda>(dead, nextRetry).
       if dead then do {
         _ \<leftarrow> cm_IncTaskDLQ (Consumer_metrics p);
         mapErr (\<lambda>pushErr. ErrWrap ''push task to dlq failed: '' pushErr '''')
           (cq_PushDLQ (Consumer_queue p) (Task_ID task)) }
       else case nextRetry of
         None \<Rightarrow> returnE ()
       | Some next \<Rightarrow> do {
           _ \<leftarrow> cm_IncTaskRetry (Consumer_metrics p);
           mapErr (\<lambda>scheduleErr. ErrWrap ''schedule task retry failed: '' scheduleErr '''')
             (cq_ScheduleRetry (Consumer_queue p) (Task_ID task) next) }) }"

text \<open>What it does when the handler succeeded.\<close>

definition consume_done :: "'s consumer_ports \<Rightarrow> AsyncTask \<Rightarrow> ('s, unit result) state" where
  "consume_done p task = do {
     marked \<leftarrow> cr_MarkSuccess (Consumer_repo p) (Task_ID task);
     case marked of
       Inl err \<Rightarrow> do {
         suspended \<leftarrow> cr_MarkSuspended (Consumer_repo p) (Task_ID task)
           (''handler succeeded but mark success failed: '' @ errstr err);
         case suspended of
           Inl suspendErr \<Rightarrow> throwE (ErrWrap ''mark task success failed: '' err
             (''; suspend fallback failed: '' @ errstr suspendErr))
         | Inr _ \<Rightarrow> throwE err }
     | Inr _ \<Rightarrow> do { _ \<leftarrow> cm_IncConsumeSuccess (Consumer_metrics p); returnE () } }"

definition consumeTask :: "'s consumer_ports \<Rightarrow> ConsumeConfig \<Rightarrow> ctx \<Rightarrow> int \<Rightarrow> ('s, unit result) state" where
  "consumeTask p cfg ctx taskID =
     bindE (cr_TryMarkRunning (Consumer_repo p) taskID) (\<lambda>claim. case claim of
       None \<Rightarrow> returnE ()
     | Some task \<Rightarrow> do {
         handled \<leftarrow> Registry_Handle (Consumer_registry p) ctx task;
         case handled of
           Inl err \<Rightarrow> consume_failed p cfg task err
         | Inr _ \<Rightarrow> consume_done p task })"

text \<open>One round of a worker: errors are logged and the worker goes on.\<close>

definition worker_round :: "'s consumer_ports \<Rightarrow> ConsumeConfig \<Rightarrow> ctx \<Rightarrow> ('s, unit result) state" where
  "worker_round p cfg ctx =
     bindE (cq_PopReady (Consumer_queue p)) (\<lambda>popped. case popped of
       None \<Rightarrow> returnE ()
     | Some taskID \<Rightarrow> consumeTask p cfg ctx taskID)"

text \<open>\<^verbatim>\<open>runWorker\<close>, cancelled when \<open>n\<close> rounds are over; \<^verbatim>\<open>runRetryScheduler\<close> likewise.\<close>

primrec runWorker :: "'s consumer_ports \<Rightarrow> ConsumeConfig \<Rightarrow> ctx \<Rightarrow> nat \<Rightarrow> ('s, unit) state" where
  "runWorker p cfg ctx 0 = ret ()"
| "runWorker p cfg ctx (Suc n) = do { _ \<leftarrow> worker_round p cfg ctx; runWorker p cfg ctx n }"

primrec runRetryScheduler :: "'s consumer_ports \<Rightarrow> ConsumeConfig \<Rightarrow> nat \<Rightarrow> ('s, unit) state" where
  "runRetryScheduler p cfg 0 = do {
     _ \<leftarrow> cq_MoveDueRetryToReady (Consumer_queue p) (Consume_RetryMoveBatch cfg); ret () }"
| "runRetryScheduler p cfg (Suc n) = do {
     _ \<leftarrow> cq_MoveDueRetryToReady (Consumer_queue p) (Consume_RetryMoveBatch cfg); runRetryScheduler p cfg n }"

text \<open>
  \<^verbatim>\<open>Start\<close> up to \<^verbatim>\<open>Stop\<close>. The scheduler and the workers run concurrently; a schedule says whose
  round comes next (\<open>True\<close> a worker's, \<open>False\<close> the scheduler's), and at most \<^verbatim>\<open>Workers\<close> workers
  exist, which all run the same rounds.
\<close>

primrec consumer_schedule :: "'s consumer_ports \<Rightarrow> ConsumeConfig \<Rightarrow> ctx \<Rightarrow> bool list \<Rightarrow> ('s, unit) state" where
  "consumer_schedule p cfg ctx [] = ret ()"
| "consumer_schedule p cfg ctx (b # bs) = do {
     _ \<leftarrow> (if b then runWorker p cfg ctx 1 else runRetryScheduler p cfg 0);
     consumer_schedule p cfg ctx bs }"

definition Consumer_StartStop :: "'s Consumer option \<Rightarrow> ctx \<Rightarrow> bool list \<Rightarrow> ('s, unit) state" where
  "Consumer_StartStop c ctx bs = (case c of
     None \<Rightarrow> ret ()
   | Some x \<Rightarrow>
       if \<not> Consume_Enabled (Consumer_cfg x) then ret ()
       else case Consumer_ports x of None \<Rightarrow> ret () | Some p \<Rightarrow> consumer_schedule p (Consumer_cfg x) ctx bs)"

lemma ConsumeConfig_withDefaults_pos:
  "0 < Consume_Workers (ConsumeConfig_withDefaults c)" "0 < Consume_PollInterval (ConsumeConfig_withDefaults c)"
  "0 < Consume_ReadyTimeout (ConsumeConfig_withDefaults c)" "0 < Consume_RetryBackoff (ConsumeConfig_withDefaults c)"
  "0 < Consume_RetryMoveBatch (ConsumeConfig_withDefaults c)" "0 < Consume_DefaultMaxRetry (ConsumeConfig_withDefaults c)"
  by (simp_all add: ConsumeConfig_withDefaults_def Let_def Millisecond_def Second_def)

section \<open>What the consumer relies on\<close>

text \<open>The row of task \<open>i\<close> moves from \<open>r\<close> to some \<open>r'\<close> with \<open>P r r'\<close>, the others stay.\<close>

definition row_to :: "(task_row \<Rightarrow> task_row \<Rightarrow> bool) \<Rightarrow> int \<Rightarrow> (int \<rightharpoonup> task_row) \<Rightarrow> (int \<rightharpoonup> task_row) \<Rightarrow> bool" where
  "row_to P i m m' \<longleftrightarrow> (\<exists>r r'. m i = Some r \<and> P r r' \<and> m' = m(i \<mapsto> r'))"

lemma row_toI: "m i = Some r \<Longrightarrow> m' = m(i \<mapsto> r') \<Longrightarrow> P r r' \<Longrightarrow> row_to P i m m'"
  unfolding row_to_def by blast

definition is_running :: "task_row \<Rightarrow> task_row \<Rightarrow> bool" where
  "is_running r r' \<longleftrightarrow> tk_status r \<in> {task_StatusPending, task_StatusFailed} \<and> (\<exists>now. r' = running_task now r)"

definition is_success :: "task_row \<Rightarrow> task_row \<Rightarrow> bool" where
  "is_success r r' \<longleftrightarrow> tk_status r = task_StatusRunning \<and> (\<exists>now. r' = success_task now r)"

definition is_suspended :: "task_row \<Rightarrow> task_row \<Rightarrow> bool" where
  "is_suspended r r' \<longleftrightarrow> tk_status r = task_StatusRunning \<and> (\<exists>m now. r' = suspended_task m now r)"

definition is_dead :: "task_row \<Rightarrow> task_row \<Rightarrow> bool" where
  "is_dead r r' \<longleftrightarrow> tk_status r = task_StatusRunning \<and> tk_max_retry r \<le> tk_retry_count r + 1 \<and>
     (\<exists>m now. r' = dead_task (tk_retry_count r + 1) m now r)"

definition is_retry :: "int \<Rightarrow> task_row \<Rightarrow> task_row \<Rightarrow> bool" where
  "is_retry next r r' \<longleftrightarrow> tk_status r = task_StatusRunning \<and> tk_retry_count r + 1 < tk_max_retry r \<and>
     (\<exists>m now. r' = retry_task (tk_retry_count r + 1) next m now r)"

lemma moves_are_transitions:
  "is_running r r' \<Longrightarrow> task_trans r r'" "is_success r r' \<Longrightarrow> task_trans r r'" "is_suspended r r' \<Longrightarrow> task_trans r r'"
  "is_dead r r' \<Longrightarrow> task_trans r r'" "is_retry next r r' \<Longrightarrow> task_trans r r'"
  by (auto simp: is_running_def is_success_def is_suspended_def is_dead_def is_retry_def intro: task_trans.intros)

lemma moves_status:
  "is_running r r' \<Longrightarrow> tk_status r' = task_StatusRunning" "is_success r r' \<Longrightarrow> tk_status r' = task_StatusSuccess"
  "is_suspended r r' \<Longrightarrow> tk_status r' = task_StatusSuspended" "is_dead r r' \<Longrightarrow> tk_status r' = task_StatusDead"
  "is_retry next r r' \<Longrightarrow> tk_status r' = task_StatusFailed \<and> tk_next_retry_at r' = Some (datetime3 next)"
  by (auto simp: is_running_def is_success_def is_suspended_def is_dead_def is_retry_def retry_task_def)

text \<open>
  Where a task can be after a run of its handler, and what the queue then holds. \<open>err\<close>: the
  consumer returned an error; \<open>good\<close>: the handler succeeded.
\<close>

definition settled :: "int \<Rightarrow> bool \<Rightarrow> bool \<Rightarrow> task_row \<Rightarrow> task_row \<Rightarrow> queue_view \<Rightarrow> queue_view \<Rightarrow> bool" where
  "settled i good err r r' v v' \<longleftrightarrow> task_reaches r r' \<and>
     (if good then v' = v \<and> (tk_status r' = task_StatusSuccess \<or>
                err \<and> tk_status r' \<in> {task_StatusRunning, task_StatusSuspended})
      else tk_status r' = task_StatusRunning \<and> err \<and> v' = v \<or>
           tk_status r' = task_StatusDead \<and> (v' = v\<lparr>qv_dlq := qv_dlq v @ [FormatInt i]\<rparr> \<or> err \<and> v' = v) \<or>
           tk_status r' = task_StatusFailed \<and> (\<exists>next. tk_next_retry_at r' = Some (datetime3 next) \<and>
             (v' = v\<lparr>qv_retry := zput (FormatInt i) (UnixMilli next) (qv_retry v)\<rparr> \<or> err \<and> v' = v)))"

locale consumer_env =
  fixes repo :: "'s consumerRepository"
    and queue :: "'s consumerQueue"
    and registry :: "'s HandlerRegistry"
    and metrics :: "'s consumerMetrics"
    and invar :: "'s \<Rightarrow> bool"
    and rows :: "'s \<Rightarrow> int \<rightharpoonup> task_row"
    and view :: "'s \<Rightarrow> queue_view"
  assumes id_law: "invar s \<Longrightarrow> rows s i = Some x \<Longrightarrow> tk_task_id x = i"
    and running_law: "invar s \<Longrightarrow> wp (cr_TryMarkRunning repo i)
      (\<lambda>r s'. invar s' \<and> view s' = view s \<and>
         (case r of
            Inr (Some t) \<Rightarrow> row_to is_running i (rows s) (rows s') \<and> (\<exists>x. rows s' i = Some x \<and> t = scanTask x)
          | Inr None \<Rightarrow> rows s' = rows s
          | Inl e \<Rightarrow> rows s' = rows s \<or> row_to is_running i (rows s) (rows s'))) s"
    and failed_law: "invar s \<Longrightarrow> wp (cr_MarkFailed repo i m base)
      (\<lambda>r s'. invar s' \<and> view s' = view s \<and>
         (case r of
            Inr (True, n) \<Rightarrow> row_to is_dead i (rows s) (rows s')
          | Inr (False, Some next) \<Rightarrow> row_to (is_retry next) i (rows s) (rows s')
          | Inr (False, None) \<Rightarrow> rows s' = rows s \<and> (\<exists>x. rows s i = Some x \<and> tk_status x \<noteq> task_StatusRunning)
          | Inl e \<Rightarrow> rows s' = rows s \<or> row_to is_dead i (rows s) (rows s') \<or>
              (\<exists>next. row_to (is_retry next) i (rows s) (rows s')))) s"
    and success_law: "invar s \<Longrightarrow> wp (cr_MarkSuccess repo i)
      (\<lambda>r s'. invar s' \<and> view s' = view s \<and>
         (row_to is_success i (rows s) (rows s') \<or> rows s' = rows s \<and>
            ((\<exists>e. r = Inl e) \<or> (\<forall>x. rows s i = Some x \<longrightarrow> tk_status x \<noteq> task_StatusRunning)))) s"
    and suspended_law: "invar s \<Longrightarrow> wp (cr_MarkSuspended repo i m)
      (\<lambda>r s'. invar s' \<and> view s' = view s \<and> (row_to is_suspended i (rows s) (rows s') \<or> rows s' = rows s)) s"
    and dlq_law: "invar s \<Longrightarrow> wp (cq_PushDLQ queue i)
      (\<lambda>r s'. invar s' \<and> rows s' = rows s \<and>
         (view s' = (view s)\<lparr>qv_dlq := qv_dlq (view s) @ [FormatInt i]\<rparr> \<or> (\<exists>e. r = Inl e) \<and> view s' = view s)) s"
    and retry_law: "invar s \<Longrightarrow> wp (cq_ScheduleRetry queue i at)
      (\<lambda>r s'. invar s' \<and> rows s' = rows s \<and>
         (view s' = (view s)\<lparr>qv_retry := zput (FormatInt i) (UnixMilli at) (qv_retry (view s))\<rparr> \<or>
          (\<exists>e. r = Inl e) \<and> view s' = view s)) s"
    and handler_law: "invar s \<Longrightarrow> registry ty = Some h \<Longrightarrow> wp (h ctx t)
      (\<lambda>r s'. invar s' \<and> rows s' = rows s \<and> view s' = view s) s"
    and metrics_law: "invar s \<Longrightarrow> M \<in> {cm_IncTaskRetry metrics, cm_IncTaskDLQ metrics, cm_IncConsumeSuccess metrics,
        cm_IncConsumeFailure metrics} \<Longrightarrow> wp M (\<lambda>r s'. invar s' \<and> rows s' = rows s \<and> view s' = view s) s"
begin

abbreviation ports :: "'s consumer_ports" where
  "ports \<equiv> \<lparr>Consumer_repo = repo, Consumer_queue = queue, Consumer_registry = registry, Consumer_metrics = metrics\<rparr>"

text \<open>A failed handler: the task is dead, waits for its retry, or is still running after an error.\<close>

definition after_failure :: "int \<Rightarrow> bool \<Rightarrow> task_row \<Rightarrow> task_row \<Rightarrow> queue_view \<Rightarrow> queue_view \<Rightarrow> bool" where
  "after_failure i err x x' v v' \<longleftrightarrow>
     x' = x \<and> err \<and> v' = v \<or>
     is_dead x x' \<and> (v' = v\<lparr>qv_dlq := qv_dlq v @ [FormatInt i]\<rparr> \<or> err \<and> v' = v) \<or>
     (\<exists>next. is_retry next x x' \<and>
        (v' = v\<lparr>qv_retry := zput (FormatInt i) (UnixMilli next) (qv_retry v)\<rparr> \<or> err \<and> v' = v))"

lemma wp_consume_failed:
  assumes "invar s" and x: "rows s i = Some x" "tk_status x = task_StatusRunning" and "Task_ID task = i"
  shows "wp (consume_failed ports cfg task err)
    (\<lambda>res s'. invar s' \<and> (\<exists>x'. rows s' = (rows s)(i \<mapsto> x') \<and> after_failure i (\<exists>e. res = Inl e) x x' (view s) (view s'))) s"
    (is "wp _ ?Q s")
proof -
  have metric: "wp M (\<lambda>_. K) s1" if "invar s1" "M \<in> {cm_IncTaskRetry metrics, cm_IncTaskDLQ metrics,
      cm_IncConsumeFailure metrics}" "\<And>s2. invar s2 \<Longrightarrow> rows s2 = rows s1 \<Longrightarrow> view s2 = view s1 \<Longrightarrow> K s2" for M K s1
    by (rule wp_mono [OF metrics_law [OF that(1)]]) (use that(2,3) in auto)
  have same: "rows s = (rows s)(i \<mapsto> x)" using x(1) by auto
  have dead: "wp (State_Monad.bind (cm_IncTaskDLQ metrics) (\<lambda>_. mapErr f (cq_PushDLQ queue i))) ?Q s1"
    if s1: "invar s1" "view s1 = view s" "row_to is_dead i (rows s) (rows s1)" for s1 f
    unfolding wp_bind wp_mapErr
  proof (rule metric [OF s1(1)], simp, rule wp_mono [OF dlq_law], assumption)
    fix s2 s3 and r :: "unit result"
    assume "rows s2 = rows s1" "view s2 = view s1" and s3: "invar s3 \<and> rows s3 = rows s2 \<and>
      (view s3 = (view s2)\<lparr>qv_dlq := qv_dlq (view s2) @ [FormatInt i]\<rparr> \<or> (\<exists>e. r = Inl e) \<and> view s3 = view s2)"
    with s1 x(1) show "?Q (case r of Inl e \<Rightarrow> Inl (f e) | Inr a \<Rightarrow> Inr a) s3"
      by (auto simp: after_failure_def row_to_def)
  qed
  have retry: "wp (State_Monad.bind (cm_IncTaskRetry metrics) (\<lambda>_. mapErr f (cq_ScheduleRetry queue i nx))) ?Q s1"
    if s1: "invar s1" "view s1 = view s" "row_to (is_retry nx) i (rows s) (rows s1)" for s1 f nx
    unfolding wp_bind wp_mapErr
  proof (rule metric [OF s1(1)], simp, rule wp_mono [OF retry_law], assumption)
    fix s2 s3 and r :: "unit result"
    assume "rows s2 = rows s1" "view s2 = view s1" and s3: "invar s3 \<and> rows s3 = rows s2 \<and>
      (view s3 = (view s2)\<lparr>qv_retry := zput (FormatInt i) (UnixMilli nx) (qv_retry (view s2))\<rparr> \<or>
        (\<exists>e. r = Inl e) \<and> view s3 = view s2)"
    with s1 x(1) show "?Q (case r of Inl e \<Rightarrow> Inl (f e) | Inr a \<Rightarrow> Inr a) s3"
      by (auto simp: after_failure_def row_to_def)
  qed
  show ?thesis
    unfolding consume_failed_def consumer_ports.simps wp_bind assms(4)
  proof (rule metric [OF assms(1)], simp, unfold wp_bindE, rule wp_mono [OF failed_law], assumption)
    fix s0 s1 and r :: "(bool \<times> int option) result"
    assume s0: "rows s0 = rows s" "view s0 = view s"
      and s1: "invar s1 \<and> view s1 = view s0 \<and>
         (case r of
            Inr (True, n) \<Rightarrow> row_to is_dead i (rows s0) (rows s1)
          | Inr (False, Some next) \<Rightarrow> row_to (is_retry next) i (rows s0) (rows s1)
          | Inr (False, None) \<Rightarrow> rows s1 = rows s0 \<and> (\<exists>x. rows s0 i = Some x \<and> tk_status x \<noteq> task_StatusRunning)
          | Inl e \<Rightarrow> rows s1 = rows s0 \<or> row_to is_dead i (rows s0) (rows s1) \<or>
              (\<exists>next. row_to (is_retry next) i (rows s0) (rows s1)))"
    show "(case r of
        Inl e \<Rightarrow> ?Q (Inl e)
      | Inr a \<Rightarrow> wp (case a of (dead, nextRetry) \<Rightarrow>
          if dead then State_Monad.bind (cm_IncTaskDLQ metrics) (\<lambda>_. mapErr
              (\<lambda>pushErr. ErrWrap ''push task to dlq failed: '' pushErr '''') (cq_PushDLQ queue i))
          else case nextRetry of None \<Rightarrow> returnE ()
            | Some next \<Rightarrow> State_Monad.bind (cm_IncTaskRetry metrics) (\<lambda>_. mapErr
              (\<lambda>scheduleErr. ErrWrap ''schedule task retry failed: '' scheduleErr '''')
                (cq_ScheduleRetry queue i next))) ?Q) s1"
    proof (cases r)
      case (Inl e)
      from s0 s1 Inl x(1) same obtain x' where "rows s1 = (rows s)(i \<mapsto> x')"
          "x' = x \<or> is_dead x x' \<or> (\<exists>n. is_retry n x x')"
        unfolding row_to_def by (simp only: sum.case) (elim conjE disjE exE; simp; blast)
      with s0 s1 Inl show ?thesis by (auto simp: after_failure_def)
    next
      case (Inr a)
      obtain d n where a: "a = (d, n)" by (cases a)
      show ?thesis
        using s0 s1 x dead [of s1] retry [of s1] unfolding Inr a
        by (cases d; cases n) (auto simp del: wp_bind wp_mapErr)
    qed
  qed
qed

lemma wp_consume_done:
  assumes "invar s" and x: "rows s i = Some x" "tk_status x = task_StatusRunning" and "Task_ID task = i"
  shows "wp (consume_done ports task)
    (\<lambda>res s'. invar s' \<and> view s' = view s \<and> (\<exists>x'. rows s' = (rows s)(i \<mapsto> x') \<and>
       (if \<exists>e. res = Inl e then x' = x \<or> is_suspended x x' \<or> is_success x x' else is_success x x'))) s"
    (is "wp _ ?Q s")
proof -
  have same: "rows s = (rows s)(i \<mapsto> x)" using x(1) by auto
  have final: False if "is_success x x'" "row_to is_suspended i ((rows s)(i \<mapsto> x')) m" for x' m
    using that by (auto simp: row_to_def is_suspended_def dest: moves_status(2))
  show ?thesis
    unfolding consume_done_def consumer_ports.simps wp_bind assms(4)
  proof (rule wp_mono [OF success_law [OF assms(1)]])
    fix s1 and r :: "unit result"
    assume s1: "invar s1 \<and> view s1 = view s \<and>
         (row_to is_success i (rows s) (rows s1) \<or> rows s1 = rows s \<and>
            ((\<exists>e. r = Inl e) \<or> (\<forall>x. rows s i = Some x \<longrightarrow> tk_status x \<noteq> task_StatusRunning)))"
    then obtain x1 where x1: "rows s1 = (rows s)(i \<mapsto> x1)" "is_success x x1 \<or> x1 = x \<and> (\<exists>e. r = Inl e)"
      using x same by (auto simp: row_to_def)
    show "wp (case r of
        Inl err \<Rightarrow> State_Monad.bind (cr_MarkSuspended repo i (''handler succeeded but mark success failed: '' @ errstr err))
          (\<lambda>suspended. case suspended of
             Inl suspendErr \<Rightarrow> throwE (ErrWrap ''mark task success failed: '' err
               (''; suspend fallback failed: '' @ errstr suspendErr))
           | Inr _ \<Rightarrow> throwE err)
      | Inr _ \<Rightarrow> State_Monad.bind (cm_IncConsumeSuccess metrics) (\<lambda>_. returnE ())) ?Q s1"
    proof (cases r)
      case (Inl err)
      have ended: "?Q (Inl e) s2" if "invar s2" "view s2 = view s1"
        "row_to is_suspended i (rows s1) (rows s2) \<or> rows s2 = rows s1" for e s2
      proof -
        have "\<exists>x'. rows s2 = (rows s)(i \<mapsto> x') \<and> (x' = x \<or> is_suspended x x' \<or> is_success x x')"
          using that(3) final x1 unfolding x1(1) row_to_def by auto
        with that s1 show ?thesis by auto
      qed
      show ?thesis
        unfolding Inl sum.case wp_bind
        by (rule wp_mono [OF suspended_law]) (use s1 ended in \<open>auto split: sum.split\<close>)
    next
      case (Inr u)
      then have "is_success x x1" using x1(2) by simp
      with x1 s1 Inr x show ?thesis
        by (auto intro!: wp_mono [OF metrics_law [of s1 "cm_IncConsumeSuccess metrics"]])
    qed
  qed
qed

text \<open>The outcome of consuming task \<open>i\<close>.\<close>

definition consumed :: "ctx \<Rightarrow> int \<Rightarrow> 's \<Rightarrow> unit result \<Rightarrow> 's \<Rightarrow> bool" where
  "consumed ctx i s res s' \<longleftrightarrow> invar s' \<and>
     (rows s' = rows s \<and> view s' = view s \<or>
      (\<exists>r r' good. rows s i = Some r \<and> tk_status r \<in> {task_StatusPending, task_StatusFailed} \<and>
         rows s' = (rows s)(i \<mapsto> r') \<and> settled i good (\<exists>e. res = Inl e) r r' (view s) (view s') \<and>
         (if good then \<exists>x s1. is_running r x \<and> answer (Registry_Handle registry ctx (scanTask x)) s1 = Inr ()
          else (\<exists>e. res = Inl e) \<or>
            (\<exists>x s1 e. is_running r x \<and> answer (Registry_Handle registry ctx (scanTask x)) s1 = Inl e))))"

lemma running_then:
  assumes "is_running r x" "tk_status x' = st"
    and "x' = x \<or> is_dead x x' \<or> is_suspended x x' \<or> is_success x x' \<or> (\<exists>n. is_retry n x x')"
  shows "task_reaches r x'"
proof -
  have "task_reaches x x'" using assms(3) moves_are_transitions by blast
  with moves_are_transitions(1) [OF assms(1)] show ?thesis by (rule converse_rtranclp_into_rtranclp)
qed

lemma settled_failure:
  assumes "is_running r x" "after_failure i err x x' v v'"
  shows "settled i False err r x' v v'"
proof -
  have "task_reaches r x'"
    by (rule running_then [OF assms(1) refl]) (use assms(2) in \<open>auto simp: after_failure_def\<close>)
  with assms moves_status(1) [OF assms(1)] moves_status(4,5) [where r = x] show ?thesis
    by (fastforce simp: settled_def after_failure_def)
qed

lemma settled_done:
  assumes "is_running r x"
    and "if err then x' = x \<or> is_suspended x x' \<or> is_success x x' else is_success x x'"
  shows "settled i True err r x' v v"
proof -
  have "task_reaches r x'" by (rule running_then [OF assms(1) refl]) (use assms(2) in \<open>auto split: if_splits\<close>)
  with assms moves_status(1) [OF assms(1)] moves_status(2,3) [where r = x] show ?thesis
    by (auto simp: settled_def split: if_splits)
qed

lemma wp_Registry_Handle:
  assumes "invar s" and "\<And>r s'. invar s' \<Longrightarrow> rows s' = rows s \<Longrightarrow> view s' = view s \<Longrightarrow>
      answer (Registry_Handle registry ctx t) s = r \<Longrightarrow> Q r s'"
  shows "wp (Registry_Handle registry ctx t) Q s"
proof -
  have "wp (Registry_Handle registry ctx t) (\<lambda>r s'. invar s' \<and> rows s' = rows s \<and> view s' = view s) s"
    using handler_law [OF assms(1)] assms(1) by (cases "registry (Task_TaskType t)") (simp_all add: Registry_Handle_def)
  with assms(2) show ?thesis by (simp add: wp_iff)
qed

lemma wp_consumeTask:
  assumes "invar s"
  shows "wp (consumeTask ports cfg ctx i) (consumed ctx i s) s"
  unfolding consumeTask_def consumer_ports.simps wp_bindE
proof (rule wp_mono [OF running_law [OF assms]])
  fix s1 and c :: "AsyncTask option result"
  assume c: "invar s1 \<and> view s1 = view s \<and>
    (case c of
       Inr (Some t) \<Rightarrow> row_to is_running i (rows s) (rows s1) \<and> (\<exists>x. rows s1 i = Some x \<and> t = scanTask x)
     | Inr None \<Rightarrow> rows s1 = rows s
     | Inl e \<Rightarrow> rows s1 = rows s \<or> row_to is_running i (rows s) (rows s1))"
  show "(case c of Inl e \<Rightarrow> consumed ctx i s (Inl e) | Inr a \<Rightarrow> wp (case a of
        None \<Rightarrow> returnE ()
      | Some task \<Rightarrow> State_Monad.bind (Registry_Handle registry ctx task) (\<lambda>handled. case handled of
            Inl err \<Rightarrow> consume_failed ports cfg task err
          | Inr _ \<Rightarrow> consume_done ports task)) (consumed ctx i s)) s1"
  proof (cases c)
    case (Inl e)
    have "settled i False True r x (view s) (view s)" if "is_running r x" for r x
      by (rule settled_failure [OF that]) (simp add: after_failure_def)
    with c Inl show ?thesis
      by (fastforce simp: consumed_def row_to_def is_running_def)
  next
    case (Inr a)
    show ?thesis
    proof (cases a)
      case None
      with c Inr show ?thesis by (simp add: consumed_def)
    next
      case (Some t)
      obtain r x where r: "rows s i = Some r" "is_running r x" "rows s1 = (rows s)(i \<mapsto> x)" "t = scanTask x"
        using c Inr Some by (auto simp: row_to_def)
      have s1: "invar s1" "view s1 = view s" "rows s1 i = Some x" using c r by auto
      have t: "Task_ID t = i" using id_law [OF s1(1,3)] r(4) by (simp add: scanTask_def)
      have x: "tk_status x = task_StatusRunning" by (rule moves_status(1) [OF r(2)])
      have ended: "consumed ctx i s res s'" if "invar s'" "rows s' = (rows s)(i \<mapsto> x')"
        "settled i good (\<exists>e. res = Inl e) r x' (view s) (view s')"
        "\<exists>s1 e. answer (Registry_Handle registry ctx (scanTask x)) s1 = (if good then Inr () else Inl e)"
        for res s' x' good
      proof -
        have "tk_status r \<in> {task_StatusPending, task_StatusFailed}" using r(2) by (simp add: is_running_def)
        moreover have "if good then \<exists>x s1. is_running r x \<and> answer (Registry_Handle registry ctx (scanTask x)) s1 = Inr ()
          else (\<exists>e. res = Inl e) \<or>
            (\<exists>x s1 e. is_running r x \<and> answer (Registry_Handle registry ctx (scanTask x)) s1 = Inl e)"
          using that(4) r(2) by (auto split: if_splits)
        ultimately show ?thesis unfolding consumed_def using that(1-3) r(1) by blast
      qed
      show ?thesis
        unfolding Inr Some sum.case option.case wp_bind
      proof (rule wp_Registry_Handle [OF s1(1)])
        fix s2 and h :: "unit result"
        assume s2: "invar s2" "rows s2 = rows s1" "view s2 = view s1" and h: "answer (Registry_Handle registry ctx t) s1 = h"
        have row2: "rows s2 i = Some x" using s2(2) s1(3) by simp
        show "wp (case h of Inl err \<Rightarrow> consume_failed ports cfg t err | Inr _ \<Rightarrow> consume_done ports t) (consumed ctx i s) s2"
        proof (cases h)
          case (Inl err)
          have bad: "\<exists>s1 e. answer (Registry_Handle registry ctx (scanTask x)) s1 = Inl e"
            using h Inl r(4) by auto
          show ?thesis unfolding Inl sum.case
            by (rule wp_mono [OF wp_consume_failed [OF s2(1) row2 x t]])
              (use ended [where good = False] settled_failure [OF r(2)] s2 s1 r(3) bad in auto)
        next
          case (Inr u)
          have good: "\<exists>s1. answer (Registry_Handle registry ctx (scanTask x)) s1 = Inr ()"
            using h Inr r(4) by auto
          show ?thesis unfolding Inr sum.case
            by (rule wp_mono [OF wp_consume_done [OF s2(1) row2 x t]])
              (use ended [where good = True] settled_done [OF r(2)] s2 s1 r(3) good in auto)
        qed
      qed
    qed
  qed
qed

end

section \<open>Any schedule of workers and scheduler\<close>

locale consumer_loop = consumer_env repo queue registry metrics invar rows view
  for repo :: "'s consumerRepository" and queue registry metrics invar rows view +
  assumes pop_law: "invar s \<Longrightarrow> wp (cq_PopReady queue) (\<lambda>r s'. invar s' \<and> rows s' = rows s) s"
    and move_law: "invar s \<Longrightarrow> wp (cq_MoveDueRetryToReady queue n) (\<lambda>r s'. invar s' \<and> rows s' = rows s) s"
begin

text \<open>No task appears or vanishes, and every task moves only along the life cycle.\<close>

definition evolves :: "'s \<Rightarrow> 's \<Rightarrow> bool" where
  "evolves s s' \<longleftrightarrow> invar s' \<and> (\<forall>i. rel_option task_reaches (rows s i) (rows s' i))"

lemma evolves_same: "invar s' \<Longrightarrow> rows s' = rows s \<Longrightarrow> evolves s s'"
  by (simp add: evolves_def option.rel_refl)

lemma evolves_trans:
  assumes "evolves s t" "evolves t u"
  shows "evolves s u"
proof -
  have "rel_option task_reaches (rows s i) (rows u i)" for i
  proof -
    have "rel_option task_reaches (rows s i) (rows t i)" "rel_option task_reaches (rows t i) (rows u i)"
      using assms by (simp_all add: evolves_def)
    then show ?thesis by (cases "rows s i"; cases "rows t i"; cases "rows u i") auto
  qed
  with assms show ?thesis by (simp add: evolves_def)
qed

lemma consumed_evolves: "consumed ctx i s res s' \<Longrightarrow> evolves s s'"
  unfolding consumed_def evolves_def settled_def by (auto simp: option.rel_refl)

lemma wp_worker_round:
  assumes "invar s"
  shows "wp (worker_round ports cfg ctx) (\<lambda>_. evolves s) s"
  unfolding worker_round_def wp_bindE consumer_ports.simps
proof (rule wp_mono [OF pop_law [OF assms]])
  fix s1 and r :: "int option result"
  assume s1: "invar s1 \<and> rows s1 = rows s"
  have "evolves s s2" if "consumed ctx i s1 res s2" for i res s2
    by (rule evolves_trans [OF evolves_same consumed_evolves [OF that]]) (use s1 in simp_all)
  then have "wp (consumeTask ports cfg ctx i) (\<lambda>_. evolves s) s1" for i
    by (intro wp_mono [OF wp_consumeTask]) (use s1 in blast)+
  moreover have "evolves s s1" using s1 by (simp add: evolves_same)
  ultimately show "(case r of Inl e \<Rightarrow> evolves s | Inr a \<Rightarrow>
      wp (case a of None \<Rightarrow> returnE () | Some x \<Rightarrow> consumeTask ports cfg ctx x) (\<lambda>_. evolves s)) s1"
    by (auto split: sum.split option.split)
qed

lemma wp_consumer_schedule:
  assumes "invar s"
  shows "wp (consumer_schedule ports cfg ctx bs) (\<lambda>_. evolves s) s"
  using assms
proof (induction bs arbitrary: s)
  case Nil
  then show ?case by (simp add: evolves_same)
next
  case (Cons b bs)
  have rest: "wp (consumer_schedule ports cfg ctx bs) (\<lambda>_. evolves s) t" if "evolves s t" for t
    by (rule wp_mono [OF Cons.IH]) (use that evolves_trans in \<open>auto simp: evolves_def\<close>)
  have "wp (runWorker ports cfg ctx 1) (\<lambda>_. evolves s) s" using wp_worker_round [OF Cons.prems] by (simp add: One_nat_def)
  moreover have "wp (runRetryScheduler ports cfg 0) (\<lambda>_. evolves s) s"
    using wp_mono [OF move_law [OF Cons.prems]] evolves_same by simp
  ultimately show ?case
    using rest by (cases b) (auto elim!: wp_mono simp del: runWorker.simps runRetryScheduler.simps)
qed

end

section \<open>The consumer of the Quan server\<close>

definition task_repository :: "world consumerRepository" where
  "task_repository = \<lparr>cr_TryMarkRunning = TryMarkRunning, cr_MarkFailed = MarkFailed, cr_MarkSuccess = MarkSuccess,
     cr_MarkSuspended = task_MarkSuspended\<rparr>"

definition task_queue :: "QueueConfig \<Rightarrow> world consumerQueue" where
  "task_queue q = \<lparr>cq_MoveDueRetryToReady = MoveDueRetryToReady q, cq_PopReady = PopReady q, cq_PushDLQ = PushDLQ q,
     cq_ScheduleRetry = ScheduleRetry q\<rparr>"

definition consumer_counters :: "world consumerMetrics" where
  "consumer_counters = \<lparr>cm_IncTaskRetry = metric IncTaskRetry, cm_IncTaskDLQ = metric IncTaskDLQ,
     cm_IncConsumeSuccess = metric IncConsumeSuccess, cm_IncConsumeFailure = metric IncConsumeFailure\<rparr>"

text \<open>The registry that the server's main function builds.\<close>

definition quan_registry :: "'s HandlerRegistry" where
  "quan_registry = Registry_Register NewHandlerRegistry TaskTypeSendCouponNotice SendCouponNoticeHandler"

lemmas consumer_world_defs = task_repository_def task_queue_def consumer_counters_def

lemma consumer_world_simps [simp]:
  "cr_TryMarkRunning task_repository = TryMarkRunning" "cr_MarkFailed task_repository = MarkFailed"
  "cr_MarkSuccess task_repository = MarkSuccess" "cr_MarkSuspended task_repository = task_MarkSuspended"
  "cq_MoveDueRetryToReady (task_queue q) = MoveDueRetryToReady q" "cq_PopReady (task_queue q) = PopReady q"
  "cq_PushDLQ (task_queue q) = PushDLQ q" "cq_ScheduleRetry (task_queue q) = ScheduleRetry q"
  by (simp_all add: consumer_world_defs)

definition task_inv :: "QueueConfig \<Rightarrow> world \<Rightarrow> bool" where
  "task_inv q w \<longleftrightarrow> tasks_ok w \<and> w_tx w = None \<and> queue_ok q w"

lemma task_inv_idle: "idle w w' \<Longrightarrow> task_inv q w' = task_inv q w \<and> task_at w' = task_at w \<and> qview q w' = qview q w"
  using queue_same_env [of w w' q] by (simp add: task_inv_def tasks_ok_idle task_at_idle) (simp add: idle_def)

lemma task_inv_put:
  "task_put i r w w' \<Longrightarrow> task_inv q w' = task_inv q w \<and> qview q w' = qview q w"
  using queue_same_env [of w w' q] by (simp add: task_inv_def tasks_ok_put) (simp add: task_put_def)

lemma task_inv_moved:
  "task_moved i S f w w' \<Longrightarrow> task_inv q w' = task_inv q w \<and> qview q w' = qview q w"
  unfolding task_moved_def using task_inv_put by blast

lemma task_moved_row:
  assumes "task_moved i S f w w'" "\<And>r now. tk_status r \<in> S \<Longrightarrow> P r (f now r)"
  shows "row_to P i (task_at w) (task_at w')"
proof -
  obtain r now where r: "task_at w i = Some r" "tk_status r \<in> S" "task_put i (f now r) w w'"
    using assms(1) by (auto simp: task_moved_def)
  then have "task_at w' = (task_at w)(i \<mapsto> f now r)" using task_at_put [OF r(3)] by simp
  with r assms(2) show ?thesis unfolding row_to_def by blast
qed

lemma task_inv_queue:
  assumes "queue_upd q f w w'" "task_inv q w"
  shows "task_inv q w' \<and> task_at w' = task_at w \<and> qview q w' = f (qview q w)"
  using assms by (auto simp: queue_upd_def queue_frame_def task_inv_def tasks_ok_def task_at_def fun_eq_iff)

lemma task_failed_row:
  assumes "task_failed i m base a w w'"
  shows "case a of
      (True, n) \<Rightarrow> row_to is_dead i (task_at w) (task_at w')
    | (False, Some next) \<Rightarrow> row_to (is_retry next) i (task_at w) (task_at w')
    | (False, None) \<Rightarrow> task_at w' = task_at w \<and> (\<exists>x. task_at w i = Some x \<and> tk_status x \<noteq> task_StatusRunning)"
proof -
  obtain r now where r: "task_at w i = Some r" and c: "if tk_status r \<noteq> task_StatusRunning then a = (False, None) \<and> idle w w'
      else if tk_max_retry r \<le> tk_retry_count r + 1
      then a = (True, None) \<and> task_put i (dead_task (tk_retry_count r + 1) m now r) w w'
      else a = (False, Some (now + taskBackoff (tk_retry_count r + 1) base)) \<and>
           task_put i (retry_task (tk_retry_count r + 1) (now + taskBackoff (tk_retry_count r + 1) base) m now r) w w'"
    using assms unfolding task_failed_def by blast
  have put: "row_to P i (task_at w) (task_at w')" if "task_put i x w w'" "P r x" for x P
    by (rule row_toI [where r = r and r' = x]) (use r that task_at_put [OF that(1)] in simp_all)
  consider "tk_status r \<noteq> task_StatusRunning" | "tk_status r = task_StatusRunning" "tk_max_retry r \<le> tk_retry_count r + 1"
    | "tk_status r = task_StatusRunning" "tk_retry_count r + 1 < tk_max_retry r" by linarith
  then show ?thesis
  proof cases
    case 1
    then show ?thesis using c r by (simp add: task_at_idle)
  next
    case 2
    then show ?thesis using c by (auto intro!: put exI [of _ m] exI [of _ now] simp: is_dead_def)
  next
    case 3
    then show ?thesis using c by (auto intro!: put exI [of _ m] exI [of _ now] simp: is_retry_def)
  qed
qed

lemma task_failed_inv: "task_failed i m base a w w' \<Longrightarrow> task_inv q w' = task_inv q w \<and> qview q w' = qview q w"
  using task_inv_idle task_inv_put by (fastforce simp: task_failed_def split: if_splits)

interpretation task_consumer:
  consumer_env task_repository "task_queue q" quan_registry consumer_counters "task_inv q" task_at "qview q" for q
proof (unfold_locales, goal_cases)
  case (1 s i x)
  then show ?case using task_at_id by blast
next
  case (2 s i)
  have "row_to is_running i (task_at s) (task_at w')"
    if "task_moved i {task_StatusPending, task_StatusFailed} running_task s w'" for w'
    by (rule task_moved_row [OF that]) (auto simp: is_running_def)
  with 2 show ?case
    by (auto intro!: wp_TryMarkRunning simp: task_inv_def [of q s] task_inv_idle dest: task_inv_moved [of _ _ _ s _ q])
next
  case (3 s i m base)
  have row: "case a of
      (True, n) \<Rightarrow> row_to is_dead i (task_at s) (task_at w')
    | (False, Some next) \<Rightarrow> row_to (is_retry next) i (task_at s) (task_at w')
    | (False, None) \<Rightarrow> task_at w' = task_at s \<and> (\<exists>x. task_at s i = Some x \<and> tk_status x \<noteq> task_StatusRunning)"
    if "task_failed i m base a s w'" for a w' using task_failed_row [OF that] .
  then have lost: "task_at w' = task_at s \<or> row_to is_dead i (task_at s) (task_at w') \<or>
      (\<exists>next. row_to (is_retry next) i (task_at s) (task_at w'))"
    if "task_failed i m base a s w'" for a w' using row [OF that] by (auto split: prod.splits bool.splits option.splits)
  have ok: "tasks_ok s" "w_tx s = None" using 3 by (simp_all add: task_inv_def)
  show ?case
    unfolding consumer_world_simps
  proof (rule wp_MarkFailed [OF ok], goal_cases)
    case (1 a w')
    show ?case using row [OF 1] task_failed_inv [OF 1, of q] 3 by (simp split: prod.splits bool.splits)
  next
    case (2 e w')
    then show ?case using lost task_failed_inv [of i m base _ s w' q] task_inv_idle [of s w' q] 3 by auto
  qed
next
  case (4 s i)
  have row: "row_to is_success i (task_at s) (task_at w')" if "task_moved i {task_StatusRunning} success_task s w'" for w'
    by (rule task_moved_row [OF that]) (auto simp: is_success_def)
  have ok: "tasks_ok s" using 4 by (simp add: task_inv_def)
  show ?case
    unfolding consumer_world_simps
    by (rule wp_MarkSuccess [OF ok]) (use 4 row task_inv_moved [of i _ _ s _ q] in
      \<open>auto simp: task_inv_idle task_not_in_def\<close>)
next
  case (5 s i m)
  have row: "row_to is_suspended i (task_at s) (task_at w')"
    if "task_moved i {task_StatusRunning} (suspended_task m) s w'" for w'
    by (rule task_moved_row [OF that]) (auto simp: is_suspended_def)
  have ok: "tasks_ok s" using 5 by (simp add: task_inv_def)
  show ?case
    unfolding consumer_world_simps
    by (rule wp_task_MarkSuspended [OF ok]) (use 5 row task_inv_moved [of i _ _ s _ q] in \<open>auto simp: task_inv_idle\<close>)
next
  case (6 s i)
  then show ?case by (auto intro!: wp_PushDLQ simp: task_inv_def [of q s] dest: task_inv_queue)
next
  case (7 s i at)
  then show ?case by (auto intro!: wp_ScheduleRetry simp: task_inv_def [of q s] dest: task_inv_queue)
next
  case (8 s ty h ctx t)
  then show ?case
    by (auto simp: quan_registry_def Registry_Register_def NewHandlerRegistry_def SendCouponNoticeHandler_def
        split: if_splits sum.split)
next
  case (9 s M)
  then show ?case
    by (auto simp: consumer_counters_def task_inv_def tasks_ok_def task_at_def queue_ok_def qview_def fun_eq_iff)
qed

interpretation task_workers:
  consumer_loop task_repository "task_queue q" quan_registry consumer_counters "task_inv q" task_at "qview q" for q
proof (unfold_locales, goal_cases)
  case (1 s)
  then have "queue_ok q s" by (simp add: task_inv_def)
  then show ?case unfolding consumer_world_simps
    by (rule wp_PopReady) (use 1 in \<open>auto dest: task_inv_queue split: sum.split\<close>)
next
  case (2 s n)
  then have ok: "queue_ok q s" by (simp add: task_inv_def)
  have "task_inv q w' \<and> task_at w' = task_at s" if "moved_ok q ids err s w'" for ids err w'
    using that 2 by (auto simp: moved_ok_def queue_frame_def task_inv_def tasks_ok_def task_at_def fun_eq_iff)
  with task_inv_queue [OF _ 2] show ?case unfolding consumer_world_simps
    by (intro wp_MoveDueRetryToReady [OF ok]) auto
qed

section \<open>Runs without faults\<close>

definition put_task :: "int \<Rightarrow> task_row \<Rightarrow> world \<Rightarrow> world" where
  "put_task i x w = w\<lparr>w_db := (w_db w)\<lparr>db_tasks := put_row tk_task_id i x (db_tasks (w_db w))\<rparr>\<rparr>"

lemma put_task_simps [simp]:
  "calm (put_task i x w) = calm w" "w_tx (put_task i x w) = w_tx w" "w_kv (put_task i x w) = w_kv w"
  "w_now (put_task i x w) = w_now w" "w_metrics (put_task i x w) = w_metrics w"
  "queue_ok q (put_task i x w) = queue_ok q w" "qview q (put_task i x w) = qview q w"
  by (simp_all add: put_task_def calm_def)

lemma put_task_put: "calm w \<Longrightarrow> tk_task_id x = i \<Longrightarrow> task_put i x w (put_task i x w)"
  by (simp add: task_put_def put_task_def)

lemma put_task_rows [simp]:
  assumes "tk_task_id x = i"
  shows "tasks_ok (put_task i x w) = tasks_ok w" "task_inv q (put_task i x w) = task_inv q w"
    "task_at w i \<noteq> None \<Longrightarrow> task_at (put_task i x w) = (task_at w)(i \<mapsto> x)"
proof -
  have put: "task_put i x w (put_task i x w)" using assms by (simp add: task_put_def put_task_def)
  show "tasks_ok (put_task i x w) = tasks_ok w" by (rule tasks_ok_put [OF put])
  show "task_inv q (put_task i x w) = task_inv q w" using task_inv_put [OF put] by simp
  show "task_at w i \<noteq> None \<Longrightarrow> task_at (put_task i x w) = (task_at w)(i \<mapsto> x)" by (rule task_at_put [OF put])
qed

lemma run_update_task:
  assumes "calm w" "tasks_ok w" "task_at w i = Some r" "tk_status r \<in> S" "f r \<noteq> r"
  shows "run_state (db_exec (update_tasks (\<lambda>r. tk_task_id r = i \<and> tk_status r \<in> S) f)) w = (Inr 1, put_task i (f r) w)"
proof -
  have "sql_update (\<lambda>r. tk_task_id r = i \<and> tk_status r \<in> S) f (db_tasks (w_db w)) =
      (if f r \<noteq> r then 1 else 0, put_row tk_task_id i (f r) (db_tasks (w_db w)))"
    using assms by (intro sql_update_hit) (auto simp: task_at_def tasks_ok_def)
  with assms show ?thesis by (simp add: update_tasks_def put_task_def)
qed

lemma run_task_GetByID:
  "calm w \<Longrightarrow> task_at w i = Some r \<Longrightarrow> run_state (task_GetByID i) w = (Inr (scanTask r), w)"
  by (simp add: task_GetByID_def query_row_def task_at_def)

lemma run_TryMarkRunning:
  assumes "calm w" "tasks_ok w" "task_at w i = Some r" "tk_status r \<in> {task_StatusPending, task_StatusFailed}"
  shows "run_state (TryMarkRunning i) w =
    (Inr (Some (scanTask (running_task (w_now w) r))), put_task i (running_task (w_now w) r) w)"
proof -
  have id: "tk_task_id (running_task (w_now w) r) = i" using task_at_id [OF assms(3)] by simp
  have ne: "running_task (w_now w) r \<noteq> r" using status_changes [OF assms(4), of "running_task (w_now w) r"] by simp
  have "task_at (put_task i (running_task (w_now w) r) w) i = Some (running_task (w_now w) r)"
    using put_task_rows(3) [OF id] assms(3) by simp
  with run_update_task [OF assms, of "running_task (w_now w)"] ne assms(1) show ?thesis
    by (simp add: TryMarkRunning_def wrapE_def run_task_GetByID)
qed

lemma run_MarkSuccess:
  assumes "calm w" "tasks_ok w" "task_at w i = Some r" "tk_status r = task_StatusRunning"
  shows "run_state (MarkSuccess i) w = (Inr (), put_task i (success_task (w_now w) r) w)"
proof -
  have ne: "success_task (w_now w) r \<noteq> r"
    using status_changes [of r "{task_StatusRunning}" "success_task (w_now w) r"] assms(4) by simp
  with run_update_task [OF assms(1-3), of "{task_StatusRunning}" "success_task (w_now w)"] assms show ?thesis
    by (simp add: MarkSuccess_def wrapE_def)
qed

section \<open>Properties\<close>

definition quan_ports :: "QueueConfig \<Rightarrow> world consumer_ports" where
  "quan_ports q = \<lparr>Consumer_repo = task_repository, Consumer_queue = task_queue q, Consumer_registry = quan_registry,
     Consumer_metrics = consumer_counters\<rparr>"

text \<open>The notice handler accepts the task.\<close>

definition handler_accepts :: "task_row \<Rightarrow> bool" where
  "handler_accepts r \<longleftrightarrow> tk_task_type r = TaskTypeSendCouponNotice \<and>
     (\<exists>p. UnmarshalNoticePayload (tk_payload_json r) = Inr p)"

lemma run_quan_registry:
  "run_state (Registry_Handle quan_registry ctx (scanTask x)) s = (Inr (), s) \<and> handler_accepts x \<or>
   (\<exists>e. run_state (Registry_Handle quan_registry ctx (scanTask x)) s = (Inl e, s)) \<and> \<not> handler_accepts x"
  by (auto simp: Registry_Handle_def quan_registry_def Registry_Register_def NewHandlerRegistry_def handler_accepts_def
      SendCouponNoticeHandler_def scanTask_def split: sum.split)

lemma quan_registry_answer:
  "answer (Registry_Handle quan_registry ctx (scanTask x)) s = Inr () \<Longrightarrow> handler_accepts x"
  "answer (Registry_Handle quan_registry ctx (scanTask x)) s = Inl e \<Longrightarrow> \<not> handler_accepts x"
  using run_quan_registry [of ctx x s] by (auto simp: answer_def)

lemma running_accepts: "is_running r x \<Longrightarrow> handler_accepts x = handler_accepts r"
  by (auto simp: is_running_def handler_accepts_def running_task_def)

text \<open>
  C17. Consuming a task settles it. Whatever round trips fail, consuming a task leaves all other
  tasks alone; the task itself is untouched, or it was PENDING or FAILED and moved only along the
  life cycle. It ends SUCCESS only if its handler accepts it, and then the queue is unchanged; it
  ends DEAD together with its id in the dead-letter list, or FAILED together with its retry in the
  retry set. Only when the consumer reports an error can the task be left RUNNING or SUSPENDED, or
  DEAD or FAILED without its queue entry.
\<close>

theorem consume_settles:
  assumes "task_inv q w"
  shows "let m = consumeTask (quan_ports q) cfg ctx i; w' = final m w; err = (\<exists>e. answer m w = Inl e) in
    task_inv q w' \<and>
    (task_at w' = task_at w \<and> qview q w' = qview q w \<or>
     (\<exists>r r' good. task_at w i = Some r \<and> tk_status r \<in> {task_StatusPending, task_StatusFailed} \<and>
        task_at w' = (task_at w)(i \<mapsto> r') \<and> settled i good err r r' (qview q w) (qview q w') \<and>
        (good \<longrightarrow> handler_accepts r) \<and> (\<not> good \<longrightarrow> err \<or> \<not> handler_accepts r)))"
proof -
  let ?m = "consumeTask (quan_ports q) cfg ctx i"
  have c: "task_consumer.consumed q ctx i w (answer ?m w) (final ?m w)"
    using task_consumer.wp_consumeTask [OF assms, of cfg ctx i] by (simp add: wp_iff quan_ports_def)
  then show ?thesis
    unfolding task_consumer.consumed_def Let_def
    using quan_registry_answer running_accepts by (fastforce split: if_splits)
qed

definition demo_task :: "int \<Rightarrow> task_row" where
  "demo_task i = \<lparr>tk_task_id = i, tk_task_type = TaskTypeSendCouponNotice, tk_biz_id = ''claim:1'',
     tk_status = task_StatusPending,
     tk_payload_json = MarshalPayload \<lparr>Notice_ClaimID = 1, Notice_CouponID = 1001, Notice_UserID = 7, Notice_TraceID = []\<rparr>,
     tk_retry_count = 0, tk_max_retry = 5, tk_next_retry_at = None, tk_last_error = [], tk_created_at = 0,
     tk_updated_at = 0\<rparr>"

definition demo_board :: "fault list \<Rightarrow> world" where
  "demo_board fs =
     \<lparr>w_db = \<lparr>db_campaigns = [], db_claims = [], db_tasks = [demo_task 1], db_events = [], db_next_claim_id = 1,
              db_next_task_id = 2, db_next_event_id = 1, db_collate = (\<lambda>s. s)\<rparr>,
      w_tx = None, w_kv = (\<lambda>_. None)(''queue:task:ready'' \<mapsto> (RList [FormatInt 1], None)), w_now = Hour, w_ticks = [],
      w_faults = fs, w_metrics = []\<rparr>"

definition demo_keys :: QueueConfig where
  "demo_keys = QueueConfig_withDefaults \<lparr>ReadyKey = '''', RetryKey = '''', DLQKey = ''''\<rparr>"

definition demo_consume :: ConsumeConfig where
  "demo_consume = \<lparr>Consume_Enabled = True, Consume_Workers = 0, Consume_PollInterval = 0, Consume_ReadyTimeout = 0,
     Consume_RetryBackoff = 0, Consume_RetryMoveBatch = 0, Consume_DefaultMaxRetry = 0\<rparr>"

lemma demo_board_inv: "task_inv demo_keys (demo_board fs)"
  by (simp add: task_inv_def tasks_ok_def demo_board_def queue_ok_def demo_keys_def QueueConfig_withDefaults_def
      list_key_def zset_key_def)

theorem consume_settles_witness:
  "let w = demo_board [NoFault, NoFault, Lost ''reset'']; q = demo_keys;
       m = consumeTask (quan_ports q) (ConsumeConfig_withDefaults demo_consume) (Ctx None) 1;
       w' = final m w; err = (\<exists>e. answer m w = Inl e) in
    task_inv q w' \<and>
    (task_at w' = task_at w \<and> qview q w' = qview q w \<or>
     (\<exists>r r' good. task_at w 1 = Some r \<and> tk_status r \<in> {task_StatusPending, task_StatusFailed} \<and>
        task_at w' = (task_at w)(1 \<mapsto> r') \<and> settled 1 good err r r' (qview q w) (qview q w') \<and>
        (good \<longrightarrow> handler_accepts r) \<and> (\<not> good \<longrightarrow> err \<or> \<not> handler_accepts r)))"
  unfolding Let_def by (rule consume_settles [unfolded Let_def, OF demo_board_inv])

text \<open>Without faults, consuming a task that its handler accepts.\<close>

lemma run_consumeTask_accepted:
  assumes "calm w" "tasks_ok w"
    and r: "task_at w i = Some r" "tk_status r \<in> {task_StatusPending, task_StatusFailed}" "handler_accepts r"
  defines "x \<equiv> success_task (w_now w) (running_task (w_now w) r)"
  shows "run_state (consumeTask (quan_ports q) cfg ctx i) w =
      (Inr (), (put_task i x w)\<lparr>w_metrics := w_metrics w @ [IncConsumeSuccess]\<rparr>)"
    and "tk_task_id x = i" "tk_status x = task_StatusSuccess" "task_reaches r x"
proof -
  let ?y = "running_task (w_now w) r"
  let ?w2 = "put_task i ?y w"
  have id: "tk_task_id ?y = i" "tk_task_id x = i" using task_at_id [OF r(1)] by (simp_all add: x_def)
  then show "tk_task_id x = i" by simp
  show "tk_status x = task_StatusSuccess" by (simp add: x_def)
  have "handler_accepts ?y" using r(3) by (simp add: handler_accepts_def running_task_def)
  then have handle: "run_state (Registry_Handle quan_registry ctx (scanTask ?y)) ?w2 = (Inr (), ?w2)"
    using run_quan_registry [of ctx ?y ?w2] by auto
  have row2: "task_at ?w2 = (task_at w)(i \<mapsto> ?y)" using put_task_rows(3) [OF id(1), of w] r(1) by simp
  have success: "run_state (MarkSuccess i) ?w2 = (Inr (), put_task i x ?w2)"
    using run_MarkSuccess [of ?w2 i ?y] assms(1,2) row2 put_task_rows(1) [OF id(1), of w] by (simp add: x_def)
  have twice: "put_task i x (put_task i ?y w) = put_task i x w"
    using id by (simp add: put_task_def put_row_def comp_def cong: if_cong)
  have task_id: "Task_ID (scanTask ?y) = i" using id(1) by (simp add: scanTask_def)
  show "run_state (consumeTask (quan_ports q) cfg ctx i) w =
      (Inr (), (put_task i x w)\<lparr>w_metrics := w_metrics w @ [IncConsumeSuccess]\<rparr>)"
    using run_TryMarkRunning [OF assms(1,2) r(1,2)] handle success
    by (simp add: consumeTask_def consume_done_def quan_ports_def consumer_counters_def task_id twice)
  have "task_trans r ?y" using r(2) by (rule trans_run)
  moreover have "task_trans ?y x" unfolding x_def by (rule trans_success) simp
  ultimately show "task_reaches r x" by simp
qed

text \<open>
  A worker completes its task. With no faults, if the id at the head of the ready list is that of
  a PENDING or FAILED task that its handler accepts, one round of a worker takes the id off the list,
  reports no error, counts one success and leaves the task SUCCESS, every other task as it was.
\<close>

theorem worker_completes:
  assumes "calm w" "task_inv q w" and ready: "qv_ready (qview q w) = FormatInt i # vs" "in_int64 i"
    and r: "task_at w i = Some r" "tk_status r \<in> {task_StatusPending, task_StatusFailed}" "handler_accepts r"
  shows "let m = worker_round (quan_ports q) cfg ctx; w' = final m w in
    answer m w = Inr () \<and> (\<exists>r'. task_at w' = (task_at w)(i \<mapsto> r') \<and> tk_status r' = task_StatusSuccess \<and> task_reaches r r') \<and>
    qview q w' = (qview q w)\<lparr>qv_ready := vs\<rparr> \<and> w_metrics w' = w_metrics w @ [IncConsumeSuccess]"
proof -
  have ok: "tasks_ok w" "queue_ok q w" using assms(2) by (simp_all add: task_inv_def)
  let ?w1 = "w\<lparr>w_kv := put_list (ReadyKey q) vs None (w_kv w)\<rparr>"
  have pop: "run_state (PopReady q) w = (Inr (Some i), ?w1)"
    using queue_scripts(1) [OF ok(2)] ready assms(1) by (simp add: PopReady_def in_int64_def)
  have view: "qview q ?w1 = (qview q w)\<lparr>qv_ready := vs\<rparr>"
    using queue_put_ready [OF ok(2), of vs "w_faults w"] by (simp add: queue_upd_def)
  have w1: "calm ?w1" "tasks_ok ?w1" "task_at ?w1 = task_at w"
    using assms(1) ok(1) by (simp_all add: tasks_ok_def task_at_def fun_eq_iff)
  note run = run_consumeTask_accepted [OF w1(1,2), of i r, unfolded w1(3), OF r]
  let ?x = "success_task (w_now w) (running_task (w_now w) r)"
  have whole: "run_state (worker_round (quan_ports q) cfg ctx) w =
      (Inr (), (put_task i ?x ?w1)\<lparr>w_metrics := w_metrics w @ [IncConsumeSuccess]\<rparr>)"
    using pop run(1) by (simp add: worker_round_def quan_ports_def)
  have "task_at (put_task i ?x ?w1) = (task_at w)(i \<mapsto> ?x)"
    using put_task_rows(3) [of ?x i ?w1] run(2) w1(3) r(1) by simp
  moreover have "task_at (u\<lparr>w_metrics := ms\<rparr>) = task_at u" "qview q (u\<lparr>w_metrics := ms\<rparr>) = qview q u" for u ms
    by (simp_all add: task_at_def qview_def fun_eq_iff)
  ultimately show ?thesis
    unfolding Let_def answer_def final_def whole using run(4) view by auto
qed

theorem worker_completes_witness:
  "let w = demo_board []; q = demo_keys; m = worker_round (quan_ports q) (ConsumeConfig_withDefaults demo_consume) (Ctx None);
       w' = final m w in
    answer m w = Inr () \<and>
    (\<exists>r'. task_at w' = (task_at w)(1 \<mapsto> r') \<and> tk_status r' = task_StatusSuccess \<and> task_reaches (demo_task 1) r') \<and>
    qview q w' = (qview q w)\<lparr>qv_ready := []\<rparr> \<and> w_metrics w' = w_metrics w @ [IncConsumeSuccess]"
proof -
  let ?p = "\<lparr>Notice_ClaimID = 1, Notice_CouponID = 1001, Notice_UserID = 7, Notice_TraceID = []\<rparr>"
  have "handler_accepts (demo_task 1)"
    using UnmarshalNoticePayload_Marshal [of ?p] by (simp add: handler_accepts_def demo_task_def in_int64_def)
  moreover have "qv_ready (qview demo_keys (demo_board [])) = FormatInt 1 # []"
    by (simp add: qview_def demo_keys_def QueueConfig_withDefaults_def demo_board_def rlist_def)
  moreover have "task_at (demo_board []) 1 = Some (demo_task 1)"
    by (simp add: task_at_def demo_board_def sql_row_def demo_task_def)
  moreover have "tk_status (demo_task 1) \<in> {task_StatusPending, task_StatusFailed}" by (simp add: demo_task_def)
  moreover have "calm (demo_board [])" "in_int64 1" by (simp_all add: calm_def demo_board_def in_int64_def)
  ultimately show ?thesis
    unfolding Let_def by (intro worker_completes [unfolded Let_def, OF _ demo_board_inv])
qed

text \<open>
  The life cycle holds under every schedule. However the rounds of the workers and of the retry
  scheduler follow each other and whatever round trips fail, no task appears or vanishes, each
  moves only along the life cycle, keeps its identity and its well-formedness (a known status, a
  last error of at most 255 bytes), and a task that was SUCCESS is not touched again.
\<close>

theorem consumer_keeps_lifecycle:
  assumes "task_inv q w" and "NewConsumer (Some task_repository) (Some (task_queue q)) (Some quan_registry) cfg = Inr c"
  shows "let w' = final (Consumer_StartStop (Consumer_SetMetrics (Some c) (Some consumer_counters)) ctx bs) w in
    task_inv q w' \<and> (\<forall>i. case task_at w i of
        None \<Rightarrow> task_at w' i = None
      | Some r \<Rightarrow> \<exists>r'. task_at w' i = Some r' \<and> task_reaches r r' \<and> task_identity r' = task_identity r \<and>
          (task_wf r \<longrightarrow> task_wf r') \<and> (tk_status r = task_StatusSuccess \<longrightarrow> r' = r))"
proof -
  let ?m = "Consumer_StartStop (Consumer_SetMetrics (Some c) (Some consumer_counters)) ctx bs"
  have "wp ?m (\<lambda>_. task_workers.evolves q w) w"
    using task_workers.wp_consumer_schedule [OF assms(1), of "ConsumeConfig_withDefaults cfg" ctx bs]
      task_workers.evolves_same [OF assms(1) refl] assms(2)
    by (auto simp: NewConsumer_def Consumer_SetMetrics_def Consumer_StartStop_def Let_def split: if_splits)
  then have e: "task_inv q (final ?m w)" "\<And>i. rel_option task_reaches (task_at w i) (task_at (final ?m w) i)"
    by (simp_all add: wp_iff task_workers.evolves_def)
  have "case task_at w i of
        None \<Rightarrow> task_at (final ?m w) i = None
      | Some r \<Rightarrow> \<exists>r'. task_at (final ?m w) i = Some r' \<and> task_reaches r r' \<and> task_identity r' = task_identity r \<and>
          (task_wf r \<longrightarrow> task_wf r') \<and> (tk_status r = task_StatusSuccess \<longrightarrow> r' = r)" for i
    using e(2) [of i] task_reaches_keeps task_reaches_success
    by (cases "task_at w i"; cases "task_at (final ?m w) i") auto
  with e(1) show ?thesis by (simp add: Let_def)
qed

end
