(* ===== verification/TaskCompensator.thy ===== *)
theory TaskCompensator
  imports TaskConsumer
begin

text \<open>
  examples/Quan/internal/task/compensator.go: the loop that finds tasks nobody is working on any
  more (FAILED ones whose retry is due, SUSPENDED and RUNNING ones that are stale) and puts them
  into the retry set again. Its contract is the locale \<open>compensator_env\<close>; the fault-free
  behaviour of the repository and the queue is the locale \<open>compensator_live\<close>.
\<close>

section \<open>Configuration and construction\<close>

record CompensationConfig =
  Comp_Enabled :: bool
  Comp_PollInterval :: int
  Comp_BatchSize :: int
  Comp_StaleTimeout :: int

definition CompensationConfig_withDefaults :: "CompensationConfig \<Rightarrow> CompensationConfig" where
  "CompensationConfig_withDefaults c =
     (let c = (if Comp_PollInterval c \<le> 0 then c\<lparr>Comp_PollInterval := 1 * Second\<rparr> else c);
          c = (if Comp_BatchSize c \<le> 0 then c\<lparr>Comp_BatchSize := 100\<rparr> else c);
          c = (if Comp_StaleTimeout c \<le> 0 then c\<lparr>Comp_StaleTimeout := 5 * Second\<rparr> else c)
      in c)"

record 's compensationRepository =
  pr_ListDueFailed :: "int \<Rightarrow> ('s, RecoveryCandidate list result) state"
  pr_ListSuspended :: "int \<Rightarrow> int \<Rightarrow> ('s, RecoveryCandidate list result) state"
  pr_ListStaleRunning :: "int \<Rightarrow> int \<Rightarrow> ('s, RecoveryCandidate list result) state"
  pr_MarkRecovered :: "int \<Rightarrow> string \<Rightarrow> ('s, bool result) state"

record 's compensationQueue =
  pq_ScheduleRetry :: "int \<Rightarrow> int \<Rightarrow> ('s, unit result) state"

record 's compensationMetrics =
  pm_ObserveTaskRecovery :: "string \<Rightarrow> int \<Rightarrow> ('s, unit) state"

definition noopCompensationMetrics :: "'s compensationMetrics" where
  "noopCompensationMetrics = \<lparr>pm_ObserveTaskRecovery = (\<lambda>_ _. ret ())\<rparr>"

record 's compensator_ports =
  Comp_repo :: "'s compensationRepository"
  Comp_queue :: "'s compensationQueue"
  Comp_metrics :: "'s compensationMetrics"

record 's Compensator =
  Comp_cfg :: CompensationConfig
  Comp_ports :: "'s compensator_ports option"

definition NewCompensator ::
  "'s compensationRepository option \<Rightarrow> 's compensationQueue option \<Rightarrow> CompensationConfig \<Rightarrow> 's Compensator result"
where
  "NewCompensator repo queue cfg0 =
     (let cfg = CompensationConfig_withDefaults cfg0 in
      if \<not> Comp_Enabled cfg then Inr \<lparr>Comp_cfg = cfg, Comp_ports = None\<rparr>
      else case repo of
        None \<Rightarrow> Inl (ErrNew ''task compensator repository is nil'')
      | Some r \<Rightarrow> (case queue of
          None \<Rightarrow> Inl (ErrNew ''task compensator queue is nil'')
        | Some q \<Rightarrow> Inr \<lparr>Comp_cfg = cfg, Comp_ports = Some \<lparr>Comp_repo = r, Comp_queue = q,
              Comp_metrics = noopCompensationMetrics\<rparr>\<rparr>))"

definition Compensator_SetMetrics :: "'s Compensator option \<Rightarrow> 's compensationMetrics option \<Rightarrow> 's Compensator option" where
  "Compensator_SetMetrics c metrics = (case (c, metrics) of
     (Some x, Some m) \<Rightarrow> Some (x\<lparr>Comp_ports := map_option (\<lambda>p. p\<lparr>Comp_metrics := m\<rparr>) (Comp_ports x)\<rparr>)
   | _ \<Rightarrow> c)"

section \<open>The loop\<close>

text \<open>Marking candidates: those that were marked are appended to \<open>acc\<close>.\<close>

primrec recover_candidates ::
  "'s compensationRepository \<Rightarrow> string \<Rightarrow> RecoveryCandidate list \<Rightarrow> RecoveryCandidate list \<Rightarrow>
     ('s, RecoveryCandidate list) state"
where
  "recover_candidates repo msg [] acc = ret acc"
| "recover_candidates repo msg (c # cs) acc = do {
     ok \<leftarrow> pr_MarkRecovered repo (Candidate_TaskID c) msg;
     recover_candidates repo msg cs (if ok = Inr True then acc @ [c] else acc) }"

primrec schedule_candidates ::
  "'s compensator_ports \<Rightarrow> int \<Rightarrow> RecoveryCandidate list \<Rightarrow> int \<Rightarrow> ('s, int) state"
where
  "schedule_candidates p now [] recovered = ret recovered"
| "schedule_candidates p now (c # cs) recovered = do {
     r \<leftarrow> pq_ScheduleRetry (Comp_queue p) (Candidate_TaskID c) now;
     case r of
       Inl err \<Rightarrow> schedule_candidates p now cs recovered
     | Inr _ \<Rightarrow> do {
         _ \<leftarrow> pm_ObserveTaskRecovery (Comp_metrics p) (Candidate_Source c) (now - Candidate_RecoverAt c);
         schedule_candidates p now cs (recovered + 1) } }"

text \<open>The result is the number of tasks scheduled, which the code logs.\<close>

definition compensateOnce :: "('s, int) state \<Rightarrow> CompensationConfig \<Rightarrow> 's compensator_ports \<Rightarrow> ('s, int result) state" where
  "compensateOnce clock cfg p =
     bindE (pr_ListDueFailed (Comp_repo p) (Comp_BatchSize cfg)) (\<lambda>candidates. do {
       t \<leftarrow> clock;
       let staleBefore = t - Comp_StaleTimeout cfg;
       bindE (pr_ListSuspended (Comp_repo p) staleBefore (Comp_BatchSize cfg)) (\<lambda>suspendedCandidates.
       bindE (pr_ListStaleRunning (Comp_repo p) staleBefore (Comp_BatchSize cfg)) (\<lambda>staleRunningCandidates.
         if candidates = [] \<and> suspendedCandidates = [] \<and> staleRunningCandidates = [] then returnE 0
         else do {
           candidates \<leftarrow> recover_candidates (Comp_repo p) ''stale RUNNING recovered for retry'' staleRunningCandidates candidates;
           candidates \<leftarrow> recover_candidates (Comp_repo p) ''suspended task recovered for retry'' suspendedCandidates candidates;
           now \<leftarrow> clock;
           recovered \<leftarrow> schedule_candidates p now candidates 0;
           returnE recovered })) })"

text \<open>\<^verbatim>\<open>run\<close>, cancelled after the ticker has fired \<open>n\<close> times, and \<^verbatim>\<open>Start\<close> up to \<^verbatim>\<open>Stop\<close>.\<close>

primrec compensator_run :: "('s, int) state \<Rightarrow> CompensationConfig \<Rightarrow> 's compensator_ports \<Rightarrow> nat \<Rightarrow> ('s, unit) state" where
  "compensator_run clock cfg p 0 = do { _ \<leftarrow> compensateOnce clock cfg p; ret () }"
| "compensator_run clock cfg p (Suc n) = do { _ \<leftarrow> compensateOnce clock cfg p; compensator_run clock cfg p n }"

definition Compensator_StartStop :: "('s, int) state \<Rightarrow> 's Compensator option \<Rightarrow> nat \<Rightarrow> ('s, unit) state" where
  "Compensator_StartStop clock c n = (case c of
     None \<Rightarrow> ret ()
   | Some x \<Rightarrow>
       if \<not> Comp_Enabled (Comp_cfg x) then ret ()
       else case Comp_ports x of None \<Rightarrow> ret () | Some p \<Rightarrow> compensator_run clock (Comp_cfg x) p n)"

lemma CompensationConfig_withDefaults_pos:
  "0 < Comp_PollInterval (CompensationConfig_withDefaults c)" "0 < Comp_BatchSize (CompensationConfig_withDefaults c)"
  "0 < Comp_StaleTimeout (CompensationConfig_withDefaults c)"
  "Comp_Enabled (CompensationConfig_withDefaults c) = Comp_Enabled c"
  by (simp_all add: CompensationConfig_withDefaults_def Let_def Second_def Millisecond_def)

section \<open>What the compensator relies on\<close>

definition is_recovered :: "task_row \<Rightarrow> task_row \<Rightarrow> bool" where
  "is_recovered r r' \<longleftrightarrow> tk_status r \<in> {task_StatusRunning, task_StatusSuspended} \<and> (\<exists>m now. r' = recovered_task m now r)"

lemma is_recovered_trans: "is_recovered r r' \<Longrightarrow> task_trans r r'"
  by (auto simp: is_recovered_def intro: trans_recover)

lemma is_recovered_status: "is_recovered r r' \<Longrightarrow> tk_status r' = task_StatusFailed"
  by (auto simp: is_recovered_def)

definition failed_in :: "(int \<rightharpoonup> task_row) \<Rightarrow> int \<Rightarrow> bool" where
  "failed_in m i \<longleftrightarrow> (\<exists>r. m i = Some r \<and> tk_status r = task_StatusFailed)"

locale compensator_env =
  fixes repo :: "'s compensationRepository"
    and queue :: "'s compensationQueue"
    and metrics :: "'s compensationMetrics"
    and clock :: "('s, int) state"
    and invar :: "'s \<Rightarrow> bool"
    and rows :: "'s \<Rightarrow> int \<rightharpoonup> task_row"
    and view :: "'s \<Rightarrow> queue_view"
  assumes due_law: "invar s \<Longrightarrow> wp (pr_ListDueFailed repo n)
      (\<lambda>r s'. invar s' \<and> rows s' = rows s \<and> view s' = view s \<and>
         (\<forall>cs. r = Inr cs \<longrightarrow> (\<forall>c \<in> set cs. failed_in (rows s) (Candidate_TaskID c)))) s"
    and suspended_law: "invar s \<Longrightarrow> wp (pr_ListSuspended repo t n)
      (\<lambda>r s'. invar s' \<and> rows s' = rows s \<and> view s' = view s) s"
    and running_law: "invar s \<Longrightarrow> wp (pr_ListStaleRunning repo t n)
      (\<lambda>r s'. invar s' \<and> rows s' = rows s \<and> view s' = view s) s"
    and recover_law: "invar s \<Longrightarrow> wp (pr_MarkRecovered repo i m)
      (\<lambda>r s'. invar s' \<and> view s' = view s \<and>
         (case r of
            Inr True \<Rightarrow> row_to is_recovered i (rows s) (rows s')
          | Inr False \<Rightarrow> rows s' = rows s
          | Inl e \<Rightarrow> rows s' = rows s \<or> row_to is_recovered i (rows s) (rows s'))) s"
    and retry_law: "invar s \<Longrightarrow> wp (pq_ScheduleRetry queue i at)
      (\<lambda>r s'. invar s' \<and> rows s' = rows s \<and>
         (view s' = (view s)\<lparr>qv_retry := zput (FormatInt i) (UnixMilli at) (qv_retry (view s))\<rparr> \<or>
          (\<exists>e. r = Inl e) \<and> view s' = view s)) s"
    and clock_law: "invar s \<Longrightarrow> wp clock (\<lambda>r s'. invar s' \<and> rows s' = rows s \<and> view s' = view s) s"
    and metrics_law: "invar s \<Longrightarrow> wp (pm_ObserveTaskRecovery metrics src d)
      (\<lambda>r s'. invar s' \<and> rows s' = rows s \<and> view s' = view s) s"
begin

abbreviation ports :: "'s compensator_ports" where
  "ports \<equiv> \<lparr>Comp_repo = repo, Comp_queue = queue, Comp_metrics = metrics\<rparr>"

text \<open>
  A row is left alone or, if it was RUNNING or SUSPENDED, becomes FAILED. The ready and dead-letter
  lists stay as they are, nothing leaves the retry set, and what enters it are ids of FAILED tasks.
\<close>

definition comp_safe :: "'s \<Rightarrow> 's \<Rightarrow> bool" where
  "comp_safe s s' \<longleftrightarrow> invar s' \<and>
     (\<forall>i. rel_option (\<lambda>r r'. r' = r \<or> is_recovered r r') (rows s i) (rows s' i)) \<and>
     qv_ready (view s') = qv_ready (view s) \<and> qv_dlq (view s') = qv_dlq (view s) \<and>
     retry_ids (view s) \<subseteq> retry_ids (view s') \<and>
     (\<forall>v \<in> retry_ids (view s') - retry_ids (view s). \<exists>i. v = FormatInt i \<and> failed_in (rows s') i)"

lemma comp_safe_same: "invar s' \<Longrightarrow> rows s' = rows s \<Longrightarrow> view s' = view s \<Longrightarrow> comp_safe s s'"
  by (auto simp: comp_safe_def intro: option.rel_refl)

lemma comp_safe_invar: "comp_safe s s' \<Longrightarrow> invar s'"
  by (simp add: comp_safe_def)

lemma comp_safe_failed:
  assumes "comp_safe s s'" "failed_in (rows s) i"
  shows "failed_in (rows s') i"
proof -
  obtain r where r: "rows s i = Some r" "tk_status r = task_StatusFailed" using assms(2) by (auto simp: failed_in_def)
  have "rel_option (\<lambda>r r'. r' = r \<or> is_recovered r r') (rows s i) (rows s' i)" using assms(1) by (simp add: comp_safe_def)
  with r show ?thesis by (cases "rows s' i") (auto simp: failed_in_def is_recovered_def)
qed

lemma comp_safe_trans:
  assumes "comp_safe s t" "comp_safe t u"
  shows "comp_safe s u"
proof -
  have "rel_option (\<lambda>r r'. r' = r \<or> is_recovered r r') (rows s i) (rows u i)" for i
  proof -
    have st: "rel_option (\<lambda>r r'. r' = r \<or> is_recovered r r') (rows s i) (rows t i)"
      and tu: "rel_option (\<lambda>r r'. r' = r \<or> is_recovered r r') (rows t i) (rows u i)"
      using assms by (simp_all add: comp_safe_def)
    have final: "\<not> is_recovered y z" if "is_recovered x y" for x y z
      using is_recovered_status [OF that] by (simp add: is_recovered_def)
    from st tu show ?thesis
      by (cases "rows s i"; cases "rows t i"; cases "rows u i") (auto dest: final)
  qed
  moreover have "\<exists>i. v = FormatInt i \<and> failed_in (rows u) i" if v: "v \<in> retry_ids (view u) - retry_ids (view s)" for v
  proof (cases "v \<in> retry_ids (view t)")
    case True
    with v have "v \<in> retry_ids (view t) - retry_ids (view s)" by simp
    then obtain i where "v = FormatInt i" "failed_in (rows t) i" using assms(1) unfolding comp_safe_def by blast
    with comp_safe_failed [OF assms(2)] show ?thesis by blast
  next
    case False
    with v assms(2) show ?thesis by (auto simp: comp_safe_def)
  qed
  ultimately show ?thesis using assms unfolding comp_safe_def by fastforce
qed

lemma comp_safe_recovered:
  assumes "invar s'" "view s' = view s" "row_to is_recovered i (rows s) (rows s')"
  shows "comp_safe s s'" "failed_in (rows s') i"
  using assms is_recovered_status by (auto simp: comp_safe_def row_to_def failed_in_def intro: option.rel_refl)

lemma comp_safe_scheduled:
  assumes "invar s'" "rows s' = rows s" "failed_in (rows s) i"
    and "view s' = (view s)\<lparr>qv_retry := zput (FormatInt i) at (qv_retry (view s))\<rparr> \<or> view s' = view s"
  shows "comp_safe s s'"
  using assms by (auto simp: comp_safe_def intro: option.rel_refl)

abbreviation all_failed :: "'s \<Rightarrow> RecoveryCandidate list \<Rightarrow> bool" where
  "all_failed s cs \<equiv> \<forall>c \<in> set cs. failed_in (rows s) (Candidate_TaskID c)"

lemma wp_recover_candidates:
  assumes "invar s" "all_failed s acc"
  shows "wp (recover_candidates repo msg cs acc) (\<lambda>acc' s'. comp_safe s s' \<and> all_failed s' acc') s"
  using assms
proof (induction cs arbitrary: s acc)
  case Nil
  then show ?case by (simp add: comp_safe_same)
next
  case (Cons c cs)
  show ?case
    unfolding recover_candidates.simps wp_bind
  proof (rule wp_mono [OF recover_law [OF Cons.prems(1)]])
    fix s1 and r :: "bool result"
    assume r: "invar s1 \<and> view s1 = view s \<and>
         (case r of
            Inr True \<Rightarrow> row_to is_recovered (Candidate_TaskID c) (rows s) (rows s1)
          | Inr False \<Rightarrow> rows s1 = rows s
          | Inl e \<Rightarrow> rows s1 = rows s \<or> row_to is_recovered (Candidate_TaskID c) (rows s) (rows s1))"
    then have safe: "comp_safe s s1" and marked: "r = Inr True \<Longrightarrow> failed_in (rows s1) (Candidate_TaskID c)"
      using comp_safe_same [of s1 s] comp_safe_recovered [of s1 s "Candidate_TaskID c"]
      by (auto split: sum.splits bool.splits)
    have "all_failed s1 (if r = Inr True then acc @ [c] else acc)"
      using comp_safe_failed [OF safe] marked Cons.prems(2) by auto
    from Cons.IH [OF comp_safe_invar [OF safe] this]
    show "wp (recover_candidates repo msg cs (if r = Inr True then acc @ [c] else acc))
        (\<lambda>acc' s'. comp_safe s s' \<and> all_failed s' acc') s1"
      by (rule wp_mono) (auto intro: comp_safe_trans [OF safe])
  qed
qed

lemma wp_schedule_candidates:
  assumes "invar s" "all_failed s cs"
  shows "wp (schedule_candidates ports now cs n) (\<lambda>_. comp_safe s) s"
  using assms
proof (induction cs arbitrary: s n)
  case Nil
  then show ?case by (simp add: comp_safe_same)
next
  case (Cons c cs)
  have rest: "wp (schedule_candidates ports now cs k) (\<lambda>_. comp_safe s) t" if "comp_safe s t" for t k
    by (rule wp_mono [OF Cons.IH])
      (use that comp_safe_trans [OF that] comp_safe_failed [OF that] Cons.prems(2) in \<open>auto simp: comp_safe_def\<close>)
  show ?case
    unfolding schedule_candidates.simps compensator_ports.simps wp_bind
  proof (rule wp_mono [OF retry_law [OF Cons.prems(1)]])
    fix s1 and r :: "unit result"
    assume r: "invar s1 \<and> rows s1 = rows s \<and>
      (view s1 = (view s)\<lparr>qv_retry := zput (FormatInt (Candidate_TaskID c)) (UnixMilli now) (qv_retry (view s))\<rparr> \<or>
        (\<exists>e. r = Inl e) \<and> view s1 = view s)"
    have safe: "comp_safe s s1"
      by (rule comp_safe_scheduled [where i = "Candidate_TaskID c" and at = "UnixMilli now"])
        (use r Cons.prems(2) in auto)
    have "wp (pm_ObserveTaskRecovery metrics src d) (\<lambda>_. wp (schedule_candidates ports now cs k) (\<lambda>_. comp_safe s)) s1"
      for src d k
      by (rule wp_mono [OF metrics_law]) (use r rest comp_safe_trans [OF safe comp_safe_same] in auto)
    with rest [OF safe] show "wp (case r of
        Inl err \<Rightarrow> schedule_candidates ports now cs n
      | Inr _ \<Rightarrow> State_Monad.bind (pm_ObserveTaskRecovery metrics (Candidate_Source c) (now - Candidate_RecoverAt c))
          (\<lambda>_. schedule_candidates ports now cs (n + 1))) (\<lambda>_. comp_safe s) s1"
      by (auto split: sum.split)
  qed
qed

text \<open>The part of \<^verbatim>\<open>compensateOnce\<close> after the three queries.\<close>

lemma wp_recover_and_schedule:
  assumes "invar s" "all_failed s cs"
  shows "wp (do {
      c1 \<leftarrow> recover_candidates repo m1 xs cs;
      c2 \<leftarrow> recover_candidates repo m2 ys c1;
      now \<leftarrow> clock;
      n \<leftarrow> schedule_candidates ports now c2 0;
      returnE n }) (\<lambda>_. comp_safe s) s"
  unfolding wp_bind
proof (rule wp_mono [OF wp_recover_candidates [OF assms]], erule conjE)
  fix s1 c1 assume 1: "comp_safe s s1" "all_failed s1 c1"
  then have "invar s1" by (simp add: comp_safe_def)
  show "wp (recover_candidates repo m2 ys c1) (\<lambda>c2. wp clock (\<lambda>now. wp (schedule_candidates ports now c2 0)
      (\<lambda>n. wp (returnE n) (\<lambda>_. comp_safe s)))) s1"
  proof (rule wp_mono [OF wp_recover_candidates [OF \<open>invar s1\<close> 1(2)]], erule conjE)
    fix s2 c2 assume 2: "comp_safe s1 s2" "all_failed s2 c2"
    show "wp clock (\<lambda>now. wp (schedule_candidates ports now c2 0) (\<lambda>n. wp (returnE n) (\<lambda>_. comp_safe s))) s2"
    proof (rule wp_mono [OF clock_law])
      show "invar s2" using 2(1) by (simp add: comp_safe_def)
    next
      fix now s3 assume 3: "invar s3 \<and> rows s3 = rows s2 \<and> view s3 = view s2"
      then have safe: "comp_safe s s3"
        by (intro comp_safe_trans [OF comp_safe_trans [OF 1(1) 2(1)] comp_safe_same]) auto
      show "wp (schedule_candidates ports now c2 0) (\<lambda>n. wp (returnE n) (\<lambda>_. comp_safe s)) s3"
        by (rule wp_mono [OF wp_schedule_candidates]) (use 2 3 comp_safe_trans [OF safe] in auto)
    qed
  qed
qed

lemma wp_compensateOnce:
  assumes "invar s"
  shows "wp (compensateOnce clock cfg ports) (\<lambda>_. comp_safe s) s"
proof -
  note same = comp_safe_same [of _ s]
  have tail: "wp (recover_candidates repo m1 xs cs) (\<lambda>c1. wp (recover_candidates repo m2 ys c1)
      (\<lambda>c2. wp clock (\<lambda>now. wp (schedule_candidates ports now c2 0) (\<lambda>n. comp_safe s)))) t"
    if "comp_safe s t" "all_failed t cs" for m1 m2 xs ys cs t
    by (rule wp_mono [OF wp_recover_and_schedule [OF comp_safe_invar [OF that(1)] that(2), of m1 xs m2 ys],
          unfolded wp_bind wp_returnE]) (rule comp_safe_trans [OF that(1)])
  show ?thesis
    unfolding compensateOnce_def compensator_ports.simps wp_bindE Let_def
    apply (rule wp_mono [OF due_law [OF assms]])
    subgoal for r s1
      apply (cases r)
       apply (simp add: same)
      apply simp
      apply (rule wp_mono [OF clock_law], simp)
      apply (rule wp_mono [OF suspended_law], simp)
      subgoal for cs t s2 r2 s3
        apply (cases r2)
         apply (simp add: same)
        apply simp
        apply (rule wp_mono [OF running_law], simp)
        subgoal for cs2 r3 s4
          by (cases r3) (auto simp: same intro!: tail)
        done
      done
    done
qed

lemma wp_compensator_run:
  assumes "invar s"
  shows "wp (compensator_run clock cfg ports n) (\<lambda>_. comp_safe s) s"
  using assms
proof (induction n arbitrary: s)
  case 0
  then show ?case using wp_compensateOnce by (simp add: wp_iff)
next
  case (Suc n)
  have "wp (compensator_run clock cfg ports n) (\<lambda>_. comp_safe s) t" if "comp_safe s t" for t
    by (rule wp_mono [OF Suc.IH [OF comp_safe_invar [OF that]]]) (rule comp_safe_trans [OF that])
  then show ?case unfolding compensator_run.simps wp_bind by (rule wp_mono [OF wp_compensateOnce [OF Suc.prems]])
qed

end

section \<open>A pass without faults\<close>

text \<open>
  The laws of a fault-free repository and queue (\<open>live\<close>): the queries answer what the tables hold
  at the time \<open>now\<close>, and the updates answer what they did.
\<close>

locale compensator_live = compensator_env repo queue metrics clock invar rows view
  for repo :: "'s compensationRepository" and queue metrics clock invar rows view +
  fixes live :: "'s \<Rightarrow> bool"
    and now :: "'s \<Rightarrow> int"
    and tables :: "'s \<Rightarrow> db"
  assumes member_law: "invar s \<Longrightarrow> r \<in> set (db_tasks (tables s)) \<Longrightarrow> rows s (tk_task_id r) = Some r"
    and due_live: "invar s \<Longrightarrow> live s \<Longrightarrow> wp (pr_ListDueFailed repo n)
      (\<lambda>r s'. live s' \<and> now s' = now s \<and> tables s' = tables s \<and> (\<exists>cs. r = Inr cs \<and>
         Candidate_TaskID ` set cs = tk_task_id ` set (due_failed_tasks (now s) (default_limit n) (tables s)))) s"
    and suspended_live: "invar s \<Longrightarrow> live s \<Longrightarrow> wp (pr_ListSuspended repo t n)
      (\<lambda>r s'. live s' \<and> now s' = now s \<and> tables s' = tables s \<and> (\<exists>cs. r = Inr cs \<and>
         Candidate_TaskID ` set cs = tk_task_id ` set (stale_tasks task_StatusSuspended t (default_limit n) (tables s)))) s"
    and running_live: "invar s \<Longrightarrow> live s \<Longrightarrow> wp (pr_ListStaleRunning repo t n)
      (\<lambda>r s'. live s' \<and> now s' = now s \<and> tables s' = tables s \<and> (\<exists>cs. r = Inr cs \<and>
         Candidate_TaskID ` set cs = tk_task_id ` set (stale_tasks task_StatusRunning t (default_limit n) (tables s)))) s"
    and recover_live: "invar s \<Longrightarrow> live s \<Longrightarrow> wp (pr_MarkRecovered repo i m)
      (\<lambda>r s'. live s' \<and> (r = Inr True \<or> r = Inr False \<and>
         (\<forall>x. rows s i = Some x \<longrightarrow> tk_status x \<notin> {task_StatusRunning, task_StatusSuspended}))) s"
    and retry_live: "invar s \<Longrightarrow> live s \<Longrightarrow> wp (pq_ScheduleRetry queue i at) (\<lambda>r s'. live s' \<and> r = Inr ()) s"
    and clock_live: "invar s \<Longrightarrow> live s \<Longrightarrow> wp clock
      (\<lambda>r s'. live s' \<and> now s' = now s \<and> tables s' = tables s \<and> r = now s) s"
    and metrics_live: "invar s \<Longrightarrow> live s \<Longrightarrow> wp (pm_ObserveTaskRecovery metrics src d) (\<lambda>r. live) s"
begin

definition in_flight :: "'s \<Rightarrow> int \<Rightarrow> bool" where
  "in_flight s i \<longleftrightarrow> (\<exists>x. rows s i = Some x \<and> tk_status x \<in> {task_StatusRunning, task_StatusSuspended})"

abbreviation ids :: "RecoveryCandidate list \<Rightarrow> int set" where
  "ids cs \<equiv> Candidate_TaskID ` set cs"

text \<open>A candidate that is in flight is recovered; one that is not was recovered before.\<close>

lemma wp_recover_live:
  assumes "invar s" "live s" "\<forall>i \<in> W. in_flight s i \<or> i \<in> ids acc"
  shows "wp (recover_candidates repo msg cs acc)
    (\<lambda>acc' s'. live s' \<and> ids acc \<subseteq> ids acc' \<and> (\<forall>i \<in> W. in_flight s' i \<or> i \<in> ids acc') \<and>
       (\<forall>i \<in> W \<inter> ids cs. i \<in> ids acc')) s"
  using assms
proof (induction cs arbitrary: s acc)
  case Nil
  then show ?case by simp
next
  case (Cons c cs)
  let ?i = "Candidate_TaskID c"
  show ?case
    unfolding recover_candidates.simps wp_bind
  proof (rule wp_mono [OF wp_conj [OF recover_law [OF Cons.prems(1)] recover_live [OF Cons.prems(1,2)]]])
    fix s1 and r :: "bool result"
    assume r: "(invar s1 \<and> view s1 = view s \<and>
         (case r of
            Inr True \<Rightarrow> row_to is_recovered ?i (rows s) (rows s1)
          | Inr False \<Rightarrow> rows s1 = rows s
          | Inl e \<Rightarrow> rows s1 = rows s \<or> row_to is_recovered ?i (rows s) (rows s1))) \<and>
        live s1 \<and> (r = Inr True \<or> r = Inr False \<and>
         (\<forall>x. rows s ?i = Some x \<longrightarrow> tk_status x \<notin> {task_StatusRunning, task_StatusSuspended}))"
    let ?acc = "if r = Inr True then acc @ [c] else acc"
    have s1: "invar s1" "live s1" using r by simp_all
    have other: "in_flight s1 i = in_flight s i" if "i \<noteq> ?i \<or> r \<noteq> Inr True" for i
      using r that by (auto simp: in_flight_def row_to_def)
    have all: "\<forall>i \<in> W. in_flight s1 i \<or> i \<in> ids ?acc"
      using Cons.prems(3) other by auto
    have here: "?i \<in> ids ?acc" if "?i \<in> W"
      using r that Cons.prems(3) by (auto simp: in_flight_def)
    show "wp (recover_candidates repo msg cs ?acc)
      (\<lambda>acc' s'. live s' \<and> ids acc \<subseteq> ids acc' \<and> (\<forall>i \<in> W. in_flight s' i \<or> i \<in> ids acc') \<and>
         (\<forall>i \<in> W \<inter> ids (c # cs). i \<in> ids acc')) s1"
      by (rule wp_mono [OF Cons.IH [OF s1 all]]) (use here in auto)
  qed
qed

lemma wp_schedule_live:
  assumes "invar s" "live s" "all_failed s cs"
  shows "wp (schedule_candidates ports t cs n)
    (\<lambda>r s'. live s' \<and> (\<forall>i \<in> ids cs. FormatInt i \<in> retry_ids (view s')) \<and> r = n + int (length cs)) s"
  using assms
proof (induction cs arbitrary: s n)
  case Nil
  then show ?case by simp
next
  case (Cons c cs)
  let ?i = "Candidate_TaskID c"
  show ?case
    unfolding schedule_candidates.simps compensator_ports.simps wp_bind
  proof (rule wp_mono [OF wp_conj [OF retry_law [OF Cons.prems(1)] retry_live [OF Cons.prems(1,2)]]])
    fix s1 and r :: "unit result"
    assume r: "(invar s1 \<and> rows s1 = rows s \<and>
      (view s1 = (view s)\<lparr>qv_retry := zput (FormatInt ?i) (UnixMilli t) (qv_retry (view s))\<rparr> \<or>
        (\<exists>e. r = Inl e) \<and> view s1 = view s)) \<and> live s1 \<and> r = Inr ()"
    have rest: "wp (schedule_candidates ports t cs (n + 1))
        (\<lambda>r s'. live s' \<and> (\<forall>i \<in> ids (c # cs). FormatInt i \<in> retry_ids (view s')) \<and> r = n + int (length (c # cs))) s2"
      if s2: "invar s2" "rows s2 = rows s1" "view s2 = view s1" "live s2" for s2
    proof (rule wp_mono [OF wp_conj [OF wp_schedule_candidates Cons.IH]])
      show "invar s2" "all_failed s2 cs" using s2 r Cons.prems(3) by auto
      then show "invar s2" "live s2" "all_failed s2 cs" using s2 by simp_all
    next
      fix k s3 assume 3: "comp_safe s2 s3 \<and> live s3 \<and> (\<forall>i \<in> ids cs. FormatInt i \<in> retry_ids (view s3)) \<and>
          k = n + 1 + int (length cs)"
      then have "retry_ids (view s2) \<subseteq> retry_ids (view s3)" by (simp add: comp_safe_def)
      moreover have "FormatInt ?i \<in> retry_ids (view s2)" using r s2 by auto
      ultimately show "live s3 \<and> (\<forall>i \<in> ids (c # cs). FormatInt i \<in> retry_ids (view s3)) \<and> k = n + int (length (c # cs))"
        using 3 by auto
    qed
    have "wp (pm_ObserveTaskRecovery metrics (Candidate_Source c) (t - Candidate_RecoverAt c))
       (\<lambda>_. wp (schedule_candidates ports t cs (n + 1))
        (\<lambda>r s'. live s' \<and> (\<forall>i \<in> ids (c # cs). FormatInt i \<in> retry_ids (view s')) \<and> r = n + int (length (c # cs)))) s1"
      by (rule wp_mono [OF wp_conj [OF metrics_law metrics_live]]) (use r rest in auto)
    with r show "wp (case r of
        Inl err \<Rightarrow> schedule_candidates ports t cs n
      | Inr _ \<Rightarrow> State_Monad.bind (pm_ObserveTaskRecovery metrics (Candidate_Source c) (t - Candidate_RecoverAt c))
          (\<lambda>_. schedule_candidates ports t cs (n + 1)))
      (\<lambda>r s'. live s' \<and> (\<forall>i \<in> ids (c # cs). FormatInt i \<in> retry_ids (view s')) \<and> r = n + int (length (c # cs))) s1"
      by simp
  qed
qed

abbreviation rescheduled :: "'s \<Rightarrow> int \<Rightarrow> bool" where
  "rescheduled s i \<equiv> failed_in (rows s) i \<and> FormatInt i \<in> retry_ids (view s)"

lemma wp_recover_and_schedule_live:
  assumes s: "invar s" "live s" "all_failed s cs" and flight: "\<forall>i \<in> ids xs \<union> ids ys. in_flight s i"
  shows "wp (recover_candidates repo m1 xs cs) (\<lambda>c1. wp (recover_candidates repo m2 ys c1)
      (\<lambda>c2. wp clock (\<lambda>t. wp (schedule_candidates ports t c2 0)
         (\<lambda>n s'. \<forall>i \<in> ids cs \<union> ids xs \<union> ids ys. rescheduled s' i)))) s"
proof (rule wp_mono [OF wp_conj [OF wp_recover_candidates [OF s(1,3)] wp_recover_live [OF s(1,2), where W = "ids xs \<union> ids ys"]]])
  show "\<forall>i \<in> ids xs \<union> ids ys. in_flight s i \<or> i \<in> ids cs" using flight by blast
next
  fix c1 s1
  assume 1: "(comp_safe s s1 \<and> all_failed s1 c1) \<and> live s1 \<and> ids cs \<subseteq> ids c1 \<and>
    (\<forall>i \<in> ids xs \<union> ids ys. in_flight s1 i \<or> i \<in> ids c1) \<and> (\<forall>i \<in> (ids xs \<union> ids ys) \<inter> ids xs. i \<in> ids c1)"
  then have s1: "invar s1" "all_failed s1 c1" "live s1" by (auto intro: comp_safe_invar)
  show "wp (recover_candidates repo m2 ys c1) (\<lambda>c2. wp clock (\<lambda>t. wp (schedule_candidates ports t c2 0)
      (\<lambda>n s'. \<forall>i \<in> ids cs \<union> ids xs \<union> ids ys. rescheduled s' i))) s1"
  proof (rule wp_mono [OF wp_conj [OF wp_recover_candidates [OF s1(1,2)] wp_recover_live [OF s1(1,3), where W = "ids ys"]]])
    show "\<forall>i \<in> ids ys. in_flight s1 i \<or> i \<in> ids c1" using 1 by blast
  next
    fix c2 s2
    assume 2: "(comp_safe s1 s2 \<and> all_failed s2 c2) \<and> live s2 \<and> ids c1 \<subseteq> ids c2 \<and>
      (\<forall>i \<in> ids ys. in_flight s2 i \<or> i \<in> ids c2) \<and> (\<forall>i \<in> ids ys \<inter> ids ys. i \<in> ids c2)"
    then have s2: "invar s2" "all_failed s2 c2" "live s2" by (auto intro: comp_safe_invar)
    have "ids cs \<subseteq> ids c1" "ids xs \<subseteq> ids c1" "ids c1 \<subseteq> ids c2" "ids ys \<subseteq> ids c2"
      using 1 2 by (simp_all add: image_subset_iff)
    then have got: "ids cs \<union> ids xs \<union> ids ys \<subseteq> ids c2" by (simp add: order_trans)
    show "wp clock (\<lambda>t. wp (schedule_candidates ports t c2 0)
        (\<lambda>n s'. \<forall>i \<in> ids cs \<union> ids xs \<union> ids ys. rescheduled s' i)) s2"
    proof (rule wp_mono [OF wp_conj [OF clock_law [OF s2(1)] clock_live [OF s2(1,3)]]])
      fix t s3 assume "(invar s3 \<and> rows s3 = rows s2 \<and> view s3 = view s2) \<and> live s3 \<and>
        now s3 = now s2 \<and> tables s3 = tables s2 \<and> t = now s2"
      then have s3: "invar s3" "live s3" "all_failed s3 c2" using s2(2) by simp_all
      show "wp (schedule_candidates ports t c2 0) (\<lambda>n s'. \<forall>i \<in> ids cs \<union> ids xs \<union> ids ys. rescheduled s' i) s3"
      proof (rule wp_mono [OF wp_conj [OF wp_schedule_candidates [OF s3(1,3)] wp_schedule_live [OF s3]]], intro ballI)
        fix n s4 i
        assume 4: "comp_safe s3 s4 \<and> live s4 \<and> (\<forall>i \<in> ids c2. FormatInt i \<in> retry_ids (view s4)) \<and>
            n = 0 + int (length c2)" and "i \<in> ids cs \<union> ids xs \<union> ids ys"
        with got have "i \<in> ids c2" by blast
        with 4 s3(3) show "rescheduled s4 i" using comp_safe_failed [of s3 s4] by auto
      qed
    qed
  qed
qed

text \<open>The tasks the three queries of a pass find, and what becomes of them.\<close>

definition overdue :: "CompensationConfig \<Rightarrow> 's \<Rightarrow> task_row set" where
  "overdue cfg s =
     set (due_failed_tasks (now s) (default_limit (Comp_BatchSize cfg)) (tables s)) \<union>
     set (stale_tasks task_StatusSuspended (now s - Comp_StaleTimeout cfg) (default_limit (Comp_BatchSize cfg)) (tables s)) \<union>
     set (stale_tasks task_StatusRunning (now s - Comp_StaleTimeout cfg) (default_limit (Comp_BatchSize cfg)) (tables s))"

lemma stale_in_flight:
  assumes "invar s" "st \<in> {task_StatusRunning, task_StatusSuspended}"
  shows "\<forall>i \<in> tk_task_id ` set (stale_tasks st t n (tables s)). in_flight s i"
  using assms by (auto simp: stale_tasks_def in_flight_def dest!: sql_limit_orderD member_law)

lemma wp_compensate_live:
  assumes s: "invar s" "live s"
  shows "wp (compensateOnce clock cfg ports)
    (\<lambda>r s'. (\<exists>n. r = Inr n) \<and> (\<forall>x \<in> overdue cfg s. rescheduled s' (tk_task_id x))) s"
    (is "wp _ ?Q s")
proof -
  let ?n = "default_limit (Comp_BatchSize cfg)"
  let ?D = "tk_task_id ` set (due_failed_tasks (now s) ?n (tables s))"
  let ?S = "\<lambda>st. tk_task_id ` set (stale_tasks st (now s - Comp_StaleTimeout cfg) ?n (tables s))"
  have tail: "wp (if cs = [] \<and> ys = [] \<and> xs = [] then returnE 0 else do {
      c1 \<leftarrow> recover_candidates repo m1 xs cs;
      c2 \<leftarrow> recover_candidates repo m2 ys c1;
      t \<leftarrow> clock;
      n \<leftarrow> schedule_candidates ports t c2 0;
      returnE n }) ?Q t"
    if t: "invar t" "live t" "all_failed t cs" "rows t = rows s"
      and lists: "ids cs = ?D" "ids xs = ?S task_StatusRunning" "ids ys = ?S task_StatusSuspended" for m1 m2 xs ys cs t
  proof -
    have all: "tk_task_id ` overdue cfg s = ids cs \<union> ids xs \<union> ids ys"
      by (simp add: lists overdue_def image_Un Un_ac)
    have "\<forall>i \<in> ids xs \<union> ids ys. in_flight s i"
      unfolding ball_Un lists by (intro conjI stale_in_flight [OF s(1)]) simp_all
    then have "\<forall>i \<in> ids xs \<union> ids ys. in_flight t i" by (simp add: in_flight_def t(4))
    note run = wp_recover_and_schedule_live [OF t(1-3) this, of m1 m2]
    have found: "?Q (Inr n) s'" if "\<forall>i \<in> ids cs \<union> ids xs \<union> ids ys. rescheduled s' i" for n s'
      using that unfolding all [symmetric] by (simp only: ball_simps(9) sum.inject) simp
    show ?thesis
    proof (cases "cs = [] \<and> ys = [] \<and> xs = []")
      case True
      then show ?thesis using found [of t 0] by simp
    next
      case False
      have "wp (do { c1 \<leftarrow> recover_candidates repo m1 xs cs; c2 \<leftarrow> recover_candidates repo m2 ys c1; t \<leftarrow> clock;
          n \<leftarrow> schedule_candidates ports t c2 0; returnE n }) ?Q t"
        unfolding wp_bind wp_returnE unfolding wp_iff by (rule found [OF run [unfolded wp_iff]])
      with False show ?thesis by (simp only: if_False)
    qed
  qed
  show ?thesis
    unfolding compensateOnce_def compensator_ports.simps wp_bindE Let_def
    apply (rule wp_mono [OF wp_conj [OF due_law [OF s(1)] due_live [OF s]]], elim conjE exE)
    apply (simp only: sum.case wp_bind)
    apply (rule wp_mono [OF wp_conj [OF clock_law clock_live]], simp, simp, simp)
    apply (simp only: sum.case wp_bindE)
    apply (rule wp_mono [OF wp_conj [OF suspended_law suspended_live]], simp, simp, simp, elim conjE exE)
    apply (simp only: sum.case wp_bindE)
    apply (rule wp_mono [OF wp_conj [OF running_law running_live]], simp, simp, simp, elim conjE exE)
    apply (simp only: sum.case)
    apply (rule tail; simp)
    done
qed

end

section \<open>The compensator of the Quan server\<close>

definition compensation_repository :: "world compensationRepository" where
  "compensation_repository = \<lparr>pr_ListDueFailed = ListDueFailedForCompensation,
     pr_ListSuspended = ListSuspendedForCompensation, pr_ListStaleRunning = ListStaleRunningForCompensation,
     pr_MarkRecovered = MarkRecoveredForRetry\<rparr>"

definition compensation_queue :: "QueueConfig \<Rightarrow> world compensationQueue" where
  "compensation_queue q = \<lparr>pq_ScheduleRetry = ScheduleRetry q\<rparr>"

definition recovery_metrics :: "world compensationMetrics" where
  "recovery_metrics = \<lparr>pm_ObserveTaskRecovery = (\<lambda>source latency. metric (ObserveTaskRecovery source latency))\<rparr>"

lemma compensation_world_simps [simp]:
  "pr_ListDueFailed compensation_repository = ListDueFailedForCompensation"
  "pr_ListSuspended compensation_repository = ListSuspendedForCompensation"
  "pr_ListStaleRunning compensation_repository = ListStaleRunningForCompensation"
  "pr_MarkRecovered compensation_repository = MarkRecoveredForRetry"
  "pq_ScheduleRetry (compensation_queue q) = ScheduleRetry q"
  "pm_ObserveTaskRecovery recovery_metrics src d = metric (ObserveTaskRecovery src d)"
  by (simp_all add: compensation_repository_def compensation_queue_def recovery_metrics_def)

lemma task_inv_metrics [simp]:
  "task_inv q (w\<lparr>w_metrics := m\<rparr>) = task_inv q w" "task_at (w\<lparr>w_metrics := m\<rparr>) = task_at w"
  "qview q (w\<lparr>w_metrics := m\<rparr>) = qview q w"
  by (simp_all add: task_inv_def tasks_ok_def task_at_def queue_ok_def qview_def fun_eq_iff)

lemma wp_idle_clock:
  assumes "\<And>t w'. idle w w' \<Longrightarrow> w_now w \<le> t \<Longrightarrow> Q t w'"
  shows "wp time_Now Q w"
  by (rule wp_time_Now) (auto intro!: assms simp: idle_def same_env_def)

text \<open>A query that only reads.\<close>

lemma wp_query:
  assumes "\<And>w'. idle w w' \<Longrightarrow> Q (Inr (f (w_db w))) w'" "\<And>e w'. idle w w' \<Longrightarrow> Q (Inl e) w'"
  shows "wp (wrapE pre (db_exec (query_rows f))) Q w"
  unfolding wrapE_def wp_mapErr
  by (rule wp_db_exec) (auto intro!: assms simp: idle_def same_env_def)

lemma due_failed_member:
  assumes "tasks_ok w" "r \<in> set (due_failed_tasks now n (w_db w))"
  shows "failed_in (task_at w) (tk_task_id r)"
  using assms task_at_member by (force simp: due_failed_tasks_def failed_in_def dest!: sql_limit_orderD)

interpretation quan_compensator:
  compensator_env compensation_repository "compensation_queue q" recovery_metrics time_Now "task_inv q" task_at "qview q" for q
proof (unfold_locales, goal_cases)
  case (1 s n)
  have due: "failed_in (task_at s) (tk_task_id r)" if "r \<in> set (due_failed_tasks t k (w_db w'))" "idle s w'" for r t k w'
    using due_failed_member [of s r] that 1 by (simp add: task_inv_def idle_def)
  have same: "task_inv q w2 \<and> task_at w2 = task_at s \<and> qview q w2 = qview q s" if "idle s w1" "idle w1 w2" for w1 w2
    using task_inv_idle [OF idle_trans [OF that], of q] 1 by simp
  show ?case unfolding compensation_world_simps ListDueFailedForCompensation_def wp_bind
    by (intro wp_idle_clock wp_query; frule (1) same) (auto simp: scanRecoveryCandidates_def due)
next
  case (2 s t n)
  then show ?case unfolding compensation_world_simps ListSuspendedForCompensation_def
    by (intro wp_query) (auto simp: task_inv_idle)
next
  case (3 s t n)
  then show ?case unfolding compensation_world_simps ListStaleRunningForCompensation_def
    by (intro wp_query) (auto simp: task_inv_idle)
next
  case (4 s i m)
  have row: "row_to is_recovered i (task_at s) (task_at w')"
    if "task_moved i {task_StatusRunning, task_StatusSuspended} (recovered_task m) s w'" for w'
    by (rule task_moved_row [OF that]) (auto simp: is_recovered_def)
  have ok: "tasks_ok s" using 4 by (simp add: task_inv_def)
  show ?case unfolding compensation_world_simps
    by (rule wp_MarkRecovered [OF ok]) (use 4 row task_inv_moved [of i _ _ s _ q] in \<open>auto simp: task_inv_idle\<close>)
next
  case (5 s i at)
  then show ?case by (auto intro!: wp_ScheduleRetry simp: task_inv_def [of q s] dest: task_inv_queue)
next
  case (6 s)
  then show ?case by (auto intro!: wp_idle_clock simp: task_inv_idle)
next
  case (7 s src d)
  then show ?case by simp
qed

interpretation quan_compensator_live:
  compensator_live compensation_repository "compensation_queue q" recovery_metrics time_Now "task_inv q" task_at "qview q"
    calm w_now w_db for q
proof (unfold_locales, goal_cases)
  case (1 s r)
  then show ?case by (simp add: task_inv_def task_at_member)
next
  case (2 s n)
  then show ?case
    by (simp add: wp_def ListDueFailedForCompensation_def wrapE_def scanRecoveryCandidates_def image_image)
next
  case (3 s t n)
  then show ?case
    by (simp add: wp_def ListSuspendedForCompensation_def wrapE_def scanRecoveryCandidates_def image_image)
next
  case (4 s t n)
  then show ?case
    by (simp add: wp_def ListStaleRunningForCompensation_def wrapE_def scanRecoveryCandidates_def image_image)
next
  case (5 s i m)
  have ok: "tasks_ok s" using 5 by (simp add: task_inv_def)
  have run: "\<exists>n d. run_state (MarkRecoveredForRetry i m) s = (Inr n, s\<lparr>w_db := d\<rparr>)"
    using 5 by (auto simp: MarkRecoveredForRetry_def wrapE_def update_tasks_def)
  have "wp (MarkRecoveredForRetry i m) (\<lambda>r s'. (\<exists>e. r = Inl e) \<or> r = Inr True \<or> r = Inr False \<and>
      (\<forall>x. task_at s i = Some x \<longrightarrow> tk_status x \<notin> {task_StatusRunning, task_StatusSuspended})) s"
    by (rule wp_MarkRecovered [OF ok]) (auto simp: task_not_in_def)
  with run 5 show ?case by (auto simp: wp_def)
next
  case (6 s i at)
  then have "queue_ok q s" by (simp add: task_inv_def)
  with 6 show ?case by (simp add: wp_def ScheduleRetry_def queue_runs(3))
next
  case (7 s)
  then show ?case by (simp add: wp_def)
next
  case (8 s src d)
  then show ?case by simp
qed

section \<open>Properties\<close>

definition quan_compensator_ports :: "QueueConfig \<Rightarrow> world compensator_ports" where
  "quan_compensator_ports q = \<lparr>Comp_repo = compensation_repository, Comp_queue = compensation_queue q,
     Comp_metrics = recovery_metrics\<rparr>"

text \<open>
  C18. Compensation is safe. From \<^verbatim>\<open>Start\<close> to \<^verbatim>\<open>Stop\<close>, whatever round trips fail and however long the
  clock runs, the compensator changes a task only from RUNNING or SUSPENDED to FAILED, adds or
  removes no task, leaves the ready list and the dead-letter list alone, takes nothing out of the
  retry set, and puts only ids of FAILED tasks into it: SUCCESS, DEAD and PENDING tasks are never
  scheduled.
\<close>

theorem compensate_safe:
  assumes "task_inv q w" and "NewCompensator (Some compensation_repository) (Some (compensation_queue q)) cfg = Inr c"
  shows "let w' = final (Compensator_StartStop time_Now (Compensator_SetMetrics (Some c) (Some recovery_metrics)) n) w in
    task_inv q w' \<and>
    (\<forall>i. rel_option (\<lambda>r r'. r' = r \<or> is_recovered r r') (task_at w i) (task_at w' i)) \<and>
    qv_ready (qview q w') = qv_ready (qview q w) \<and> qv_dlq (qview q w') = qv_dlq (qview q w) \<and>
    retry_ids (qview q w) \<subseteq> retry_ids (qview q w') \<and>
    (\<forall>v \<in> retry_ids (qview q w') - retry_ids (qview q w). \<exists>i. v = FormatInt i \<and> failed_in (task_at w') i)"
proof -
  let ?m = "Compensator_StartStop time_Now (Compensator_SetMetrics (Some c) (Some recovery_metrics)) n"
  have "wp ?m (\<lambda>_. quan_compensator.comp_safe q w) w"
    using quan_compensator.wp_compensator_run [OF assms(1), of "CompensationConfig_withDefaults cfg" n]
      quan_compensator.comp_safe_same [OF assms(1) refl refl] assms(2)
    by (auto simp: NewCompensator_def Compensator_SetMetrics_def Compensator_StartStop_def Let_def split: if_splits)
  then show ?thesis by (simp add: wp_iff quan_compensator.comp_safe_def Let_def)
qed

definition demo_compensation :: CompensationConfig where
  "demo_compensation = \<lparr>Comp_Enabled = True, Comp_PollInterval = 0, Comp_BatchSize = 0, Comp_StaleTimeout = 0\<rparr>"

theorem compensate_safe_witness:
  "let w = demo_board [Lost ''reset'']; q = demo_keys;
       c = projr (NewCompensator (Some compensation_repository) (Some (compensation_queue q)) demo_compensation);
       w' = final (Compensator_StartStop time_Now (Compensator_SetMetrics (Some c) (Some recovery_metrics)) 2) w in
    task_inv q w' \<and>
    (\<forall>i. rel_option (\<lambda>r r'. r' = r \<or> is_recovered r r') (task_at w i) (task_at w' i)) \<and>
    qv_ready (qview q w') = qv_ready (qview q w) \<and> qv_dlq (qview q w') = qv_dlq (qview q w) \<and>
    retry_ids (qview q w) \<subseteq> retry_ids (qview q w') \<and>
    (\<forall>v \<in> retry_ids (qview q w') - retry_ids (qview q w). \<exists>i. v = FormatInt i \<and> failed_in (task_at w') i)"
  unfolding Let_def
  by (rule compensate_safe [unfolded Let_def, OF demo_board_inv, where cfg = demo_compensation])
    (simp add: demo_compensation_def NewCompensator_def CompensationConfig_withDefaults_def Let_def)

text \<open>
  C19. Compensation recovers. Without faults, one pass reports no error and afterwards every task it
  found overdue (a FAILED one whose retry time has come, a SUSPENDED or a RUNNING one not updated
  since the stale timeout; the first \<^verbatim>\<open>BatchSize\<close> of each kind) is FAILED and in the retry set.
\<close>

theorem compensate_recovers:
  assumes "calm w" "task_inv q w"
    and "x \<in> set (due_failed_tasks (w_now w) (default_limit (Comp_BatchSize cfg)) (w_db w)) \<union>
      set (stale_tasks task_StatusSuspended (w_now w - Comp_StaleTimeout cfg) (default_limit (Comp_BatchSize cfg)) (w_db w)) \<union>
      set (stale_tasks task_StatusRunning (w_now w - Comp_StaleTimeout cfg) (default_limit (Comp_BatchSize cfg)) (w_db w))"
  shows "let m = compensateOnce time_Now cfg (quan_compensator_ports q); w' = final m w in
    (\<exists>n. answer m w = Inr n) \<and> failed_in (task_at w') (tk_task_id x) \<and> FormatInt (tk_task_id x) \<in> retry_ids (qview q w')"
  using quan_compensator_live.wp_compensate_live [OF assms(2,1), of cfg] assms(3)
  by (simp only: wp_iff quan_compensator_ports_def quan_compensator_live.overdue_def Let_def)

text \<open>A task that a crashed worker left RUNNING an hour ago.\<close>

definition demo_stale :: task_row where
  "demo_stale = (demo_task 1)\<lparr>tk_status := task_StatusRunning\<rparr>"

theorem compensate_recovers_witness:
  "let w = put_task 1 demo_stale (demo_board []); q = demo_keys; m = compensateOnce time_Now demo_compensation (quan_compensator_ports q);
       w' = final m w in
    (\<exists>n. answer m w = Inr n) \<and> failed_in (task_at w') 1 \<and> FormatInt 1 \<in> retry_ids (qview q w')"
proof -
  let ?w = "put_task 1 demo_stale (demo_board [])"
  have id: "tk_task_id demo_stale = 1" by (simp add: demo_stale_def demo_task_def)
  have inv: "calm ?w" "task_inv demo_keys ?w"
    using demo_board_inv by (simp_all add: id) (simp add: calm_def demo_board_def)
  have "demo_stale \<in> set (stale_tasks task_StatusRunning (w_now ?w - Comp_StaleTimeout demo_compensation)
      (default_limit (Comp_BatchSize demo_compensation)) (w_db ?w))"
    by (simp add: stale_tasks_def sql_limit_def sql_order_by_def sql_select_def default_limit_def put_task_def put_row_def
        demo_board_def demo_compensation_def demo_stale_def demo_task_def Hour_def Minute_def Second_def Millisecond_def)
  then show ?thesis
    using compensate_recovers [OF inv, of demo_stale demo_compensation] by (simp add: Let_def id)
qed

end
