(* ===== verification/CouponRepository.thy ===== *)
theory CouponRepository
  imports TaskRepository
begin

text \<open>
  examples/Quan/internal/coupon: the claim model (model.go) and the repository that grants
  coupons in one MySQL transaction (repository*.go). The central facts are the ledger of a
  campaign (stock left plus claims granted is constant), the per-user limit, and that a claim,
  its notice task and its outbox event are committed together or not at all.
\<close>

section \<open>Model\<close>

record ClaimRecord =
  Claim_ID :: int
  Claim_CouponID :: int
  Claim_UserID :: int
  Claim_Status :: string
  Claim_IdempotencyKey :: string
  Claim_CreatedAt :: int

record campaignSnapshot =
  Snap_CouponID :: int
  Snap_Status :: string
  Snap_AvailableStock :: int
  Snap_PerUserLimit :: int
  Snap_StartAt :: int
  Snap_EndAt :: int

definition ErrCampaignNotFound :: goerr where "ErrCampaignNotFound = ErrNew ''campaign not found''"
definition ErrCampaignInactive :: goerr where "ErrCampaignInactive = ErrNew ''campaign not active''"
definition ErrSoldOut :: goerr where "ErrSoldOut = ErrNew ''coupon sold out''"
definition ErrAlreadyClaimed :: goerr where "ErrAlreadyClaimed = ErrNew ''already claimed''"
definition ErrClaimLimitReached :: goerr where "ErrClaimLimitReached = ErrNew ''claim limit reached''"

text \<open>
  The repository's own fields: whether it was given the task and outbox repositories, and the
  retry limit of the tasks it creates.
\<close>

record coupon_Repository =
  Repo_async :: bool
  Repo_defaultTaskMaxRetry :: int

definition coupon_NewRepository :: "bool \<Rightarrow> bool \<Rightarrow> int \<Rightarrow> coupon_Repository" where
  "coupon_NewRepository taskRepo outboxRepo defaultTaskMaxRetry =
     \<lparr>Repo_async = (taskRepo \<and> outboxRepo),
      Repo_defaultTaskMaxRetry = (if defaultTaskMaxRetry \<le> 0 then 5 else defaultTaskMaxRetry)\<rparr>"

section \<open>Queries\<close>

definition scanClaim :: "claim_row \<Rightarrow> ClaimRecord" where
  "scanClaim r =
     \<lparr>Claim_ID = cl_claim_id r, Claim_CouponID = cl_coupon_id r, Claim_UserID = cl_user_id r,
      Claim_Status = cl_status r,
      Claim_IdempotencyKey = (case cl_idempotency_key r of None \<Rightarrow> '''' | Some s \<Rightarrow> s),
      Claim_CreatedAt = cl_created_at r\<rparr>"

definition FindClaimByID :: "int \<Rightarrow> ClaimRecord result io" where
  "FindClaimByID claimID =
     db_exec (query_row (\<lambda>d. map_option scanClaim (sql_row (\<lambda>r. cl_claim_id r = claimID) (db_claims d))))"

text \<open>\<^verbatim>\<open>ORDER BY claim_id DESC LIMIT 1\<close>.\<close>

definition FindClaimByUser :: "int \<Rightarrow> int \<Rightarrow> ClaimRecord result io" where
  "FindClaimByUser couponID userID =
     db_exec (query_row (\<lambda>d. case sql_limit 1 (sql_order_by (\<lambda>r. - cl_claim_id r)
          (sql_select (\<lambda>r. cl_coupon_id r = couponID \<and> cl_user_id r = userID) (db_claims d))) of
        [] \<Rightarrow> None | r # _ \<Rightarrow> Some (scanClaim r)))"

definition snapshot_of :: "int \<Rightarrow> campaign_row \<Rightarrow> campaignSnapshot" where
  "snapshot_of couponID c =
     \<lparr>Snap_CouponID = couponID, Snap_Status = cp_status c, Snap_AvailableStock = cp_available_stock c,
      Snap_PerUserLimit = cp_per_user_limit c, Snap_StartAt = cp_start_at c, Snap_EndAt = cp_end_at c\<rparr>"

definition campaign_of :: "int \<Rightarrow> db \<Rightarrow> campaign_row option" where
  "campaign_of couponID d = sql_row (\<lambda>c. cp_coupon_id c = couponID) (db_campaigns d)"

definition loadCampaignForUpdate :: "int \<Rightarrow> campaignSnapshot result io" where
  "loadCampaignForUpdate couponID =
     mapErr (\<lambda>err. if errors_Is err sql_ErrNoRows then ErrCampaignNotFound
                    else ErrWrap ''query campaign for update: '' err '''')
       (tx_exec (query_row (\<lambda>d. map_option (snapshot_of couponID) (campaign_of couponID d))))"

definition LoadCampaign :: "int \<Rightarrow> campaignSnapshot result io" where
  "LoadCampaign couponID =
     mapErr (\<lambda>err. if errors_Is err sql_ErrNoRows then ErrCampaignNotFound
                    else ErrWrap ''query campaign: '' err '''')
       (db_exec (query_row (\<lambda>d. map_option (snapshot_of couponID) (campaign_of couponID d))))"

definition user_claims :: "int \<Rightarrow> int \<Rightarrow> db \<Rightarrow> claim_row list" where
  "user_claims couponID userID d =
     sql_select (\<lambda>r. cl_coupon_id r = couponID \<and> cl_user_id r = userID) (db_claims d)"

definition countUserClaimsTx :: "int \<Rightarrow> int \<Rightarrow> int result io" where
  "countUserClaimsTx couponID userID =
     wrapE ''count user claims: '' (tx_exec (query_rows (\<lambda>d. int (length (user_claims couponID userID d)))))"

text \<open>\<^verbatim>\<open>idempotency_key = ?\<close>, which NULL never satisfies.\<close>

definition same_idem :: "db \<Rightarrow> string \<Rightarrow> string option \<Rightarrow> bool" where
  "same_idem d idemKey stored =
     (case stored of None \<Rightarrow> False | Some s \<Rightarrow> db_collate d s = db_collate d idemKey)"

definition claim_by_idem :: "int \<Rightarrow> int \<Rightarrow> string \<Rightarrow> db \<Rightarrow> claim_row option" where
  "claim_by_idem couponID userID idemKey d =
     sql_row (\<lambda>r. cl_coupon_id r = couponID \<and> cl_user_id r = userID \<and>
                   same_idem d idemKey (cl_idempotency_key r)) (db_claims d)"

text \<open>\<open>None\<close> is the \<^verbatim>\<open>found = false\<close> of the code.\<close>

definition findClaimByIdemTx :: "int \<Rightarrow> int \<Rightarrow> string \<Rightarrow> ClaimRecord option result io" where
  "findClaimByIdemTx couponID userID idemKey = do {
     r \<leftarrow> tx_exec (query_row (\<lambda>d. map_option scanClaim (claim_by_idem couponID userID idemKey d)));
     case r of
       Inl err \<Rightarrow> if errors_Is err sql_ErrNoRows then returnE None
                   else throwE (ErrWrap ''query claim by idempotency key for update: '' err '''')
     | Inr rec \<Rightarrow> returnE (Some rec) }"

section \<open>Granting a claim\<close>

definition deduct_stmt :: "int \<Rightarrow> int \<Rightarrow> int stmt" where
  "deduct_stmt couponID now d =
     (let u = sql_update (\<lambda>c. cp_coupon_id c = couponID \<and> cp_available_stock c > 0)
                (\<lambda>c. c\<lparr>cp_available_stock := cp_available_stock c - 1, cp_updated_at := datetime3 now\<rparr>)
                (db_campaigns d)
      in (Inr (fst u), d\<lparr>db_campaigns := snd u\<rparr>))"

definition deductStock :: "int \<Rightarrow> int \<Rightarrow> unit result io" where
  "deductStock couponID now =
     bindE (wrapE ''deduct stock: '' (tx_exec (deduct_stmt couponID now))) (\<lambda>affected.
       if affected = 0 then throwE ErrSoldOut else returnE ())"

text \<open>
  The insert draws an id, then checks the unique key (coupon_id, user_id, idempotency_key) and
  the foreign key to the campaign. \<^verbatim>\<open>NULLIF(?, '')\<close> stores NULL for an empty key.
\<close>

definition err_foreign_key :: goerr where
  "err_foreign_key = MySQLError 1452 ''Error 1452 (23000): Cannot add or update a child row''"

definition new_claim :: "int \<Rightarrow> int \<Rightarrow> string \<Rightarrow> int \<Rightarrow> db \<Rightarrow> claim_row" where
  "new_claim couponID userID idemKey now d =
     \<lparr>cl_claim_id = db_next_claim_id d, cl_coupon_id = couponID, cl_user_id = userID,
      cl_status = ''CLAIMED'',
      cl_idempotency_key = (if db_collate d idemKey = db_collate d '''' then None else Some idemKey),
      cl_created_at = datetime3 now, cl_updated_at = datetime3 now\<rparr>"

definition insert_claim :: "int \<Rightarrow> int \<Rightarrow> string \<Rightarrow> int \<Rightarrow> int stmt" where
  "insert_claim couponID userID idemKey now d =
     (let d1 = d\<lparr>db_next_claim_id := db_next_claim_id d + 1\<rparr>;
          r = new_claim couponID userID idemKey now d in
      if cl_idempotency_key r \<noteq> None \<and> claim_by_idem couponID userID idemKey d \<noteq> None
      then (Inl err_duplicate, d1)
      else if campaign_of couponID d = None then (Inl err_foreign_key, d1)
      else (Inr (db_next_claim_id d), d1\<lparr>db_claims := db_claims d @ [r]\<rparr>))"

definition claim_record :: "int \<Rightarrow> int \<Rightarrow> int \<Rightarrow> string \<Rightarrow> int \<Rightarrow> ClaimRecord" where
  "claim_record claimID couponID userID idemKey now =
     \<lparr>Claim_ID = claimID, Claim_CouponID = couponID, Claim_UserID = userID, Claim_Status = ''CLAIMED'',
      Claim_IdempotencyKey = idemKey, Claim_CreatedAt = now\<rparr>"

definition resolveDuplicateClaim :: "int \<Rightarrow> int \<Rightarrow> string \<Rightarrow> ClaimRecord result io" where
  "resolveDuplicateClaim couponID userID idemKey =
     (if idemKey \<noteq> '''' then
        bindE (findClaimByIdemTx couponID userID idemKey) (\<lambda>found.
          case found of Some existing \<Rightarrow> returnE existing | None \<Rightarrow> throwE ErrAlreadyClaimed)
      else throwE ErrAlreadyClaimed)"

text \<open>The record and whether it existed before.\<close>

definition insertClaimTx :: "int \<Rightarrow> int \<Rightarrow> string \<Rightarrow> int \<Rightarrow> (ClaimRecord \<times> bool) result io" where
  "insertClaimTx couponID userID idemKey now = do {
     r \<leftarrow> tx_exec (insert_claim couponID userID idemKey now);
     case r of
       Inl err \<Rightarrow>
         if isDuplicateKey err then
           bindE (resolveDuplicateClaim couponID userID idemKey) (\<lambda>existing. returnE (existing, True))
         else throwE (ErrWrap ''insert claim: '' err '''')
     | Inr claimID \<Rightarrow> returnE (claim_record claimID couponID userID idemKey now, False) }"

definition createTaskAndOutbox :: "coupon_Repository \<Rightarrow> ctx \<Rightarrow> ClaimRecord \<Rightarrow> unit result io" where
  "createTaskAndOutbox r ctx rec =
     (if \<not> Repo_async r then returnE ()
      else do {
        let payload = MarshalPayload
              \<lparr>Notice_ClaimID = Claim_ID rec, Notice_CouponID = Claim_CouponID rec,
               Notice_UserID = Claim_UserID rec, Notice_TraceID = TraceIDFromContext ctx\<rparr>;
        let bizID = ''claim:'' @ FormatInt (Claim_ID rec);
        created \<leftarrow> task_CreateTx
          \<lparr>TaskParams_TaskType = TaskTypeSendCouponNotice, TaskParams_BizID = bizID,
           TaskParams_Payload = payload, TaskParams_MaxRetry = Repo_defaultTaskMaxRetry r\<rparr>;
        asyncTask \<leftarrow> (case created of
            Inr t \<Rightarrow> returnE t
          | Inl err \<Rightarrow>
              if errors_Is err ErrTaskDuplicate then
                mapErr (\<lambda>e. ErrWrap ''query duplicated async task: '' e '''')
                  (GetByTypeBiz TaskTypeSendCouponNotice bizID)
              else throwE (ErrWrap ''create async task in claim tx: '' err ''''));
        case asyncTask of
          Inl err \<Rightarrow> throwE err
        | Inr t \<Rightarrow>
            bindE (wrapE ''create outbox event in claim tx: '' (outbox_CreateTx
              \<lparr>EventParams_EventType = EventTypeTaskCreated, EventParams_AggregateType = ''async_task'',
               EventParams_AggregateID = FormatInt (Task_ID t),
               EventParams_PayloadJSON = MarshalTaskCreatedPayload (Task_ID t)\<rparr>)) (\<lambda>_. returnE ()) })"

text \<open>\<^verbatim>\<open>limit := campaign.PerUserLimit\<close>, at least one.\<close>

definition effective_limit :: "int \<Rightarrow> int" where
  "effective_limit n = (if n \<le> 0 then 1 else n)"

definition claim_open :: "int \<Rightarrow> campaignSnapshot \<Rightarrow> bool" where
  "claim_open now c \<longleftrightarrow> \<not> (Snap_Status c \<noteq> ''ACTIVE'' \<or> now < Snap_StartAt c \<or> now > Snap_EndAt c)"

definition limit_error :: "int \<Rightarrow> goerr" where
  "limit_error limit = (if limit = 1 then ErrAlreadyClaimed else ErrClaimLimitReached)"

text \<open>The idempotency lookup both transactions start with; an empty key is not looked up.\<close>

definition find_replay :: "int \<Rightarrow> int \<Rightarrow> string \<Rightarrow> ClaimRecord option result io" where
  "find_replay couponID userID idemKey =
     (if idemKey \<noteq> '''' then findClaimByIdemTx couponID userID idemKey else returnE None)"

definition claimCoupon_tx :: "coupon_Repository \<Rightarrow> ctx \<Rightarrow> int \<Rightarrow> int \<Rightarrow> string \<Rightarrow> ClaimRecord result io" where
  "claimCoupon_tx r ctx couponID userID idemKey = do {
     now \<leftarrow> time_Now;
     bindE (loadCampaignForUpdate couponID) (\<lambda>campaign.
       if \<not> claim_open now campaign then throwE ErrCampaignInactive
       else if Snap_AvailableStock campaign \<le> 0 then throwE ErrSoldOut
       else bindE (find_replay couponID userID idemKey) (\<lambda>found.
         case found of
           Some existing \<Rightarrow> returnE existing
         | None \<Rightarrow>
             bindE (countUserClaimsTx couponID userID) (\<lambda>userClaimCount.
               let limit = effective_limit (Snap_PerUserLimit campaign) in
               if userClaimCount \<ge> limit then throwE (limit_error limit)
               else bindE (deductStock couponID now) (\<lambda>_.
                 bindE (insertClaimTx couponID userID idemKey now) (\<lambda>(rec, existing).
                   if existing then returnE rec
                   else bindE (createTaskAndOutbox r ctx rec) (\<lambda>_. returnE rec)))))) }"

definition ClaimCoupon :: "coupon_Repository \<Rightarrow> ctx \<Rightarrow> int \<Rightarrow> int \<Rightarrow> string \<Rightarrow> ClaimRecord result io" where
  "ClaimCoupon r ctx couponID userID idemKey = within_tx (claimCoupon_tx r ctx couponID userID idemKey)"

definition persistClaim_tx :: "coupon_Repository \<Rightarrow> ctx \<Rightarrow> int \<Rightarrow> int \<Rightarrow> string \<Rightarrow> ClaimRecord result io" where
  "persistClaim_tx r ctx couponID userID idemKey = do {
     now \<leftarrow> time_Now;
     bindE (loadCampaignForUpdate couponID) (\<lambda>campaign.
       if \<not> claim_open now campaign then throwE ErrCampaignInactive
       else bindE (find_replay couponID userID idemKey) (\<lambda>found.
         case found of
           Some existing \<Rightarrow> returnE existing
         | None \<Rightarrow>
             bindE (countUserClaimsTx couponID userID) (\<lambda>userClaimCount.
               let limit = effective_limit (Snap_PerUserLimit campaign) in
               if userClaimCount \<ge> limit then throwE (limit_error limit)
               else bindE (insertClaimTx couponID userID idemKey now) (\<lambda>(rec, existing).
                 if existing then returnE rec
                 else bindE (deductStock couponID now) (\<lambda>_.
                   bindE (createTaskAndOutbox r ctx rec) (\<lambda>_. returnE rec)))))) }"

definition PersistClaimAfterAdjudication ::
  "coupon_Repository \<Rightarrow> ctx \<Rightarrow> int \<Rightarrow> int \<Rightarrow> string \<Rightarrow> ClaimRecord result io"
where
  "PersistClaimAfterAdjudication r ctx couponID userID idemKey =
     within_tx (persistClaim_tx r ctx couponID userID idemKey)"

section \<open>Inside the transaction\<close>

lemma wp_loadCampaignForUpdate:
  assumes "w_tx w = Some d"
    and "\<And>c w'. campaign_of cid d = Some c \<Longrightarrow> tx_to w d w' \<Longrightarrow> Q (Inr (snapshot_of cid c)) w'"
    and "\<And>e w'. tx_to w d w' \<Longrightarrow> Q (Inl e) w'"
  shows "wp (loadCampaignForUpdate cid) Q w"
  unfolding loadCampaignForUpdate_def wp_mapErr
  by (rule wp_tx_stmt [OF assms(1)])
    (use assms(2,3) in \<open>auto simp: query_row_def split: option.splits\<close>)

lemma wp_find_replay:
  assumes "w_tx w = Some d"
    and "\<And>r w'. idem \<noteq> '''' \<Longrightarrow> claim_by_idem cid uid idem d = Some r \<Longrightarrow> tx_to w d w' \<Longrightarrow>
           Q (Inr (Some (scanClaim r))) w'"
    and "\<And>w'. (idem \<noteq> '''' \<Longrightarrow> claim_by_idem cid uid idem d = None) \<Longrightarrow> tx_to w d w' \<Longrightarrow> Q (Inr None) w'"
    and "\<And>e w'. tx_to w d w' \<Longrightarrow> Q (Inl e) w'"
  shows "wp (find_replay cid uid idem) Q w"
proof (cases "idem = ''''")
  case True
  have "tx_to w d w" using assms(1) by (simp add: tx_to_def)
  with True assms(3) show ?thesis by (simp add: find_replay_def)
next
  case False
  show ?thesis
    unfolding find_replay_def findClaimByIdemTx_def using False
    by (auto intro!: wp_tx_stmt [OF assms(1)] assms(2-4) simp: query_row_def split: option.splits)
qed

lemma wp_countUserClaimsTx:
  assumes "w_tx w = Some d"
    and "\<And>w'. tx_to w d w' \<Longrightarrow> Q (Inr (int (length (user_claims cid uid d)))) w'"
    and "\<And>e w'. tx_to w d w' \<Longrightarrow> Q (Inl e) w'"
  shows "wp (countUserClaimsTx cid uid) Q w"
  unfolding countUserClaimsTx_def wp_wrapE
  by (rule wp_tx_stmt [OF assms(1)]) (use assms(2,3) in auto)

definition sold_one :: "int \<Rightarrow> campaign_row \<Rightarrow> campaign_row" where
  "sold_one now c = c\<lparr>cp_available_stock := cp_available_stock c - 1, cp_updated_at := datetime3 now\<rparr>"

definition campaigns_ok :: "db \<Rightarrow> bool" where
  "campaigns_ok d \<longleftrightarrow> distinct (map cp_coupon_id (db_campaigns d))"

definition deducted :: "int \<Rightarrow> int \<Rightarrow> campaign_row \<Rightarrow> db \<Rightarrow> db" where
  "deducted cid now c d = d\<lparr>db_campaigns := put_row cp_coupon_id cid (sold_one now c) (db_campaigns d)\<rparr>"

lemma deduct_stmt_eq:
  assumes "campaigns_ok d" "campaign_of cid d = Some c"
  shows "deduct_stmt cid now d =
           (if 0 < cp_available_stock c then (Inr 1, deducted cid now c d) else (Inr 0, d))"
proof -
  have "sold_one now c \<noteq> c"
  proof
    assume "sold_one now c = c"
    then have "cp_available_stock (sold_one now c) = cp_available_stock c" by simp
    then show False by (simp add: sold_one_def)
  qed
  then show ?thesis
    using sql_update_hit [of cp_coupon_id "db_campaigns d" cid c "\<lambda>c. 0 < cp_available_stock c" "sold_one now"]
      sql_update_miss [of cp_coupon_id "db_campaigns d" cid "\<lambda>c. 0 < cp_available_stock c" "sold_one now"] assms
    by (simp add: deduct_stmt_def campaigns_ok_def campaign_of_def deducted_def sold_one_def [abs_def] Let_def
        del: snd_sql_update)
qed

lemma wp_deductStock:
  assumes "w_tx w = Some d" "campaigns_ok d" "campaign_of cid d = Some c"
    and "\<And>w'. 0 < cp_available_stock c \<Longrightarrow> tx_to w (deducted cid now c d) w' \<Longrightarrow> Q (Inr ()) w'"
    and "\<And>e w' d'. tx_to w d' w' \<Longrightarrow> counters_le d d' \<Longrightarrow> Q (Inl e) w'"
  shows "wp (deductStock cid now) Q w"
  unfolding deductStock_def wp_bindE wp_wrapE
  by (rule wp_tx_stmt [OF assms(1)])
    (use assms(4,5) in \<open>auto simp: deduct_stmt_eq [OF assms(2,3)] deducted_def split: if_splits\<close>)

definition with_claim :: "int \<Rightarrow> int \<Rightarrow> string \<Rightarrow> int \<Rightarrow> db \<Rightarrow> db" where
  "with_claim cid uid idem now d =
     d\<lparr>db_next_claim_id := db_next_claim_id d + 1,
       db_claims := db_claims d @ [new_claim cid uid idem now d]\<rparr>"

lemma wp_insertClaimTx:
  assumes "w_tx w = Some d" "campaign_of cid d = Some c"
    and "idem \<noteq> '''' \<Longrightarrow> claim_by_idem cid uid idem d = None"
    and "\<And>w'. tx_to w (with_claim cid uid idem now d) w' \<Longrightarrow>
           Q (Inr (claim_record (db_next_claim_id d) cid uid idem now, False)) w'"
    and "\<And>e w' d'. tx_to w d' w' \<Longrightarrow> counters_le d d' \<Longrightarrow> Q (Inl e) w'"
  shows "wp (insertClaimTx cid uid idem now) Q w"
proof -
  have "insert_claim cid uid idem now d = (Inr (db_next_claim_id d), with_claim cid uid idem now d)"
    using assms(2,3) by (auto simp: insert_claim_def with_claim_def new_claim_def Let_def)
  moreover have "counters_le d (with_claim cid uid idem now d)"
    by (simp add: with_claim_def counters_le_def)
  ultimately show ?thesis
    unfolding insertClaimTx_def wp_bind
    by (intro wp_tx_stmt [OF assms(1)]) (use assms(4,5) in auto)
qed

section \<open>The notice task and its outbox event\<close>

definition notice_params :: "coupon_Repository \<Rightarrow> ctx \<Rightarrow> ClaimRecord \<Rightarrow> CreateTaskParams" where
  "notice_params r ctx rec =
     \<lparr>TaskParams_TaskType = TaskTypeSendCouponNotice, TaskParams_BizID = ''claim:'' @ FormatInt (Claim_ID rec),
      TaskParams_Payload = MarshalPayload
        \<lparr>Notice_ClaimID = Claim_ID rec, Notice_CouponID = Claim_CouponID rec,
         Notice_UserID = Claim_UserID rec, Notice_TraceID = TraceIDFromContext ctx\<rparr>,
      TaskParams_MaxRetry = Repo_defaultTaskMaxRetry r\<rparr>"

definition notice_event :: "int \<Rightarrow> CreateEventParams" where
  "notice_event tid =
     \<lparr>EventParams_EventType = EventTypeTaskCreated, EventParams_AggregateType = ''async_task'',
      EventParams_AggregateID = FormatInt tid, EventParams_PayloadJSON = MarshalTaskCreatedPayload tid\<rparr>"

text \<open>
  What is added for a claim: a new task (or, when a task with that business id exists already,
  none) and an event that names the task.
\<close>

definition notice_added :: "coupon_Repository \<Rightarrow> ctx \<Rightarrow> ClaimRecord \<Rightarrow> db \<Rightarrow> db \<Rightarrow> bool" where
  "notice_added r ctx rec d d' \<longleftrightarrow>
     (if \<not> Repo_async r then d' = d
      else let p = notice_params r ctx rec in
        (\<exists>now1 now2. d' = with_event (notice_event (db_next_task_id d)) now2 (with_task p now1 d) \<and>
           (\<forall>t \<in> set (db_tasks d). \<not> same_task_key d (TaskParams_TaskType p) (TaskParams_BizID p) t)) \<or>
        (\<exists>t now. t \<in> set (db_tasks d) \<and> same_task_key d (TaskParams_TaskType p) (TaskParams_BizID p) t \<and>
           d' = with_event (notice_event (tk_task_id t)) now (d\<lparr>db_next_task_id := db_next_task_id d + 1\<rparr>)))"

lemma idle_tx_to: "idle w w' \<Longrightarrow> w_tx w = Some d \<Longrightarrow> tx_to w d w'"
  by (simp add: idle_def tx_to_def)

lemma wp_createTaskAndOutbox:
  assumes tx: "w_tx w = Some d" and same: "db_tasks d = db_tasks (w_db w)" "db_collate d = db_collate (w_db w)"
    and added: "\<And>d' w'. notice_added r ctx rec d d' \<Longrightarrow> tx_to w d' w' \<Longrightarrow> Q (Inr ()) w'"
    and fail: "\<And>e w' d'. tx_to w d' w' \<Longrightarrow> counters_le d d' \<Longrightarrow> Q (Inl e) w'"
  shows "wp (createTaskAndOutbox r ctx rec) Q w"
proof (cases "Repo_async r")
  case False
  have "tx_to w d w" using tx by (simp add: tx_to_def)
  with False added show ?thesis by (simp add: createTaskAndOutbox_def notice_added_def)
next
  case True
  let ?p = "notice_params r ctx rec"
  let ?event = "\<lambda>tid. wp (bindE (wrapE ''create outbox event in claim tx: '' (outbox_CreateTx (notice_event tid)))
       (\<lambda>_. returnE ())) Q"
  have event: "?event tid w1"
    if w1: "tx_to w d1 w1" and le: "counters_le d d1"
      and na: "\<And>now. notice_added r ctx rec d (with_event (notice_event tid) now d1)" for tid w1 d1
    unfolding wp_bindE wp_wrapE
  proof (rule wp_outbox_CreateTx [OF tx_to_tx [OF w1]], goal_cases)
    case (1 now evt w2)
    then show ?case using added [OF na tx_to_trans [OF w1 1(1)]] by simp
  next
    case (2 e w2 d2)
    then show ?case using fail [OF tx_to_trans [OF w1 2(1)]] counters_le_trans [OF le 2(2)] by simp
  qed
  have body: "wp (State_Monad.bind (task_CreateTx ?p) (\<lambda>created.
       State_Monad.bind (case created of
            Inr t \<Rightarrow> returnE t
          | Inl err \<Rightarrow>
              if errors_Is err ErrTaskDuplicate then
                mapErr (\<lambda>e. ErrWrap ''query duplicated async task: '' e '''')
                  (GetByTypeBiz (TaskParams_TaskType ?p) (TaskParams_BizID ?p))
              else throwE (ErrWrap ''create async task in claim tx: '' err ''''))
         (\<lambda>asyncTask. case asyncTask of
          Inl err \<Rightarrow> throwE err
        | Inr t \<Rightarrow> bindE (wrapE ''create outbox event in claim tx: '' (outbox_CreateTx (notice_event (Task_ID t))))
             (\<lambda>_. returnE ())))) Q w"
    unfolding wp_bind
  proof (rule wp_task_CreateTx [OF tx], goal_cases)
    case (1 now t w1)
    then have na: "notice_added r ctx rec d (with_event (notice_event (Task_ID t)) now2 (with_task ?p now d))" for now2
      using True unfolding notice_added_def Let_def by auto
    have "counters_le d (with_task ?p now d)" by (simp add: with_task_def counters_le_def)
    from event [OF 1(4) this na] show ?case by (simp del: wp_bindE wp_wrapE)
  next
    case (2 t w1)
    let ?d1 = "d\<lparr>db_next_task_id := db_next_task_id d + 1\<rparr>"
    have le: "counters_le d ?d1" by (simp add: counters_le_def)
    have dup: "errors_Is ErrTaskDuplicate ErrTaskDuplicate" by (simp add: ErrTaskDuplicate_def)
    have w1: "w_db w1 = w_db w" "w_tx w1 = Some ?d1" using 2(3) by (simp_all add: tx_to_def)
    have query: "wp (GetByTypeBiz (TaskParams_TaskType ?p) (TaskParams_BizID ?p))
       (\<lambda>res. wp (case res of Inl e \<Rightarrow> throwE (ErrWrap ''query duplicated async task: '' e '''')
                             | Inr t \<Rightarrow> bindE (wrapE ''create outbox event in claim tx: ''
                                (outbox_CreateTx (notice_event (Task_ID t)))) (\<lambda>_. returnE ())) Q) w1"
    proof (rule wp_GetByTypeBiz, goal_cases)
      case (1 w2)
      have w2: "tx_to w ?d1 w2" by (rule tx_to_trans [OF 2(3) idle_tx_to [OF 1 w1(2)]])
      have "same_task_key (w_db w1) = same_task_key d" using same w1 by (simp add: same_task_key_def fun_eq_iff)
      then obtain t' where t': "sql_row (same_task_key (w_db w1) (TaskParams_TaskType ?p) (TaskParams_BizID ?p))
          (db_tasks (w_db w1)) = Some t'" "t' \<in> set (db_tasks d)"
        "same_task_key d (TaskParams_TaskType ?p) (TaskParams_BizID ?p) t'"
        using 2(1,2) same w1
        by (cases "sql_row (same_task_key d (TaskParams_TaskType ?p) (TaskParams_BizID ?p)) (db_tasks d)")
          (auto simp: sql_row_None_iff dest: sql_row_Some_iff)
      have na: "notice_added r ctx rec d (with_event (notice_event (tk_task_id t')) now ?d1)" for now
        using True t'(2,3) unfolding notice_added_def Let_def by auto
      show ?case
        using event [OF w2 le na] t'(1) by (simp add: scanTask_def del: wp_bindE wp_wrapE)
    next
      case (2 e w2)
      show ?case using fail [OF tx_to_trans [OF \<open>tx_to w ?d1 w1\<close> idle_tx_to [OF 2 w1(2)]] le] by simp
    qed
    show ?case using dup
      by (simp del: wp_bindE wp_wrapE) (rule wp_mono [OF query], simp split: sum.splits del: wp_bindE wp_wrapE)
  next
    case (3 e w1 d1)
    then show ?case using fail [OF 3] by (simp add: ErrTaskDuplicate_def)
  qed
  show ?thesis
    using body True
    unfolding createTaskAndOutbox_def notice_params_def notice_event_def Let_def CreateTaskParams.select_convs
    by (simp only: not_True_eq_False if_False)
qed

section \<open>The outcome of a claim\<close>

text \<open>
  The abstract claim: campaign open, stock left, user below the limit, key not used; then one
  unit of stock is exchanged for one claim, and the notice is added.
\<close>

definition granted ::
  "coupon_Repository \<Rightarrow> ctx \<Rightarrow> int \<Rightarrow> int \<Rightarrow> string \<Rightarrow> db \<Rightarrow> ClaimRecord \<Rightarrow> db \<Rightarrow> bool"
where
  "granted r ctx cid uid idem d rec d' \<longleftrightarrow> (\<exists>now c.
     campaign_of cid d = Some c \<and> claim_open now (snapshot_of cid c) \<and> 0 < cp_available_stock c \<and>
     int (length (user_claims cid uid d)) < effective_limit (cp_per_user_limit c) \<and>
     (idem \<noteq> '''' \<longrightarrow> claim_by_idem cid uid idem d = None) \<and>
     rec = claim_record (db_next_claim_id d) cid uid idem now \<and>
     notice_added r ctx rec (with_claim cid uid idem now (deducted cid now c d)) d')"

definition replayed :: "int \<Rightarrow> int \<Rightarrow> string \<Rightarrow> db \<Rightarrow> ClaimRecord \<Rightarrow> db \<Rightarrow> bool" where
  "replayed cid uid idem d rec d' \<longleftrightarrow>
     idem \<noteq> '''' \<and> (\<exists>x. claim_by_idem cid uid idem d = Some x \<and> rec = scanClaim x) \<and> d' = d"

definition claim_outcome ::
  "coupon_Repository \<Rightarrow> ctx \<Rightarrow> int \<Rightarrow> int \<Rightarrow> string \<Rightarrow> db \<Rightarrow> ClaimRecord result \<Rightarrow> db \<Rightarrow> bool"
where
  "claim_outcome r ctx cid uid idem d res d' \<longleftrightarrow> (case res of
     Inl e \<Rightarrow> counters_le d d'
   | Inr rec \<Rightarrow> replayed cid uid idem d rec d' \<or> granted r ctx cid uid idem d rec d')"

lemma same_idem_iff:
  "same_idem d k stored \<longleftrightarrow> (\<exists>s. stored = Some s \<and> db_collate d s = db_collate d k)"
  by (simp add: same_idem_def split: option.split)

lemma deducted_simps [simp]:
  "campaigns_ok (with_claim cid uid idem now d) = campaigns_ok d"
  "campaign_of x (with_claim cid uid idem now d) = campaign_of x d"
  "claim_by_idem x u k (deducted cid now c d) = claim_by_idem x u k d"
  "db_next_claim_id (deducted cid now c d) = db_next_claim_id d"
  "db_tasks (deducted cid now c d) = db_tasks d" "db_tasks (with_claim cid uid idem now d) = db_tasks d"
  "db_collate (deducted cid now c d) = db_collate d" "db_collate (with_claim cid uid idem now d) = db_collate d"
  "db_claims (deducted cid now c d) = db_claims d"
  "db_events (deducted cid now c d) = db_events d" "db_events (with_claim cid uid idem now d) = db_events d"
  "counters_le d (deducted cid now c d)" "counters_le d (with_claim cid uid idem now d)"
  "counters_le d (with_claim cid uid idem now (deducted cid now c d))"
  by (simp_all add: campaigns_ok_def with_claim_def campaign_of_def deducted_def claim_by_idem_def
      counters_le_def same_idem_iff)

lemma deducted_with_claim:
  "deducted cid now c (with_claim cid uid idem now d) = with_claim cid uid idem now (deducted cid now c d)"
  by (simp add: with_claim_def deducted_def new_claim_def)

lemma campaign_of_deducted:
  "campaign_of cid d = Some c \<Longrightarrow> campaign_of cid (deducted cid now c d) = Some (sold_one now c)"
  using sql_row_Some_iff [of "\<lambda>c. cp_coupon_id c = cid" "db_campaigns d" c]
  by (simp add: campaign_of_def deducted_def sql_row_put_row sold_one_def)

lemma snapshot_fields [simp]:
  "Snap_AvailableStock (snapshot_of cid c) = cp_available_stock c"
  "Snap_PerUserLimit (snapshot_of cid c) = cp_per_user_limit c"
  by (simp_all add: snapshot_of_def)

lemma wp_createTaskAndOutbox_after:
  assumes w1: "tx_to u d1 w1" and same: "db_tasks d1 = db_tasks (w_db u)" "db_collate d1 = db_collate (w_db u)"
    and le: "counters_le (w_db u) d1"
    and na: "\<And>d'. notice_added r ctx rec d1 d' \<Longrightarrow> claim_outcome r ctx cid uid idem (w_db u) (Inr rec) d'"
  shows "wp (createTaskAndOutbox r ctx rec) (\<lambda>res. wp (case res of Inl e \<Rightarrow> throwE e | Inr _ \<Rightarrow> returnE rec)
           (\<lambda>res w'. \<exists>d'. tx_to u d' w' \<and> claim_outcome r ctx cid uid idem (w_db u) res d')) w1"
proof (rule wp_createTaskAndOutbox [OF tx_to_tx [OF w1]], goal_cases)
  case 1
  then show ?case using w1 same by (simp add: tx_to_def)
next
  case 2
  then show ?case using w1 same by (simp add: tx_to_def)
next
  case (3 d' w')
  then show ?case using tx_to_trans [OF w1 3(2)] na [OF 3(1)] by auto
next
  case (4 e w' d')
  then show ?case
    using tx_to_trans [OF w1 4(1)] counters_le_trans [OF le 4(2)] by (auto simp: claim_outcome_def)
qed

text \<open>The part both transactions share: load, check the window, look for a replay, count.\<close>

definition claim_prologue ::
  "int \<Rightarrow> int \<Rightarrow> string \<Rightarrow> (campaignSnapshot \<Rightarrow> bool) \<Rightarrow> (int \<Rightarrow> ClaimRecord result io) \<Rightarrow> ClaimRecord result io"
where
  "claim_prologue couponID userID idemKey sold_out grant = do {
     now \<leftarrow> time_Now;
     bindE (loadCampaignForUpdate couponID) (\<lambda>campaign.
       if \<not> claim_open now campaign then throwE ErrCampaignInactive
       else if sold_out campaign then throwE ErrSoldOut
       else bindE (find_replay couponID userID idemKey) (\<lambda>found.
         case found of
           Some existing \<Rightarrow> returnE existing
         | None \<Rightarrow>
             bindE (countUserClaimsTx couponID userID) (\<lambda>userClaimCount.
               let limit = effective_limit (Snap_PerUserLimit campaign) in
               if userClaimCount \<ge> limit then throwE (limit_error limit) else grant now))) }"

lemma claim_bodies:
  "claimCoupon_tx r ctx cid uid idem =
     claim_prologue cid uid idem (\<lambda>c. Snap_AvailableStock c \<le> 0) (\<lambda>now.
       bindE (deductStock cid now) (\<lambda>_.
         bindE (insertClaimTx cid uid idem now) (\<lambda>(rec, existing).
           if existing then returnE rec else bindE (createTaskAndOutbox r ctx rec) (\<lambda>_. returnE rec))))"
  "persistClaim_tx r ctx cid uid idem =
     claim_prologue cid uid idem (\<lambda>_. False) (\<lambda>now.
       bindE (insertClaimTx cid uid idem now) (\<lambda>(rec, existing).
         if existing then returnE rec
         else bindE (deductStock cid now) (\<lambda>_.
           bindE (createTaskAndOutbox r ctx rec) (\<lambda>_. returnE rec))))"
  unfolding claimCoupon_tx_def persistClaim_tx_def claim_prologue_def if_False by (rule refl)+

lemma wp_claim_prologue:
  assumes tx: "w_tx u = Some (w_db u)"
    and grant: "\<And>now c w'. tx_to u (w_db u) w' \<Longrightarrow> campaign_of cid (w_db u) = Some c \<Longrightarrow>
        claim_open now (snapshot_of cid c) \<Longrightarrow>
        int (length (user_claims cid uid (w_db u))) < effective_limit (cp_per_user_limit c) \<Longrightarrow>
        (idem \<noteq> '''' \<Longrightarrow> claim_by_idem cid uid idem (w_db u) = None) \<Longrightarrow>
        wp (grant now) (\<lambda>res w'. \<exists>d'. tx_to u d' w' \<and> claim_outcome r ctx cid uid idem (w_db u) res d') w'"
  shows "wp (claim_prologue cid uid idem sold grant)
          (\<lambda>res w'. \<exists>d'. tx_to u d' w' \<and> claim_outcome r ctx cid uid idem (w_db u) res d') u"
    (is "wp _ ?Q _")
proof -
  have fail: "tx_to u (w_db u) w' \<Longrightarrow> ?Q (Inl e) w'" for e w'
    by (auto simp: claim_outcome_def)
  have count: "wp (countUserClaimsTx cid uid) (\<lambda>res. case res of Inl e \<Rightarrow> ?Q (Inl e) | Inr n \<Rightarrow>
        wp (let limit = effective_limit (cp_per_user_limit c) in
            if limit \<le> n then throwE (limit_error limit) else grant now) ?Q) w1"
    if w1: "tx_to u (w_db u) w1" and c: "campaign_of cid (w_db u) = Some c" "claim_open now (snapshot_of cid c)"
      and idem: "idem \<noteq> '''' \<Longrightarrow> claim_by_idem cid uid idem (w_db u) = None" for now c w1
    by (rule wp_countUserClaimsTx [OF tx_to_tx [OF w1]])
      (use tx_to_trans [OF w1] fail grant [OF _ c _ idem] in \<open>auto simp: Let_def\<close>)
  have find: "wp (find_replay cid uid idem) (\<lambda>res. case res of Inl e \<Rightarrow> ?Q (Inl e) | Inr found \<Rightarrow>
        wp (case found of Some existing \<Rightarrow> returnE existing | None \<Rightarrow>
             bindE (countUserClaimsTx cid uid) (\<lambda>n.
               let limit = effective_limit (cp_per_user_limit c) in
               if limit \<le> n then throwE (limit_error limit) else grant now)) ?Q) w1"
    if w1: "tx_to u (w_db u) w1" and c: "campaign_of cid (w_db u) = Some c" "claim_open now (snapshot_of cid c)"
    for now c w1
  proof (rule wp_find_replay [OF tx_to_tx [OF w1]], goal_cases)
    case (1 x w2)
    then have "replayed cid uid idem (w_db u) (scanClaim x) (w_db u)" by (simp add: replayed_def)
    with tx_to_trans [OF w1 1(3)] show ?case by (auto simp: claim_outcome_def)
  next
    case (2 w2)
    then show ?case using count [OF tx_to_trans [OF w1 2(2)] c 2(1)] by simp
  next
    case (3 e w2)
    then show ?case using fail [OF tx_to_trans [OF w1 3]] by simp
  qed
  show ?thesis
    unfolding claim_prologue_def wp_bind
  proof (rule wp_tx_clock [OF tx], unfold wp_bindE, rule wp_loadCampaignForUpdate [where d = "w_db u"], goal_cases)
    case (2 now w1 c w2)
    then show ?case using find [of w2 c now] tx_to_trans [OF 2(1,4)] fail by auto
  qed (auto simp: tx_to_tx dest: tx_to_trans intro: fail)
qed

lemma wp_claim_notice:
  assumes w1: "tx_to u (with_claim cid uid idem now (deducted cid now c (w_db u))) w1"
    and "campaign_of cid (w_db u) = Some c" "claim_open now (snapshot_of cid c)" "0 < cp_available_stock c"
    and "int (length (user_claims cid uid (w_db u))) < effective_limit (cp_per_user_limit c)"
    and "idem \<noteq> '''' \<longrightarrow> claim_by_idem cid uid idem (w_db u) = None"
  defines "rec \<equiv> claim_record (db_next_claim_id (w_db u)) cid uid idem now"
  shows "wp (bindE (createTaskAndOutbox r ctx rec) (\<lambda>_. returnE rec))
           (\<lambda>res w'. \<exists>d'. tx_to u d' w' \<and> claim_outcome r ctx cid uid idem (w_db u) res d') w1"
proof -
  have "claim_outcome r ctx cid uid idem (w_db u) (Inr rec) d'"
    if "notice_added r ctx rec (with_claim cid uid idem now (deducted cid now c (w_db u))) d'" for d'
    using that assms(2-6) unfolding claim_outcome_def granted_def rec_def by auto
  then show ?thesis
    unfolding wp_bindE
    by (intro wp_mono [OF wp_createTaskAndOutbox_after [where idem = idem and cid = cid and uid = uid, OF w1]])
      (auto split: sum.splits)
qed

lemma wp_claimCoupon_tx:
  assumes tx: "w_tx u = Some (w_db u)" and ok: "campaigns_ok (w_db u)"
  shows "wp (claimCoupon_tx r ctx cid uid idem)
          (\<lambda>res w'. \<exists>d'. tx_to u d' w' \<and> claim_outcome r ctx cid uid idem (w_db u) res d') u"
    (is "wp _ ?Q _")
  unfolding claim_bodies(1)
proof (rule wp_claim_prologue [OF tx])
  fix now c w1
  assume w1: "tx_to u (w_db u) w1" and c: "campaign_of cid (w_db u) = Some c"
    and op: "claim_open now (snapshot_of cid c)"
    and lim: "int (length (user_claims cid uid (w_db u))) < effective_limit (cp_per_user_limit c)"
    and idem: "idem \<noteq> '''' \<Longrightarrow> claim_by_idem cid uid idem (w_db u) = None"
  have fail: "tx_to u d' w' \<Longrightarrow> counters_le (w_db u) d' \<Longrightarrow> ?Q (Inl e) w'" for e w' d'
    by (auto simp: claim_outcome_def)
  let ?rec = "claim_record (db_next_claim_id (w_db u)) cid uid idem now"
  let ?d = "with_claim cid uid idem now (deducted cid now c (w_db u))"
  note last = wp_claim_notice [OF _ c op _ lim impI [OF idem], where r = r and ctx = ctx]
  show "wp (bindE (deductStock cid now) (\<lambda>_.
         bindE (insertClaimTx cid uid idem now) (\<lambda>(rec, existing).
           if existing then returnE rec else bindE (createTaskAndOutbox r ctx rec) (\<lambda>_. returnE rec)))) ?Q w1"
    unfolding wp_bindE
  proof (rule wp_deductStock [OF tx_to_tx [OF w1] ok c], goal_cases)
    case (1 w2)
    have w2: "tx_to u (deducted cid now c (w_db u)) w2" by (rule tx_to_trans [OF w1 1(2)])
    show ?case unfolding sum.case
    proof (rule wp_insertClaimTx [OF tx_to_tx [OF w2] campaign_of_deducted [OF c]], goal_cases)
      case (2 w3)
      then show ?case
        using last [OF tx_to_trans [OF w2 2] \<open>0 < cp_available_stock c\<close>] by (simp del: wp_bindE)
    next
      case (3 e w3 d3)
      then show ?case
        using fail [OF tx_to_trans [OF w2 3(1)]] counters_le_trans [OF deducted_simps(12) 3(2)] by simp
    qed (use idem in simp)
  next
    case (2 e w2 d2)
    then show ?case using fail [OF tx_to_trans [OF w1 2(1)] 2(2)] by simp
  qed
qed

lemma wp_persistClaim_tx:
  assumes tx: "w_tx u = Some (w_db u)" and ok: "campaigns_ok (w_db u)"
  shows "wp (persistClaim_tx r ctx cid uid idem)
          (\<lambda>res w'. \<exists>d'. tx_to u d' w' \<and> claim_outcome r ctx cid uid idem (w_db u) res d') u"
    (is "wp _ ?Q _")
  unfolding claim_bodies(2)
proof (rule wp_claim_prologue [OF tx])
  fix now c w1
  assume w1: "tx_to u (w_db u) w1" and c: "campaign_of cid (w_db u) = Some c"
    and op: "claim_open now (snapshot_of cid c)"
    and lim: "int (length (user_claims cid uid (w_db u))) < effective_limit (cp_per_user_limit c)"
    and idem: "idem \<noteq> '''' \<Longrightarrow> claim_by_idem cid uid idem (w_db u) = None"
  have fail: "tx_to u d' w' \<Longrightarrow> counters_le (w_db u) d' \<Longrightarrow> ?Q (Inl e) w'" for e w' d'
    by (auto simp: claim_outcome_def)
  let ?rec = "claim_record (db_next_claim_id (w_db u)) cid uid idem now"
  let ?d = "with_claim cid uid idem now (deducted cid now c (w_db u))"
  note last = wp_claim_notice [OF _ c op _ lim impI [OF idem], where r = r and ctx = ctx]
  show "wp (bindE (insertClaimTx cid uid idem now) (\<lambda>(rec, existing).
         if existing then returnE rec
         else bindE (deductStock cid now) (\<lambda>_.
           bindE (createTaskAndOutbox r ctx rec) (\<lambda>_. returnE rec)))) ?Q w1"
    unfolding wp_bindE
  proof (rule wp_insertClaimTx [OF tx_to_tx [OF w1] c], goal_cases)
    case (2 w2)
    let ?d1 = "with_claim cid uid idem now (w_db u)"
    have w2: "tx_to u ?d1 w2" by (rule tx_to_trans [OF w1 2])
    have "wp (bindE (deductStock cid now) (\<lambda>_.
           bindE (createTaskAndOutbox r ctx ?rec) (\<lambda>_. returnE ?rec))) ?Q w2"
      unfolding wp_bindE [of "deductStock cid now"]
    proof (rule wp_deductStock [where c = c, OF tx_to_tx [OF w2]], goal_cases)
      case (3 w3)
      have "tx_to u ?d w3" using tx_to_trans [OF w2 3(2)] by (simp add: deducted_with_claim)
      from last [OF this 3(1)] show ?case by (simp del: wp_bindE)
    next
      case (4 e w3 d3)
      then show ?case
        using fail [OF tx_to_trans [OF w2 4(1)]] counters_le_trans [OF deducted_simps(13) 4(2)] by simp
    qed (use ok c in simp_all)
    then show ?case by (simp del: wp_bindE)
  next
    case (3 e w3 d3)
    then show ?case using fail [OF tx_to_trans [OF w1 3(1)] 3(2)] by simp
  qed (use idem in simp)
qed

section \<open>What a request leaves behind\<close>

lemma notice_added_keeps:
  assumes "notice_added r ctx rec d d'"
  shows "db_campaigns d' = db_campaigns d" "db_claims d' = db_claims d" "db_collate d' = db_collate d"
    "db_next_claim_id d' = db_next_claim_id d" "counters_le d d'"
  using assms
  by (auto simp: notice_added_def with_event_def insert_event_def with_task_def counters_le_def Let_def
      split: if_splits)

lemma granted_counters: "granted r ctx cid uid idem d rec d' \<Longrightarrow> counters_le d d'"
  unfolding granted_def by (metis counters_le_trans deducted_simps(14) notice_added_keeps(5))

text \<open>
  The answer and the committed state. An error leaves all tables as they were, except that a
  commit whose answer was lost may have happened.
\<close>

definition claimed ::
  "coupon_Repository \<Rightarrow> ctx \<Rightarrow> int \<Rightarrow> int \<Rightarrow> string \<Rightarrow> ClaimRecord result \<Rightarrow> db \<Rightarrow> db \<Rightarrow> bool"
where
  "claimed r ctx cid uid idem res d d' \<longleftrightarrow> (case res of
     Inr rec \<Rightarrow> replayed cid uid idem d rec d' \<or> granted r ctx cid uid idem d rec d'
   | Inl e \<Rightarrow> (\<exists>d1. counters_le d d1 \<and> d' = rolled_back d d1) \<or>
       (\<exists>s. e = commit_err s) \<and> (\<exists>rec. granted r ctx cid uid idem d rec d'))"

lemma rolled_back_self: "\<exists>d1. counters_le d d1 \<and> d = rolled_back d d1"
  by (rule exI [of _ d]) simp

lemma wp_claim_within_tx:
  assumes "\<And>fs. wp body
      (\<lambda>res w'. \<exists>d'. tx_to (w\<lparr>w_faults := fs, w_tx := Some (w_db w)\<rparr>) d' w' \<and>
         claim_outcome r ctx cid uid idem (w_db w) res d')
      (w\<lparr>w_faults := fs, w_tx := Some (w_db w)\<rparr>)"
    and "w_tx w = None"
  shows "wp (within_tx body)
      (\<lambda>res w'. same_env w w' \<and> w_tx w' = None \<and> claimed r ctx cid uid idem res (w_db w) (w_db w')) w"
proof (rule wp_within_tx [where R = "claim_outcome r ctx cid uid idem (w_db w)"], goal_cases)
  case (1 fs)
  show ?case by (rule wp_mono [OF assms(1)]) (auto simp: tx_to_def)
next
  case (2 e w')
  then show ?case using assms(2) rolled_back_self [of "w_db w"] by (auto simp: claimed_def)
next
  case (3 a w')
  then show ?case by (auto simp: claimed_def claim_outcome_def)
next
  case (4 e w')
  then obtain a where a: "claim_outcome r ctx cid uid idem (w_db w) (Inr a) (w_db w') \<or>
      (\<exists>d. claim_outcome r ctx cid uid idem (w_db w) (Inr a) d \<and> w_db w' = rolled_back (w_db w) d)" by blast
  have "claim_outcome r ctx cid uid idem (w_db w) (Inr a) d \<Longrightarrow> counters_le (w_db w) d" for d
    by (auto simp: claim_outcome_def replayed_def dest: granted_counters)
  with a 4(2,3) rolled_back_self [of "w_db w"] show ?case
    by (auto simp: claimed_def claim_outcome_def replayed_def)
next
  case (5 e w')
  then show ?case by (auto simp: claimed_def claim_outcome_def)
qed

lemma wp_ClaimCoupon [wp_intro]:
  assumes "campaigns_ok (w_db w)" "w_tx w = None"
  shows "wp (ClaimCoupon r ctx cid uid idem)
      (\<lambda>res w'. same_env w w' \<and> w_tx w' = None \<and> claimed r ctx cid uid idem res (w_db w) (w_db w')) w"
  unfolding ClaimCoupon_def
  by (rule wp_claim_within_tx)
    (use assms wp_claimCoupon_tx [of "w\<lparr>w_faults := fs, w_tx := Some (w_db w)\<rparr>" for fs] in simp_all)

lemma wp_PersistClaim [wp_intro]:
  assumes "campaigns_ok (w_db w)" "w_tx w = None"
  shows "wp (PersistClaimAfterAdjudication r ctx cid uid idem)
      (\<lambda>res w'. same_env w w' \<and> w_tx w' = None \<and> claimed r ctx cid uid idem res (w_db w) (w_db w')) w"
  unfolding PersistClaimAfterAdjudication_def
  by (rule wp_claim_within_tx)
    (use assms wp_persistClaim_tx [of "w\<lparr>w_faults := fs, w_tx := Some (w_db w)\<rparr>" for fs] in simp_all)

section \<open>The books\<close>

definition claims_of :: "int \<Rightarrow> db \<Rightarrow> claim_row list" where
  "claims_of cid d = filter (\<lambda>r. cl_coupon_id r = cid) (db_claims d)"

text \<open>Stock is neither lost nor created: what is left and what was granted add up to the total.\<close>

definition ledger_ok :: "db \<Rightarrow> bool" where
  "ledger_ok d \<longleftrightarrow> (\<forall>c \<in> set (db_campaigns d). 0 \<le> cp_available_stock c \<and>
     cp_available_stock c + int (length (claims_of (cp_coupon_id c) d)) = cp_total_stock c)"

definition limits_ok :: "db \<Rightarrow> bool" where
  "limits_ok d \<longleftrightarrow> (\<forall>c \<in> set (db_campaigns d). \<forall>u.
     int (length (user_claims (cp_coupon_id c) u d)) \<le> effective_limit (cp_per_user_limit c))"

text \<open>Claim ids are fresh and a key is used at most once per user and campaign.\<close>

definition claim_keys_ok :: "db \<Rightarrow> bool" where
  "claim_keys_ok d \<longleftrightarrow>
     distinct (map cl_claim_id (db_claims d)) \<and> (\<forall>x \<in> set (db_claims d). cl_claim_id x < db_next_claim_id d) \<and>
     (\<forall>x \<in> set (db_claims d). \<forall>y \<in> set (db_claims d). \<forall>k.
        cl_coupon_id x = cl_coupon_id y \<longrightarrow> cl_user_id x = cl_user_id y \<longrightarrow>
        same_idem d k (cl_idempotency_key x) \<longrightarrow> same_idem d k (cl_idempotency_key y) \<longrightarrow> x = y)"

definition books_ok :: "db \<Rightarrow> bool" where
  "books_ok d \<longleftrightarrow> campaigns_ok d \<and> ledger_ok d \<and> limits_ok d \<and> claim_keys_ok d"

lemmas books_defs = books_ok_def ledger_ok_def limits_ok_def claim_keys_ok_def campaigns_ok_def

text \<open>The books depend on the campaigns, the claims, the collation and the claim counter only.\<close>

lemma books_ok_cong:
  assumes "db_campaigns d' = db_campaigns d" "db_claims d' = db_claims d" "db_collate d' = db_collate d"
    and "db_next_claim_id d \<le> db_next_claim_id d'" "books_ok d"
  shows "books_ok d'"
proof -
  have "same_idem d' = same_idem d" using assms(3) by (simp add: fun_eq_iff same_idem_iff)
  then show ?thesis
    using assms by (fastforce simp: books_defs claims_of_def user_claims_def)
qed

lemma books_ok_notice: "notice_added r ctx rec d d' \<Longrightarrow> books_ok d \<Longrightarrow> books_ok d'"
  using notice_added_keeps [of r ctx rec d d'] by (intro books_ok_cong [of d' d]) auto

lemma in_deducted:
  assumes "campaign_of cid d = Some c" "x \<in> set (db_campaigns (deducted cid now c d))"
  shows "x = sold_one now c \<and> cp_coupon_id x = cid \<or> x \<in> set (db_campaigns d) \<and> cp_coupon_id x \<noteq> cid"
  using assms sql_row_Some_iff [of "\<lambda>c. cp_coupon_id c = cid" "db_campaigns d" c]
  by (auto simp: deducted_def put_row_def campaign_of_def sold_one_def)

lemma books_ok_grant:
  assumes ok: "books_ok d" and c: "campaign_of cid d = Some c" "0 < cp_available_stock c"
    and lim: "int (length (user_claims cid uid d)) < effective_limit (cp_per_user_limit c)"
    and idem: "idem \<noteq> '''' \<longrightarrow> claim_by_idem cid uid idem d = None"
  shows "books_ok (with_claim cid uid idem now (deducted cid now c d))" (is "books_ok ?d")
proof -
  have row: "cp_coupon_id c = cid" "c \<in> set (db_campaigns d)"
    using c(1) by (auto simp: campaign_of_def dest: sql_row_Some_iff)
  have camps: "db_campaigns ?d = db_campaigns (deducted cid now c d)"
    and claims: "db_claims ?d = db_claims d @ [new_claim cid uid idem now d]"
    and same: "same_idem ?d = same_idem d" "db_next_claim_id ?d = db_next_claim_id d + 1"
    by (simp_all add: with_claim_def deducted_def new_claim_def same_idem_iff fun_eq_iff)
  have new: "cl_coupon_id (new_claim cid uid idem now d) = cid" "cl_user_id (new_claim cid uid idem now d) = uid"
    "cl_claim_id (new_claim cid uid idem now d) = db_next_claim_id d"
    by (simp_all add: new_claim_def)
  have "campaigns_ok ?d"
    using ok row put_row_keys [of cp_coupon_id "sold_one now c" cid "db_campaigns d"]
    unfolding books_defs camps by (simp add: deducted_def sold_one_def)
  moreover have "ledger_ok ?d"
    unfolding ledger_ok_def camps
  proof (rule ballI)
    fix x assume "x \<in> set (db_campaigns (deducted cid now c d))"
    then consider "x = sold_one now c" | "x \<in> set (db_campaigns d)" "cp_coupon_id x \<noteq> cid"
      using in_deducted [OF c(1)] by blast
    then show "0 \<le> cp_available_stock x \<and>
        cp_available_stock x + int (length (claims_of (cp_coupon_id x) ?d)) = cp_total_stock x"
      using ok row c(2) new(1)
      by cases (auto simp: books_ok_def ledger_ok_def claims_of_def claims sold_one_def)
  qed
  moreover have "limits_ok ?d"
    unfolding limits_ok_def camps
  proof (intro ballI allI)
    fix x u assume "x \<in> set (db_campaigns (deducted cid now c d))"
    then consider "x = sold_one now c" | "x \<in> set (db_campaigns d)" "cp_coupon_id x \<noteq> cid"
      using in_deducted [OF c(1)] by blast
    then show "int (length (user_claims (cp_coupon_id x) u ?d)) \<le> effective_limit (cp_per_user_limit x)"
      using ok row lim new(1,2)
      by cases (auto simp: books_ok_def limits_ok_def user_claims_def sql_select_def claims sold_one_def)
  qed
  moreover have "claim_keys_ok ?d"
  proof -
    have fresh: "\<not> same_idem d k (cl_idempotency_key (new_claim cid uid idem now d))"
      if "x \<in> set (db_claims d)" "cl_coupon_id x = cid" "cl_user_id x = uid" "same_idem d k (cl_idempotency_key x)" for x k
    proof
      assume "same_idem d k (cl_idempotency_key (new_claim cid uid idem now d))"
      then have k: "db_collate d idem = db_collate d k" "idem \<noteq> ''''"
        by (auto simp: new_claim_def same_idem_iff split: if_splits)
      with idem that show False
        by (auto simp: claim_by_idem_def sql_row_None_iff same_idem_iff)
    qed
    then show ?thesis
      using ok new unfolding books_ok_def claim_keys_ok_def claims same by fastforce
  qed
  ultimately show ?thesis by (simp add: books_ok_def)
qed

lemma books_ok_claimed:
  assumes "claimed r ctx cid uid idem res d d'" "books_ok d"
  shows "books_ok d'"
proof -
  have g: "books_ok d'" if "granted r ctx cid uid idem d rec d'" for rec
    using that assms(2) unfolding granted_def by (auto intro: books_ok_notice books_ok_grant)
  have b: "books_ok d'" if "d' = rolled_back d d1" "counters_le d d1" for d1
    by (rule books_ok_cong [OF _ _ _ _ assms(2)])
      (use that in \<open>simp_all add: rolled_back_def counters_le_def\<close>)
  show ?thesis using assms g b by (auto simp: claimed_def replayed_def split: sum.splits)
qed

section \<open>Properties\<close>

definition demo_campaign :: "int \<Rightarrow> campaign_row" where
  "demo_campaign stock =
     \<lparr>cp_coupon_id = 1001, cp_total_stock = stock, cp_available_stock = stock, cp_per_user_limit = 1,
      cp_status = ''ACTIVE'', cp_start_at = 0, cp_end_at = 24 * Hour, cp_updated_at = 0\<rparr>"

definition demo_shop :: "campaign_row list \<Rightarrow> claim_row list \<Rightarrow> fault list \<Rightarrow> world" where
  "demo_shop cs cls fs =
     \<lparr>w_db = \<lparr>db_campaigns = cs, db_claims = cls, db_tasks = [], db_events = [], db_next_claim_id = 1,
              db_next_task_id = 1, db_next_event_id = 1, db_collate = (\<lambda>s. s)\<rparr>,
      w_tx = None, w_kv = (\<lambda>_. None), w_now = Hour, w_ticks = [], w_faults = fs, w_metrics = []\<rparr>"

definition demo_claim :: "int \<Rightarrow> int \<Rightarrow> string \<Rightarrow> claim_row" where
  "demo_claim i uid idem =
     \<lparr>cl_claim_id = i, cl_coupon_id = 1001, cl_user_id = uid, cl_status = ''CLAIMED'',
      cl_idempotency_key = Some idem, cl_created_at = 0, cl_updated_at = 0\<rparr>"

lemma demo_shop_books: "0 \<le> n \<Longrightarrow> books_ok (w_db (demo_shop [demo_campaign n] [] fs))"
  by (simp add: books_defs demo_shop_def demo_campaign_def claims_of_def user_claims_def sql_select_def
      effective_limit_def)

text \<open>
  The books balance. If stock left plus claims granted equals the total of every campaign, no
  stock is negative, no user is above the limit, and keys and ids of claims are unique, then this
  is still so after a direct claim or a claim after adjudication, whatever it answers and whatever
  round trips to MySQL fail, the commit included.
\<close>

theorem claim_keeps_books:
  assumes "books_ok (w_db w)" and "w_tx w = None"
  shows "books_ok (w_db (final (ClaimCoupon r ctx cid uid idem) w)) \<and>
         books_ok (w_db (final (PersistClaimAfterAdjudication r ctx cid uid idem) w))"
proof -
  have ok: "campaigns_ok (w_db w)" using assms(1) by (simp add: books_ok_def)
  show ?thesis
    using wp_ClaimCoupon [OF ok assms(2), of r ctx cid uid idem]
      wp_PersistClaim [OF ok assms(2), of r ctx cid uid idem] books_ok_claimed [OF _ assms(1)]
    by (auto simp: wp_iff)
qed

theorem claim_keeps_books_witness:
  "let w = demo_shop [demo_campaign 1] [] [NoFault, NoFault, NoFault, Lost ''reset'']; r = coupon_NewRepository True True 0
   in books_ok (w_db (final (ClaimCoupon r (Ctx None) 1001 7 ''k1'') w)) \<and>
      books_ok (w_db (final (PersistClaimAfterAdjudication r (Ctx None) 1001 7 ''k1'') w))"
  unfolding Let_def by (rule claim_keeps_books) (simp_all add: demo_shop_books, simp add: demo_shop_def)

text \<open>
  C9. A claim is all or nothing. A successful answer is either the claim that the same user made
  earlier with the same idempotency key, and then nothing changed, or it is a new claim: the
  campaign was open, had stock, and the user was below the limit; exactly one unit of stock was
  exchanged for exactly this claim, with its notice task and outbox event. An error means that no
  table changed, unless it is the loss of the commit's answer.
\<close>

theorem claim_all_or_nothing:
  assumes "campaigns_ok (w_db w)" and "w_tx w = None"
    and "m \<in> {ClaimCoupon r ctx cid uid idem, PersistClaimAfterAdjudication r ctx cid uid idem}"
  shows "let d = w_db w; d' = w_db (final m w) in
    case answer m w of
      Inr rec \<Rightarrow> replayed cid uid idem d rec d' \<or> granted r ctx cid uid idem d rec d'
    | Inl e \<Rightarrow>
        (db_campaigns d', db_claims d', db_tasks d', db_events d') =
        (db_campaigns d, db_claims d, db_tasks d, db_events d) \<or>
        (\<exists>s. e = commit_err s) \<and> (\<exists>rec. granted r ctx cid uid idem d rec d')"
proof -
  have "claimed r ctx cid uid idem (answer m w) (w_db w) (w_db (final m w))"
    using assms(3) wp_ClaimCoupon [OF assms(1,2), of r ctx cid uid idem]
      wp_PersistClaim [OF assms(1,2), of r ctx cid uid idem] by (auto simp: wp_iff)
  then show ?thesis by (auto simp: claimed_def Let_def rolled_back_def split: sum.splits)
qed

theorem claim_all_or_nothing_witness:
  "let w = demo_shop [demo_campaign 1] [] []; r = coupon_NewRepository True True 0;
       m = ClaimCoupon r (Ctx None) 1001 7 ''k1''; d = w_db w; d' = w_db (final m w) in
    case answer m w of
      Inr rec \<Rightarrow> replayed 1001 7 ''k1'' d rec d' \<or> granted r (Ctx None) 1001 7 ''k1'' d rec d'
    | Inl e \<Rightarrow>
        (db_campaigns d', db_claims d', db_tasks d', db_events d') =
        (db_campaigns d, db_claims d, db_tasks d, db_events d) \<or>
        (\<exists>s. e = commit_err s) \<and> (\<exists>rec. granted r (Ctx None) 1001 7 ''k1'' d rec d')"
  unfolding Let_def
  by (rule claim_all_or_nothing [unfolded Let_def]) (simp_all add: demo_shop_def campaigns_ok_def)

text \<open>
  C10. Idempotency. Once a claim with a given key is in the table, a request of the same user with
  the same key can succeed only with that claim, and it changes nothing: no second claim, no
  second unit of stock, no second task or event.
\<close>

theorem claim_idempotent:
  assumes "books_ok (w_db w)" and "w_tx w = None"
    and x: "x \<in> set (db_claims (w_db w))" "cl_coupon_id x = cid" "cl_user_id x = uid"
      "same_idem (w_db w) idem (cl_idempotency_key x)" "idem \<noteq> ''''"
    and m: "m \<in> {ClaimCoupon r ctx cid uid idem, PersistClaimAfterAdjudication r ctx cid uid idem}"
    and ans: "answer m w = Inr rec"
  shows "rec = scanClaim x \<and> w_db (final m w) = w_db w"
proof -
  have ok: "campaigns_ok (w_db w)" using assms(1) by (simp add: books_ok_def)
  have "claimed r ctx cid uid idem (Inr rec) (w_db w) (w_db (final m w))"
    using m ans wp_ClaimCoupon [OF ok assms(2), of r ctx cid uid idem]
      wp_PersistClaim [OF ok assms(2), of r ctx cid uid idem] by (auto simp: wp_iff)
  moreover obtain y where y: "claim_by_idem cid uid idem (w_db w) = Some y"
    using x by (cases "claim_by_idem cid uid idem (w_db w)") (auto simp: claim_by_idem_def sql_row_None_iff)
  moreover have "y = x"
    using y x assms(1) by (auto simp: claim_by_idem_def books_ok_def claim_keys_ok_def dest!: sql_row_Some_iff)
  ultimately show ?thesis using x(5) by (auto simp: claimed_def replayed_def granted_def)
qed

lemma demo_replay_run:
  "run_state (PersistClaimAfterAdjudication (coupon_NewRepository True True 0) (Ctx None) 1001 7 ''k1'')
     (demo_shop [(demo_campaign 2)\<lparr>cp_available_stock := 1\<rparr>] [demo_claim 0 7 ''k1''] []) =
   (Inr (scanClaim (demo_claim 0 7 ''k1'')),
    demo_shop [(demo_campaign 2)\<lparr>cp_available_stock := 1\<rparr>] [demo_claim 0 7 ''k1''] [])"
  unfolding PersistClaimAfterAdjudication_def
  by (subst run_within_tx_none)
    (auto simp: demo_shop_def persistClaim_tx_def loadCampaignForUpdate_def query_row_def campaign_of_def
      sql_row_def demo_campaign_def snapshot_of_def claim_open_def duration_defs find_replay_def
      findClaimByIdemTx_def claim_by_idem_def demo_claim_def same_idem_iff)

theorem claim_idempotent_witness:
  "let w = demo_shop [(demo_campaign 2)\<lparr>cp_available_stock := 1\<rparr>] [demo_claim 0 7 ''k1''] [];
       m = PersistClaimAfterAdjudication (coupon_NewRepository True True 0) (Ctx None) 1001 7 ''k1''
   in answer m w = Inr (scanClaim (demo_claim 0 7 ''k1'')) \<and> w_db (final m w) = w_db w"
  using claim_idempotent [where w = "demo_shop [(demo_campaign 2)\<lparr>cp_available_stock := 1\<rparr>] [demo_claim 0 7 ''k1''] []"
      and x = "demo_claim 0 7 ''k1''" and cid = 1001 and uid = 7 and idem = "''k1''"
      and m = "PersistClaimAfterAdjudication (coupon_NewRepository True True 0) (Ctx None) 1001 7 ''k1''"
      and r = "coupon_NewRepository True True 0" and ctx = "Ctx None" and rec = "scanClaim (demo_claim 0 7 ''k1'')"]
    demo_replay_run
  by (simp add: Let_def answer_def final_def books_defs demo_shop_def demo_campaign_def demo_claim_def
      claims_of_def user_claims_def sql_select_def effective_limit_def same_idem_iff)

lemma granted_notice:
  assumes "granted r ctx cid uid idem d rec d'" "Repo_async r"
  shows "\<exists>t e. t \<in> set (db_tasks d') \<and> db_events d' = db_events d @ [e] \<and>
           same_task_key d' TaskTypeSendCouponNotice (''claim:'' @ FormatInt (Claim_ID rec)) t \<and>
           (t \<in> set (db_tasks d) \<or> db_tasks d' = db_tasks d @ [t] \<and> tk_status t = task_StatusPending \<and>
              tk_task_id t = db_next_task_id d) \<and>
           ev_status e = outbox_StatusPending \<and> ev_payload_json e = MarshalTaskCreatedPayload (tk_task_id t)"
proof -
  obtain now c where na: "notice_added r ctx rec (with_claim cid uid idem now (deducted cid now c d)) d'"
    using assms(1) by (auto simp: granted_def)
  let ?d = "with_claim cid uid idem now (deducted cid now c d)" and ?p = "notice_params r ctx rec"
  have p: "TaskParams_TaskType ?p = TaskTypeSendCouponNotice" "TaskParams_BizID ?p = ''claim:'' @ FormatInt (Claim_ID rec)"
    by (simp_all add: notice_params_def)
  have next_id: "db_next_task_id ?d = db_next_task_id d" by (simp add: with_claim_def deducted_def)
  from na assms(2) consider
      now1 now2 where "d' = with_event (notice_event (db_next_task_id d)) now2 (with_task ?p now1 ?d)"
    | t now where "t \<in> set (db_tasks d)" "same_task_key ?d (TaskParams_TaskType ?p) (TaskParams_BizID ?p) t"
        "d' = with_event (notice_event (tk_task_id t)) now (?d\<lparr>db_next_task_id := db_next_task_id ?d + 1\<rparr>)"
    by (auto simp: notice_added_def Let_def next_id)
  then show ?thesis
  proof cases
    case 1
    then show ?thesis
      by (intro exI [of _ "last (db_tasks d')"] exI [of _ "last (db_events d')"])
        (simp add: with_event_def insert_event_def with_task_def notice_event_def same_task_key_def p next_id)
  next
    case 2
    then show ?thesis
      by (intro exI [of _ t] exI [of _ "last (db_events d')"])
        (simp add: with_event_def insert_event_def notice_event_def same_task_key_def p)
  qed
qed

lemma granted_claim:
  assumes "granted r ctx cid uid idem d rec d'"
  shows "\<exists>x. db_claims d' = db_claims d @ [x] \<and> cl_claim_id x = Claim_ID rec \<and> cl_coupon_id x = cid \<and>
           cl_user_id x = uid \<and> cl_status x = ''CLAIMED'' \<and> cl_created_at x = datetime3 (Claim_CreatedAt rec)"
proof -
  obtain now c where rec: "rec = claim_record (db_next_claim_id d) cid uid idem now"
    and na: "notice_added r ctx rec (with_claim cid uid idem now (deducted cid now c d)) d'"
    using assms by (auto simp: granted_def)
  show ?thesis
    using notice_added_keeps(2) [OF na] by (simp add: rec with_claim_def new_claim_def claim_record_def)
qed

text \<open>
  The transactional outbox. When a claim succeeds and it is a new one, the committed database
  holds the claim row, a notice task for it and a PENDING outbox event whose payload names that
  task: the three are created in one transaction.
\<close>

theorem claim_with_task_and_event:
  assumes "campaigns_ok (w_db w)" and "w_tx w = None"
    and m: "m \<in> {ClaimCoupon r ctx cid uid idem, PersistClaimAfterAdjudication r ctx cid uid idem}"
    and ans: "answer m w = Inr rec" and new: "w_db (final m w) \<noteq> w_db w" and "Repo_async r"
  shows "let d = w_db w; d' = w_db (final m w) in
    \<exists>x t e. db_claims d' = db_claims d @ [x] \<and> cl_claim_id x = Claim_ID rec \<and> cl_user_id x = uid \<and>
      t \<in> set (db_tasks d') \<and>
      same_task_key d' TaskTypeSendCouponNotice (''claim:'' @ FormatInt (Claim_ID rec)) t \<and>
      db_events d' = db_events d @ [e] \<and> ev_status e = outbox_StatusPending \<and>
      ev_payload_json e = MarshalTaskCreatedPayload (tk_task_id t)"
proof -
  have "claimed r ctx cid uid idem (answer m w) (w_db w) (w_db (final m w))"
    using m wp_ClaimCoupon [OF assms(1,2), of r ctx cid uid idem]
      wp_PersistClaim [OF assms(1,2), of r ctx cid uid idem] by (auto simp: wp_iff)
  with ans new have g: "granted r ctx cid uid idem (w_db w) rec (w_db (final m w))"
    by (auto simp: claimed_def replayed_def)
  from granted_claim [OF g] granted_notice [OF g assms(6)] show ?thesis
    unfolding Let_def by blast
qed

text \<open>
  C11. A replay after the last unit. With no faults, a campaign open and its stock exhausted, a
  repeated request with a key already used is refused as sold out by the direct path, because it
  looks at the stock before the key; the path after adjudication returns the original claim.
\<close>

theorem claim_replay_when_sold_out:
  assumes "calm w" "w_tx w = None" and c: "campaign_of cid (w_db w) = Some c"
    "claim_open (w_now w) (snapshot_of cid c)" "cp_available_stock c = 0"
    and x: "claim_by_idem cid uid idem (w_db w) = Some x" "idem \<noteq> ''''"
  shows "answer (ClaimCoupon r ctx cid uid idem) w = Inl ErrSoldOut \<and>
         answer (PersistClaimAfterAdjudication r ctx cid uid idem) w = Inr (scanClaim x)"
  using assms
  by (simp add: answer_def ClaimCoupon_def PersistClaimAfterAdjudication_def within_tx_def WithinTx_def
      db_BeginTx_def tx_Rollback_def tx_Commit_def claimCoupon_tx_def persistClaim_tx_def
      loadCampaignForUpdate_def query_row_def find_replay_def findClaimByIdemTx_def State_Monad.update_def)

theorem claim_replay_when_sold_out_witness:
  "let w = demo_shop [(demo_campaign 1)\<lparr>cp_available_stock := 0\<rparr>] [demo_claim 0 7 ''k1''] [];
       r = coupon_NewRepository True True 0 in
   answer (ClaimCoupon r (Ctx None) 1001 7 ''k1'') w = Inl ErrSoldOut \<and>
   answer (PersistClaimAfterAdjudication r (Ctx None) 1001 7 ''k1'') w = Inr (scanClaim (demo_claim 0 7 ''k1''))"
  unfolding Let_def
  by (rule claim_replay_when_sold_out [where c = "(demo_campaign 1)\<lparr>cp_available_stock := 0\<rparr>"])
    (simp_all add: demo_shop_def demo_campaign_def demo_claim_def calm_def campaign_of_def sql_row_def
      claim_open_def snapshot_of_def claim_by_idem_def same_idem_iff duration_defs)

end
