(* ===== verification/CouponAdjudicator.thy ===== *)
theory CouponAdjudicator
  imports CouponRepository
begin

text \<open>
  examples/Quan/internal/coupon/decision.go: the Redis hot path that admits or refuses a claim
  before MySQL is asked. The Lua scripts are sequences of Redis commands. \<open>gate\<close> is the abstract
  state of one campaign in Redis and \<open>decide\<close> the abstract decision; the script is shown to
  compute it and to change the keyspace only when it admits.
\<close>

section \<open>Keys\<close>

definition decisionNamespace :: string where "decisionNamespace = ''quan:claim''"

definition campaignMetaKey :: "int \<Rightarrow> string" where
  "campaignMetaKey couponID = decisionNamespace @ '':campaign:'' @ FormatInt couponID @ '':meta''"

definition campaignStockKey :: "int \<Rightarrow> string" where
  "campaignStockKey couponID = decisionNamespace @ '':campaign:'' @ FormatInt couponID @ '':stock''"

definition campaignUserCountKey :: "int \<Rightarrow> string" where
  "campaignUserCountKey couponID =
     decisionNamespace @ '':campaign:'' @ FormatInt couponID @ '':user_count''"

definition idemDecisionKey :: "int \<Rightarrow> int \<Rightarrow> string \<Rightarrow> string" where
  "idemDecisionKey couponID userID idemKey =
     decisionNamespace @ '':coupon:'' @ FormatInt couponID @ '':user:'' @ FormatInt userID @ '':idem:'' @ idemKey"

section \<open>Decisions\<close>

definition decisionCodeAdmitted :: string where "decisionCodeAdmitted = ''ADMITTED''"
definition decisionCodeIdemHit :: string where "decisionCodeIdemHit = ''IDEM_HIT''"
definition decisionCodePending :: string where "decisionCodePending = ''PENDING''"
definition decisionCodeAlready :: string where "decisionCodeAlready = ''ALREADY_CLAIMED''"
definition decisionCodeLimit :: string where "decisionCodeLimit = ''LIMIT_REACHED''"
definition decisionCodeSoldOut :: string where "decisionCodeSoldOut = ''SOLD_OUT''"
definition decisionCodeInactive :: string where "decisionCodeInactive = ''INACTIVE''"
definition decisionCodeCampaignMiss :: string where "decisionCodeCampaignMiss = ''CAMPAIGN_MISS''"

lemmas decision_code_defs =
  decisionCodeAdmitted_def decisionCodeIdemHit_def decisionCodePending_def decisionCodeAlready_def
  decisionCodeLimit_def decisionCodeSoldOut_def decisionCodeInactive_def decisionCodeCampaignMiss_def

record claimDecision =
  Decision_Code :: string
  Decision_ClaimID :: int
  Decision_ReservationID :: string

record Adjudicator =
  Adj_pendingTTL :: int
  Adj_successTTL :: int
  Adj_pendingWait :: int
  Adj_pendingPoll :: int

text \<open>\<^verbatim>\<open>NewAdjudicator\<close>: a nil Redis client gives a nil adjudicator.\<close>

definition NewAdjudicator :: "bool \<Rightarrow> Adjudicator option" where
  "NewAdjudicator client =
     (if \<not> client then None
      else Some \<lparr>Adj_pendingTTL = 30 * Second, Adj_successTTL = 24 * Hour,
                 Adj_pendingWait = 400 * Millisecond, Adj_pendingPoll = 10 * Millisecond\<rparr>)"

definition normalizePerUserLimit :: "int \<Rightarrow> int" where
  "normalizePerUserLimit limit = (if limit \<le> 0 then 1 else limit)"

definition parseClaimDecision :: "string list \<Rightarrow> claimDecision result" where
  "parseClaimDecision result = (case result of
     [] \<Rightarrow> Inl (ErrNew ''empty redis decision result'')
   | code # rest \<Rightarrow>
       (let out = \<lparr>Decision_Code = code, Decision_ClaimID = 0, Decision_ReservationID = ''''\<rparr> in
        case rest of
          [] \<Rightarrow> Inr out
        | arg # _ \<Rightarrow>
            if code = decisionCodeIdemHit then
              (case ParseInt arg of
                 Inl err \<Rightarrow> Inl (ErrWrap ''parse redis decision claim id: '' err '''')
               | Inr claimID \<Rightarrow> Inr (out\<lparr>Decision_ClaimID := claimID\<rparr>))
            else if code = decisionCodeAdmitted \<or> code = decisionCodePending
            then Inr (out\<lparr>Decision_ReservationID := arg\<rparr>)
            else Inr out))"

text \<open>\<^verbatim>\<open>Duration.Milliseconds\<close> truncates towards zero; the durations here are positive.\<close>

definition Milliseconds :: "int \<Rightarrow> int" where
  "Milliseconds d = d div Millisecond"

section \<open>The scripts\<close>

text \<open>
  Lua's \<^verbatim>\<open>tonumber(x or d)\<close> on the decimal integers the program writes; anything else is \<open>None\<close>
  (nil), and comparing nil ends the script with an error. The numbers involved are far below
  \<open>2 ^ 53\<close>, where Lua's doubles are exact.
\<close>

definition lua_number :: "string option \<Rightarrow> int \<Rightarrow> int option" where
  "lua_number x d = (case x of None \<Rightarrow> Some d | Some s \<Rightarrow> redis_int s)"

definition err_lua_nil :: goerr where
  "err_lua_nil = RedisErr ''ERR user_script: attempt to compare nil with number''"

definition lua_num :: "int option \<Rightarrow> (int \<Rightarrow> 'a rcmd) \<Rightarrow> 'a rcmd" where
  "lua_num x k = (case x of None \<Rightarrow> throwE err_lua_nil | Some n \<Rightarrow> k n)"

text \<open>From the limit check on; \<open>limit_code\<close> is the reply when the user is at the limit.\<close>

definition limit_code :: "int \<Rightarrow> string" where
  "limit_code limit = (if limit = 1 then ''ALREADY_CLAIMED'' else ''LIMIT_REACHED'')"

definition admit_script ::
  "string \<Rightarrow> string \<Rightarrow> string \<Rightarrow> string \<Rightarrow> int option \<Rightarrow> string \<Rightarrow> string \<Rightarrow> int \<Rightarrow> int \<Rightarrow> string list rcmd"
where
  "admit_script stockKey countKey idemKey stock limit user_id reservation ttl now =
     bindE (redis_HGET now countKey user_id) (\<lambda>cnt.
       lua_num (lua_number cnt 0) (\<lambda>user_count. lua_num limit (\<lambda>limit.
         if user_count \<ge> limit then returnE [limit_code limit]
         else lua_num (lua_number (Some stock) 0) (\<lambda>remain.
           if remain \<le> 0 then returnE [''SOLD_OUT'']
           else bindE (redis_DECR now stockKey) (\<lambda>remain.
             if remain < 0 then bindE (redis_INCR now stockKey) (\<lambda>_. returnE [''SOLD_OUT''])
             else bindE (redis_HINCRBY now countKey user_id 1) (\<lambda>new_count.
               if new_count > limit then
                 bindE (redis_HINCRBY now countKey user_id (- 1)) (\<lambda>_.
                   bindE (redis_INCR now stockKey) (\<lambda>_. returnE [limit_code limit]))
               else bindE (redis_SET_PX now idemKey (''PENDING:'' @ reservation) ttl) (\<lambda>_.
                 returnE [''ADMITTED'', reservation])))))))"

definition decide_script ::
  "string \<Rightarrow> string \<Rightarrow> string \<Rightarrow> string \<Rightarrow> int \<Rightarrow> string \<Rightarrow> string \<Rightarrow> int \<Rightarrow> int \<Rightarrow> string list rcmd"
where
  "decide_script stockKey metaKey countKey idemKey now_ms user_id reservation ttl now =
     bindE (redis_GET now stockKey) (\<lambda>stock. case stock of
       None \<Rightarrow> returnE [''CAMPAIGN_MISS'']
     | Some stock \<Rightarrow>
         bindE (redis_HGET now metaKey ''status'') (\<lambda>status.
         bindE (redis_HGET now metaKey ''start_ms'') (\<lambda>start_ms.
         bindE (redis_HGET now metaKey ''end_ms'') (\<lambda>end_ms.
         bindE (redis_HGET now metaKey ''per_user_limit'') (\<lambda>limit.
         bindE (redis_GET now idemKey) (\<lambda>idem_val.
           let hit = (case idem_val of None \<Rightarrow> '''' | Some v \<Rightarrow> v) in
           if idem_val \<noteq> None \<and> take 8 hit = ''SUCCESS:'' then returnE [''IDEM_HIT'', drop 8 hit]
           else if idem_val \<noteq> None \<and> take 8 hit = ''PENDING:'' then returnE [''PENDING'', drop 8 hit]
           else if status \<noteq> Some ''ACTIVE'' then returnE [''INACTIVE'']
           else lua_num (lua_number start_ms 0) (\<lambda>s. if now_ms < s then returnE [''INACTIVE'']
           else lua_num (lua_number end_ms 0) (\<lambda>e. if now_ms > e then returnE [''INACTIVE'']
           else admit_script stockKey countKey idemKey stock (lua_number limit 1) user_id reservation ttl now))))))))"

definition Decide ::
  "Adjudicator option \<Rightarrow> campaignSnapshot \<Rightarrow> int \<Rightarrow> string \<Rightarrow> int \<Rightarrow> string \<Rightarrow> claimDecision result io"
where
  "Decide a campaign userID idemKey now reservationID = (case a of
     None \<Rightarrow> throwE (ErrNew ''coupon adjudicator redis client is nil'')
   | Some adj \<Rightarrow>
       bindE (redis_exec (decide_script (campaignStockKey (Snap_CouponID campaign))
                (campaignMetaKey (Snap_CouponID campaign)) (campaignUserCountKey (Snap_CouponID campaign))
                (idemDecisionKey (Snap_CouponID campaign) userID idemKey)
                (UnixMilli now) (FormatInt userID) reservationID (Milliseconds (Adj_pendingTTL adj))))
         (\<lambda>result. ret (parseClaimDecision result)))"

text \<open>The pipeline of \<^verbatim>\<open>EnsureCampaign\<close> runs all its commands; its error is the first one.\<close>

definition then_cmd :: "unit rcmd \<Rightarrow> unit rcmd \<Rightarrow> unit rcmd" where
  "then_cmd a b = do {
     r \<leftarrow> a;
     s \<leftarrow> b;
     ret (case r of Inl e \<Rightarrow> Inl e | Inr _ \<Rightarrow> s) }"

definition quiet_cmd :: "'a rcmd \<Rightarrow> unit rcmd" where
  "quiet_cmd c = bindE c (\<lambda>_. returnE ())"

definition ensure_script :: "campaignSnapshot \<Rightarrow> int \<Rightarrow> unit rcmd" where
  "ensure_script c now =
     (let meta = campaignMetaKey (Snap_CouponID c) in
      then_cmd (quiet_cmd (redis_SETNX now (campaignStockKey (Snap_CouponID c)) (FormatInt (Snap_AvailableStock c))))
      (then_cmd (quiet_cmd (redis_HSETNX now meta ''status'' (Snap_Status c)))
      (then_cmd (quiet_cmd (redis_HSETNX now meta ''start_ms'' (FormatInt (UnixMilli (Snap_StartAt c)))))
      (then_cmd (quiet_cmd (redis_HSETNX now meta ''end_ms'' (FormatInt (UnixMilli (Snap_EndAt c)))))
        (quiet_cmd (redis_HSETNX now meta ''per_user_limit''
           (FormatInt (normalizePerUserLimit (Snap_PerUserLimit c)))))))))"

definition EnsureCampaign :: "Adjudicator option \<Rightarrow> campaignSnapshot \<Rightarrow> unit result io" where
  "EnsureCampaign a campaign = (case a of
     None \<Rightarrow> throwE (ErrNew ''coupon adjudicator redis client is nil'')
   | Some _ \<Rightarrow> redis_exec (ensure_script campaign))"

definition finalize_script :: "string \<Rightarrow> string \<Rightarrow> string \<Rightarrow> int \<Rightarrow> int \<Rightarrow> int rcmd" where
  "finalize_script idemKey reservation claim ttl now =
     bindE (redis_GET now idemKey) (\<lambda>current.
       if current = Some (''PENDING:'' @ reservation) then
         bindE (redis_SET_PX now idemKey (''SUCCESS:'' @ claim) ttl) (\<lambda>_. returnE 1)
       else if current = Some (''SUCCESS:'' @ claim) then returnE 1
       else returnE 0)"

definition Finalize ::
  "Adjudicator option \<Rightarrow> int \<Rightarrow> int \<Rightarrow> string \<Rightarrow> string \<Rightarrow> int \<Rightarrow> unit result io"
where
  "Finalize a couponID userID idemKey reservationID claimID = (case a of
     None \<Rightarrow> returnE ()
   | Some adj \<Rightarrow>
       bindE (redis_exec (finalize_script (idemDecisionKey couponID userID idemKey) reservationID
                (FormatInt claimID) (Milliseconds (Adj_successTTL adj)))) (\<lambda>_. returnE ()))"

definition rollback_claim_script :: "string \<Rightarrow> string \<Rightarrow> string \<Rightarrow> string \<Rightarrow> string \<Rightarrow> int \<Rightarrow> int rcmd" where
  "rollback_claim_script stockKey countKey idemKey reservation user now =
     bindE (redis_GET now idemKey) (\<lambda>current.
       if current \<noteq> Some (''PENDING:'' @ reservation) then returnE 0
       else bindE (redis_DEL now idemKey) (\<lambda>_.
         bindE (redis_INCR now stockKey) (\<lambda>_.
           bindE (redis_HINCRBY now countKey user (- 1)) (\<lambda>count.
             if count \<le> 0 then bindE (redis_HDEL now countKey user) (\<lambda>_. returnE 1)
             else returnE 1))))"

definition claim_Rollback :: "Adjudicator option \<Rightarrow> int \<Rightarrow> int \<Rightarrow> string \<Rightarrow> string \<Rightarrow> unit result io" where
  "claim_Rollback a couponID userID idemKey reservationID = (case a of
     None \<Rightarrow> returnE ()
   | Some _ \<Rightarrow>
       bindE (redis_exec (rollback_claim_script (campaignStockKey couponID) (campaignUserCountKey couponID)
                (idemDecisionKey couponID userID idemKey) reservationID (FormatInt userID))) (\<lambda>_. returnE ()))"

section \<open>Waiting for a pending claim\<close>

definition time_Sleep :: "int \<Rightarrow> unit io" where
  "time_Sleep d = State_Monad.update (\<lambda>w. w\<lparr>w_now := w_now w + (if d \<le> 0 then 0 else d)\<rparr>)"

text \<open>
  The polling loop, with fuel: \<open>None\<close> is running out of it. Each round sleeps for \<open>poll\<close>, so the
  fuel \<open>WaitResult\<close> gives is enough (\<open>wait_loop_ends\<close> below). The answer \<open>Inr None\<close> is the
  \<^verbatim>\<open>false\<close> of the code.
\<close>

primrec wait_loop :: "nat \<Rightarrow> int \<Rightarrow> int \<Rightarrow> string \<Rightarrow> int option result option io" where
  "wait_loop 0 deadline poll key = ret None"
| "wait_loop (Suc n) deadline poll key = do {
     t \<leftarrow> time_Now;
     if \<not> t < deadline then ret (Some (Inr None))
     else do {
       val \<leftarrow> redis_exec (\<lambda>now. redis_GET now key);
       case val of
         Inl err \<Rightarrow> ret (Some (Inl err))
       | Inr None \<Rightarrow> ret (Some (Inr None))
       | Inr (Some v) \<Rightarrow>
           if HasPrefix v ''SUCCESS:'' then
             (case ParseInt (TrimPrefix v ''SUCCESS:'') of
                Inl convErr \<Rightarrow> ret (Some (Inl (ErrWrap ''invalid success claim id: '' convErr '''')))
              | Inr claimID \<Rightarrow> ret (Some (Inr (Some claimID))))
           else if \<not> HasPrefix v ''PENDING:'' then ret (Some (Inr None))
           else do { _ \<leftarrow> time_Sleep poll; wait_loop n deadline poll key } } }"

definition wait_fuel :: "Adjudicator \<Rightarrow> nat" where
  "wait_fuel adj = Suc (Suc (nat (Adj_pendingWait adj div Adj_pendingPoll adj)))"

definition WaitResult :: "Adjudicator option \<Rightarrow> int \<Rightarrow> int \<Rightarrow> string \<Rightarrow> int option result io" where
  "WaitResult a couponID userID idemKey = (case a of
     None \<Rightarrow> returnE None
   | Some adj \<Rightarrow> do {
       t \<leftarrow> time_Now;
       r \<leftarrow> wait_loop (wait_fuel adj) (t + Adj_pendingWait adj) (Adj_pendingPoll adj)
              (idemDecisionKey couponID userID idemKey);
       case r of None \<Rightarrow> returnE None | Some x \<Rightarrow> ret x })"

section \<open>Keys do not collide\<close>

lemma append_sep_inject:
  assumes "c \<notin> set xs" "c \<notin> set ys"
  shows "xs @ c # us = ys @ c # vs \<longleftrightarrow> xs = ys \<and> us = vs"
  using assms
proof (induction xs arbitrary: ys)
  case Nil
  then show ?case by (cases ys) auto
next
  case (Cons x xs)
  then show ?case by (cases ys) auto
qed

lemmas key_defs =
  decisionNamespace_def campaignMetaKey_def campaignStockKey_def campaignUserCountKey_def idemDecisionKey_def

lemma keys_distinct [simp]:
  "campaignStockKey c \<noteq> campaignMetaKey c'" "campaignMetaKey c' \<noteq> campaignStockKey c"
  "campaignStockKey c \<noteq> campaignUserCountKey c'" "campaignUserCountKey c' \<noteq> campaignStockKey c"
  "campaignMetaKey c \<noteq> campaignUserCountKey c'" "campaignUserCountKey c' \<noteq> campaignMetaKey c"
  "idemDecisionKey c u k \<noteq> campaignStockKey c'" "campaignStockKey c' \<noteq> idemDecisionKey c u k"
  "idemDecisionKey c u k \<noteq> campaignMetaKey c'" "campaignMetaKey c' \<noteq> idemDecisionKey c u k"
  "idemDecisionKey c u k \<noteq> campaignUserCountKey c'" "campaignUserCountKey c' \<noteq> idemDecisionKey c u k"
  by (auto simp: key_defs append_sep_inject)

lemma keys_inject [simp]:
  "campaignStockKey c = campaignStockKey c' \<longleftrightarrow> c = c'"
  "campaignMetaKey c = campaignMetaKey c' \<longleftrightarrow> c = c'"
  "campaignUserCountKey c = campaignUserCountKey c' \<longleftrightarrow> c = c'"
  "idemDecisionKey c u k = idemDecisionKey c' u' k' \<longleftrightarrow> c = c' \<and> u = u' \<and> k = k'"
  by (auto simp: key_defs append_sep_inject)

section \<open>The abstract decision\<close>

text \<open>The three keys of a hydrated campaign: \<open>s\<close> is its stock, \<open>hm\<close> its data, \<open>hc\<close> the claims per user.\<close>

definition counts_ok :: "(string \<times> string) list \<Rightarrow> bool" where
  "counts_ok hc \<longleftrightarrow> (\<forall>f v. map_of hc f = Some v \<longrightarrow> (\<exists>n. v = FormatInt n \<and> 0 \<le> n \<and> n < 2 ^ 53))"

definition gate_rep :: "int \<Rightarrow> kv \<Rightarrow> int \<Rightarrow> (string \<times> string) list \<Rightarrow> (string \<times> string) list \<Rightarrow> bool" where
  "gate_rep cid m s hm hc \<longleftrightarrow>
     m (campaignStockKey cid) = Some (RString (FormatInt s), None) \<and> in_int64 s \<and>
     m (campaignMetaKey cid) = Some (RHash hm, None) \<and>
     m (campaignUserCountKey cid) = (if hc = [] then None else Some (RHash hc, None)) \<and> counts_ok hc"

definition meta_is :: "(string \<times> string) list \<Rightarrow> string \<Rightarrow> int \<Rightarrow> int \<Rightarrow> int \<Rightarrow> bool" where
  "meta_is hm status start_ms end_ms limit \<longleftrightarrow>
     map_of hm ''status'' = Some status \<and> map_of hm ''start_ms'' = Some (FormatInt start_ms) \<and>
     map_of hm ''end_ms'' = Some (FormatInt end_ms) \<and> map_of hm ''per_user_limit'' = Some (FormatInt limit) \<and>
     in_int64 start_ms \<and> in_int64 end_ms \<and> in_int64 limit"

definition count_of :: "(string \<times> string) list \<Rightarrow> int \<Rightarrow> int" where
  "count_of hc uid = (case map_of hc (FormatInt uid) of None \<Rightarrow> 0 | Some v \<Rightarrow> the (redis_int v))"

definition idem_view :: "int \<Rightarrow> kv \<Rightarrow> string \<Rightarrow> string option" where
  "idem_view now m k = (case live now m k of Some (RString v, _) \<Rightarrow> Some v | _ \<Rightarrow> None)"

definition idem_ok :: "kv \<Rightarrow> string \<Rightarrow> bool" where
  "idem_ok m k \<longleftrightarrow> (\<forall>x. m k = Some x \<longrightarrow> (\<exists>v e. x = (RString v, e)))"

datatype verdict = Hit string | Waiting string | Closed | AtLimit | SoldOut | Admit

definition decide :: "string option \<Rightarrow> string \<Rightarrow> int \<Rightarrow> int \<Rightarrow> int \<Rightarrow> int \<Rightarrow> int \<Rightarrow> int \<Rightarrow> verdict" where
  "decide idem status start_ms end_ms limit now_ms count stock =
     (case idem of
        Some v \<Rightarrow> if take 8 v = ''SUCCESS:'' then Hit (drop 8 v)
                  else if take 8 v = ''PENDING:'' then Waiting (drop 8 v)
                  else if status \<noteq> ''ACTIVE'' \<or> now_ms < start_ms \<or> end_ms < now_ms then Closed
                  else if limit \<le> count then AtLimit else if stock \<le> 0 then SoldOut else Admit
      | None \<Rightarrow> if status \<noteq> ''ACTIVE'' \<or> now_ms < start_ms \<or> end_ms < now_ms then Closed
                 else if limit \<le> count then AtLimit else if stock \<le> 0 then SoldOut else Admit)"

definition reply_of :: "int \<Rightarrow> string \<Rightarrow> verdict \<Rightarrow> string list" where
  "reply_of limit reservation v = (case v of
     Hit c \<Rightarrow> [''IDEM_HIT'', c] | Waiting r \<Rightarrow> [''PENDING'', r] | Closed \<Rightarrow> [''INACTIVE'']
   | AtLimit \<Rightarrow> [limit_code limit] | SoldOut \<Rightarrow> [''SOLD_OUT''] | Admit \<Rightarrow> [''ADMITTED'', reservation])"

definition admitted ::
  "int \<Rightarrow> int \<Rightarrow> string \<Rightarrow> string \<Rightarrow> int \<Rightarrow> int \<Rightarrow> int \<Rightarrow> (string \<times> string) list \<Rightarrow> kv \<Rightarrow> kv"
where
  "admitted cid uid k reservation ttl now s hc m =
     m(campaignStockKey cid \<mapsto> (RString (FormatInt (s - 1)), None),
       campaignUserCountKey cid \<mapsto> (RHash (hput (FormatInt uid) (FormatInt (count_of hc uid + 1)) hc), None),
       idemDecisionKey cid uid k \<mapsto> (RString (''PENDING:'' @ reservation), Some (now + ttl)))"

lemma live_permanent: "m k = Some (v, None) \<Longrightarrow> live now m k = Some (v, None)"
  by (simp add: live_def)

lemma live_absent: "m k = None \<Longrightarrow> live now m k = None"
  by (simp add: live_def)

lemma count_of_cases:
  assumes "counts_ok hc"
  shows "map_of hc (FormatInt uid) = None \<and> count_of hc uid = 0 \<or>
         map_of hc (FormatInt uid) = Some (FormatInt (count_of hc uid)) \<and> 0 \<le> count_of hc uid \<and> count_of hc uid < 2 ^ 53"
proof (cases "map_of hc (FormatInt uid)")
  case None
  then show ?thesis by (simp add: count_of_def)
next
  case (Some v)
  with assms obtain n where n: "v = FormatInt n" "0 \<le> n" "n < 2 ^ 53" by (auto simp: counts_ok_def)
  then have "in_int64 n" by (simp add: in_int64_def)
  with n Some show ?thesis by (simp add: count_of_def)
qed

lemma count_of_bounds: "counts_ok hc \<Longrightarrow> 0 \<le> count_of hc uid \<and> count_of hc uid < 2 ^ 53"
  using count_of_cases [of hc uid] by auto

text \<open>The commands of the scripts, on a hydrated campaign.\<close>

lemma run_count_HGET:
  assumes "m k = (if hc = [] then None else Some (RHash hc, None))"
  shows "run_state (redis_HGET now k f) m = (Inr (map_of hc f), m)"
  using assms by (cases "hc = []") (auto simp: redis_HGET_def live_def)

lemma lua_count: "counts_ok hc \<Longrightarrow> lua_number (map_of hc (FormatInt uid)) 0 = Some (count_of hc uid)"
  using count_of_cases [of hc uid] by (auto simp: lua_number_def in_int64_def)

lemma run_count_HINCRBY:
  assumes "m k = (if hc = [] then None else Some (RHash hc, None))" "counts_ok hc" "\<bar>d\<bar> < 2 ^ 53"
  shows "run_state (redis_HINCRBY now k (FormatInt uid) d) m =
           (Inr (count_of hc uid + d),
            m(k \<mapsto> (RHash (hput (FormatInt uid) (FormatInt (count_of hc uid + d)) hc), None)))"
proof (cases "hc = []")
  case True
  with assms(1) show ?thesis by (simp add: redis_HINCRBY_def live_def count_of_def hput_def)
next
  case False
  with assms(1) have "live now m k = Some (RHash hc, None)" by (simp add: live_def)
  with count_of_cases [OF assms(2), of uid] assms(3) show ?thesis
    by (auto simp: redis_HINCRBY_def in_int64_def)
qed

lemma run_stock_INCRBY:
  assumes "m k = Some (RString (FormatInt s), None)" "in_int64 s" "in_int64 (s + d)"
  shows "run_state (redis_INCRBY now k d) m = (Inr (s + d), m(k \<mapsto> (RString (FormatInt (s + d)), None)))"
  using assms by (simp add: redis_INCRBY_def live_def)

lemma run_idem_GET: "idem_ok m k \<Longrightarrow> run_state (redis_GET now k) m = (Inr (idem_view now m k), m)"
  by (auto simp: idem_ok_def redis_GET_def idem_view_def live_def split: option.splits prod.splits rval.splits)

lemma run_admit_script:
  assumes g: "gate_rep cid m s hm hc" and l: "in_int64 limit"
  shows "run_state (admit_script (campaignStockKey cid) (campaignUserCountKey cid) (idemDecisionKey cid uid k)
            (FormatInt s) (Some limit) (FormatInt uid) reservation ttl now) m =
         (if limit \<le> count_of hc uid then (Inr [limit_code limit], m)
          else if s \<le> 0 then (Inr [''SOLD_OUT''], m)
          else (Inr [''ADMITTED'', reservation], admitted cid uid k reservation ttl now s hc m))"
proof -
  note rep = g [unfolded gate_rep_def]
  let ?m1 = "m(campaignStockKey cid \<mapsto> (RString (FormatInt (s - 1)), None))"
  have counts: "?m1 (campaignUserCountKey cid) = (if hc = [] then None else Some (RHash hc, None))"
    using rep by simp
  have decr: "run_state (redis_DECR now (campaignStockKey cid)) m = (Inr (s - 1), ?m1)" if "0 < s"
    using run_stock_INCRBY [of m "campaignStockKey cid" s "- 1" now] rep that
    by (simp add: redis_DECR_def in_int64_def)
  have incr: "run_state (redis_HINCRBY now (campaignUserCountKey cid) (FormatInt uid) 1) ?m1 =
      (Inr (count_of hc uid + 1), ?m1(campaignUserCountKey cid \<mapsto>
         (RHash (hput (FormatInt uid) (FormatInt (count_of hc uid + 1)) hc), None)))"
    by (rule run_count_HINCRBY [where m = "?m1" and hc = hc]) (use counts rep in simp_all)
  have "lua_number (Some (FormatInt s)) 0 = Some s" using rep by (simp add: lua_number_def)
  then show ?thesis
    using rep l decr incr
    by (simp add: admit_script_def run_count_HGET [of m _ hc] lua_count lua_num_def
        redis_SET_PX_def State_Monad.update_def admitted_def)
qed

text \<open>The script computes the decision and writes only when it admits.\<close>

lemma run_decide_script:
  fixes now now_ms
  assumes g: "gate_rep cid m s hm hc" and meta: "meta_is hm status a b limit"
    and idem: "idem_ok m (idemDecisionKey cid uid k)"
  defines "v \<equiv> decide (idem_view now m (idemDecisionKey cid uid k)) status a b limit now_ms (count_of hc uid) s"
  shows "run_state (decide_script (campaignStockKey cid) (campaignMetaKey cid) (campaignUserCountKey cid)
            (idemDecisionKey cid uid k) now_ms (FormatInt uid) reservation ttl now) m =
         (Inr (reply_of limit reservation v),
          if v = Admit then admitted cid uid k reservation ttl now s hc m else m)"
proof -
  note rep = g [unfolded gate_rep_def] and mt = meta [unfolded meta_is_def]
  have stock: "run_state (redis_GET now (campaignStockKey cid)) m = (Inr (Some (FormatInt s)), m)"
    using rep by (simp add: redis_GET_def live_def)
  have hget: "run_state (redis_HGET now (campaignMetaKey cid) f) m = (Inr (map_of hm f), m)" for f
    using rep by (simp add: redis_HGET_def live_def)
  have nums: "lua_number (map_of hm ''start_ms'') 0 = Some a" "lua_number (map_of hm ''end_ms'') 0 = Some b"
    "lua_number (map_of hm ''per_user_limit'') 1 = Some limit" "in_int64 limit"
    using mt by (simp_all add: lua_number_def)
  show ?thesis
    unfolding decide_script_def v_def decide_def
    using mt nums
    by (simp add: stock hget run_idem_GET [OF idem] Let_def lua_num_def run_admit_script [OF g]
        reply_of_def split: option.split) auto
qed

section \<open>Sequences of decisions\<close>

lemma counts_ok_hput:
  "counts_ok hc \<Longrightarrow> 0 \<le> n \<Longrightarrow> n < 2 ^ 53 \<Longrightarrow> counts_ok (hput f (FormatInt n) hc)"
  by (auto simp: counts_ok_def)

lemma count_of_hput:
  "0 \<le> n \<Longrightarrow> n < 2 ^ 53 \<Longrightarrow>
     count_of (hput (FormatInt u) (FormatInt n) hc) v = (if v = u then n else count_of hc v)"
  by (simp add: count_of_def in_int64_def)

lemma hput_not_Nil [simp]: "hput f v h \<noteq> []"
  by (simp add: hput_def)

lemma gate_rep_admitted:
  assumes "gate_rep cid m s hm hc" "0 < s" "count_of hc uid < limit" "limit < 2 ^ 53"
  shows "gate_rep cid (admitted cid uid k reservation ttl now s hc m) (s - 1) hm
           (hput (FormatInt uid) (FormatInt (count_of hc uid + 1)) hc)"
  using assms count_of_bounds [of hc uid]
  by (auto simp: gate_rep_def admitted_def in_int64_def intro!: counts_ok_hput)

record claim_request =
  rq_user :: int
  rq_idem :: string
  rq_now_ms :: int
  rq_reservation :: string
  rq_server_now :: int

definition decide_request :: "int \<Rightarrow> int \<Rightarrow> claim_request \<Rightarrow> string list rcmd" where
  "decide_request cid ttl q =
     decide_script (campaignStockKey cid) (campaignMetaKey cid) (campaignUserCountKey cid)
       (idemDecisionKey cid (rq_user q) (rq_idem q)) (rq_now_ms q) (FormatInt (rq_user q))
       (rq_reservation q) ttl (rq_server_now q)"

text \<open>The users admitted by a sequence of scripts, in the order in which Redis runs them.\<close>

primrec admissions :: "int \<Rightarrow> int \<Rightarrow> claim_request list \<Rightarrow> kv \<Rightarrow> int list \<times> kv" where
  "admissions cid ttl [] m = ([], m)"
| "admissions cid ttl (q # qs) m =
     (case run_state (decide_request cid ttl q) m of (res, m1) \<Rightarrow>
      case admissions cid ttl qs m1 of (us, m2) \<Rightarrow>
        (if res = Inr [''ADMITTED'', rq_reservation q] then rq_user q # us else us, m2))"

definition idems_ok :: "int \<Rightarrow> kv \<Rightarrow> bool" where
  "idems_ok cid m \<longleftrightarrow> (\<forall>u k. idem_ok m (idemDecisionKey cid u k))"

lemma idems_ok_admitted: "idems_ok cid m \<Longrightarrow> idems_ok cid (admitted cid uid k r ttl now s hc m)"
  by (auto simp: idems_ok_def idem_ok_def admitted_def)

lemma reply_admitted: "reply_of limit r v = [''ADMITTED'', r'] \<Longrightarrow> v = Admit \<and> r' = r"
  by (auto simp: reply_of_def limit_code_def split: verdict.splits if_splits)

lemma decide_admit: "decide i st a b limit t c s = Admit \<Longrightarrow> c < limit \<and> 0 < s"
  by (auto simp: decide_def split: option.splits if_splits)

lemma run_decide_request:
  assumes "gate_rep cid m s hm hc" "meta_is hm status a b limit" "idems_ok cid m" "limit < 2 ^ 53"
  obtains (admit) "run_state (decide_request cid ttl q) m = (Inr [''ADMITTED'', rq_reservation q],
        admitted cid (rq_user q) (rq_idem q) (rq_reservation q) ttl (rq_server_now q) s hc m)"
      "count_of hc (rq_user q) < limit" "0 < s"
  | (refuse) res where "run_state (decide_request cid ttl q) m = (Inr res, m)"
      "res \<noteq> [''ADMITTED'', rq_reservation q]"
proof -
  let ?v = "decide (idem_view (rq_server_now q) m (idemDecisionKey cid (rq_user q) (rq_idem q))) status a b limit
      (rq_now_ms q) (count_of hc (rq_user q)) s"
  have run: "run_state (decide_request cid ttl q) m = (Inr (reply_of limit (rq_reservation q) ?v),
      if ?v = Admit then admitted cid (rq_user q) (rq_idem q) (rq_reservation q) ttl (rq_server_now q) s hc m else m)"
    unfolding decide_request_def
    by (rule run_decide_script [OF assms(1,2)]) (use assms(3) in \<open>simp add: idems_ok_def\<close>)
  show thesis
  proof (cases "?v = Admit")
    case True
    with run decide_admit [OF True] admit show ?thesis by (simp add: reply_of_def)
  next
    case False
    with run refuse reply_admitted show ?thesis by auto
  qed
qed

text \<open>
  C13. No overselling in Redis. For any sequence of decisions on a hydrated campaign, whatever the
  users, keys and times, the number of admissions is at most the stock, the stock goes down by
  exactly that number and never below zero, and no user is admitted beyond the limit.
\<close>

theorem redis_never_oversells:
  assumes "gate_rep cid m s hm hc" and "0 \<le> s" and "meta_is hm status a b limit" and "limit < 2 ^ 53"
    and "idems_ok cid m"
  shows "let (us, m') = admissions cid ttl qs m in
    int (length us) \<le> s \<and>
    (\<exists>hc'. gate_rep cid m' (s - int (length us)) hm hc' \<and>
       (\<forall>u. count_of hc' u = count_of hc u + int (length (filter (\<lambda>x. x = u) us)) \<and>
            (u \<in> set us \<longrightarrow> count_of hc' u \<le> limit)))"
  using assms
proof (induction qs arbitrary: m s hc)
  case Nil
  then show ?case by auto
next
  case (Cons q qs)
  show ?case
  proof (rule run_decide_request [OF Cons.prems(1,3,5,4), of ttl q], goal_cases)
    case 1
    note admit = this
    let ?u = "rq_user q"
    let ?m1 = "admitted cid ?u (rq_idem q) (rq_reservation q) ttl (rq_server_now q) s hc m"
    let ?h1 = "hput (FormatInt ?u) (FormatInt (count_of hc ?u + 1)) hc"
    have b: "0 \<le> count_of hc ?u + 1" "count_of hc ?u + 1 < 2 ^ 53"
      using count_of_bounds [of hc ?u] Cons.prems(1,4) admit(2) by (auto simp: gate_rep_def)
    have g: "gate_rep cid ?m1 (s - 1) hm ?h1"
      by (rule gate_rep_admitted [OF Cons.prems(1) admit(3,2) Cons.prems(4)])
    obtain us m2 where rest: "admissions cid ttl qs ?m1 = (us, m2)" by (cases "admissions cid ttl qs ?m1")
    from Cons.IH [OF g _ Cons.prems(3,4) idems_ok_admitted [OF Cons.prems(5)]] admit(3) rest
    obtain hc' where us: "int (length us) \<le> s - 1" "gate_rep cid m2 (s - 1 - int (length us)) hm hc'"
      and hc': "\<forall>u. count_of hc' u = count_of ?h1 u + int (length (filter (\<lambda>x. x = u) us)) \<and>
        (u \<in> set us \<longrightarrow> count_of hc' u \<le> limit)" by auto
    have none: "?u \<notin> set us \<Longrightarrow> filter (\<lambda>x. x = ?u) us = []" by (rule filter_False) auto
    have "count_of hc' ?u \<le> limit"
      using hc' [rule_format, of ?u] count_of_hput [OF b] admit(2) none by (cases "?u \<in> set us") auto
    with us hc' count_of_hput [OF b] admit(1) rest show ?case
      by (auto simp: algebra_simps intro!: exI [of _ hc'])
  next
    case (2 res)
    with Cons.IH [OF Cons.prems] show ?case by (auto simp: split_beta)
  qed
qed

definition demo_gate :: "int \<Rightarrow> kv" where
  "demo_gate s = (\<lambda>_. None)
     (campaignStockKey 1001 \<mapsto> (RString (FormatInt s), None),
      campaignMetaKey 1001 \<mapsto> (RHash [(''status'', ''ACTIVE''), (''start_ms'', FormatInt 0),
        (''end_ms'', FormatInt 1000000), (''per_user_limit'', FormatInt 1)], None))"

definition demo_meta :: "(string \<times> string) list" where
  "demo_meta = [(''status'', ''ACTIVE''), (''start_ms'', FormatInt 0), (''end_ms'', FormatInt 1000000),
     (''per_user_limit'', FormatInt 1)]"

lemma demo_gate_rep:
  "in_int64 s \<Longrightarrow> gate_rep 1001 (demo_gate s) s demo_meta []" "meta_is demo_meta ''ACTIVE'' 0 1000000 1"
  "idems_ok 1001 (demo_gate s)"
  by (simp_all add: gate_rep_def demo_gate_def demo_meta_def counts_ok_def meta_is_def in_int64_def
      idems_ok_def idem_ok_def)

theorem redis_never_oversells_witness:
  "let q = \<lambda>u. \<lparr>rq_user = u, rq_idem = ''k'', rq_now_ms = 5, rq_reservation = ''r'', rq_server_now = 5\<rparr>;
       (us, m') = admissions 1001 30000 [q 7, q 8, q 7] (demo_gate 1) in
    int (length us) \<le> 1 \<and>
    (\<exists>hc'. gate_rep 1001 m' (1 - int (length us)) demo_meta hc' \<and>
       (\<forall>u. count_of hc' u = count_of [] u + int (length (filter (\<lambda>x. x = u) us)) \<and>
            (u \<in> set us \<longrightarrow> count_of hc' u \<le> 1)))"
proof -
  let ?q = "\<lambda>u. \<lparr>rq_user = u, rq_idem = ''k'', rq_now_ms = 5, rq_reservation = ''r'', rq_server_now = 5\<rparr>"
  show ?thesis
    using redis_never_oversells [OF demo_gate_rep(1), of 1 "''ACTIVE''" 0 1000000 1 30000 "[?q 7, ?q 8, ?q 7]"]
      demo_gate_rep(2,3) by (simp add: in_int64_def)
qed

section \<open>Undoing and completing an admission\<close>

lemma count_of_hdel: "count_of (hdel (FormatInt u) hc) v = (if v = u then 0 else count_of hc v)"
  by (simp add: count_of_def)

lemma counts_ok_hdel: "counts_ok hc \<Longrightarrow> counts_ok (hdel f hc)"
  by (auto simp: counts_ok_def)

lemma idem_view_set: "now < t \<Longrightarrow> idem_view now (m(k \<mapsto> (RString v, Some t))) k = Some v"
  by (simp add: idem_view_def)

text \<open>A rollback with a live reservation: the key is free again, stock and count are given back.\<close>

lemma run_rollback_claim:
  assumes g: "gate_rep cid m s hm hc" and idem: "idem_ok m (idemDecisionKey cid uid k)"
    and pending: "idem_view now m (idemDecisionKey cid uid k) = Some (''PENDING:'' @ reservation)"
    and s: "in_int64 (s + 1)"
  obtains m' hc' where
    "run_state (rollback_claim_script (campaignStockKey cid) (campaignUserCountKey cid)
        (idemDecisionKey cid uid k) reservation (FormatInt uid) now) m = (Inr 1, m')"
    "gate_rep cid m' (s + 1) hm hc'" "m' (idemDecisionKey cid uid k) = None"
    "\<forall>u. count_of hc' u = (if u = uid then max 0 (count_of hc uid - 1) else count_of hc u)"
    "\<forall>x. x \<notin> {campaignStockKey cid, campaignUserCountKey cid, idemDecisionKey cid uid k} \<longrightarrow> m' x = m x"
proof -
  note rep = g [unfolded gate_rep_def]
  let ?m1 = "m(idemDecisionKey cid uid k := None)"
  let ?m2 = "?m1(campaignStockKey cid \<mapsto> (RString (FormatInt (s + 1)), None))"
  let ?n = "count_of hc uid - 1"
  let ?h = "hput (FormatInt uid) (FormatInt ?n) hc"
  let ?m3 = "?m2(campaignUserCountKey cid \<mapsto> (RHash ?h, None))"
  have get: "run_state (redis_GET now (idemDecisionKey cid uid k)) m = (Inr (Some (''PENDING:'' @ reservation)), m)"
    using run_idem_GET [OF idem, of now] pending by simp
  have del: "\<exists>i. run_state (redis_DEL now (idemDecisionKey cid uid k)) m = (Inr i, ?m1)"
    by (simp add: redis_DEL_def)
  have incr: "run_state (redis_INCR now (campaignStockKey cid)) ?m1 = (Inr (s + 1), ?m2)"
    unfolding redis_INCR_def by (rule run_stock_INCRBY) (use rep s in simp_all)
  have counts: "?m2 (campaignUserCountKey cid) = (if hc = [] then None else Some (RHash hc, None))"
    using rep by simp
  have decr: "run_state (redis_HINCRBY now (campaignUserCountKey cid) (FormatInt uid) (- 1)) ?m2 = (Inr ?n, ?m3)"
    using run_count_HINCRBY [where m = ?m2 and hc = hc and k = "campaignUserCountKey cid" and d = "- 1"
        and now = now and uid = uid] counts rep by simp
  have b: "count_of hc uid < 2 ^ 53" using count_of_bounds rep by blast
  show thesis
  proof (cases "?n \<le> 0")
    case False
    then have ok: "0 \<le> ?n" "?n < 2 ^ 53" using b by simp_all
    have "gate_rep cid ?m3 (s + 1) hm ?h"
      using rep s counts_ok_hput [OF _ ok] by (simp add: gate_rep_def)
    then show ?thesis
      using False count_of_hput [OF ok] get del incr decr
      by (intro that [of ?m3 ?h]) (auto simp: rollback_claim_script_def)
  next
    case True
    let ?m4 = "?m3(campaignUserCountKey cid := (if hdel (FormatInt uid) ?h = [] then None
        else Some (RHash (hdel (FormatInt uid) ?h), None)))"
    have hdel: "run_state (redis_HDEL now (campaignUserCountKey cid) (FormatInt uid)) ?m3 = (Inr (), ?m4)"
      by (simp add: redis_HDEL_def)
    have h: "hdel (FormatInt uid) ?h = hdel (FormatInt uid) hc" by (simp add: hdel_def hput_def)
    have g4: "gate_rep cid ?m4 (s + 1) hm (hdel (FormatInt uid) hc)"
      using rep s counts_ok_hdel by (simp add: gate_rep_def h del: hdel_Nil_iff)
    have "max 0 ?n = 0" using True by simp
    with g4 show ?thesis
      using True count_of_hdel get del incr decr hdel
      by (intro that [of ?m4 "hdel (FormatInt uid) hc"])
        (auto simp: rollback_claim_script_def simp del: hdel_Nil_iff)
  qed
qed

definition rollback_request :: "int \<Rightarrow> claim_request \<Rightarrow> int rcmd" where
  "rollback_request cid q =
     rollback_claim_script (campaignStockKey cid) (campaignUserCountKey cid)
       (idemDecisionKey cid (rq_user q) (rq_idem q)) (rq_reservation q) (FormatInt (rq_user q)) (rq_server_now q)"

definition finalize_request :: "int \<Rightarrow> int \<Rightarrow> int \<Rightarrow> claim_request \<Rightarrow> int rcmd" where
  "finalize_request cid ttl claim q =
     finalize_script (idemDecisionKey cid (rq_user q) (rq_idem q)) (rq_reservation q) (FormatInt claim) ttl
       (rq_server_now q)"

lemma idem_view_admitted:
  "now' < now + ttl \<Longrightarrow>
     idem_view now' (admitted cid uid k r ttl now s hc m) (idemDecisionKey cid uid k) = Some (''PENDING:'' @ r)"
  by (simp add: admitted_def idem_view_set)

text \<open>
  C14. Compensation in Redis is exact. If a decision admitted a request and the reservation has not
  expired, rolling it back restores the stock and every user's count, frees the idempotency key
  and touches no other key; a second rollback of the same reservation changes nothing.
\<close>

theorem rollback_undoes_admission:
  assumes g: "gate_rep cid m s hm hc" "meta_is hm status a b limit" "idems_ok cid m" "limit < 2 ^ 53"
    and run: "run_state (decide_request cid ttl q) m = (Inr [''ADMITTED'', rq_reservation q], m1)"
    and t: "t < rq_server_now q + ttl"
  shows "let (res, m2) = run_state (rollback_request cid (q\<lparr>rq_server_now := t\<rparr>)) m1 in
    res = Inr 1 \<and> (\<exists>hc'. gate_rep cid m2 s hm hc' \<and> (\<forall>u. count_of hc' u = count_of hc u)) \<and>
    m2 (idemDecisionKey cid (rq_user q) (rq_idem q)) = None \<and>
    (\<forall>x. x \<notin> {campaignStockKey cid, campaignUserCountKey cid, idemDecisionKey cid (rq_user q) (rq_idem q)} \<longrightarrow>
       m2 x = m x) \<and>
    run_state (rollback_request cid q) m2 = (Inr 0, m2)"
proof -
  let ?u = "rq_user q" and ?k = "rq_idem q"
  have adm: "m1 = admitted cid ?u ?k (rq_reservation q) ttl (rq_server_now q) s hc m"
      "count_of hc ?u < limit" "0 < s"
    using run by (rule_tac run_decide_request [OF g, of ttl q]; simp)+
  have bounds: "0 \<le> count_of hc ?u" "count_of hc ?u + 1 < 2 ^ 53"
    using count_of_bounds [of hc ?u] g(1,4) adm(2) by (auto simp: gate_rep_def)
  have idem: "idem_ok m1 (idemDecisionKey cid ?u ?k)"
    using idems_ok_admitted [OF g(3)] by (simp add: adm(1) idems_ok_def)
  have "in_int64 (s - 1 + 1)" using g(1) by (simp add: gate_rep_def)
  from run_rollback_claim [OF gate_rep_admitted [OF g(1) adm(3,2) g(4)] idem [unfolded adm(1)]
      idem_view_admitted [OF t] this]
  obtain m2 hc' where m2:
    "run_state (rollback_request cid (q\<lparr>rq_server_now := t\<rparr>)) m1 = (Inr 1, m2)"
    "gate_rep cid m2 (s - 1 + 1) hm hc'" "m2 (idemDecisionKey cid ?u ?k) = None"
    "\<forall>u. count_of hc' u = (if u = ?u then max 0 (count_of (hput (FormatInt ?u) (FormatInt (count_of hc ?u + 1)) hc) ?u - 1)
        else count_of (hput (FormatInt ?u) (FormatInt (count_of hc ?u + 1)) hc) u)"
    "\<forall>x. x \<notin> {campaignStockKey cid, campaignUserCountKey cid, idemDecisionKey cid ?u ?k} \<longrightarrow> m2 x = m1 x"
    unfolding rollback_request_def adm(1) by auto
  have "\<forall>u. count_of hc' u = count_of hc u"
    using m2(4) count_of_hput [of "count_of hc ?u + 1"] bounds by simp
  moreover have "run_state (rollback_request cid q) m2 = (Inr 0, m2)"
    using m2(3) by (simp add: rollback_request_def rollback_claim_script_def redis_GET_def live_def)
  ultimately show ?thesis
    using m2 by (auto simp: adm(1) admitted_def)
qed

definition demo_request :: claim_request where
  "demo_request = \<lparr>rq_user = 7, rq_idem = ''k'', rq_now_ms = 5, rq_reservation = ''r'', rq_server_now = 5\<rparr>"

lemma demo_admission:
  "run_state (decide_request 1001 30000 demo_request) (demo_gate 1) =
     (Inr [''ADMITTED'', ''r''], admitted 1001 7 ''k'' ''r'' 30000 5 1 [] (demo_gate 1))"
proof -
  have g: "gate_rep 1001 (demo_gate 1) 1 demo_meta []" by (rule demo_gate_rep) (simp add: in_int64_def)
  have i: "idem_ok (demo_gate 1) (idemDecisionKey 1001 7 ''k'')" using demo_gate_rep(3) by (simp add: idems_ok_def)
  have v: "idem_view 5 (demo_gate 1) (idemDecisionKey 1001 7 ''k'') = None"
    by (simp add: idem_view_def demo_gate_def live_def)
  show ?thesis
    using run_decide_script [OF g demo_gate_rep(2) i, where reservation = "''r''" and ttl = 30000 and now = 5 and now_ms = 5]
    by (simp add: v decide_def count_of_def reply_of_def decide_request_def demo_request_def)
qed

theorem rollback_undoes_admission_witness:
  "let (res, m2) = run_state (rollback_request 1001 (demo_request\<lparr>rq_server_now := 400\<rparr>))
         (admitted 1001 7 ''k'' ''r'' 30000 5 1 [] (demo_gate 1)) in
    res = Inr 1 \<and> (\<exists>hc'. gate_rep 1001 m2 1 demo_meta hc' \<and> (\<forall>u. count_of hc' u = count_of [] u)) \<and>
    m2 (idemDecisionKey 1001 7 ''k'') = None \<and>
    (\<forall>x. x \<notin> {campaignStockKey 1001, campaignUserCountKey 1001, idemDecisionKey 1001 7 ''k''} \<longrightarrow>
       m2 x = demo_gate 1 x) \<and>
    run_state (rollback_request 1001 demo_request) m2 = (Inr 0, m2)"
proof -
  have g: "gate_rep 1001 (demo_gate 1) 1 demo_meta []" by (rule demo_gate_rep) (simp add: in_int64_def)
  have q: "rq_user demo_request = 7" "rq_idem demo_request = ''k''" "rq_reservation demo_request = ''r''"
    "rq_server_now demo_request = 5" by (simp_all add: demo_request_def)
  show ?thesis
    using rollback_undoes_admission [OF g demo_gate_rep(2) demo_gate_rep(3), where ttl = 30000 and q = demo_request
        and t = 400 and ?m1.0 = "admitted 1001 7 ''k'' ''r'' 30000 5 1 [] (demo_gate 1)"]
      demo_admission
    unfolding q by simp
qed

text \<open>
  Finalisation. After an admission whose reservation has not expired, recording the claim id
  makes every later decision with the same key, within the success time to live, answer with that
  claim id and leave the keyspace as it is.
\<close>

theorem finalize_then_idem_hit:
  assumes g: "gate_rep cid m s hm hc" "meta_is hm status a b limit" "idems_ok cid m" "limit < 2 ^ 53"
    and run: "run_state (decide_request cid ttl q) m = (Inr [''ADMITTED'', rq_reservation q], m1)"
    and t: "t < rq_server_now q + ttl"
    and again: "rq_user p = rq_user q" "rq_idem p = rq_idem q" "rq_server_now p < t + ttl2"
  shows "let (res, m2) = run_state (finalize_request cid ttl2 claim (q\<lparr>rq_server_now := t\<rparr>)) m1 in
    res = Inr 1 \<and> run_state (decide_request cid ttl p) m2 = (Inr [''IDEM_HIT'', FormatInt claim], m2)"
proof -
  let ?u = "rq_user q" and ?k = "rq_idem q" and ?key = "idemDecisionKey cid (rq_user q) (rq_idem q)"
  have adm: "m1 = admitted cid ?u ?k (rq_reservation q) ttl (rq_server_now q) s hc m"
      "count_of hc ?u < limit" "0 < s"
    using run by (rule_tac run_decide_request [OF g, of ttl q]; simp)+
  let ?m2 = "m1(?key \<mapsto> (RString (''SUCCESS:'' @ FormatInt claim), Some (t + ttl2)))"
  have idems: "idems_ok cid m1" using idems_ok_admitted [OF g(3)] by (simp add: adm(1))
  then have ok: "idem_ok m1 ?key" by (simp add: idems_ok_def)
  have fin: "run_state (finalize_request cid ttl2 claim (q\<lparr>rq_server_now := t\<rparr>)) m1 = (Inr 1, ?m2)"
    using run_idem_GET [OF ok, of t] idem_view_admitted [OF t]
    by (simp add: finalize_request_def finalize_script_def adm(1) redis_SET_PX_def State_Monad.update_def)
  have g2: "gate_rep cid ?m2 (s - 1) hm (hput (FormatInt ?u) (FormatInt (count_of hc ?u + 1)) hc)"
    using gate_rep_admitted [OF g(1) adm(3,2) g(4), of ?k "rq_reservation q" ttl "rq_server_now q"]
    by (simp add: gate_rep_def adm(1))
  have idem2: "idem_ok ?m2 (idemDecisionKey cid (rq_user p) (rq_idem p))" by (simp add: idem_ok_def again)
  have view: "idem_view (rq_server_now p) ?m2 (idemDecisionKey cid (rq_user p) (rq_idem p)) =
      Some (''SUCCESS:'' @ FormatInt claim)"
    using again by (simp add: idem_view_set)
  have "run_state (decide_request cid ttl p) ?m2 = (Inr [''IDEM_HIT'', FormatInt claim], ?m2)"
    unfolding decide_request_def run_decide_script [OF g2 g(2) idem2] view
    by (simp add: decide_def reply_of_def)
  with fin show ?thesis by simp
qed

theorem finalize_then_idem_hit_witness:
  "let (res, m2) = run_state (finalize_request 1001 86400000 1 (demo_request\<lparr>rq_server_now := 400\<rparr>))
         (admitted 1001 7 ''k'' ''r'' 30000 5 1 [] (demo_gate 1)) in
    res = Inr 1 \<and>
    run_state (decide_request 1001 30000 (demo_request\<lparr>rq_server_now := 500\<rparr>)) m2 =
      (Inr [''IDEM_HIT'', FormatInt 1], m2)"
proof -
  have g: "gate_rep 1001 (demo_gate 1) 1 demo_meta []" by (rule demo_gate_rep) (simp add: in_int64_def)
  have q: "rq_user demo_request = 7" "rq_idem demo_request = ''k''" "rq_reservation demo_request = ''r''"
    "rq_server_now demo_request = 5" by (simp_all add: demo_request_def)
  show ?thesis
    using finalize_then_idem_hit [OF g demo_gate_rep(2) demo_gate_rep(3), where ttl = 30000 and q = demo_request
        and t = 400 and ?m1.0 = "admitted 1001 7 ''k'' ''r'' 30000 5 1 [] (demo_gate 1)"
        and p = "demo_request\<lparr>rq_server_now := 500\<rparr>" and ?ttl2.0 = 86400000 and claim = 1]
      demo_admission
    unfolding q by (simp add: q)
qed

section \<open>Hydration\<close>

definition meta_of :: "campaignSnapshot \<Rightarrow> (string \<times> string) list" where
  "meta_of c = hput ''per_user_limit'' (FormatInt (normalizePerUserLimit (Snap_PerUserLimit c)))
     (hput ''end_ms'' (FormatInt (UnixMilli (Snap_EndAt c)))
     (hput ''start_ms'' (FormatInt (UnixMilli (Snap_StartAt c))) [(''status'', Snap_Status c)]))"

text \<open>
  C15. Hydration. Loading a campaign whose keys are absent puts exactly its stock, window, status
  and normalised limit into Redis and no other key, so the next decision does not miss; loading it
  again, from any later snapshot of the campaign, changes nothing, so it never resets the stock.
\<close>

theorem ensure_hydrates:
  assumes absent: "m (campaignStockKey (Snap_CouponID c)) = None" "m (campaignMetaKey (Snap_CouponID c)) = None"
      "m (campaignUserCountKey (Snap_CouponID c)) = None"
    and ranges: "in_int64 (Snap_AvailableStock c)" "in_int64 (UnixMilli (Snap_StartAt c))"
      "in_int64 (UnixMilli (Snap_EndAt c))" "in_int64 (Snap_PerUserLimit c)"
    and later: "Snap_CouponID c' = Snap_CouponID c"
  shows "let (res, m') = run_state (ensure_script c now) m in
    res = Inr () \<and> gate_rep (Snap_CouponID c) m' (Snap_AvailableStock c) (meta_of c) [] \<and>
    meta_is (meta_of c) (Snap_Status c) (UnixMilli (Snap_StartAt c)) (UnixMilli (Snap_EndAt c))
      (normalizePerUserLimit (Snap_PerUserLimit c)) \<and>
    (\<forall>x. x \<notin> {campaignStockKey (Snap_CouponID c), campaignMetaKey (Snap_CouponID c)} \<longrightarrow> m' x = m x) \<and>
    run_state (ensure_script c' now') m' = (Inr (), m')"
proof -
  let ?m = "m(campaignStockKey (Snap_CouponID c) \<mapsto> (RString (FormatInt (Snap_AvailableStock c)), None),
              campaignMetaKey (Snap_CouponID c) \<mapsto> (RHash (meta_of c), None))"
  have first: "run_state (ensure_script c now) m = (Inr (), ?m)"
    using absent by (simp add: ensure_script_def then_cmd_def quiet_cmd_def redis_SETNX_def redis_HSETNX_def
        live_def Let_def meta_of_def hput_def fun_upd_twist)
  have again: "run_state (ensure_script c' now') ?m = (Inr (), ?m)"
    using later by (simp add: ensure_script_def then_cmd_def quiet_cmd_def redis_SETNX_def redis_HSETNX_def
        live_def Let_def meta_of_def hput_def)
  have "meta_is (meta_of c) (Snap_Status c) (UnixMilli (Snap_StartAt c)) (UnixMilli (Snap_EndAt c))
      (normalizePerUserLimit (Snap_PerUserLimit c))"
    using ranges by (simp add: meta_is_def meta_of_def normalizePerUserLimit_def in_int64_def)
  moreover have "gate_rep (Snap_CouponID c) ?m (Snap_AvailableStock c) (meta_of c) []"
    using absent ranges by (simp add: gate_rep_def counts_ok_def)
  ultimately show ?thesis using first again by simp
qed

theorem ensure_hydrates_witness:
  "let c = \<lparr>Snap_CouponID = 1001, Snap_Status = ''ACTIVE'', Snap_AvailableStock = 5, Snap_PerUserLimit = 0,
            Snap_StartAt = 0, Snap_EndAt = Hour\<rparr>;
       (res, m') = run_state (ensure_script c 0) (\<lambda>_. None) in
    res = Inr () \<and> gate_rep 1001 m' 5 (meta_of c) [] \<and>
    meta_is (meta_of c) ''ACTIVE'' (UnixMilli 0) (UnixMilli Hour) (normalizePerUserLimit 0) \<and>
    (\<forall>x. x \<notin> {campaignStockKey 1001, campaignMetaKey 1001} \<longrightarrow> m' x = None) \<and>
    run_state (ensure_script (c\<lparr>Snap_AvailableStock := 4\<rparr>) 7) m' = (Inr (), m')"
proof -
  let ?c = "\<lparr>Snap_CouponID = 1001, Snap_Status = ''ACTIVE'', Snap_AvailableStock = 5, Snap_PerUserLimit = 0,
            Snap_StartAt = 0, Snap_EndAt = Hour\<rparr>"
  have "in_int64 5" "in_int64 (UnixMilli 0)" "in_int64 (UnixMilli Hour)" "in_int64 0"
    by (simp_all add: in_int64_def UnixMilli_def duration_defs)
  then show ?thesis
    using ensure_hydrates [of "\<lambda>_. None" ?c "?c\<lparr>Snap_AvailableStock := 4\<rparr>" 0 7] by (simp add: Let_def)
qed

section \<open>Termination of the wait\<close>

text \<open>
  Each round of the polling loop that goes on adds at least \<open>poll\<close> to the clock, so the number of
  rounds before the deadline is bounded.
\<close>

definition get_answer :: "int \<Rightarrow> kv \<Rightarrow> string \<Rightarrow> string option result" where
  "get_answer now m k = fst (run_state (redis_GET now k) m)"

lemma get_answer_Some: "get_answer now m k = Inr (Some v) \<Longrightarrow> idem_view now m k = Some v"
  by (auto simp: get_answer_def redis_GET_def idem_view_def split: option.splits prod.splits rval.splits)

lemma wp_redis_GET:
  assumes "\<And>fs. Q (get_answer (UnixMilli (w_now w)) (w_kv w) key) (w\<lparr>w_faults := fs\<rparr>)"
    and "\<And>fs e. Q (Inl (ErrIO e)) (w\<lparr>w_faults := fs\<rparr>)"
  shows "wp (redis_exec (\<lambda>now. redis_GET now key)) Q w"
proof -
  have "snd (run_state (redis_GET now key) m) = m" for now m by (simp add: redis_GET_def)
  with assms show ?thesis by (intro wp_redis_exec) (auto simp: get_answer_def)
qed

text \<open>The key held \<^verbatim>\<open>SUCCESS:i\<close> at some time between \<open>t0\<close> and \<open>t\<close>.\<close>

definition answered :: "kv \<Rightarrow> string \<Rightarrow> int \<Rightarrow> int \<Rightarrow> int \<Rightarrow> bool" where
  "answered m key t0 t i \<longleftrightarrow>
     (\<exists>t' v. t0 \<le> t' \<and> t' \<le> t \<and> idem_view (UnixMilli t') m key = Some (''SUCCESS:'' @ v) \<and> ParseInt v = Inr i)"

lemma answeredI:
  assumes "t0 \<le> t" "get_answer (UnixMilli t) m key = Inr (Some v)" "HasPrefix v ''SUCCESS:''"
    "ParseInt (TrimPrefix v ''SUCCESS:'') = Inr i"
  shows "answered m key t0 t i"
proof -
  define p where "p = ''SUCCESS:''"
  have "take (length p) v = p" using assms(3) by (simp only: p_def HasPrefix_def)
  then have "v = p @ drop (length p) v" using append_take_drop_id [of "length p" v] by simp
  moreover have "TrimPrefix v p = drop (length p) v" using assms(3) unfolding p_def by (simp add: TrimPrefix_def)
  ultimately have v: "v = p @ TrimPrefix v p" by simp
  have "idem_view (UnixMilli t) m key = Some v" using assms(2) by (rule get_answer_Some)
  then show ?thesis
    unfolding answered_def using assms(1,4) v unfolding p_def by (intro exI [of _ t] exI [of _ "TrimPrefix v p"]) (simp add: p_def)
qed

lemma answered_later: "answered m key t1 t i \<Longrightarrow> t0 \<le> t1 \<Longrightarrow> answered m key t0 t i"
  unfolding answered_def by (meson order_trans)

lemma wp_wait_loop:
  assumes "0 < poll" and "deadline - w_now w \<le> int n * poll"
    and "\<And>t ts fs. w_now w \<le> t \<Longrightarrow> Q (Some (Inr None)) (w\<lparr>w_now := t, w_ticks := ts, w_faults := fs\<rparr>)"
    and "\<And>e t ts fs. w_now w \<le> t \<Longrightarrow> Q (Some (Inl e)) (w\<lparr>w_now := t, w_ticks := ts, w_faults := fs\<rparr>)"
    and "\<And>i t ts fs. w_now w \<le> t \<Longrightarrow> answered (w_kv w) key (w_now w) t i \<Longrightarrow>
      Q (Some (Inr (Some i))) (w\<lparr>w_now := t, w_ticks := ts, w_faults := fs\<rparr>)"
  shows "wp (wait_loop (Suc n) deadline poll key) Q w"
  using assms
proof (induction n arbitrary: w)
  case 0
  have now: "\<not> t < deadline" if "w_now w \<le> t" for t using 0(2) that by simp
  show ?case
    by (simp only: wait_loop.simps wp_bind, rule wp_time_Now)
      (use now 0(3) [where fs = "w_faults w"] in simp)
next
  case (Suc n)
  note quit = Suc.prems(3) and err = Suc.prems(4) and ok = Suc.prems(5)
  have go_on: "wp (wait_loop (Suc n) deadline poll key) Q (w\<lparr>w_ticks := ts, w_faults := fs, w_now := t + poll\<rparr>)"
    if "w_now w \<le> t" "t < deadline" for t ts fs
  proof (rule Suc.IH [OF Suc.prems(1)], goal_cases)
    case 1
    then show ?case using that Suc.prems(2) by (simp add: algebra_simps)
  next
    case (2 t' ts' fs')
    then show ?case using quit [of t'] that Suc.prems(1) by simp
  next
    case (3 t' e ts' fs')
    then show ?case using err [of t' e] that Suc.prems(1) by simp
  next
    case (4 t' i ts' fs')
    then show ?case using ok [of t' i] that Suc.prems(1) answered_later [of _ _ "t + poll" t' i "w_now w"] by simp
  qed
  have read: "Q (Some (Inr (Some i))) (w\<lparr>w_now := t, w_ticks := ts, w_faults := fs\<rparr>)"
    if "w_now w \<le> t" "get_answer (UnixMilli t) (w_kv w) key = Inr (Some v)" "HasPrefix v ''SUCCESS:''"
      "ParseInt (TrimPrefix v ''SUCCESS:'') = Inr i" for i t ts fs v
    using ok [OF that(1) answeredI [OF that]] .
  show ?case
    apply (subst wait_loop.simps, simp only: wp_bind, rule wp_time_Now)
    subgoal for t ts
      apply (cases "t < deadline")
       apply (simp only: if_True not_True_eq_False if_False wp_bind, rule wp_redis_GET)
      subgoal for fs
        using quit err read go_on Suc.prems(1)
        by (auto simp: time_Sleep_def split: sum.split option.split simp del: wait_loop.simps)
      subgoal using err by simp
      using quit [where fs = "w_faults w"] by simp
    done
qed

lemma wait_fuel_enough:
  assumes "0 < Adj_pendingPoll adj"
  shows "Adj_pendingWait adj \<le> int (Suc (nat (Adj_pendingWait adj div Adj_pendingPoll adj))) * Adj_pendingPoll adj"
proof (cases "0 \<le> Adj_pendingWait adj")
  case True
  let ?p = "Adj_pendingPoll adj" and ?d = "Adj_pendingWait adj div Adj_pendingPoll adj"
  have "Adj_pendingWait adj < (?d + 1) * ?p"
    using div_mult_mod_eq [of "Adj_pendingWait adj" ?p] pos_mod_bound [OF assms, of "Adj_pendingWait adj"]
    by (simp only: distrib_right)
  moreover have "0 \<le> ?d" using True assms by (simp add: pos_imp_zdiv_nonneg_iff)
  ultimately show ?thesis by (simp add: algebra_simps)
next
  case False
  have "0 \<le> int (Suc (nat (Adj_pendingWait adj div Adj_pendingPoll adj))) * Adj_pendingPoll adj"
    using assms by (intro mult_nonneg_nonneg) simp_all
  with False show ?thesis by linarith
qed

lemma wp_WaitResult:
  assumes "\<And>adj. a = Some adj \<Longrightarrow> 0 < Adj_pendingPoll adj"
    and "\<And>t ts fs. w_now w \<le> t \<Longrightarrow> Q (Inr None) (w\<lparr>w_now := t, w_ticks := ts, w_faults := fs\<rparr>)"
    and "\<And>e t ts fs. w_now w \<le> t \<Longrightarrow> Q (Inl e) (w\<lparr>w_now := t, w_ticks := ts, w_faults := fs\<rparr>)"
    and "\<And>i t ts fs. w_now w \<le> t \<Longrightarrow> answered (w_kv w) (idemDecisionKey cid uid k) (w_now w) t i \<Longrightarrow>
      Q (Inr (Some i)) (w\<lparr>w_now := t, w_ticks := ts, w_faults := fs\<rparr>)"
  shows "wp (WaitResult a cid uid k) Q w"
proof (cases a)
  case None
  then show ?thesis
    using assms(2) [of "w_now w" "w_faults w" "w_ticks w"] by (simp add: WaitResult_def returnE_def)
next
  case (Some adj)
  show ?thesis
    unfolding WaitResult_def Some option.case wp_bind wait_fuel_def
  proof (rule wp_time_Now, rule wp_wait_loop, goal_cases)
    case 1
    then show ?case using assms(1) Some by simp
  next
    case (2 t ts)
    then show ?case using wait_fuel_enough [OF assms(1) [OF Some]] by simp
  next
    case (3 t ts t' ts' fs)
    then show ?case using assms(2) by (simp add: returnE_def)
  next
    case (4 t ts t' e ts' fs)
    then show ?case using assms(3) by simp
  next
    case (5 t ts i t' ts' fs)
    then show ?case using assms(4) answered_later [of _ _ t t' i "w_now w"] by simp
  qed
qed

text \<open>
  C16. Waiting for a pending claim ends. With a positive poll interval, as \<^verbatim>\<open>NewAdjudicator\<close> sets
  it, the polling loop leaves within the fuel of \<open>WaitResult\<close> whatever Redis answers and however
  the clock moves; it returns a claim id only if the key held \<^verbatim>\<open>SUCCESS:\<close> with that id while it
  waited, and it writes neither to Redis nor to MySQL.
\<close>

theorem wait_terminates:
  assumes "0 < Adj_pendingPoll adj"
  shows "let (r, w') = run_state (wait_loop (wait_fuel adj) (w_now w + Adj_pendingWait adj) (Adj_pendingPoll adj) key) w in
    (\<exists>x. r = Some x \<and> (\<forall>i. x = Inr (Some i) \<longrightarrow> answered (w_kv w) key (w_now w) (w_now w') i)) \<and>
    w_kv w' = w_kv w \<and> w_db w' = w_db w"
proof -
  have "wp (wait_loop (wait_fuel adj) (w_now w + Adj_pendingWait adj) (Adj_pendingPoll adj) key)
      (\<lambda>r w'. (\<exists>x. r = Some x \<and> (\<forall>i. x = Inr (Some i) \<longrightarrow> answered (w_kv w) key (w_now w) (w_now w') i)) \<and>
        w_kv w' = w_kv w \<and> w_db w' = w_db w) w"
    unfolding wait_fuel_def
    by (rule wp_wait_loop [OF assms]) (use wait_fuel_enough [OF assms] in auto)
  then show ?thesis by (simp add: wp_def split_beta)
qed

theorem wait_terminates_witness:
  "let adj = the (NewAdjudicator True);
       (r, w') = run_state (wait_loop (wait_fuel adj) (w_now (demo_shop [] [] []) + Adj_pendingWait adj) (Adj_pendingPoll adj) ''k'')
         (demo_shop [] [] []) in
    (\<exists>x. r = Some x \<and> (\<forall>i. x = Inr (Some i) \<longrightarrow> answered (w_kv (demo_shop [] [] [])) ''k'' (w_now (demo_shop [] [] [])) (w_now w') i)) \<and>
    w_kv w' = w_kv (demo_shop [] [] []) \<and> w_db w' = w_db (demo_shop [] [] [])"
  using wait_terminates [of "the (NewAdjudicator True)" "demo_shop [] [] []" "''k''"]
  by (simp add: NewAdjudicator_def Millisecond_def Let_def del: wait_loop.simps)

end
