(* ===== verification/CouponService.thy ===== *)
theory CouponService
  imports CouponAdjudicator
begin

text \<open>
  examples/Quan/internal/coupon/service.go: a claim request, decided by Redis when it is
  configured and written to MySQL when it is admitted. The books of MySQL do not depend on what
  Redis holds; what a caller is told does, through the idempotency keys.
\<close>

section \<open>Operations\<close>

record coupon_Service =
  Svc_repo :: coupon_Repository
  Svc_adjudicator :: "Adjudicator option"

definition coupon_NewService :: "coupon_Repository \<Rightarrow> bool \<Rightarrow> coupon_Service" where
  "coupon_NewService repo cache = \<lparr>Svc_repo = repo, Svc_adjudicator = NewAdjudicator cache\<rparr>"

definition mapClaimErr :: "goerr \<Rightarrow> goerr" where
  "mapClaimErr err =
     (if errors_Is err ErrAlreadyClaimed then apperr_New CodeConflict ''already claimed''
      else if errors_Is err ErrClaimLimitReached then apperr_New CodeConflict ''claim limit reached''
      else if errors_Is err ErrSoldOut then apperr_New CodeConflict ''coupon sold out''
      else if errors_Is err ErrCampaignInactive then apperr_New CodeBadRequest ''campaign not active''
      else if errors_Is err ErrCampaignNotFound then apperr_New CodeNotFound ''campaign not found''
      else apperr_Wrap CodeInternalError ''claim coupon failed'' err)"

definition claimWithoutRedis :: "coupon_Service \<Rightarrow> ctx \<Rightarrow> int \<Rightarrow> int \<Rightarrow> string \<Rightarrow> ClaimRecord result io" where
  "claimWithoutRedis s ctx couponID userID idemKey =
     mapErr mapClaimErr (ClaimCoupon (Svc_repo s) ctx couponID userID idemKey)"

text \<open>\<open>rnd\<close> is the value of \<^verbatim>\<open>rand.Int63n(1000)\<close>.\<close>

definition claimReservationID :: "int \<Rightarrow> string io" where
  "claimReservationID rnd = do { t \<leftarrow> time_Now; ret (FormatInt (wrap64 (t + rnd))) }"

text \<open>\<open>Inr None\<close> is the \<^verbatim>\<open>false\<close> of the code.\<close>

definition waitPendingClaim :: "coupon_Service \<Rightarrow> int \<Rightarrow> int \<Rightarrow> string \<Rightarrow> ClaimRecord option result io" where
  "waitPendingClaim s couponID userID idemKey = do {
     waited \<leftarrow> WaitResult (Svc_adjudicator s) couponID userID idemKey;
     case waited of
       Inl err \<Rightarrow> throwE (apperr_Wrap CodeInternalError ''wait pending claim result failed'' err)
     | Inr None \<Rightarrow> returnE None
     | Inr (Some claimID) \<Rightarrow> do {
         found \<leftarrow> FindClaimByID claimID;
         case found of
           Inl err \<Rightarrow>
             if errors_Is err sql_ErrNoRows then returnE None
             else throwE (apperr_Wrap CodeInternalError ''load pending claim result failed'' err)
         | Inr rec \<Rightarrow> returnE (Some rec) } }"

text \<open>
  The answer of one attempt: \<open>Inr (Some rec)\<close> and \<open>Inl err\<close> are \<^verbatim>\<open>done\<close> with a record or an error,
  \<open>Inr None\<close> is \<^verbatim>\<open>done = false\<close> with a nil error. The code has no return that is not \<^verbatim>\<open>done\<close> and
  carries an error.
\<close>

definition miss_campaign :: "coupon_Service \<Rightarrow> int \<Rightarrow> ClaimRecord option result io" where
  "miss_campaign s couponID = do {
     loaded \<leftarrow> LoadCampaign couponID;
     case loaded of
       Inl err \<Rightarrow> throwE (mapClaimErr err)
     | Inr campaign \<Rightarrow> do {
         ensured \<leftarrow> EnsureCampaign (Svc_adjudicator s) campaign;
         case ensured of
           Inl err \<Rightarrow> throwE (apperr_Wrap CodeInternalError ''hydrate redis campaign failed'' err)
         | Inr _ \<Rightarrow> returnE None } }"

definition replay_claim :: "int \<Rightarrow> ClaimRecord option result io" where
  "replay_claim claimID = do {
     found \<leftarrow> FindClaimByID claimID;
     case found of
       Inl err \<Rightarrow> throwE (apperr_Wrap CodeInternalError ''query replay claim failed'' err)
     | Inr rec \<Rightarrow> returnE (Some rec) }"

definition persist_admitted ::
  "coupon_Service \<Rightarrow> ctx \<Rightarrow> int \<Rightarrow> int \<Rightarrow> string \<Rightarrow> string \<Rightarrow> ClaimRecord option result io"
where
  "persist_admitted s ctx couponID userID idemKey reservationID = do {
     persisted \<leftarrow> PersistClaimAfterAdjudication (Svc_repo s) ctx couponID userID idemKey;
     case persisted of
       Inl err \<Rightarrow> do {
         _ \<leftarrow> claim_Rollback (Svc_adjudicator s) couponID userID idemKey reservationID;
         throwE (mapClaimErr err) }
     | Inr rec \<Rightarrow> do {
         _ \<leftarrow> Finalize (Svc_adjudicator s) couponID userID idemKey reservationID (Claim_ID rec);
         returnE (Some rec) } }"

definition claimWithRedis ::
  "coupon_Service \<Rightarrow> ctx \<Rightarrow> int \<Rightarrow> int \<Rightarrow> int \<Rightarrow> string \<Rightarrow> ClaimRecord option result io"
where
  "claimWithRedis s ctx rnd couponID userID idemKey = do {
     reservationID \<leftarrow> claimReservationID rnd;
     now \<leftarrow> time_Now;
     decided \<leftarrow> Decide (Svc_adjudicator s)
       \<lparr>Snap_CouponID = couponID, Snap_Status = '''', Snap_AvailableStock = 0, Snap_PerUserLimit = 0,
        Snap_StartAt = 0, Snap_EndAt = 0\<rparr> userID idemKey now reservationID;
     case decided of
       Inl err \<Rightarrow> throwE (apperr_Wrap CodeInternalError ''redis adjudication failed'' err)
     | Inr decision \<Rightarrow>
         let code = Decision_Code decision in
         if code = decisionCodeCampaignMiss then miss_campaign s couponID
         else if code = decisionCodeIdemHit then replay_claim (Decision_ClaimID decision)
         else if code = decisionCodePending then waitPendingClaim s couponID userID idemKey
         else if code = decisionCodeAlready then throwE (apperr_New CodeConflict ''already claimed'')
         else if code = decisionCodeLimit then throwE (apperr_New CodeConflict ''claim limit reached'')
         else if code = decisionCodeSoldOut then throwE (apperr_New CodeConflict ''coupon sold out'')
         else if code = decisionCodeInactive then throwE (apperr_New CodeBadRequest ''campaign not active'')
         else if code = decisionCodeAdmitted
         then persist_admitted s ctx couponID userID idemKey (Decision_ReservationID decision)
         else throwE (apperr_Wrap CodeInternalError ''unknown redis adjudication result''
                (ErrNew (''code='' @ code))) }"

text \<open>\<open>rnds\<close> are the random numbers of the attempts left: the loop runs once for each.\<close>

primrec claim_attempts ::
  "coupon_Service \<Rightarrow> ctx \<Rightarrow> int list \<Rightarrow> int \<Rightarrow> int \<Rightarrow> string \<Rightarrow> ClaimRecord result io"
where
  "claim_attempts s ctx [] couponID userID idemKey =
     throwE (apperr_New CodeTooManyRequests ''request is still being processed'')"
| "claim_attempts s ctx (rnd # rnds) couponID userID idemKey =
     bindE (claimWithRedis s ctx rnd couponID userID idemKey) (\<lambda>rec. case rec of
       Some r \<Rightarrow> returnE r
     | None \<Rightarrow> claim_attempts s ctx rnds couponID userID idemKey)"

definition Claim ::
  "coupon_Service \<Rightarrow> ctx \<Rightarrow> int \<Rightarrow> int \<Rightarrow> int \<Rightarrow> int \<Rightarrow> string \<Rightarrow> ClaimRecord result io"
where
  "Claim s ctx rnd1 rnd2 couponID userID idemKey =
     (if Svc_adjudicator s = None then claimWithoutRedis s ctx couponID userID idemKey
      else claim_attempts s ctx [rnd1, rnd2] couponID userID idemKey)"

definition GetMyClaim :: "int \<Rightarrow> int \<Rightarrow> ClaimRecord result io" where
  "GetMyClaim couponID userID =
     mapErr (\<lambda>err. if errors_Is err sql_ErrNoRows then apperr_New CodeNotFound ''claim not found''
                   else apperr_Wrap CodeInternalError ''query claim failed'' err)
       (FindClaimByUser couponID userID)"

section \<open>What the scripts do to the answers in Redis\<close>

text \<open>\<open>keeps R c\<close>: the command or script relates the keyspace before and after it by \<open>R\<close>.\<close>

definition keeps :: "(kv \<Rightarrow> kv \<Rightarrow> bool) \<Rightarrow> 'a rcmd \<Rightarrow> bool" where
  "keeps R c \<longleftrightarrow> (\<forall>m. R m (snd (run_state c m)))"

definition only_key :: "string \<Rightarrow> kv \<Rightarrow> kv \<Rightarrow> bool" where
  "only_key k m m' \<longleftrightarrow> (\<forall>x. x \<noteq> k \<longrightarrow> m' x = m x)"

text \<open>An idempotency key is left as it is, removed, or set to a pending reservation.\<close>

definition no_new_answer :: "kv \<Rightarrow> kv \<Rightarrow> bool" where
  "no_new_answer m m' \<longleftrightarrow> (\<forall>c u k. let x = idemDecisionKey c u k in
     m' x = m x \<or> m' x = None \<or> (\<exists>r e. m' x = Some (RString (''PENDING:'' @ r), e)))"

lemma no_new_answer_refl [simp]: "no_new_answer m m"
  by (simp add: no_new_answer_def)

lemma no_new_answer_trans: "no_new_answer m m' \<Longrightarrow> no_new_answer m' m'' \<Longrightarrow> no_new_answer m m''"
  unfolding no_new_answer_def Let_def by metis

lemma only_key_commands:
  "keeps (only_key k) (redis_GET now k)" "keeps (only_key k) (redis_HGET now k f)"
  "keeps (only_key k) (redis_SETNX now k v)" "keeps (only_key k) (redis_HSETNX now k f v)"
  "keeps (only_key k) (redis_INCRBY now k d)" "keeps (only_key k) (redis_HINCRBY now k f d)"
  "keeps (only_key k) (redis_HDEL now k f)" "keeps (only_key k) (redis_DEL now k)"
  "keeps (only_key k) (redis_DECR now k)" "keeps (only_key k) (redis_INCR now k)"
  by (auto simp: keeps_def only_key_def redis_GET_def redis_HGET_def redis_SETNX_def redis_HSETNX_def
      redis_INCRBY_def redis_DECR_def redis_INCR_def redis_HINCRBY_def redis_HDEL_def redis_DEL_def
      split: option.split prod.split rval.split)

lemma keeps_other_key:
  "keeps (only_key k) c \<Longrightarrow> (\<And>cid u j. k \<noteq> idemDecisionKey cid u j) \<Longrightarrow> keeps no_new_answer c"
  unfolding keeps_def only_key_def no_new_answer_def Let_def by metis

lemma keeps_returnE: "keeps no_new_answer (returnE a)" "keeps no_new_answer (throwE e)"
  by (simp_all add: keeps_def)

lemma keeps_bindE:
  assumes "keeps no_new_answer c" "\<And>a. keeps no_new_answer (f a)"
  shows "keeps no_new_answer (bindE c f)"
  unfolding keeps_def
proof
  fix m
  have "no_new_answer m (snd (run_state c m))" using assms(1) by (simp add: keeps_def)
  moreover have "no_new_answer m' (snd (run_state (f a) m'))" for a m' using assms(2) by (simp add: keeps_def)
  ultimately show "no_new_answer m (snd (run_state (bindE c f) m))"
    by (auto intro: no_new_answer_trans split: prod.split sum.split)
qed

lemma keeps_then_cmd:
  assumes "keeps no_new_answer a" "keeps no_new_answer b"
  shows "keeps no_new_answer (then_cmd a b)"
  using assms no_new_answer_trans by (fastforce simp: keeps_def then_cmd_def split_beta)

lemma keeps_lua_num: "(\<And>n. keeps no_new_answer (f n)) \<Longrightarrow> keeps no_new_answer (lua_num x f)"
  by (cases x) (simp_all add: lua_num_def keeps_returnE)

lemma keeps_if: "(b \<Longrightarrow> keeps R c) \<Longrightarrow> (\<not> b \<Longrightarrow> keeps R c') \<Longrightarrow> keeps R (if b then c else c')"
  by simp

lemma keeps_option:
  "keeps R a \<Longrightarrow> (\<And>y. x = Some y \<Longrightarrow> keeps R (f y)) \<Longrightarrow> keeps R (case x of None \<Rightarrow> a | Some y \<Rightarrow> f y)"
  by (simp split: option.split)

lemma keeps_pending: "keeps no_new_answer (redis_SET_PX now k (''PENDING:'' @ r) ttl)"
  by (auto simp: keeps_def redis_SET_PX_def State_Monad.update_def no_new_answer_def Let_def)

lemma keeps_read: "keeps no_new_answer (redis_GET now k)" "keeps no_new_answer (redis_HGET now k f)"
  by (auto simp: keeps_def redis_GET_def redis_HGET_def)

lemma keeps_DEL: "keeps no_new_answer (redis_DEL now k)"
  by (auto simp: keeps_def redis_DEL_def no_new_answer_def Let_def split: option.split)

lemmas keeps_campaign_commands =
  only_key_commands [where k = "campaignStockKey cid" for cid, THEN keeps_other_key]
  only_key_commands [where k = "campaignUserCountKey cid" for cid, THEN keeps_other_key]
  only_key_commands [where k = "campaignMetaKey cid" for cid, THEN keeps_other_key]

lemmas keeps_rules = keeps_returnE keeps_bindE keeps_then_cmd keeps_lua_num keeps_if keeps_pending
  keeps_read keeps_DEL

lemma keeps_admit_script:
  "keeps no_new_answer (admit_script (campaignStockKey cid) (campaignUserCountKey cid) ik st l u r ttl now)"
  unfolding admit_script_def
  by (intro keeps_rules keeps_campaign_commands) simp_all

lemma keeps_decide_script:
  "keeps no_new_answer (decide_script (campaignStockKey cid) (campaignMetaKey cid) (campaignUserCountKey cid)
      ik ms u r ttl now)"
  unfolding decide_script_def Let_def
  by (intro keeps_rules keeps_option keeps_admit_script)

lemma keeps_ensure_script: "keeps no_new_answer (ensure_script c now)"
  unfolding ensure_script_def Let_def quiet_cmd_def
  by (intro keeps_rules keeps_campaign_commands) simp_all

lemma keeps_rollback_claim_script:
  "keeps no_new_answer (rollback_claim_script (campaignStockKey cid) (campaignUserCountKey cid) ik r u now)"
  unfolding rollback_claim_script_def
  by (intro keeps_rules keeps_campaign_commands) simp_all

text \<open>\<^verbatim>\<open>Finalize\<close> writes the answer of one key.\<close>

definition new_answer :: "string \<Rightarrow> int \<Rightarrow> kv \<Rightarrow> kv \<Rightarrow> bool" where
  "new_answer ik claim m m' \<longleftrightarrow> m' = m \<or> (\<exists>e. m' = m(ik \<mapsto> (RString (''SUCCESS:'' @ FormatInt claim), e)))"

lemma keeps_finalize_script: "keeps (new_answer ik claim) (finalize_script ik r (FormatInt claim) ttl now)"
  by (auto simp: keeps_def finalize_script_def redis_GET_def redis_SET_PX_def State_Monad.update_def new_answer_def
      split: option.split prod.split rval.split)

section \<open>The invariant of the service\<close>

definition claim_in :: "db \<Rightarrow> int \<Rightarrow> int \<Rightarrow> int \<Rightarrow> bool" where
  "claim_in d cid uid i \<longleftrightarrow>
     (\<exists>x \<in> set (db_claims d). cl_claim_id x = i \<and> cl_coupon_id x = cid \<and> cl_user_id x = uid)"

text \<open>A success stored under an idempotency key is a claim of that campaign and user.\<close>

definition answers_ok :: "db \<Rightarrow> kv \<Rightarrow> bool" where
  "answers_ok d m \<longleftrightarrow> (\<forall>c u k v e i.
     m (idemDecisionKey c u k) = Some (RString (''SUCCESS:'' @ v), e) \<longrightarrow> ParseInt v = Inr i \<longrightarrow> claim_in d c u i)"

lemma answers_ok_kv: "answers_ok d m \<Longrightarrow> no_new_answer m m' \<Longrightarrow> answers_ok d m'"
  unfolding answers_ok_def
proof (intro allI impI)
  fix c u k v e i
  assume ok: "\<forall>c u k v e i. m (idemDecisionKey c u k) = Some (RString (''SUCCESS:'' @ v), e) \<longrightarrow>
      ParseInt v = Inr i \<longrightarrow> claim_in d c u i"
    and m': "no_new_answer m m'" "m' (idemDecisionKey c u k) = Some (RString (''SUCCESS:'' @ v), e)" "ParseInt v = Inr i"
  from m'(1) have "m' (idemDecisionKey c u k) = m (idemDecisionKey c u k) \<or> m' (idemDecisionKey c u k) = None \<or>
      (\<exists>r e. m' (idemDecisionKey c u k) = Some (RString (''PENDING:'' @ r), e))"
    by (simp only: no_new_answer_def Let_def)
  then have "m (idemDecisionKey c u k) = Some (RString (''SUCCESS:'' @ v), e)" using m'(2) by auto
  with ok m'(3) show "claim_in d c u i" by blast
qed

lemma answers_ok_db: "answers_ok d m \<Longrightarrow> set (db_claims d) \<subseteq> set (db_claims d') \<Longrightarrow> answers_ok d' m"
  unfolding answers_ok_def claim_in_def by blast

lemma answers_okD:
  "answers_ok d m \<Longrightarrow> m (idemDecisionKey c u k) = Some (RString (''SUCCESS:'' @ v), e) \<Longrightarrow> ParseInt v = Inr i \<Longrightarrow>
     claim_in d c u i"
  unfolding answers_ok_def by blast

lemma answers_ok_finalize:
  assumes "answers_ok d m" "new_answer (idemDecisionKey cid uid k) claim m m'" "claim_in d cid uid claim"
  shows "answers_ok d m'"
  unfolding answers_ok_def
proof (intro allI impI)
  fix c u j v e i
  assume m': "m' (idemDecisionKey c u j) = Some (RString (''SUCCESS:'' @ v), e)" "ParseInt v = Inr i"
  have "m' (idemDecisionKey c u j) = m (idemDecisionKey c u j) \<or> c = cid \<and> u = uid \<and> v = FormatInt claim"
    using assms(2) m'(1) by (auto simp: new_answer_def split: if_splits)
  with m' assms(3) show "claim_in d c u i"
    using answers_okD [OF assms(1), of c u j v e i] by (auto dest!: ParseInt_FormatInt_unique)
qed

text \<open>What the view of an idempotency key can tell.\<close>

lemma answers_ok_view:
  assumes "answers_ok d m" "idem_view now m (idemDecisionKey c u k) = Some (''SUCCESS:'' @ v)" "ParseInt v = Inr i"
  shows "claim_in d c u i"
proof -
  obtain e where "m (idemDecisionKey c u k) = Some (RString (''SUCCESS:'' @ v), e)"
    using assms(2) by (auto simp: idem_view_def live_def split: option.splits prod.splits rval.splits if_splits)
  with assms show ?thesis by (blast intro: answers_okD)
qed

text \<open>A decision \<^verbatim>\<open>IDEM_HIT\<close> repeats the value of the key.\<close>

lemma wp_HGET_cmd: "(\<And>r. Q r m) \<Longrightarrow> wp (redis_HGET now k f) Q m"
  by (simp add: redis_HGET_def)

lemma wp_GET_cmd:
  assumes "\<And>r. (\<And>v. r = Inr (Some v) \<Longrightarrow> idem_view now m k = Some v) \<Longrightarrow> Q r m"
  shows "wp (redis_GET now k) Q m"
proof -
  have "Q (get_answer now m k) m" by (rule assms) (rule get_answer_Some)
  then show ?thesis by (simp add: get_answer_def redis_GET_def)
qed

definition replies :: "('a \<Rightarrow> bool) \<Rightarrow> 'a rcmd \<Rightarrow> bool" where
  "replies P c \<longleftrightarrow> (\<forall>m. wp c (\<lambda>r _. \<forall>a. r = Inr a \<longrightarrow> P a) m)"

lemma replies_rules:
  "P a \<Longrightarrow> replies P (returnE a)" "replies P (throwE e)"
  "(\<And>a. replies P (f a)) \<Longrightarrow> replies P (bindE c f)"
  "(\<And>n. replies P (g n)) \<Longrightarrow> replies P (lua_num x g)"
  "replies P c1 \<Longrightarrow> replies P c2 \<Longrightarrow> replies P (if b then c1 else c2)"
  by (auto simp: replies_def lua_num_def wp_def split: option.split sum.split prod.split)

lemma admit_no_hit: "replies (\<lambda>a. hd a \<noteq> ''IDEM_HIT'') (admit_script sk ck ik st l u r ttl now)"
  unfolding admit_script_def
  by (intro replies_rules) (simp_all add: limit_code_def)

lemma decide_script_hit:
  "wp (decide_script sk mk ck ik ms u r ttl now)
     (\<lambda>a _. \<forall>rest. a = Inr (''IDEM_HIT'' # rest) \<longrightarrow>
        (\<exists>v. idem_view now m ik = Some (''SUCCESS:'' @ v) \<and> rest = [v])) m" (is "wp _ ?Q m")
proof -
  define Q where "Q = ?Q"
  have err: "Q (Inl e) m'" for e m' by (simp add: Q_def)
  have other: "Q (Inr (x # rest)) m'" if "x \<noteq> ''IDEM_HIT''" for x rest m' using that by (simp add: Q_def)
  have hit: "Q (Inr [''IDEM_HIT'', drop 8 v]) m'" if "idem_view now m ik = Some v" "take 8 v = ''SUCCESS:''" for v m'
  proof -
    have v: "v = ''SUCCESS:'' @ drop 8 v" using append_take_drop_id [of 8 v] unfolding that(2) by (rule sym)
    show ?thesis unfolding Q_def
    proof (intro allI impI exI conjI)
      show "idem_view now m ik = Some (''SUCCESS:'' @ drop 8 v)" using that(1) v by simp
    qed simp
  qed
  have admit: "wp (admit_script sk ck ik st l u r ttl now) Q m" for st l
    by (rule wp_mono [OF admit_no_hit [unfolded replies_def, rule_format]]) (auto simp: Q_def)
  have num: "wp (lua_num x f) Q m" if "\<And>n. wp (f n) Q m" for x f
    using that err by (cases x) (simp_all add: lua_num_def)
  have hget: "wp (bindE (redis_HGET now k f) g) Q m" if "\<And>y. wp (g y) Q m" for k f g
    unfolding wp_bindE by (rule wp_HGET_cmd) (use that err in \<open>auto split: sum.split\<close>)
  have get: "wp (bindE (redis_GET now k) g) Q m"
    if "wp (g None) Q m" "\<And>y. idem_view now m k = Some y \<Longrightarrow> wp (g (Some y)) Q m" for k g
    unfolding wp_bindE
  proof (rule wp_GET_cmd)
    fix x :: "string option result" assume x: "\<And>v. x = Inr (Some v) \<Longrightarrow> idem_view now m k = Some v"
    show "(case x of Inl e \<Rightarrow> Q (Inl e) | Inr a \<Rightarrow> wp (g a) Q) m"
    proof (cases x)
      case (Inr y)
      with that x show ?thesis by (cases y) auto
    qed (simp add: err)
  qed
  have "wp (decide_script sk mk ck ik ms u r ttl now) Q m"
    unfolding decide_script_def Let_def
    apply (rule get)
     apply (simp add: other)
    apply (simp only: option.case)
    apply (rule hget)+
    apply (rule get)
    using hit by (auto intro!: num admit other)
  then show ?thesis unfolding Q_def .
qed

section \<open>One attempt\<close>

definition quiet :: "world \<Rightarrow> world \<Rightarrow> bool" where
  "quiet w w' \<longleftrightarrow> w_db w' = w_db w \<and> w_tx w' = w_tx w \<and> w_metrics w' = w_metrics w \<and>
     no_new_answer (w_kv w) (w_kv w')"

lemma quiet_refl [simp]: "quiet w w"
  by (simp add: quiet_def)

lemma quiet_trans: "quiet u v \<Longrightarrow> quiet v w \<Longrightarrow> quiet u w"
  unfolding quiet_def using no_new_answer_trans by auto

lemma quiet_upd [simp]:
  "quiet w (w'\<lparr>w_faults := fs\<rparr>) = quiet w w'" "quiet w (w'\<lparr>w_now := t\<rparr>) = quiet w w'"
  "quiet w (w'\<lparr>w_ticks := ts\<rparr>) = quiet w w'"
  by (simp_all add: quiet_def)

lemma wp_redis_quiet:
  assumes "\<And>now. keeps no_new_answer (cmd now)" and "\<And>r w'. quiet w w' \<Longrightarrow> Q r w'"
  shows "wp (redis_exec cmd) Q w"
  by (rule wp_redis_exec) (use assms in \<open>auto simp: quiet_def keeps_def\<close>)

lemma wp_db_read:
  assumes "\<And>fs. Q (fst (query_row q (w_db w))) (w\<lparr>w_faults := fs\<rparr>)"
    and "\<And>fs e. Q (Inl (ErrIO e)) (w\<lparr>w_faults := fs\<rparr>)"
  shows "wp (db_exec (query_row q)) Q w"
  by (rule wp_db_exec) (use assms in simp_all)

lemma wp_EnsureCampaign: "(\<And>r w'. quiet w w' \<Longrightarrow> Q r w') \<Longrightarrow> wp (EnsureCampaign a c) Q w"
  by (cases a) (auto simp: EnsureCampaign_def intro: wp_redis_quiet keeps_ensure_script)

lemma wp_claim_Rollback: "(\<And>r w'. quiet w w' \<Longrightarrow> Q r w') \<Longrightarrow> wp (claim_Rollback a cid uid k r) Q w"
  by (cases a) (auto simp: claim_Rollback_def intro!: wp_redis_quiet keeps_rollback_claim_script split: sum.split)

lemma wp_Finalize:
  assumes "\<And>r w'. w_db w' = w_db w \<Longrightarrow> w_tx w' = w_tx w \<Longrightarrow> w_metrics w' = w_metrics w \<Longrightarrow>
      new_answer (idemDecisionKey cid uid k) claim (w_kv w) (w_kv w') \<Longrightarrow> Q r w'"
  shows "wp (Finalize a cid uid k r claim) Q w"
proof (cases a)
  case None
  then show ?thesis using assms by (simp add: Finalize_def new_answer_def)
next
  case (Some adj)
  have "new_answer (idemDecisionKey cid uid k) claim (w_kv w)
      (snd (run_state (finalize_script (idemDecisionKey cid uid k) r (FormatInt claim) ttl now) (w_kv w)))" for ttl now
    using keeps_finalize_script by (simp add: keeps_def)
  moreover have "new_answer (idemDecisionKey cid uid k) claim (w_kv w) (w_kv w)" by (simp add: new_answer_def)
  ultimately show ?thesis
    unfolding Finalize_def Some option.case wp_bindE
    by (intro wp_redis_exec) (use assms in \<open>auto split: sum.split\<close>)
qed

text \<open>The key told, at some time, that the claim \<open>i\<close> is the answer.\<close>

definition told :: "kv \<Rightarrow> string \<Rightarrow> int \<Rightarrow> bool" where
  "told m ik i \<longleftrightarrow> (\<exists>now v. idem_view now m ik = Some (''SUCCESS:'' @ v) \<and> ParseInt v = Inr i)"

lemma parse_hit:
  "parseClaimDecision [''IDEM_HIT'', v] = Inr dcs \<Longrightarrow> ParseInt v = Inr (Decision_ClaimID dcs)"
  by (auto simp: parseClaimDecision_def decision_code_defs split: sum.splits)

lemma parse_code: "parseClaimDecision xs = Inr dcs \<Longrightarrow> \<exists>rest. xs = Decision_Code dcs # rest"
  by (cases xs) (auto simp: parseClaimDecision_def Let_def split: sum.splits list.splits if_splits)

lemma wp_Decide:
  assumes "\<And>r w'. quiet w w' \<Longrightarrow>
      (\<forall>dcs. r = Inr dcs \<longrightarrow> Decision_Code dcs = decisionCodeIdemHit \<longrightarrow>
         told (w_kv w) (idemDecisionKey (Snap_CouponID c) uid k) (Decision_ClaimID dcs)) \<Longrightarrow> Q r w'"
  shows "wp (Decide a c uid k now r) Q w"
proof (cases a)
  case None
  then show ?thesis using assms by (simp add: Decide_def)
next
  case (Some adj)
  let ?ik = "idemDecisionKey (Snap_CouponID c) uid k"
  let ?script = "\<lambda>t. decide_script (campaignStockKey (Snap_CouponID c)) (campaignMetaKey (Snap_CouponID c))
      (campaignUserCountKey (Snap_CouponID c)) ?ik (UnixMilli now) (FormatInt uid) r (Milliseconds (Adj_pendingTTL adj)) t"
  have told: "told (w_kv w) ?ik (Decision_ClaimID dcs)"
    if run: "fst (run_state (?script t) (w_kv w)) = Inr xs" and dcs: "parseClaimDecision xs = Inr dcs"
      "Decision_Code dcs = decisionCodeIdemHit" for t xs dcs
  proof -
    obtain rest where xs: "xs = ''IDEM_HIT'' # rest"
      using parse_code [OF dcs(1)] dcs(2) by (auto simp: decisionCodeIdemHit_def)
    from decide_script_hit [of "campaignStockKey (Snap_CouponID c)" "campaignMetaKey (Snap_CouponID c)"
        "campaignUserCountKey (Snap_CouponID c)" ?ik "UnixMilli now" "FormatInt uid" r
        "Milliseconds (Adj_pendingTTL adj)" t "w_kv w"] run xs
    obtain v where v: "idem_view t (w_kv w) ?ik = Some (''SUCCESS:'' @ v)" "rest = [v]"
      unfolding wp_iff answer_def by blast
    with dcs(1) xs parse_hit show ?thesis unfolding told_def by blast
  qed
  have q: "quiet w (w\<lparr>w_faults := fs, w_kv := snd (run_state (?script t) (w_kv w))\<rparr>)" for fs t
    using keeps_decide_script by (simp add: quiet_def keeps_def)
  show ?thesis
    unfolding Decide_def Some option.case wp_bindE
  proof (rule wp_redis_exec, goal_cases)
    case (1 fs)
    then show ?case using assms [OF q] told by (auto split: sum.split)
  qed (use assms q in auto)
qed

text \<open>
  The effect of a request: either MySQL is untouched, and a record it answers with is the claim
  the key told; or MySQL took part, with one claim transaction.
\<close>

definition claim_effect ::
  "coupon_Service \<Rightarrow> ctx \<Rightarrow> int \<Rightarrow> int \<Rightarrow> string \<Rightarrow> world \<Rightarrow> ClaimRecord result \<Rightarrow> world \<Rightarrow> bool"
where
  "claim_effect s ctx cid uid idem w res w' \<longleftrightarrow> w_tx w' = w_tx w \<and> w_metrics w' = w_metrics w \<and>
     (quiet w w' \<and> (\<forall>rec. res = Inr rec \<longrightarrow>
        (\<exists>i x m. no_new_answer (w_kv w) m \<and> told m (idemDecisionKey cid uid idem) i \<and>
           sql_row (\<lambda>r. cl_claim_id r = i) (db_claims (w_db w)) = Some x \<and> rec = scanClaim x)) \<or>
      (\<exists>e. claimed (Svc_repo s) ctx cid uid idem (Inl e) (w_db w) (w_db w') \<and> res = Inl (mapClaimErr e) \<and>
         no_new_answer (w_kv w) (w_kv w')) \<or>
      (\<exists>rec m. claimed (Svc_repo s) ctx cid uid idem (Inr rec) (w_db w) (w_db w') \<and> res = Inr rec \<and>
         no_new_answer (w_kv w) m \<and> new_answer (idemDecisionKey cid uid idem) (Claim_ID rec) m (w_kv w')))"

lemma claim_effect_error: "quiet w w' \<Longrightarrow> claim_effect s ctx cid uid idem w (Inl e) w'"
  by (simp add: claim_effect_def quiet_def)

lemma claim_effect_after:
  assumes "quiet w w1" "claim_effect s ctx cid uid idem w1 res w'"
  shows "claim_effect s ctx cid uid idem w res w'"
proof -
  have q: "w_db w1 = w_db w" "w_tx w1 = w_tx w" "w_metrics w1 = w_metrics w" and n: "no_new_answer (w_kv w) (w_kv w1)"
    using assms(1) by (simp_all add: quiet_def)
  from assms(2) consider
      (untouched) "quiet w1 w'" "\<forall>rec. res = Inr rec \<longrightarrow> (\<exists>i x m. no_new_answer (w_kv w1) m \<and>
        told m (idemDecisionKey cid uid idem) i \<and>
        sql_row (\<lambda>r. cl_claim_id r = i) (db_claims (w_db w1)) = Some x \<and> rec = scanClaim x)"
    | (failed) e where "claimed (Svc_repo s) ctx cid uid idem (Inl e) (w_db w1) (w_db w')" "res = Inl (mapClaimErr e)"
        "no_new_answer (w_kv w1) (w_kv w')"
    | (written) rec m where "claimed (Svc_repo s) ctx cid uid idem (Inr rec) (w_db w1) (w_db w')" "res = Inr rec"
        "no_new_answer (w_kv w1) m" "new_answer (idemDecisionKey cid uid idem) (Claim_ID rec) m (w_kv w')"
    unfolding claim_effect_def by blast
  note cs = this
  have tx: "w_tx w' = w_tx w" "w_metrics w' = w_metrics w" using assms(2) q by (simp_all add: claim_effect_def)
  show ?thesis
  proof (cases rule: cs)
    case untouched
    have "quiet w w'" by (rule quiet_trans [OF assms(1) untouched(1)])
    moreover have "\<forall>rec. res = Inr rec \<longrightarrow> (\<exists>i x m. no_new_answer (w_kv w) m \<and>
        told m (idemDecisionKey cid uid idem) i \<and>
        sql_row (\<lambda>r. cl_claim_id r = i) (db_claims (w_db w)) = Some x \<and> rec = scanClaim x)"
      using untouched(2) no_new_answer_trans [OF n] unfolding q by blast
    ultimately show ?thesis using tx unfolding claim_effect_def by blast
  next
    case failed
    then show ?thesis
      using tx no_new_answer_trans [OF n] unfolding claim_effect_def q by blast
  next
    case written
    then show ?thesis
      using tx no_new_answer_trans [OF n] unfolding claim_effect_def q by blast
  qed
qed

definition attempt_effect where
  "attempt_effect s ctx cid uid idem w res w' \<longleftrightarrow> (case res of
     Inr None \<Rightarrow> quiet w w'
   | Inr (Some rec) \<Rightarrow> claim_effect s ctx cid uid idem w (Inr rec) w'
   | Inl e \<Rightarrow> claim_effect s ctx cid uid idem w (Inl e) w')"

lemma wp_found:
  assumes "told m (idemDecisionKey cid uid idem) i" "no_new_answer (w_kv w0) m" "quiet w0 w"
    and "\<And>rec w'. claim_effect s ctx cid uid idem w0 (Inr rec) w' \<Longrightarrow> Q (Inr rec) w'"
    and "\<And>e w'. quiet w0 w' \<Longrightarrow> Q (Inl e) w'"
  shows "wp (FindClaimByID i) Q w"
  unfolding FindClaimByID_def
proof (rule wp_db_read, goal_cases)
  case (1 fs)
  show ?case
  proof (cases "sql_row (\<lambda>r. cl_claim_id r = i) (db_claims (w_db w))")
    case None
    then show ?thesis using assms(3,5) by (simp add: query_row_def)
  next
    case (Some x)
    have "claim_effect s ctx cid uid idem w0 (Inr (scanClaim x)) (w\<lparr>w_faults := fs\<rparr>)"
      using assms(1-3) Some by (auto simp: claim_effect_def quiet_def)
    with assms(4) Some show ?thesis by (simp add: query_row_def)
  qed
next
  case (2 fs e)
  then show ?case using assms(3,5) by simp
qed

lemma wp_replay_claim:
  assumes "told (w_kv w0) (idemDecisionKey cid uid idem) i" "quiet w0 w"
  shows "wp (replay_claim i) (attempt_effect s ctx cid uid idem w0) w"
  unfolding replay_claim_def wp_bind
  by (rule wp_found [OF assms(1) no_new_answer_refl assms(2)])
    (auto simp: attempt_effect_def claim_effect_error)

lemma wp_waitPendingClaim:
  assumes poll: "\<And>adj. Svc_adjudicator s = Some adj \<Longrightarrow> 0 < Adj_pendingPoll adj" and "quiet w0 w"
  shows "wp (waitPendingClaim s cid uid idem) (attempt_effect s ctx cid uid idem w0) w"
  unfolding waitPendingClaim_def wp_bind
proof (rule wp_WaitResult [OF poll], goal_cases)
  case (4 i t ts fs)
  have told: "told (w_kv w) (idemDecisionKey cid uid idem) i"
    using 4(2) unfolding answered_def told_def by blast
  have q: "quiet w0 (w\<lparr>w_now := t, w_ticks := ts, w_faults := fs\<rparr>)" using assms(2) by simp
  have n: "no_new_answer (w_kv w0) (w_kv w)" using assms(2) by (simp add: quiet_def)
  show ?case
    unfolding sum.case option.case wp_bind
    by (rule wp_found [OF told n q]) (auto simp: attempt_effect_def claim_effect_error)
qed (use assms(2) in \<open>auto simp: attempt_effect_def claim_effect_error\<close>)

lemma wp_miss_campaign:
  assumes "quiet w0 w"
  shows "wp (miss_campaign s cid) (attempt_effect s ctx cid uid idem w0) w"
proof -
  have load: "wp (LoadCampaign cid) Q w" if "\<And>r fs. Q r (w\<lparr>w_faults := fs\<rparr>)" for Q
    unfolding LoadCampaign_def mapErr_def wp_bind
    by (rule wp_db_read) (use that in \<open>auto split: sum.split\<close>)
  show ?thesis
    unfolding miss_campaign_def wp_bind
  proof (rule load)
    fix r fs
    have q: "quiet w0 (w\<lparr>w_faults := fs\<rparr>)" using assms by simp
    then show "wp (case r of Inl err \<Rightarrow> throwE (mapClaimErr err)
        | Inr campaign \<Rightarrow> State_Monad.bind (EnsureCampaign (Svc_adjudicator s) campaign)
            (\<lambda>ensured. case ensured of
               Inl err \<Rightarrow> throwE (apperr_Wrap CodeInternalError ''hydrate redis campaign failed'' err)
             | Inr _ \<Rightarrow> returnE None))
        (attempt_effect s ctx cid uid idem w0) (w\<lparr>w_faults := fs\<rparr>)"
      by (cases r) (auto simp: attempt_effect_def claim_effect_error
          intro!: wp_EnsureCampaign dest: quiet_trans [OF q] split: sum.split)
  qed
qed

lemma wp_persist_admitted:
  assumes "quiet w0 w" "campaigns_ok (w_db w0)" "w_tx w0 = None"
  shows "wp (persist_admitted s ctx cid uid idem r) (attempt_effect s ctx cid uid idem w0) w"
proof -
  have w: "campaigns_ok (w_db w)" "w_tx w = None" using assms by (simp_all add: quiet_def)
  show ?thesis
    unfolding persist_admitted_def wp_bind
  proof (rule wp_mono [OF wp_PersistClaim [OF w]])
    fix res w1
    assume c: "same_env w w1 \<and> w_tx w1 = None \<and> claimed (Svc_repo s) ctx cid uid idem res (w_db w) (w_db w1)"
    then have kv: "w_kv w1 = w_kv w" "w_metrics w1 = w_metrics w" by (simp_all add: same_env_def)
    show "wp (case res of
         Inl err \<Rightarrow> State_Monad.bind (claim_Rollback (Svc_adjudicator s) cid uid idem r) (\<lambda>_. throwE (mapClaimErr err))
       | Inr rec \<Rightarrow> State_Monad.bind (Finalize (Svc_adjudicator s) cid uid idem r (Claim_ID rec))
           (\<lambda>_. returnE (Some rec))) (attempt_effect s ctx cid uid idem w0) w1"
    proof (cases res)
      case (Inl e)
      have "claim_effect s ctx cid uid idem w (Inl (mapClaimErr e)) w'" if "quiet w1 w'" for w'
        using that c kv Inl w unfolding claim_effect_def quiet_def
        by (intro conjI disjI2 disjI1 exI [of _ e]) simp_all
      then have "attempt_effect s ctx cid uid idem w0 (Inl (mapClaimErr e)) w'" if "quiet w1 w'" for w'
        using claim_effect_after [OF assms(1)] that by (simp add: attempt_effect_def)
      then show ?thesis unfolding Inl sum.case wp_bind by (intro wp_claim_Rollback) simp
    next
      case (Inr rec)
      have "claim_effect s ctx cid uid idem w (Inr rec) w'"
        if "w_db w' = w_db w1" "w_tx w' = w_tx w1" "w_metrics w' = w_metrics w1"
          "new_answer (idemDecisionKey cid uid idem) (Claim_ID rec) (w_kv w1) (w_kv w')" for w'
        using that c kv Inr w unfolding claim_effect_def
        by (intro conjI) (simp, simp, rule disjI2, rule disjI2, rule exI [of _ rec], rule exI [of _ "w_kv w"], simp)
      then have "attempt_effect s ctx cid uid idem w0 (Inr (Some rec)) w'"
        if "w_db w' = w_db w1" "w_tx w' = w_tx w1" "w_metrics w' = w_metrics w1"
          "new_answer (idemDecisionKey cid uid idem) (Claim_ID rec) (w_kv w1) (w_kv w')" for w'
        using claim_effect_after [OF assms(1)] that by (simp add: attempt_effect_def)
      then show ?thesis unfolding Inr sum.case wp_bind by (intro wp_Finalize) simp
    qed
  qed
qed

lemma attempt_refused: "quiet w w' \<Longrightarrow> attempt_effect s ctx cid uid idem w (Inl e) w'"
  by (simp add: attempt_effect_def claim_effect_error)

lemma wp_claimWithRedis:
  assumes "campaigns_ok (w_db w)" "w_tx w = None"
    and poll: "\<And>adj. Svc_adjudicator s = Some adj \<Longrightarrow> 0 < Adj_pendingPoll adj"
  shows "wp (claimWithRedis s ctx rnd cid uid idem) (attempt_effect s ctx cid uid idem w) w"
  unfolding claimWithRedis_def claimReservationID_def wp_bind wp_ret
proof (rule wp_time_Now, rule wp_time_Now, rule wp_Decide, goal_cases)
  case (1 t ts t' ts' r w')
  have q: "quiet w w'" using 1(3) by (auto simp: quiet_def)
  show ?case
  proof (cases r)
    case (Inl e)
    then show ?thesis using q by (simp add: attempt_refused)
  next
    case (Inr dcs)
    have told: "told (w_kv w) (idemDecisionKey cid uid idem) (Decision_ClaimID dcs)"
      if "Decision_Code dcs = decisionCodeIdemHit" using 1(4) Inr that by simp
    show ?thesis
      unfolding Inr sum.case Let_def
      using wp_miss_campaign [OF q] wp_replay_claim [OF told q] wp_waitPendingClaim [OF poll q]
        wp_persist_admitted [OF q assms(1,2)] attempt_refused [OF q]
      by (simp split: if_split)
  qed
qed

lemma wp_claim_attempts:
  assumes "campaigns_ok (w_db w)" "w_tx w = None"
    and poll: "\<And>adj. Svc_adjudicator s = Some adj \<Longrightarrow> 0 < Adj_pendingPoll adj"
  shows "wp (claim_attempts s ctx rnds cid uid idem) (claim_effect s ctx cid uid idem w) w"
  using assms(1,2)
proof (induction rnds arbitrary: w)
  case Nil
  then show ?case by (simp add: claim_effect_error)
next
  case (Cons rnd rnds)
  show ?case
    unfolding claim_attempts.simps wp_bindE
  proof (rule wp_mono [OF wp_claimWithRedis [OF Cons.prems poll]])
    fix res w1
    assume a: "attempt_effect s ctx cid uid idem w res w1"
    have more: "wp (claim_attempts s ctx rnds cid uid idem) (claim_effect s ctx cid uid idem w) w1" if "quiet w w1"
      using Cons.IH [of w1] Cons.prems that claim_effect_after [OF that]
      by (auto simp: quiet_def elim!: wp_mono)
    from a more show "(case res of Inl e \<Rightarrow> claim_effect s ctx cid uid idem w (Inl e)
        | Inr rec \<Rightarrow> wp (case rec of None \<Rightarrow> claim_attempts s ctx rnds cid uid idem | Some r \<Rightarrow> returnE r)
            (claim_effect s ctx cid uid idem w)) w1"
      by (auto simp: attempt_effect_def split: sum.splits option.splits)
  qed
qed

lemma NewAdjudicator_poll: "NewAdjudicator c = Some adj \<Longrightarrow> 0 < Adj_pendingPoll adj"
  by (auto simp: NewAdjudicator_def duration_defs split: if_splits)

lemma wp_Claim:
  assumes "campaigns_ok (w_db w)" "w_tx w = None" and "s = coupon_NewService repo cache"
  shows "wp (Claim s ctx rnd1 rnd2 cid uid idem) (claim_effect s ctx cid uid idem w) w"
proof (cases "Svc_adjudicator s = None")
  case True
  have "claim_effect s ctx cid uid idem w (case res of Inl e \<Rightarrow> Inl (mapClaimErr e) | Inr rec \<Rightarrow> Inr rec) w'"
    if "same_env w w'" "w_tx w' = None" "claimed (Svc_repo s) ctx cid uid idem res (w_db w) (w_db w')" for res w'
  proof (cases res)
    case (Inl e)
    then show ?thesis using that assms(2) by (auto simp: claim_effect_def same_env_def)
  next
    case (Inr rec)
    have "new_answer (idemDecisionKey cid uid idem) (Claim_ID rec) (w_kv w) (w_kv w')"
      using that(1) by (simp add: new_answer_def same_env_def)
    then have "no_new_answer (w_kv w) (w_kv w) \<and>
        new_answer (idemDecisionKey cid uid idem) (Claim_ID rec) (w_kv w) (w_kv w')" by simp
    then show ?thesis using that assms(2) Inr unfolding claim_effect_def same_env_def by auto
  qed
  then have "wp (ClaimCoupon (Svc_repo s) ctx cid uid idem)
      (\<lambda>r. claim_effect s ctx cid uid idem w (case r of Inl e \<Rightarrow> Inl (mapClaimErr e) | Inr a \<Rightarrow> Inr a)) w"
    by (intro wp_mono [OF wp_ClaimCoupon [OF assms(1,2)]]) blast
  with True show ?thesis by (simp add: Claim_def claimWithoutRedis_def)
next
  case False
  have "0 < Adj_pendingPoll adj" if "Svc_adjudicator s = Some adj" for adj
    using that assms(3) NewAdjudicator_poll by (simp add: coupon_NewService_def)
  with False show ?thesis
    unfolding Claim_def if_not_P [OF False] by (rule_tac wp_claim_attempts [OF assms(1,2)])
qed

section \<open>Properties\<close>

definition claims_grow :: "int \<Rightarrow> int \<Rightarrow> db \<Rightarrow> db \<Rightarrow> bool" where
  "claims_grow cid uid d d' \<longleftrightarrow> db_claims d' = db_claims d \<or>
     (\<exists>x. db_claims d' = db_claims d @ [x] \<and> cl_coupon_id x = cid \<and> cl_user_id x = uid)"

lemma claimed_grows: "claimed r ctx cid uid idem res d d' \<Longrightarrow> claims_grow cid uid d d'"
  unfolding claimed_def claims_grow_def
  by (auto simp: rolled_back_def replayed_def dest!: granted_claim split: sum.splits)

lemma claims_grow_subset: "claims_grow cid uid d d' \<Longrightarrow> set (db_claims d) \<subseteq> set (db_claims d')"
  by (auto simp: claims_grow_def)

text \<open>The record of a successful claim is in the table.\<close>

definition record_of :: "int \<Rightarrow> int \<Rightarrow> ClaimRecord \<Rightarrow> db \<Rightarrow> bool" where
  "record_of cid uid rec d \<longleftrightarrow> Claim_CouponID rec = cid \<and> Claim_UserID rec = uid \<and> claim_in d cid uid (Claim_ID rec)"

lemma claimed_record:
  assumes "claimed r ctx cid uid idem (Inr rec) d d'"
  shows "record_of cid uid rec d'"
proof -
  consider "replayed cid uid idem d rec d'" | "granted r ctx cid uid idem d rec d'"
    using assms by (auto simp: claimed_def)
  then show ?thesis
  proof cases
    case 1
    then obtain x where x: "claim_by_idem cid uid idem d = Some x" "rec = scanClaim x" "d' = d"
      by (auto simp: replayed_def)
    then have "x \<in> set (db_claims d) \<and> cl_coupon_id x = cid \<and> cl_user_id x = uid"
      unfolding claim_by_idem_def by (auto dest: sql_row_Some_iff)
    with x show ?thesis by (auto simp: record_of_def claim_in_def scanClaim_def)
  next
    case 2
    then have "Claim_CouponID rec = cid \<and> Claim_UserID rec = uid" by (auto simp: granted_def claim_record_def)
    with granted_claim [OF 2] show ?thesis by (auto simp: record_of_def claim_in_def)
  qed
qed

lemma claim_in_record:
  assumes "claim_keys_ok d" "claim_in d cid uid i" "sql_row (\<lambda>r. cl_claim_id r = i) (db_claims d) = Some x"
  shows "record_of cid uid (scanClaim x) d"
proof -
  obtain y where y: "y \<in> set (db_claims d)" "cl_claim_id y = i" "cl_coupon_id y = cid" "cl_user_id y = uid"
    using assms(2) by (auto simp: claim_in_def)
  have x: "x \<in> set (db_claims d)" "cl_claim_id x = i" using assms(3) sql_row_Some_iff by fastforce+
  have "inj_on cl_claim_id (set (db_claims d))" using assms(1) by (simp add: claim_keys_ok_def distinct_map)
  then have "x = y" using x y by (auto dest: inj_onD)
  with y show ?thesis by (auto simp: record_of_def claim_in_def scanClaim_def)
qed

lemma told_claim: "answers_ok d m \<Longrightarrow> told m (idemDecisionKey cid uid idem) i \<Longrightarrow> claim_in d cid uid i"
  using answers_ok_view unfolding told_def by blast

lemma told_record:
  assumes "answers_ok d m" "claim_keys_ok d" "told m (idemDecisionKey cid uid idem) i"
    and "sql_row (\<lambda>r. cl_claim_id r = i) (db_claims d) = Some x"
  shows "record_of cid uid (scanClaim x) d"
  by (rule claim_in_record [OF assms(2) told_claim [OF assms(1,3)] assms(4)])

lemma claim_effect_grows: "claim_effect s ctx cid uid idem w res w' \<Longrightarrow> claims_grow cid uid (w_db w) (w_db w')"
  unfolding claim_effect_def quiet_def using claimed_grows [of "Svc_repo s" ctx cid uid idem _ "w_db w" "w_db w'"]
  by (elim conjE disjE exE) (auto simp: claims_grow_def)

lemma claim_effect_record:
  assumes "claim_effect s ctx cid uid idem w (Inr rec) w'" "answers_ok (w_db w) (w_kv w)" "claim_keys_ok (w_db w)"
  shows "record_of cid uid rec (w_db w')"
proof -
  from assms(1) consider i x m where "quiet w w'" "no_new_answer (w_kv w) m" "told m (idemDecisionKey cid uid idem) i"
      "sql_row (\<lambda>r. cl_claim_id r = i) (db_claims (w_db w)) = Some x" "rec = scanClaim x"
    | "claimed (Svc_repo s) ctx cid uid idem (Inr rec) (w_db w) (w_db w')"
    unfolding claim_effect_def by blast
  then show ?thesis
  proof cases
    case 1
    then show ?thesis
      using told_record [OF answers_ok_kv [OF assms(2)] assms(3)] by (simp add: quiet_def)
  qed (rule claimed_record)
qed

lemma claim_effect_answers:
  assumes "claim_effect s ctx cid uid idem w res w'" "answers_ok (w_db w) (w_kv w)"
  shows "answers_ok (w_db w') (w_kv w')"
proof -
  have db: "answers_ok (w_db w') m" if "no_new_answer (w_kv w) m" for m
    by (rule answers_ok_db [OF answers_ok_kv [OF assms(2) that] claims_grow_subset [OF claim_effect_grows [OF assms(1)]]])
  from assms(1) consider "no_new_answer (w_kv w) (w_kv w')"
    | rec m where "claimed (Svc_repo s) ctx cid uid idem (Inr rec) (w_db w) (w_db w')" "no_new_answer (w_kv w) m"
        "new_answer (idemDecisionKey cid uid idem) (Claim_ID rec) m (w_kv w')"
    unfolding claim_effect_def quiet_def by blast
  then show ?thesis
  proof cases
    case 2
    then show ?thesis using answers_ok_finalize [OF db] claimed_record by (auto simp: record_of_def)
  qed (rule db)
qed

text \<open>
  The claim service keeps the books. Whatever Redis holds, answers or loses, whether it is
  configured or not, and whatever round trips to MySQL fail, a claim request leaves stock and
  claims balanced, every stock non-negative, every user within the limit and every key unique.
\<close>

theorem service_keeps_books:
  assumes "books_ok (w_db w)" and "w_tx w = None"
  shows "books_ok (w_db (final (Claim (coupon_NewService repo cache) ctx rnd1 rnd2 cid uid idem) w))"
proof -
  have "campaigns_ok (w_db w)" using assms(1) by (simp add: books_ok_def)
  from wp_Claim [OF this assms(2) refl, of repo cache ctx rnd1 rnd2 cid uid idem] show ?thesis
    using assms(1) books_ok_claimed unfolding wp_iff claim_effect_def quiet_def by metis
qed

theorem service_keeps_books_witness:
  "books_ok (w_db (final (Claim (coupon_NewService (coupon_NewRepository True True 0) True) (Ctx None) 5 6 1001 7 ''k1'')
     (demo_shop [demo_campaign 1] [] [NoFault, NoFault, Drop ''down''])))"
  by (rule service_keeps_books) (simp_all add: demo_shop_books, simp add: demo_shop_def)

text \<open>
  A successful answer is a claim of the caller. If every success stored under an idempotency
  key names a claim of that campaign and user, this stays so; a record the service answers with
  carries the campaign and user of the request and is in the table; and a request adds at most one
  claim, of that campaign and user.
\<close>

theorem service_answers_own_claim:
  assumes "books_ok (w_db w)" and "w_tx w = None" and "answers_ok (w_db w) (w_kv w)"
  shows "let m = Claim (coupon_NewService repo cache) ctx rnd1 rnd2 cid uid idem; w' = final m w in
    answers_ok (w_db w') (w_kv w') \<and> claims_grow cid uid (w_db w) (w_db w') \<and>
    (\<forall>rec. answer m w = Inr rec \<longrightarrow> record_of cid uid rec (w_db w'))"
proof -
  have ok: "campaigns_ok (w_db w)" "claim_keys_ok (w_db w)" using assms(1) by (simp_all add: books_ok_def)
  have e: "claim_effect (coupon_NewService repo cache) ctx cid uid idem w
      (answer (Claim (coupon_NewService repo cache) ctx rnd1 rnd2 cid uid idem) w)
      (final (Claim (coupon_NewService repo cache) ctx rnd1 rnd2 cid uid idem) w)"
    using wp_Claim [OF ok(1) assms(2) refl, of repo cache ctx rnd1 rnd2 cid uid idem] by (simp add: wp_iff)
  have "record_of cid uid rec (w_db (final (Claim (coupon_NewService repo cache) ctx rnd1 rnd2 cid uid idem) w))"
    if "answer (Claim (coupon_NewService repo cache) ctx rnd1 rnd2 cid uid idem) w = Inr rec" for rec
    using claim_effect_record [OF e [unfolded that] assms(3) ok(2)] .
  with claim_effect_answers [OF e assms(3)] claim_effect_grows [OF e] show ?thesis by (simp add: Let_def)
qed

end
