(* ===== verification/CouponHandler.thy ===== *)
theory CouponHandler
  imports CouponService
begin

text \<open>
  examples/Quan/internal/coupon/handler.go: the HTTP handlers of the coupon API. A request is its
  header lookup, its path values and its context; a response is a status and a JSON body. How a
  time is printed depends on the time zone of the machine, so the RFC 3339 printer is an argument
  \<open>rfc3339\<close>. Durations are measured but not recorded in \<open>w_metrics\<close>.
\<close>

section \<open>Requests\<close>

record http_request =
  Req_Header :: "string \<Rightarrow> string"
  Req_PathValue :: "string \<Rightarrow> string"
  Req_Context :: ctx

definition headerUserID :: string where "headerUserID = ''X-User-ID''"
definition headerIdempotencyKey :: string where "headerIdempotencyKey = ''Idempotency-Key''"

definition coupon_routes :: "string list" where
  "coupon_routes = [''POST /api/v1/coupons/{coupon_id}/claim'', ''GET /api/v1/coupons/{coupon_id}/claims/me'']"

definition parsePathInt64 :: "string \<Rightarrow> int option" where
  "parsePathInt64 raw = (case ParseInt (TrimSpace raw) of
     Inl _ \<Rightarrow> None | Inr v \<Rightarrow> if v \<le> 0 then None else Some v)"

definition parseUserID :: "http_request \<Rightarrow> int option" where
  "parseUserID r = parsePathInt64 (TrimSpace (Req_Header r headerUserID))"

section \<open>Classification of results\<close>

definition classifyClaimResult :: "goerr option \<Rightarrow> string" where
  "classifyClaimResult err =
     (if err = None then ''success''
      else let status = HTTPStatus err in
        if status = 409 then ''business_conflict''
        else if status \<in> {400, 404, 429} then ''client_error''
        else ''server_error'')"

definition classifyClaimCode :: "goerr option \<Rightarrow> string" where
  "classifyClaimCode err = (case err of
     None \<Rightarrow> ''success''
   | Some (AppError code msg _) \<Rightarrow>
       if code = CodeConflict then
         (if msg = ''already claimed'' then ''already_claimed''
          else if msg = ''claim limit reached'' then ''limit_reached''
          else if msg = ''coupon sold out'' then ''sold_out''
          else ''conflict'')
       else if code = CodeBadRequest then ''bad_request''
       else if code = CodeNotFound then ''not_found''
       else if code = CodeTooManyRequests then ''too_many_requests''
       else ''internal_error''
   | Some _ \<Rightarrow> ''internal_error'')"

section \<open>Handlers\<close>

record coupon_Handler =
  Handler_svc :: coupon_Service
  Handler_metrics :: bool

definition coupon_NewHandler :: "coupon_Service \<Rightarrow> coupon_Handler" where
  "coupon_NewHandler svc = \<lparr>Handler_svc = svc, Handler_metrics = False\<rparr>"

definition Handler_SetMetrics :: "bool \<Rightarrow> coupon_Handler \<Rightarrow> coupon_Handler" where
  "Handler_SetMetrics metrics h = (if \<not> metrics then h else h\<lparr>Handler_metrics := True\<rparr>)"

definition observeClaim :: "coupon_Handler \<Rightarrow> string \<Rightarrow> string \<Rightarrow> unit io" where
  "observeClaim h resultClass resultCode = do {
     _ \<leftarrow> time_Now;
     if Handler_metrics h then metric (ObserveCouponClaim resultClass resultCode) else ret () }"

definition claim_body :: "(int \<Rightarrow> string) \<Rightarrow> ClaimRecord \<Rightarrow> json" where
  "claim_body rfc3339 rec =
     JObj [(''claim_id'', JNum (FormatInt (Claim_ID rec))), (''coupon_id'', JNum (FormatInt (Claim_CouponID rec))),
           (''user_id'', JNum (FormatInt (Claim_UserID rec))), (''status'', JStr (Claim_Status rec)),
           (''claimed_at'', JStr (rfc3339 (Claim_CreatedAt rec)))]"

definition refuse_claim :: "coupon_Handler \<Rightarrow> reporter \<Rightarrow> ctx \<Rightarrow> string \<Rightarrow> response io" where
  "refuse_claim h rep c msg = do {
     _ \<leftarrow> observeClaim h ''client_error'' ''bad_request'';
     WriteHTTPWithContext rep c (Some (apperr_New CodeBadRequest msg)) }"

definition claimCoupon ::
  "(int \<Rightarrow> string) \<Rightarrow> reporter \<Rightarrow> coupon_Handler \<Rightarrow> int \<Rightarrow> int \<Rightarrow> http_request \<Rightarrow> response io"
where
  "claimCoupon rfc3339 rep h rnd1 rnd2 r = do {
     _ \<leftarrow> time_Now;
     case parseUserID r of
       None \<Rightarrow> refuse_claim h rep (Req_Context r) ''invalid X-User-ID''
     | Some userID \<Rightarrow>
         (case parsePathInt64 (Req_PathValue r ''coupon_id'') of
            None \<Rightarrow> refuse_claim h rep (Req_Context r) ''invalid coupon_id''
          | Some couponID \<Rightarrow>
              let idemKey = TrimSpace (Req_Header r headerIdempotencyKey) in
              if idemKey = '''' then refuse_claim h rep (Req_Context r) ''missing Idempotency-Key''
              else do {
                claim \<leftarrow> Claim (Handler_svc h) (Req_Context r) rnd1 rnd2 couponID userID idemKey;
                case claim of
                  Inl err \<Rightarrow> do {
                    _ \<leftarrow> observeClaim h (classifyClaimResult (Some err)) (classifyClaimCode (Some err));
                    WriteHTTPWithContext rep (Req_Context r) (Some err) }
                | Inr rec \<Rightarrow> do {
                    _ \<leftarrow> observeClaim h ''success'' ''success'';
                    ret (writeOK (Req_Context r) (claim_body rfc3339 rec)) } }) }"

definition getMyClaim :: "reporter \<Rightarrow> http_request \<Rightarrow> response io" where
  "getMyClaim rep r = (case parseUserID r of
     None \<Rightarrow> WriteHTTPWithContext rep (Req_Context r) (Some (apperr_New CodeBadRequest ''invalid X-User-ID''))
   | Some userID \<Rightarrow>
       (case parsePathInt64 (Req_PathValue r ''coupon_id'') of
          None \<Rightarrow> WriteHTTPWithContext rep (Req_Context r) (Some (apperr_New CodeBadRequest ''invalid coupon_id''))
        | Some couponID \<Rightarrow> do {
            found \<leftarrow> GetMyClaim couponID userID;
            case found of
              Inl err \<Rightarrow> WriteHTTPWithContext rep (Req_Context r) (Some err)
            | Inr rec \<Rightarrow> ret (writeOK (Req_Context r)
                (JObj [(''claimed'', JBool True), (''claim_id'', JNum (FormatInt (Claim_ID rec))),
                       (''coupon_id'', JNum (FormatInt (Claim_CouponID rec))),
                       (''user_id'', JNum (FormatInt (Claim_UserID rec))), (''status'', JStr (Claim_Status rec))])) }))"

section \<open>Refusals\<close>

text \<open>The tables a claim writes.\<close>

definition same_tables :: "db \<Rightarrow> db \<Rightarrow> bool" where
  "same_tables d d' \<longleftrightarrow>
     (db_campaigns d', db_claims d', db_tasks d', db_events d') = (db_campaigns d, db_claims d, db_tasks d, db_events d)"

lemma mapClaimErr_app: "\<exists>code msg cause. mapClaimErr e = AppError code msg cause"
  by (simp add: mapClaimErr_def apperr_New_def apperr_Wrap_def)

lemma mapClaimErr_commit: "HTTPStatus (Some (mapClaimErr (commit_err s))) = 500"
  by (simp add: mapClaimErr_def ErrAlreadyClaimed_def ErrClaimLimitReached_def ErrSoldOut_def
      ErrCampaignInactive_def ErrCampaignNotFound_def)

lemma claim_effect_refused:
  assumes "claim_effect s ctx cid uid idem w (Inl e) w'" "HTTPStatus (Some e) \<noteq> 500"
  shows "same_tables (w_db w) (w_db w')"
proof -
  from assms(1) consider "quiet w w'"
    | x where "claimed (Svc_repo s) ctx cid uid idem (Inl x) (w_db w) (w_db w')" "e = mapClaimErr x"
    unfolding claim_effect_def by blast
  then show ?thesis
  proof cases
    case 2
    then show ?thesis using assms(2) mapClaimErr_commit
      by (auto simp: claimed_def same_tables_def rolled_back_def)
  qed (simp add: quiet_def same_tables_def)
qed

section \<open>Properties\<close>

text \<open>The reporter that the Quan server installs: it counts the errors by code.\<close>

definition metrics_reporter :: "bool \<Rightarrow> reporter" where
  "metrics_reporter m = (if m then Some (\<lambda>code. metric (ObserveAppError code)) else None)"

definition claim_observations :: "world \<Rightarrow> (string \<times> string) list" where
  "claim_observations w = List.map_filter
     (\<lambda>c. case c of ObserveCouponClaim cls code \<Rightarrow> Some (cls, code) | _ \<Rightarrow> None) (w_metrics w)"

definition class_of_status :: "int \<Rightarrow> string" where
  "class_of_status st = (if st = 200 then ''success'' else if st = 409 then ''business_conflict''
     else if st \<in> {400, 404, 429} then ''client_error'' else ''server_error'')"

text \<open>How a claim request ends.\<close>

definition handled :: "(int \<Rightarrow> string) \<Rightarrow> coupon_Handler \<Rightarrow> http_request \<Rightarrow> world \<Rightarrow> response \<Rightarrow> world \<Rightarrow> bool" where
  "handled rfc3339 h r w resp w' \<longleftrightarrow>
     (\<exists>code. claim_observations w' = claim_observations w @
        (if Handler_metrics h then [(class_of_status (rs_status resp), code)] else [])) \<and>
     (rs_status resp \<in> {400, 404, 409, 429} \<longrightarrow> same_tables (w_db w) (w_db w')) \<and>
     (rs_status resp = 200 \<longrightarrow>
        (\<exists>uid cid rec. parseUserID r = Some uid \<and> parsePathInt64 (Req_PathValue r ''coupon_id'') = Some cid \<and>
           record_of cid uid rec (w_db w') \<and> resp = writeOK (Req_Context r) (claim_body rfc3339 rec))) \<and>
     rs_status resp \<in> {200, 400, 404, 409, 429, 500}"

lemma class_of_error: "classifyClaimResult (Some e) = class_of_status (HTTPStatus (Some e))"
proof -
  have "HTTPStatus (Some e) \<noteq> 200" by (simp add: HTTPStatus_def split: goerr.split)
  then show ?thesis by (simp add: classifyClaimResult_def class_of_status_def Let_def)
qed

lemma wp_bindI: "wp m (\<lambda>a. wp (f a) Q) s \<Longrightarrow> wp (State_Monad.bind m f) Q s"
  by simp

text \<open>Observing and answering an error.\<close>

lemma wp_observe_error:
  assumes "\<And>resp w'. rs_status resp = HTTPStatus (Some e) \<Longrightarrow> w_db w' = w_db w \<Longrightarrow>
      claim_observations w' = claim_observations w @ (if Handler_metrics h then [(cls, code)] else []) \<Longrightarrow> Q resp w'"
  shows "wp (do { _ \<leftarrow> observeClaim h cls code; WriteHTTPWithContext (metrics_reporter m) c (Some e) }) Q w"
  unfolding observeClaim_def wp_bind
  by (rule wp_time_Now)
    (use assms in \<open>auto simp: WriteHTTPWithContext_def metrics_reporter_def report_def Let_def split_beta
      claim_observations_def List.map_filter_def\<close>)

lemma wp_refuse_claim:
  assumes "w_db w = w_db w0" "claim_observations w = claim_observations w0"
  shows "wp (refuse_claim h (metrics_reporter m) c msg) (handled rfc3339 h r w0) w"
  unfolding refuse_claim_def
  by (rule wp_observe_error)
    (use assms in \<open>auto simp: handled_def same_tables_def class_of_status_def\<close>)

text \<open>
  C12. The claim endpoint. With the books in order and every stored success naming a claim of its
  user, a request is answered with one of the statuses 200, 400, 404, 409, 429 and 500. With 200 the
  body is that of a claim of the requested campaign and user that is in the table; with any 4xx no
  campaign, claim, task or outbox event has changed; and if metrics are configured the request is
  observed exactly once, under the class of its status.
\<close>

theorem claim_endpoint:
  assumes "books_ok (w_db w)" and "w_tx w = None" and "answers_ok (w_db w) (w_kv w)"
    and "Handler_svc h = coupon_NewService repo cache"
  shows "let m = claimCoupon rfc3339 (metrics_reporter on) h rnd1 rnd2 r in
    handled rfc3339 h r w (answer m w) (final m w)"
proof -
  have ok: "campaigns_ok (w_db w)" "claim_keys_ok (w_db w)" using assms(1) by (simp_all add: books_ok_def)
  let ?idem = "TrimSpace (Req_Header r headerIdempotencyKey)"
  have claim: "wp (State_Monad.bind (Claim (Handler_svc h) (Req_Context r) rnd1 rnd2 cid uid ?idem)
      (\<lambda>res. case res of
          Inl err \<Rightarrow> do { _ \<leftarrow> observeClaim h (classifyClaimResult (Some err)) (classifyClaimCode (Some err));
            WriteHTTPWithContext (metrics_reporter on) (Req_Context r) (Some err) }
        | Inr rec \<Rightarrow> do { _ \<leftarrow> observeClaim h ''success'' ''success'';
            ret (writeOK (Req_Context r) (claim_body rfc3339 rec)) })) (handled rfc3339 h r w) w1"
    if w1: "w1 = w\<lparr>w_now := t, w_ticks := ts\<rparr>" and uid: "parseUserID r = Some uid"
      "parsePathInt64 (Req_PathValue r ''coupon_id'') = Some cid" for t ts uid cid w1
  proof -
    have ok1: "campaigns_ok (w_db w1)" "w_tx w1 = None" using ok(1) assms(2) w1 by simp_all
    have ans1: "answers_ok (w_db w1) (w_kv w1)" "claim_keys_ok (w_db w1)" using assms(3) ok(2) w1 by simp_all
    show ?thesis
    proof (rule wp_bindI, rule wp_mono [OF wp_Claim [OF ok1 assms(4)]])
      fix res w2
      assume e: "claim_effect (Handler_svc h) (Req_Context r) cid uid ?idem w1 res w2"
      have obs: "claim_observations w2 = claim_observations w"
        using e w1 by (simp add: claim_effect_def claim_observations_def)
      show "wp (case res of
          Inl err \<Rightarrow> do { _ \<leftarrow> observeClaim h (classifyClaimResult (Some err)) (classifyClaimCode (Some err));
            WriteHTTPWithContext (metrics_reporter on) (Req_Context r) (Some err) }
        | Inr rec \<Rightarrow> do { _ \<leftarrow> observeClaim h ''success'' ''success'';
            ret (writeOK (Req_Context r) (claim_body rfc3339 rec)) }) (handled rfc3339 h r w) w2"
      proof (cases res)
        case (Inl err)
        have range: "HTTPStatus (Some err) \<in> {400, 404, 409, 429, 500}"
          by (simp add: HTTPStatus_def split: goerr.split)
        have same: "same_tables (w_db w) (w_db w2)" if "HTTPStatus (Some err) \<noteq> 500"
          using claim_effect_refused [OF e [unfolded Inl] that] w1 by simp
        show ?thesis
          unfolding Inl sum.case
          by (rule wp_observe_error) (use obs range same in \<open>auto simp: handled_def class_of_error\<close>)
      next
        case (Inr rec)
        have "record_of cid uid rec (w_db w2)" by (rule claim_effect_record [OF e [unfolded Inr] ans1])
        then show ?thesis
          unfolding Inr sum.case observeClaim_def wp_bind
          by (intro wp_time_Now)
            (use obs uid in \<open>auto simp: handled_def writeOK_def class_of_status_def claim_observations_def
              List.map_filter_def\<close>)
      qed
    qed
  qed
  have "wp (claimCoupon rfc3339 (metrics_reporter on) h rnd1 rnd2 r) (handled rfc3339 h r w) w"
    unfolding claimCoupon_def wp_bind
    by (rule wp_time_Now)
      (auto simp: Let_def claim_observations_def simp del: wp_bind intro!: wp_refuse_claim claim
        split: option.split)
  then show ?thesis by (simp add: wp_iff)
qed

definition demo_http :: "string \<Rightarrow> string \<Rightarrow> http_request" where
  "demo_http user idem =
     \<lparr>Req_Header = (\<lambda>k. if k = headerUserID then user else if k = headerIdempotencyKey then idem else ''''),
      Req_PathValue = (\<lambda>_. ''1001''), Req_Context = Ctx None\<rparr>"

theorem claim_endpoint_witness:
  "let h = Handler_SetMetrics True (coupon_NewHandler (coupon_NewService (coupon_NewRepository True True 0) True));
       r = demo_http ''7'' ''k1''; w = demo_shop [demo_campaign 1] [] [];
       m = claimCoupon (\<lambda>_. ''t'') (metrics_reporter True) h 5 6 r in
    handled (\<lambda>_. ''t'') h r w (answer m w) (final m w)"
proof -
  let ?h = "Handler_SetMetrics True (coupon_NewHandler (coupon_NewService (coupon_NewRepository True True 0) True))"
  let ?w = "demo_shop [demo_campaign 1] [] []"
  have "w_tx ?w = None" "answers_ok (w_db ?w) (w_kv ?w)" by (simp_all add: demo_shop_def answers_ok_def)
  moreover have "Handler_svc ?h = coupon_NewService (coupon_NewRepository True True 0) True"
    by (simp add: Handler_SetMetrics_def coupon_NewHandler_def)
  ultimately show ?thesis
    using claim_endpoint [OF demo_shop_books, of 1 "[]" ?h "coupon_NewRepository True True 0" True] by (simp add: Let_def)
qed

end
