(* ===== verification/TaskService.thy ===== *)
theory TaskService
  imports CouponHandler TaskConsumer
begin

text \<open>
  examples/Quan/internal/task/service.go and http_handler.go: creating, reading and replaying tasks.
  The service's queue is an interface value. It can be nil (\<open>NoQueue\<close>), hold a nil pointer, which
  \<^verbatim>\<open>s.queue == nil\<close> does not detect and which panics when it is used (\<open>NilQueue\<close>), or hold a
  queue. A request body is \<open>None\<close> when it is not JSON. The printer of times is an argument.
\<close>

section \<open>The service\<close>

datatype dlqQueue = NoQueue | NilQueue | RedisQueue QueueConfig

record task_Service =
  TaskSvc_queue :: dlqQueue
  TaskSvc_defaultRetry :: int

definition NewServiceWithQueue :: "dlqQueue \<Rightarrow> int \<Rightarrow> task_Service" where
  "NewServiceWithQueue queue defaultRetry =
     \<lparr>TaskSvc_queue = queue, TaskSvc_defaultRetry = (if defaultRetry \<le> 0 then 5 else defaultRetry)\<rparr>"

definition task_NewService :: "int \<Rightarrow> task_Service" where
  "task_NewService defaultRetry = NewServiceWithQueue NoQueue defaultRetry"

record CreateTaskRequest =
  Create_TaskType :: string
  Create_BizID :: string
  Create_Payload :: "json option"
  Create_MaxRetry :: int

text \<open>The callback of the transaction; its answer is the variable \<^verbatim>\<open>created\<close> of the code.\<close>

definition createTask_tx :: "CreateTaskParams \<Rightarrow> AsyncTask result io" where
  "createTask_tx p = do {
     created \<leftarrow> task_CreateTx p;
     case created of
       Inl err \<Rightarrow>
         if errors_Is err ErrTaskDuplicate then
           mapErr (\<lambda>getErr. ErrWrap ''query duplicated task: '' getErr '''')
             (GetByTypeBiz (TaskParams_TaskType p) (TaskParams_BizID p))
         else throwE err
     | Inr task \<Rightarrow>
         bindE (outbox_CreateTx
             \<lparr>EventParams_EventType = EventTypeTaskCreated, EventParams_AggregateType = ''async_task'',
              EventParams_AggregateID = FormatInt (Task_ID task),
              EventParams_PayloadJSON = MarshalTaskCreatedPayload (Task_ID task)\<rparr>)
           (\<lambda>_. returnE task) }"

definition create_params :: "task_Service \<Rightarrow> CreateTaskRequest \<Rightarrow> CreateTaskParams option" where
  "create_params s req =
     (let taskType = TrimSpace (Create_TaskType req); bizID = TrimSpace (Create_BizID req) in
      case Create_Payload req of
        None \<Rightarrow> None
      | Some payload \<Rightarrow>
          if taskType = '''' \<or> bizID = '''' then None
          else Some \<lparr>TaskParams_TaskType = taskType, TaskParams_BizID = bizID, TaskParams_Payload = payload,
            TaskParams_MaxRetry = (if Create_MaxRetry req \<le> 0 then TaskSvc_defaultRetry s else Create_MaxRetry req)\<rparr>)"

definition CreateTask :: "task_Service \<Rightarrow> CreateTaskRequest \<Rightarrow> AsyncTask result io" where
  "CreateTask s req = (case create_params s req of
     None \<Rightarrow> throwE (apperr_New CodeBadRequest ''invalid task request'')
   | Some p \<Rightarrow> mapErr (apperr_Wrap CodeInternalError ''create task failed'') (within_tx (createTask_tx p)))"

definition GetTask :: "int \<Rightarrow> AsyncTask result io" where
  "GetTask taskID = mapErr (\<lambda>err.
     if errors_Is err sql_ErrNoRows \<or> errors_Is err ErrTaskNotFound then apperr_New CodeNotFound ''task not found''
     else apperr_Wrap CodeInternalError ''query task failed'' err) (task_GetByID taskID)"

definition nil_deref :: string where
  "nil_deref = ''runtime error: invalid memory address or nil pointer dereference''"

definition replay_queue :: "dlqQueue \<Rightarrow> int \<Rightarrow> bool outcome io" where
  "replay_queue queue taskID = (case queue of
     RedisQueue q \<Rightarrow> do { moved \<leftarrow> ReplayFromDLQ q taskID; ret (Returned moved) }
   | _ \<Rightarrow> ret (Panicked nil_deref))"

definition ReplayDLQTask :: "task_Service \<Rightarrow> int \<Rightarrow> unit outcome io" where
  "ReplayDLQTask s taskID =
     (if taskID \<le> 0 then ret (Returned (Inl (apperr_New CodeBadRequest ''invalid task_id'')))
      else if TaskSvc_queue s = NoQueue then
        ret (Returned (Inl (apperr_New CodeInternalError ''dlq replay queue not configured'')))
      else do {
        marked \<leftarrow> MarkReplayReady taskID;
        case marked of
          Inl err \<Rightarrow> ret (Returned (Inl (
            if errors_Is err ErrTaskNotFound then apperr_New CodeNotFound ''task not found''
            else if errors_Is err ErrTaskNotReplayable then apperr_New CodeConflict ''task is not replayable''
            else apperr_Wrap CodeInternalError ''mark replay task status failed'' err)))
        | Inr _ \<Rightarrow> do {
            moved \<leftarrow> replay_queue (TaskSvc_queue s) taskID;
            case moved of
              Panicked p \<Rightarrow> ret (Panicked p)
            | Returned (Inl err) \<Rightarrow> do {
                _ \<leftarrow> RestoreDeadAfterReplayFailure taskID;
                ret (Returned (Inl (apperr_Wrap CodeInternalError ''replay task from dlq failed'' err))) }
            | Returned (Inr False) \<Rightarrow> do {
                _ \<leftarrow> RestoreDeadAfterReplayFailure taskID;
                ret (Returned (Inl (apperr_New CodeNotFound ''task not found in dlq''))) }
            | Returned (Inr True) \<Rightarrow> ret (Returned (Inr ())) } })"

section \<open>HTTP handlers\<close>

definition task_routes :: "string list" where
  "task_routes = [''POST /api/v1/tasks'', ''GET /api/v1/tasks/{task_id}'', ''POST /api/v1/tasks/{task_id}/replay'']"

record body_request = http_request +
  Req_Body :: "json option"

definition parsePositiveInt64 :: "string \<Rightarrow> int option" where
  "parsePositiveInt64 raw = (case ParseInt (TrimSpace raw) of
     Inl _ \<Rightarrow> None | Inr v \<Rightarrow> if v \<le> 0 then None else Some v)"

text \<open>The last \<^verbatim>\<open>payload\<close> member wins; its raw text is kept, \<^verbatim>\<open>null\<close> included.\<close>

definition raw_field :: "string \<Rightarrow> (string \<times> json) list \<Rightarrow> json option" where
  "raw_field tag ms = (case filter (\<lambda>(k, _). field_matches tag k) ms of [] \<Rightarrow> None | fs \<Rightarrow> Some (snd (last fs)))"

definition decode_create :: "json \<Rightarrow> CreateTaskRequest result" where
  "decode_create body = (case body of
     JNull \<Rightarrow> Inr \<lparr>Create_TaskType = '''', Create_BizID = '''', Create_Payload = None, Create_MaxRetry = 0\<rparr>
   | JObj ms \<Rightarrow>
       (case (decode_string_field ''task_type'' ms '''', decode_string_field ''biz_id'' ms '''',
              decode_int64_field ''max_retry'' ms 0) of
          (Inr t, Inr b, Inr n) \<Rightarrow>
            Inr \<lparr>Create_TaskType = t, Create_BizID = b, Create_Payload = raw_field ''payload'' ms, Create_MaxRetry = n\<rparr>
        | _ \<Rightarrow> Inl err_unmarshal)
   | _ \<Rightarrow> Inl err_unmarshal)"

definition task_body :: "AsyncTask \<Rightarrow> (string \<times> json) list" where
  "task_body t = [(''task_id'', JNum (FormatInt (Task_ID t))), (''task_type'', JStr (Task_TaskType t)),
     (''biz_id'', JStr (Task_BizID t)), (''status'', JStr (Task_Status t)),
     (''retry_count'', JNum (FormatInt (Task_RetryCount t)))]"

definition refuse_task :: "reporter \<Rightarrow> ctx \<Rightarrow> string \<Rightarrow> response outcome io" where
  "refuse_task rep c msg = do {
     resp \<leftarrow> WriteHTTPWithContext rep c (Some (apperr_New CodeBadRequest msg)); ret (Returned (Inr resp)) }"

text \<open>Handlers return a response or panic; they never return an error, so \<open>Inl\<close> does not occur.\<close>

definition createTask :: "reporter \<Rightarrow> task_Service \<Rightarrow> body_request \<Rightarrow> response outcome io" where
  "createTask rep s r =
     (if parsePositiveInt64 (TrimSpace (Req_Header r headerUserID)) = None then
        refuse_task rep (Req_Context r) ''invalid X-User-ID''
      else if TrimSpace (Req_Header r headerIdempotencyKey) = '''' then
        refuse_task rep (Req_Context r) ''missing Idempotency-Key''
      else case Option.bind (Req_Body r) (\<lambda>b. case decode_create b of Inl _ \<Rightarrow> None | Inr req \<Rightarrow> Some req) of
        None \<Rightarrow> refuse_task rep (Req_Context r) ''invalid request body''
      | Some req \<Rightarrow> do {
          created \<leftarrow> CreateTask s req;
          case created of
            Inl err \<Rightarrow> do { resp \<leftarrow> WriteHTTPWithContext rep (Req_Context r) (Some err); ret (Returned (Inr resp)) }
          | Inr t \<Rightarrow> ret (Returned (Inr (writeOK (Req_Context r) (JObj (task_body t))))) })"

definition getTask :: "(int \<Rightarrow> string) \<Rightarrow> reporter \<Rightarrow> body_request \<Rightarrow> response outcome io" where
  "getTask rfc3339milli rep r = (case parsePositiveInt64 (Req_PathValue r ''task_id'') of
     None \<Rightarrow> refuse_task rep (Req_Context r) ''invalid task_id''
   | Some taskID \<Rightarrow> do {
       found \<leftarrow> GetTask taskID;
       case found of
         Inl err \<Rightarrow> do { resp \<leftarrow> WriteHTTPWithContext rep (Req_Context r) (Some err); ret (Returned (Inr resp)) }
       | Inr t \<Rightarrow> ret (Returned (Inr (writeOK (Req_Context r) (JObj (task_body t @
           (''last_error'', JStr (Task_LastError t)) #
           (case Task_NextRetry t of None \<Rightarrow> [] | Some n \<Rightarrow> [(''next_retry_at'', JStr (rfc3339milli n))])))))) })"

definition replayTask :: "reporter \<Rightarrow> task_Service \<Rightarrow> body_request \<Rightarrow> response outcome io" where
  "replayTask rep s r = (case parsePositiveInt64 (Req_PathValue r ''task_id'') of
     None \<Rightarrow> refuse_task rep (Req_Context r) ''invalid task_id''
   | Some taskID \<Rightarrow> do {
       replayed \<leftarrow> ReplayDLQTask s taskID;
       case replayed of
         Panicked p \<Rightarrow> ret (Panicked p)
       | Returned (Inl err) \<Rightarrow> do {
           resp \<leftarrow> WriteHTTPWithContext rep (Req_Context r) (Some err); ret (Returned (Inr resp)) }
       | Returned (Inr _) \<Rightarrow> ret (Returned (Inr (writeOK (Req_Context r)
           (JObj [(''task_id'', JNum (FormatInt taskID)), (''replayed'', JBool True)])))) })"

section \<open>Creating a task\<close>

text \<open>The task is new: it is added, PENDING, together with the event that names it.\<close>

definition task_added :: "CreateTaskParams \<Rightarrow> db \<Rightarrow> AsyncTask \<Rightarrow> db \<Rightarrow> bool" where
  "task_added p d t d' \<longleftrightarrow>
     (\<forall>r \<in> set (db_tasks d). \<not> same_task_key d (TaskParams_TaskType p) (TaskParams_BizID p) r) \<and>
     Task_ID t = db_next_task_id d \<and> Task_Status t = task_StatusPending \<and>
     Task_TaskType t = TaskParams_TaskType p \<and> Task_BizID t = TaskParams_BizID p \<and> Task_Payload t = TaskParams_Payload p \<and>
     (\<exists>now1 now2. d' = with_event (notice_event (db_next_task_id d)) now2 (with_task p now1 d))"

text \<open>A task with that type and business id exists: it is the answer.\<close>

definition task_known :: "CreateTaskParams \<Rightarrow> db \<Rightarrow> AsyncTask \<Rightarrow> db \<Rightarrow> bool" where
  "task_known p d t d' \<longleftrightarrow>
     (\<exists>r \<in> set (db_tasks d). same_task_key d (TaskParams_TaskType p) (TaskParams_BizID p) r \<and> t = scanTask r) \<and>
     d' = d\<lparr>db_next_task_id := db_next_task_id d + 1\<rparr>"

definition create_outcome :: "CreateTaskParams \<Rightarrow> db \<Rightarrow> AsyncTask result \<Rightarrow> db \<Rightarrow> bool" where
  "create_outcome p d res d' \<longleftrightarrow> (case res of
     Inr t \<Rightarrow> task_added p d t d' \<or> task_known p d t d'
   | Inl e \<Rightarrow> counters_le d d')"

lemma create_outcome_counters: "create_outcome p d res d' \<Longrightarrow> counters_le d d'"
  by (cases res)
    (auto simp: create_outcome_def task_added_def task_known_def with_event_def insert_event_def with_task_def counters_le_def)

lemma wp_task_CreateTx_answer:
  assumes "w_tx w = Some d"
  shows "wp (task_CreateTx p) (\<lambda>r _. \<forall>t. r = Inr t \<longrightarrow> Task_TaskType t = TaskParams_TaskType p \<and>
     Task_BizID t = TaskParams_BizID p \<and> Task_Payload t = TaskParams_Payload p) w"
  unfolding task_CreateTx_def Let_def wp_bind
  by (rule wp_tx_clock [OF assms]) (auto intro!: wp_tx_stmt [where d = d] simp: tx_to_tx split: sum.split)

lemma wp_createTask_tx:
  assumes tx: "w_tx w = Some d" and same: "db_tasks d = db_tasks (w_db w)" "db_collate d = db_collate (w_db w)"
  shows "wp (createTask_tx p) (\<lambda>r w'. \<exists>d'. tx_to w d' w' \<and> create_outcome p d r d') w"
    (is "wp _ ?Q w")
proof -
  let ?K = "\<lambda>r. wp (case r of
       Inl err \<Rightarrow> if errors_Is err ErrTaskDuplicate then
           mapErr (\<lambda>getErr. ErrWrap ''query duplicated task: '' getErr '''')
             (GetByTypeBiz (TaskParams_TaskType p) (TaskParams_BizID p))
         else throwE err
     | Inr task \<Rightarrow> bindE (outbox_CreateTx (notice_event (Task_ID task))) (\<lambda>_. returnE task)) ?Q"
  have "wp (task_CreateTx p) (\<lambda>r w'. (\<forall>t. r = Inr t \<longrightarrow> Task_TaskType t = TaskParams_TaskType p \<and>
     Task_BizID t = TaskParams_BizID p \<and> Task_Payload t = TaskParams_Payload p) \<longrightarrow> ?K r w') w"
  proof (rule wp_task_CreateTx [OF tx], goal_cases)
    case (1 now t w1)
    have "wp (bindE (outbox_CreateTx (notice_event (Task_ID t))) (\<lambda>_. returnE t)) ?Q w1"
      if fields: "Task_TaskType t = TaskParams_TaskType p" "Task_BizID t = TaskParams_BizID p"
        "Task_Payload t = TaskParams_Payload p"
      unfolding wp_bindE
    proof (rule wp_outbox_CreateTx [OF tx_to_tx [OF 1(4)]], goal_cases)
      case (1 now2 evt w2)
      then have "task_added p d t (with_event (notice_event (db_next_task_id d)) now2 (with_task p now d))"
        using \<open>\<forall>r \<in> set (db_tasks d). _ r\<close> fields \<open>Task_ID t = _\<close> \<open>Task_Status t = _\<close>
        unfolding task_added_def by blast
      with 1 tx_to_trans [OF \<open>tx_to w _ w1\<close> 1(1)] \<open>Task_ID t = _\<close> show ?case by (auto simp: create_outcome_def)
    next
      case (2 e w2 d2)
      moreover have "counters_le d (with_task p now d)" by (simp add: with_task_def counters_le_def)
      ultimately show ?case using tx_to_trans [OF \<open>tx_to w _ w1\<close> 2(1)] counters_le_trans
        by (auto simp: create_outcome_def)
    qed
    then show ?case by auto
  next
    case (2 r w1)
    let ?d1 = "d\<lparr>db_next_task_id := db_next_task_id d + 1\<rparr>"
    have le: "counters_le d ?d1" by (simp add: counters_le_def)
    have w1: "w_db w1 = w_db w" "w_tx w1 = Some ?d1" using 2(3) by (simp_all add: tx_to_def)
    have "same_task_key (w_db w1) = same_task_key d" using same w1 by (simp add: same_task_key_def fun_eq_iff)
    then obtain r' where r': "sql_row (same_task_key (w_db w1) (TaskParams_TaskType p) (TaskParams_BizID p))
        (db_tasks (w_db w1)) = Some r'" "r' \<in> set (db_tasks d)" "same_task_key d (TaskParams_TaskType p) (TaskParams_BizID p) r'"
      using 2(1,2) same w1
      by (cases "sql_row (same_task_key d (TaskParams_TaskType p) (TaskParams_BizID p)) (db_tasks d)")
        (auto simp: sql_row_None_iff dest: sql_row_Some_iff)
    have "wp (mapErr (\<lambda>getErr. ErrWrap ''query duplicated task: '' getErr '''')
        (GetByTypeBiz (TaskParams_TaskType p) (TaskParams_BizID p))) ?Q w1"
      unfolding wp_mapErr
      by (rule wp_GetByTypeBiz)
        (use r' le tx_to_trans [OF 2(3) idle_tx_to [OF _ w1(2)]] in \<open>auto simp: create_outcome_def task_known_def\<close>)
    then show ?case by (simp add: ErrTaskDuplicate_def)
  next
    case (3 e w1 d1)
    then show ?case by (auto simp: ErrTaskDuplicate_def create_outcome_def)
  qed
  then have "wp (task_CreateTx p) ?K w" using wp_task_CreateTx_answer [OF tx, of p] by (simp add: wp_iff)
  then show ?thesis unfolding createTask_tx_def notice_event_def wp_bind .
qed

text \<open>The transaction as a whole.\<close>

definition task_create_effect :: "CreateTaskParams \<Rightarrow> AsyncTask result \<Rightarrow> db \<Rightarrow> db \<Rightarrow> bool" where
  "task_create_effect p res d d' \<longleftrightarrow> (case res of
     Inr t \<Rightarrow> task_added p d t d' \<or> task_known p d t d'
   | Inl e \<Rightarrow> (\<exists>d1. counters_le d d1 \<and> d' = rolled_back d d1) \<or>
       (\<exists>s. e = commit_err s) \<and> (\<exists>t. task_added p d t d'))"

lemma same_tables_rolled_back [simp]: "same_tables d (rolled_back d d')"
  by (simp add: same_tables_def rolled_back_def)

lemma wp_create_within_tx:
  assumes "w_tx w = None"
  shows "wp (within_tx (createTask_tx p)) (\<lambda>res w'. same_env w w' \<and> w_tx w' = None \<and>
     task_create_effect p res (w_db w) (w_db w')) w"
proof (rule wp_within_tx [where R = "create_outcome p (w_db w)"], goal_cases)
  case (1 fs)
  show ?case
    by (rule wp_mono [OF wp_createTask_tx [where d = "w_db w"]]) (auto simp: tx_to_def)
next
  case (2 e w')
  then show ?case using assms rolled_back_self [of "w_db w"] by (simp add: task_create_effect_def)
next
  case (3 a w')
  then show ?case by (simp add: task_create_effect_def create_outcome_def)
next
  case (4 e w')
  then obtain a where a: "create_outcome p (w_db w) (Inr a) (w_db w') \<or>
      (\<exists>d. create_outcome p (w_db w) (Inr a) d \<and> w_db w' = rolled_back (w_db w) d)" by blast
  have "\<exists>d1. counters_le (w_db w) d1 \<and> w_db w' = rolled_back (w_db w) d1" if "task_known p (w_db w) a (w_db w')"
    by (rule exI [of _ "w_db w'"]) (use that in \<open>auto simp: task_known_def rolled_back_def counters_le_def\<close>)
  with a 4(2,3) create_outcome_counters [of p "w_db w" "Inr a"] show ?case
    by (auto simp: task_create_effect_def create_outcome_def)
next
  case (5 e w')
  then obtain d where d: "create_outcome p (w_db w) (Inl e) d" "w_db w' = rolled_back (w_db w) d" by blast
  with create_outcome_counters [OF d(1)] 5(2,3) show ?case by (auto simp: task_create_effect_def)
qed

section \<open>Replaying a dead task\<close>

definition replayed_row :: "task_row \<Rightarrow> task_row \<Rightarrow> bool" where
  "replayed_row r r' \<longleftrightarrow> tk_status r \<in> {task_StatusDead, task_StatusFailed} \<and> (\<exists>now. r' = replay_task now r)"

definition given_up :: "task_row \<Rightarrow> task_row \<Rightarrow> bool" where
  "given_up r r' \<longleftrightarrow> (\<exists>x. replayed_row r x \<and> (\<exists>now. r' = restored_task now x))"

definition moved_to_ready :: "int \<Rightarrow> queue_view \<Rightarrow> queue_view \<Rightarrow> bool" where
  "moved_to_ready i v v' \<longleftrightarrow> FormatInt i \<in> set (qv_dlq v) \<and>
     v' = v\<lparr>qv_ready := qv_ready v @ [FormatInt i], qv_dlq := remove1 (FormatInt i) (qv_dlq v)\<rparr>"

definition replay_effect :: "int \<Rightarrow> unit result \<Rightarrow> (int \<rightharpoonup> task_row) \<Rightarrow> (int \<rightharpoonup> task_row) \<Rightarrow> queue_view \<Rightarrow> queue_view \<Rightarrow> bool" where
  "replay_effect i res m m' v v' \<longleftrightarrow> (case res of
     Inr _ \<Rightarrow> row_to replayed_row i m m' \<and> moved_to_ready i v v'
   | Inl e \<Rightarrow> m' = m \<and> v' = v \<or>
       (row_to replayed_row i m m' \<or> row_to given_up i m m') \<and>
       (v' = v \<or> moved_to_ready i v v' \<and> HTTPStatus (Some e) = 500))"

lemma replayed_reaches: "replayed_row r r' \<Longrightarrow> task_reaches r r'" "given_up r r' \<Longrightarrow> task_reaches r r'"
proof -
  show replay: "task_reaches r r'" if "replayed_row r r'" for r r'
    using that by (auto simp: replayed_row_def intro: trans_replay)
  show "task_reaches r r'" if up: "given_up r r'"
  proof -
    obtain x now where x: "replayed_row r x" "r' = restored_task now x" using up by (auto simp: given_up_def)
    then have "task_trans x r'" by (auto simp: replayed_row_def intro: trans_restore)
    with replay [OF x(1)] show ?thesis by simp
  qed
qed

lemma moved_replay: "task_moved i {task_StatusDead, task_StatusFailed} replay_task w w' \<Longrightarrow>
    row_to replayed_row i (task_at w) (task_at w')"
  by (erule task_moved_row) (auto simp: replayed_row_def)

lemma wp_restore_dead:
  assumes "task_inv q w" "row_to replayed_row i m (task_at w)"
    and "\<And>r w'. task_inv q w' \<Longrightarrow> row_to replayed_row i m (task_at w') \<or> row_to given_up i m (task_at w') \<Longrightarrow>
      qview q w' = qview q w \<Longrightarrow> Q r w'"
  shows "wp (RestoreDeadAfterReplayFailure i) Q w"
proof -
  have ok: "tasks_ok w" using assms(1) by (simp add: task_inv_def)
  have restored: "row_to given_up i m (task_at w')" if "task_moved i {task_StatusFailed} restored_task w w'" for w'
  proof -
    have "row_to (\<lambda>x y. \<exists>now. y = restored_task now x) i (task_at w) (task_at w')"
      by (rule task_moved_row [OF that]) auto
    then obtain x now where x: "task_at w i = Some x" "task_at w' = (task_at w)(i \<mapsto> restored_task now x)"
      by (auto simp: row_to_def)
    obtain r where r: "m i = Some r" "replayed_row r x" "task_at w = m(i \<mapsto> x)"
      using assms(2) x(1) by (auto simp: row_to_def)
    show ?thesis by (rule row_toI [where r = r]) (use x(2) r in \<open>auto simp: given_up_def\<close>)
  qed
  have ended: "Q r w'" if "task_moved i {task_StatusFailed} restored_task w w' \<or> idle w w'" for r w'
    using that
  proof (elim disjE)
    assume moved: "task_moved i {task_StatusFailed} restored_task w w'"
    show ?thesis by (rule assms(3)) (use task_inv_moved [OF moved, of q] restored [OF moved] assms(1) in simp_all)
  next
    assume idle: "idle w w'"
    show ?thesis by (rule assms(3)) (use task_inv_idle [OF idle, of q] assms(1,2) in simp_all)
  qed
  show ?thesis by (rule wp_RestoreDead [OF ok]) (rule ended, blast)+
qed

lemma wp_ReplayDLQTask:
  assumes inv: "task_inv q w" and queue: "TaskSvc_queue s = RedisQueue q"
  shows "wp (ReplayDLQTask s i) (\<lambda>out w'. task_inv q w' \<and> (\<exists>res. out = Returned res \<and>
     replay_effect i res (task_at w) (task_at w') (qview q w) (qview q w'))) w"
    (is "wp _ ?Q w")
proof (cases "i \<le> 0")
  case True
  then show ?thesis using inv by (simp add: ReplayDLQTask_def replay_effect_def)
next
  case False
  have ok: "tasks_ok w" using inv by (simp add: task_inv_def)
  have stop: "?Q (Returned (Inl e)) w'" if "idle w w' \<or> task_moved i {task_StatusDead, task_StatusFailed} replay_task w w'" for e w'
    using that inv task_inv_idle [of w w' q] task_inv_moved [of i _ _ w w' q] moved_replay [of i w w']
    by (auto simp: replay_effect_def)
  have undo: "wp (RestoreDeadAfterReplayFailure i) (\<lambda>_. ?Q (Returned (Inl e))) w2"
    if "task_inv q w2" "row_to replayed_row i (task_at w) (task_at w2)"
      "qview q w2 = qview q w \<or> moved_to_ready i (qview q w) (qview q w2) \<and> HTTPStatus (Some e) = 500" for e w2
    by (rule wp_restore_dead [OF that(1,2)]) (use that(3) in \<open>auto simp: replay_effect_def\<close>)
  have move: "wp (ReplayFromDLQ q i) (\<lambda>moved. wp (case moved of
        Inl err \<Rightarrow> State_Monad.bind (RestoreDeadAfterReplayFailure i) (\<lambda>_.
          ret (Returned (Inl (apperr_Wrap CodeInternalError ''replay task from dlq failed'' err))))
      | Inr False \<Rightarrow> State_Monad.bind (RestoreDeadAfterReplayFailure i) (\<lambda>_.
          ret (Returned (Inl (apperr_New CodeNotFound ''task not found in dlq''))))
      | Inr True \<Rightarrow> ret (Returned (Inr ()))) ?Q) w1"
    if w1: "task_inv q w1" "row_to replayed_row i (task_at w) (task_at w1)" "qview q w1 = qview q w" for w1
  proof (rule wp_ReplayFromDLQ, goal_cases)
    case 1
    then show ?case using w1(1) by (simp add: task_inv_def)
  next
    case (2 r w2)
    then have "task_inv q w2" "task_at w2 = task_at w1" "moved_to_ready i (qview q w) (qview q w2)"
      using task_inv_queue [OF 2(3) w1(1)] w1(3) by (simp_all add: moved_to_ready_def)
    with 2(2) w1(2) undo [of w2] show ?case by (auto simp: replay_effect_def [of i "Inr ()"])
  next
    case (3 w2)
    then show ?case using task_inv_queue [OF 3(2) w1(1)] w1(2,3) undo [of w2] by auto
  next
    case (4 e w2)
    then show ?case using task_inv_queue [OF 4 w1(1)] w1(2,3) undo [of w2] by auto
  qed
  have queue': "TaskSvc_queue s \<noteq> NoQueue" using queue by simp
  show ?thesis
    unfolding ReplayDLQTask_def if_not_P [OF False] if_not_P [OF queue'] wp_bind
  proof (rule wp_MarkReplayReady [OF ok], goal_cases)
    case (1 w1)
    have "task_inv q w1" "qview q w1 = qview q w" using task_inv_moved [OF 1, of q] inv by simp_all
    note run = move [OF this(1) moved_replay [OF 1] this(2)]
    show ?case unfolding sum.case queue replay_queue_def dlqQueue.case wp_bind wp_ret outcome.case by (rule run)
  next
    case (2 w1)
    then show ?case unfolding sum.case wp_ret by (intro stop) simp
  next
    case (3 w1 s)
    then show ?case unfolding sum.case wp_ret by (intro stop)
  next
    case (4 e pre w1)
    then show ?case unfolding sum.case wp_ret by (intro stop) blast
  qed
qed

section \<open>Runs without faults\<close>

lemma run_MarkReplayReady:
  assumes "calm w" "tasks_ok w" "task_at w i = Some r" "tk_status r \<in> {task_StatusDead, task_StatusFailed}"
    and "tk_status r = task_StatusDead \<or> tk_next_retry_at r \<noteq> None"
  shows "run_state (MarkReplayReady i) w = (Inr (), put_task i (replay_task (w_now w) r) w)"
proof -
  have "tk_status (replay_task (w_now w) r) \<noteq> tk_status r \<or> tk_next_retry_at (replay_task (w_now w) r) \<noteq> tk_next_retry_at r"
    using assms(4,5) by (auto simp: replay_task_def)
  then have "replay_task (w_now w) r \<noteq> r" by metis
  with run_update_task [OF assms(1-4), of "replay_task (w_now w)"] assms(1) show ?thesis
    by (simp add: MarkReplayReady_def)
qed

lemma run_RestoreDead:
  assumes "calm w" "tasks_ok w" "task_at w i = Some r" "tk_status r = task_StatusFailed"
  shows "run_state (RestoreDeadAfterReplayFailure i) w = (Inr (), put_task i (restored_task (w_now w) r) w)"
proof -
  have "restored_task (w_now w) r \<noteq> r"
    using status_changes [of r "{task_StatusFailed}" "restored_task (w_now w) r"] assms(4) by simp
  with run_update_task [OF assms(1-3), of "{task_StatusFailed}" "restored_task (w_now w)"] assms(1,4) show ?thesis
    by (simp add: RestoreDeadAfterReplayFailure_def)
qed

lemma run_ReplayFromDLQ:
  assumes "calm w" "queue_ok q w"
  shows "FormatInt i \<in> set (qv_dlq (qview q w)) \<Longrightarrow> \<exists>m. run_state (ReplayFromDLQ q i) w = (Inr True, w\<lparr>w_kv := m\<rparr>) \<and>
      moved_to_ready i (qview q w) (qview q (w\<lparr>w_kv := m\<rparr>))"
    and "FormatInt i \<notin> set (qv_dlq (qview q w)) \<Longrightarrow> \<exists>m. run_state (ReplayFromDLQ q i) w = (Inr False, w\<lparr>w_kv := m\<rparr>) \<and>
      queue_ok q (w\<lparr>w_kv := m\<rparr>) \<and> qview q (w\<lparr>w_kv := m\<rparr>) = qview q w"
proof -
  note run = queue_scripts(2) [OF assms(2), of "FormatInt i" "UnixMilli (w_now w)"]
  show "\<exists>m. run_state (ReplayFromDLQ q i) w = (Inr True, w\<lparr>w_kv := m\<rparr>) \<and>
      moved_to_ready i (qview q w) (qview q (w\<lparr>w_kv := m\<rparr>))" if "FormatInt i \<in> set (qv_dlq (qview q w))"
    using queue_put_both(1) [OF assms(2), where fs = "w_faults w"] that assms(1)
    by (auto simp: ReplayFromDLQ_def run moved_to_ready_def queue_upd_def intro!: exI)
  show "\<exists>m. run_state (ReplayFromDLQ q i) w = (Inr False, w\<lparr>w_kv := m\<rparr>) \<and>
      queue_ok q (w\<lparr>w_kv := m\<rparr>) \<and> qview q (w\<lparr>w_kv := m\<rparr>) = qview q w" if "FormatInt i \<notin> set (qv_dlq (qview q w))"
    using queue_put_dlq [OF assms(2), where fs = "w_faults w"] that assms(1)
    by (auto simp: ReplayFromDLQ_def run queue_upd_def intro!: exI)
qed

lemma replay_start:
  assumes "calm w" "task_inv q w" "task_at w i = Some r" "tk_status r \<in> {task_StatusDead, task_StatusFailed}"
    and "tk_status r = task_StatusDead \<or> tk_next_retry_at r \<noteq> None"
  defines "w1 \<equiv> put_task i (replay_task (w_now w) r) w"
  shows "run_state (MarkReplayReady i) w = (Inr (), w1)" "calm w1" "task_inv q w1" "qview q w1 = qview q w"
    "task_at w1 = (task_at w)(i \<mapsto> replay_task (w_now w) r)"
proof -
  have ok: "tasks_ok w" using assms(2) by (simp add: task_inv_def)
  have id: "tk_task_id (replay_task (w_now w) r) = i" using task_at_id [OF assms(3)] by simp
  show "run_state (MarkReplayReady i) w = (Inr (), w1)"
    unfolding w1_def by (rule run_MarkReplayReady [OF assms(1) ok assms(3-5)])
  show "calm w1" "task_inv q w1" "qview q w1 = qview q w" using assms(1,2) id by (simp_all add: w1_def)
  show "task_at w1 = (task_at w)(i \<mapsto> replay_task (w_now w) r)" using put_task_rows(3) [OF id, of w] assms(3) by (simp add: w1_def)
qed

lemma task_rows_kv [simp]: "task_at (w\<lparr>w_kv := m\<rparr>) = task_at w" "tasks_ok (w\<lparr>w_kv := m\<rparr>) = tasks_ok w"
  by (simp_all add: task_at_def tasks_ok_def fun_eq_iff)

section \<open>Properties\<close>

text \<open>
  C20. Creating a task is idempotent and atomic. Whatever round trips fail, a successful answer is
  either the one new task, PENDING and committed together with an outbox event that names it, or the
  task that already had this type and business id, and then no table changes. After an error no
  table has changed, unless the task was committed with its event and the error is the one that reports a lost answer to
  the commit. A request without type, business id or payload is refused with 400; every other error is a 500 that
  says \<^verbatim>\<open>create task failed\<close> and wraps its cause.
\<close>

theorem create_task_atomic:
  assumes "w_tx w = None"
  shows "let m = CreateTask s req; w' = final m w in w_tx w' = None \<and> (case answer m w of
      Inr t \<Rightarrow> \<exists>p. create_params s req = Some p \<and> (task_added p (w_db w) t (w_db w') \<or>
                 task_known p (w_db w) t (w_db w') \<and> same_tables (w_db w) (w_db w'))
    | Inl e \<Rightarrow> (HTTPStatus (Some e) = 400 \<longleftrightarrow> create_params s req = None) \<and>
        (case create_params s req of
           None \<Rightarrow> same_tables (w_db w) (w_db w')
         | Some p \<Rightarrow> \<exists>cause. e = apperr_Wrap CodeInternalError ''create task failed'' cause \<and>
             (same_tables (w_db w) (w_db w') \<or> (\<exists>t lost. task_added p (w_db w) t (w_db w') \<and> cause = commit_err lost))))"
proof (cases "create_params s req")
  case None
  then show ?thesis using assms by (simp add: CreateTask_def answer_def final_def same_tables_def)
next
  case (Some p)
  have known: "same_tables d d'" if "task_known p d t d'" for d t d'
    using that by (auto simp: task_known_def same_tables_def)
  have "wp (CreateTask s req) (\<lambda>res w'. w_tx w' = None \<and> (case res of
      Inr t \<Rightarrow> task_added p (w_db w) t (w_db w') \<or> task_known p (w_db w) t (w_db w') \<and> same_tables (w_db w) (w_db w')
    | Inl e \<Rightarrow> \<exists>cause. e = apperr_Wrap CodeInternalError ''create task failed'' cause \<and> (same_tables (w_db w) (w_db w') \<or>
        (\<exists>t lost. task_added p (w_db w) t (w_db w') \<and> cause = commit_err lost)))) w"
    unfolding CreateTask_def Some option.case wp_mapErr
    by (rule wp_mono [OF wp_create_within_tx [OF assms]])
      (auto simp: task_create_effect_def known split: sum.splits)
  then show ?thesis using Some by (auto simp: wp_iff Let_def split: sum.splits)
qed

definition demo_create :: CreateTaskRequest where
  "demo_create = \<lparr>Create_TaskType = '' SEND_COUPON_NOTICE '', Create_BizID = ''claim:1'', Create_Payload = Some JNull,
     Create_MaxRetry = 0\<rparr>"

theorem create_task_atomic_witness:
  "let w = demo_board [NoFault, Lost ''reset'']; s = NewServiceWithQueue NoQueue 0; req = demo_create; m = CreateTask s req; w' = final m w in
    w_tx w' = None \<and> (case answer m w of
      Inr t \<Rightarrow> \<exists>p. create_params s req = Some p \<and> (task_added p (w_db w) t (w_db w') \<or>
                 task_known p (w_db w) t (w_db w') \<and> same_tables (w_db w) (w_db w'))
    | Inl e \<Rightarrow> (HTTPStatus (Some e) = 400 \<longleftrightarrow> create_params s req = None) \<and>
        (case create_params s req of
           None \<Rightarrow> same_tables (w_db w) (w_db w')
         | Some p \<Rightarrow> \<exists>cause. e = apperr_Wrap CodeInternalError ''create task failed'' cause \<and>
             (same_tables (w_db w) (w_db w') \<or> (\<exists>t lost. task_added p (w_db w) t (w_db w') \<and> cause = commit_err lost))))"
  unfolding Let_def by (rule create_task_atomic [unfolded Let_def]) (simp add: demo_board_def)

text \<open>
  C21. Replay is safe. Whatever round trips fail, a replay request never panics when a queue is
  configured and touches no other task. It answers success only if the task is now FAILED without a
  retry time and its id has moved from the dead-letter list to the ready list. After an error the
  task and the queue are as before, or the task was marked for replay (and possibly made DEAD
  again); only after a 500 can the id have moved, and it is never in neither list.
\<close>

theorem replay_safe:
  assumes "task_inv q w"
  shows "let m = ReplayDLQTask (NewServiceWithQueue (RedisQueue q) n) i; w' = final m w in
    task_inv q w' \<and> (\<exists>res. answer m w = Returned res \<and>
      replay_effect i res (task_at w) (task_at w') (qview q w) (qview q w'))"
  using wp_ReplayDLQTask [OF assms, of "NewServiceWithQueue (RedisQueue q) n" i]
  by (simp add: wp_iff NewServiceWithQueue_def Let_def)

theorem replay_safe_witness:
  "let w = demo_board [Lost ''reset'']; m = ReplayDLQTask (NewServiceWithQueue (RedisQueue demo_keys) 5) 1; w' = final m w in
    task_inv demo_keys w' \<and> (\<exists>res. answer m w = Returned res \<and>
      replay_effect 1 res (task_at w) (task_at w') (qview demo_keys w) (qview demo_keys w'))"
  unfolding Let_def by (rule replay_safe [unfolded Let_def, OF demo_board_inv])

text \<open>
  C22. A dead task can be replayed. Without faults, replaying a DEAD task whose id is in the
  dead-letter list succeeds: the task is FAILED, which the workers accept, and its id is at the end
  of the ready list.
\<close>

theorem replay_revives:
  assumes "calm w" "task_inv q w" "task_at w i = Some r" "tk_status r = task_StatusDead" "0 < i"
    and "FormatInt i \<in> set (qv_dlq (qview q w))"
  shows "let m = ReplayDLQTask (NewServiceWithQueue (RedisQueue q) n) i; w' = final m w in
    answer m w = Returned (Inr ()) \<and> task_at w' = (task_at w)(i \<mapsto> replay_task (w_now w) r) \<and>
    moved_to_ready i (qview q w) (qview q w')"
proof -
  have "tk_status r \<in> {task_StatusDead, task_StatusFailed}" "tk_status r = task_StatusDead \<or> tk_next_retry_at r \<noteq> None"
    using assms(4) by simp_all
  note start = replay_start [OF assms(1-3) this]
  have "queue_ok q (put_task i (replay_task (w_now w) r) w)" using start(3) by (simp add: task_inv_def)
  from run_ReplayFromDLQ(1) [OF start(2) this, unfolded start(4), OF assms(6)] obtain m where
    "run_state (ReplayFromDLQ q i) (put_task i (replay_task (w_now w) r) w) =
       (Inr True, put_task i (replay_task (w_now w) r) w\<lparr>w_kv := m\<rparr>)"
    "moved_to_ready i (qview q w) (qview q (put_task i (replay_task (w_now w) r) w\<lparr>w_kv := m\<rparr>))" by blast
  with start assms(5) show ?thesis
    by (simp add: ReplayDLQTask_def NewServiceWithQueue_def replay_queue_def answer_def final_def Let_def)
qed

text \<open>A dead task in the dead-letter list, and a failed one that waits for its retry.\<close>

definition demo_dead :: task_row where
  "demo_dead = (demo_task 1)\<lparr>tk_status := task_StatusDead\<rparr>"

definition demo_waiting :: task_row where
  "demo_waiting = (demo_task 1)\<lparr>tk_status := task_StatusFailed, tk_next_retry_at := Some Hour\<rparr>"

definition demo_letter :: "task_row \<Rightarrow> string list \<Rightarrow> world" where
  "demo_letter r dlq = (put_task 1 r (demo_board []))\<lparr>w_kv := (\<lambda>_. None)(''queue:task:dlq'' \<mapsto> (RList dlq, None))\<rparr>"

lemma demo_letter_facts:
  assumes "r \<in> {demo_dead, demo_waiting}"
  shows "calm (demo_letter r dlq)" "task_inv demo_keys (demo_letter r dlq)" "task_at (demo_letter r dlq) 1 = Some r"
    "qv_dlq (qview demo_keys (demo_letter r dlq)) = dlq"
proof -
  have id: "tk_task_id r = 1" using assms by (auto simp: demo_dead_def demo_waiting_def demo_task_def)
  have board: "task_at (demo_board []) 1 = Some (demo_task 1)" "tasks_ok (demo_board [])"
    by (simp_all add: task_at_def demo_board_def sql_row_def demo_task_def tasks_ok_def)
  show "calm (demo_letter r dlq)" by (simp add: demo_letter_def) (simp add: calm_def demo_board_def)
  show "task_at (demo_letter r dlq) 1 = Some r" using board id by (simp add: demo_letter_def)
  show "qv_dlq (qview demo_keys (demo_letter r dlq)) = dlq"
    by (simp add: demo_letter_def qview_def demo_keys_def QueueConfig_withDefaults_def rlist_def)
  show "task_inv demo_keys (demo_letter r dlq)"
    using board id
    by (simp add: task_inv_def demo_letter_def queue_ok_def demo_keys_def QueueConfig_withDefaults_def list_key_def zset_key_def)
      (simp add: demo_board_def)
qed

theorem replay_revives_witness:
  "let w = demo_letter demo_dead [''1'']; m = ReplayDLQTask (NewServiceWithQueue (RedisQueue demo_keys) 5) 1; w' = final m w in
    answer m w = Returned (Inr ()) \<and> task_at w' = (task_at w)(1 \<mapsto> replay_task (w_now w) demo_dead) \<and>
    moved_to_ready 1 (qview demo_keys w) (qview demo_keys w')"
proof -
  have r: "demo_dead \<in> {demo_dead, demo_waiting}" "tk_status demo_dead = task_StatusDead" by (simp_all add: demo_dead_def)
  note facts = demo_letter_facts [OF r(1), of "[''1'']"]
  have "FormatInt 1 \<in> set (qv_dlq (qview demo_keys (demo_letter demo_dead [''1''])))" unfolding facts(4) by code_simp
  with replay_revives [OF facts(1-3) r(2)] show ?thesis by simp
qed

text \<open>
  C23. A replay request can bury a task. Without faults, a replay request for a FAILED task that only
  waits for its retry (its id is not in the dead-letter list) answers 404, but it leaves the task
  DEAD and without a retry time while its id is still not in the dead-letter list: no later
  replay can revive it and no worker accepts it.
\<close>

theorem replay_buries_waiting_task:
  assumes "calm w" "task_inv q w" "task_at w i = Some r" "tk_status r = task_StatusFailed" "tk_next_retry_at r \<noteq> None" "0 < i"
    and "FormatInt i \<notin> set (qv_dlq (qview q w))"
  shows "let m = ReplayDLQTask (NewServiceWithQueue (RedisQueue q) n) i; w' = final m w in
    answer m w = Returned (Inl (apperr_New CodeNotFound ''task not found in dlq'')) \<and> qview q w' = qview q w \<and>
    (\<exists>r'. task_at w' = (task_at w)(i \<mapsto> r') \<and> tk_status r' = task_StatusDead \<and> tk_next_retry_at r' = None)"
proof -
  have "tk_status r \<in> {task_StatusDead, task_StatusFailed}" "tk_status r = task_StatusDead \<or> tk_next_retry_at r \<noteq> None"
    using assms(4,5) by simp_all
  note start = replay_start [OF assms(1-3) this]
  let ?x = "replay_task (w_now w) r"
  have "queue_ok q (put_task i ?x w)" using start(3) by (simp add: task_inv_def)
  from run_ReplayFromDLQ(2) [OF start(2) this, unfolded start(4), OF assms(7)] obtain m where
    m: "run_state (ReplayFromDLQ q i) (put_task i ?x w) = (Inr False, put_task i ?x w\<lparr>w_kv := m\<rparr>)"
      "queue_ok q (put_task i ?x w\<lparr>w_kv := m\<rparr>)" "qview q (put_task i ?x w\<lparr>w_kv := m\<rparr>) = qview q w" by blast
  let ?w2 = "put_task i ?x w\<lparr>w_kv := m\<rparr>"
  let ?y = "restored_task (w_now w) ?x"
  have id: "tk_task_id ?y = i" using task_at_id [OF assms(3)] by simp
  have at: "task_at ?w2 i = Some ?x" "tasks_ok ?w2" using start(3,5) by (simp_all add: task_inv_def)
  have undo: "run_state (RestoreDeadAfterReplayFailure i) ?w2 = (Inr (), put_task i ?y ?w2)"
    using run_RestoreDead [of ?w2 i ?x] at start(2) by simp
  have "task_at (put_task i ?y ?w2) = (task_at w)(i \<mapsto> ?y)" using put_task_rows(3) [OF id, of ?w2] at(1) start(5) by simp
  moreover have "tk_status ?y = task_StatusDead" "tk_next_retry_at ?y = None" by (simp_all add: restored_task_def replay_task_def)
  ultimately show ?thesis
    using start(1) m undo assms(6)
    by (auto simp: ReplayDLQTask_def NewServiceWithQueue_def replay_queue_def answer_def final_def Let_def)
qed

theorem replay_buries_waiting_task_witness:
  "let w = demo_letter demo_waiting []; m = ReplayDLQTask (NewServiceWithQueue (RedisQueue demo_keys) 5) 1; w' = final m w in
    answer m w = Returned (Inl (apperr_New CodeNotFound ''task not found in dlq'')) \<and> qview demo_keys w' = qview demo_keys w \<and>
    (\<exists>r'. task_at w' = (task_at w)(1 \<mapsto> r') \<and> tk_status r' = task_StatusDead \<and> tk_next_retry_at r' = None)"
proof -
  have r: "demo_waiting \<in> {demo_dead, demo_waiting}" "tk_status demo_waiting = task_StatusFailed"
      "tk_next_retry_at demo_waiting \<noteq> None" by (simp_all add: demo_waiting_def)
  note facts = demo_letter_facts [OF r(1), of "[]"]
  from replay_buries_waiting_task [OF facts(1-3) r(2,3), of 5] facts(4) show ?thesis by simp
qed

text \<open>
  C24. Without Redis a replay panics half way. The server hands its nil \<^verbatim>\<open>*task.Queue\<close> to the
  service, which does not see that it is nil: the request marks the DEAD task FAILED and then panics
  with a nil dereference, and the task is left FAILED without a retry time.
\<close>

theorem replay_nil_queue_panics:
  assumes "calm w" "task_inv q w" "task_at w i = Some r" "tk_status r = task_StatusDead" "0 < i"
  shows "let m = ReplayDLQTask (NewServiceWithQueue NilQueue n) i; w' = final m w in
    answer m w = Panicked nil_deref \<and> task_at w' = (task_at w)(i \<mapsto> replay_task (w_now w) r) \<and>
    tk_status (replay_task (w_now w) r) = task_StatusFailed \<and> tk_next_retry_at (replay_task (w_now w) r) = None"
proof -
  have "tk_status r \<in> {task_StatusDead, task_StatusFailed}" "tk_status r = task_StatusDead \<or> tk_next_retry_at r \<noteq> None"
    using assms(4) by simp_all
  note start = replay_start [OF assms(1-3) this]
  from start(1,5) assms(5) show ?thesis
    by (simp add: ReplayDLQTask_def NewServiceWithQueue_def replay_queue_def answer_def final_def Let_def replay_task_def)
qed

theorem replay_nil_queue_panics_witness:
  "let w = demo_letter demo_dead [''1'']; m = ReplayDLQTask (NewServiceWithQueue NilQueue 5) 1; w' = final m w in
    answer m w = Panicked nil_deref \<and> task_at w' = (task_at w)(1 \<mapsto> replay_task (w_now w) demo_dead) \<and>
    tk_status (replay_task (w_now w) demo_dead) = task_StatusFailed \<and> tk_next_retry_at (replay_task (w_now w) demo_dead) = None"
proof -
  have r: "demo_dead \<in> {demo_dead, demo_waiting}" "tk_status demo_dead = task_StatusDead" by (simp_all add: demo_dead_def)
  from replay_nil_queue_panics [OF demo_letter_facts(1-3) [OF r(1), of "[''1'']"] r(2)] show ?thesis by simp
qed

end
