(* ===== verification/StepFrame.thy ===== *)
theory StepFrame
  imports OutboxRelay TaskCompensator TaskService
begin

text \<open>
  What a component leaves alone. \<open>step_frame\<close> is the interface: a reflexive and transitive relation
  on states. A program is \<open>kept\<close> when it stays inside the relation from every state, whatever its round
  trips answer, and the locale shows once that the loops of the relay, of the consumer and of the
  compensator are kept as soon as the operations are that they call. The interpretations instantiate it with
  the relations that each process of the server obeys: the relay writes outbox events and queue keys,
  the workers and the compensator write task rows and queue keys, and a claim writes no queue key.
\<close>

section \<open>A calculus for frames\<close>

locale step_frame =
  fixes R :: "'s \<Rightarrow> 's \<Rightarrow> bool"
  assumes frame_refl: "R s s" and frame_trans: "R s t \<Longrightarrow> R t u \<Longrightarrow> R s u"
begin

definition kept :: "('s, 'a) state \<Rightarrow> bool" where
  "kept m \<longleftrightarrow> (\<forall>s. wp m (\<lambda>_. R s) s)"

lemma keptI: "(\<And>s. wp m (\<lambda>_. R s) s) \<Longrightarrow> kept m"
  by (simp add: kept_def)

lemma kept_wp: "kept m \<Longrightarrow> wp m (\<lambda>_. R s) s"
  by (simp add: kept_def)

lemma kept_final: "kept m \<Longrightarrow> R s (final m s)"
  by (simp add: kept_def wp_iff)

lemma kept_ret: "kept (ret a)" "kept (returnE a)" "kept (throwE e)"
  by (simp_all add: kept_def frame_refl)

lemma kept_bind:
  assumes "kept m" "\<And>a. kept (f a)" shows "kept (State_Monad.bind m f)"
proof (rule keptI)
  fix s
  have "R s u" if "R s t" "R t u" for t u using frame_trans [OF that] .
  then have "wp (f a) (\<lambda>_. R s) t" if "R s t" for a t
    using that by (intro wp_mono [OF kept_wp [OF assms(2)]])
  then show "wp (State_Monad.bind m f) (\<lambda>_. R s) s"
    unfolding wp_bind by (intro wp_mono [OF kept_wp [OF assms(1)]])
qed

lemma kept_case:
  "(\<And>e. kept (f e)) \<Longrightarrow> (\<And>a. kept (g a)) \<Longrightarrow> kept (case x of Inl e \<Rightarrow> f e | Inr a \<Rightarrow> g a)"
  "kept c \<Longrightarrow> (\<And>a. kept (h a)) \<Longrightarrow> kept (case y of None \<Rightarrow> c | Some a \<Rightarrow> h a)"
  "(\<And>a b. kept (k a b)) \<Longrightarrow> kept (case z of (a, b) \<Rightarrow> k a b)"
  "kept c \<Longrightarrow> kept d \<Longrightarrow> kept (if b then c else d)"
  by (simp_all split: sum.split option.split prod.split)

lemma kept_bindE: "kept m \<Longrightarrow> (\<And>a. kept (f a)) \<Longrightarrow> kept (bindE m f)"
  unfolding bindE_def by (intro kept_bind kept_case kept_ret)

lemma kept_mapErr: "kept m \<Longrightarrow> kept (mapErr f m)"
  unfolding mapErr_def by (intro kept_bind kept_ret)

lemma kept_forE: "(\<And>x. kept (f x)) \<Longrightarrow> kept (forE xs f)"
  by (induction xs) (simp_all add: kept_ret kept_bindE)

lemmas kept_rules = kept_ret kept_bind kept_bindE kept_mapErr kept_forE kept_case

section \<open>The processes\<close>

lemma kept_dispatch_event:
  assumes "\<And>i. kept (rr_TryMarkDispatching repo i)" "\<And>i. kept (rr_MarkPublished repo i)"
    "\<And>i d m. kept (rr_MarkRetry repo i d m)" "\<And>i m. kept (rr_MarkSuspended repo i m)"
    "\<And>i. kept (rp_PublishReady pub i)"
  shows "kept (dispatch_event repo pub cfg evt)"
  unfolding dispatch_event_def by (intro kept_rules assms)

lemma kept_relay_run:
  assumes "kept clock" "kept (rr_CountPending repo)" "\<And>n. kept (rr_ListDispatchable repo n)"
    "\<And>t n. kept (rr_RecoverStaleDispatching repo t n)" "\<And>n. kept (rm_SetOutboxPending metrics n)"
    and ops: "\<And>i. kept (rr_TryMarkDispatching repo i)" "\<And>i. kept (rr_MarkPublished repo i)"
    "\<And>i d m. kept (rr_MarkRetry repo i d m)" "\<And>i m. kept (rr_MarkSuspended repo i m)"
    "\<And>i. kept (rp_PublishReady pub i)"
  shows "kept (relay_run clock cfg \<lparr>Relay_repo = repo, Relay_publisher = pub, Relay_metrics = metrics\<rparr> n)"
proof (induction n)
  case 0
  show ?case
    unfolding relay_run.simps relay_round_def dispatchOnce_def relay_ports.simps
    by (intro kept_rules assms kept_dispatch_event)
next
  case (Suc n)
  show ?case
    unfolding relay_run.simps relay_round_def dispatchOnce_def relay_ports.simps
    by (intro kept_rules assms kept_dispatch_event Suc)
qed

lemma kept_consumer_schedule:
  assumes "\<And>i. kept (cr_TryMarkRunning repo i)" "\<And>i m b. kept (cr_MarkFailed repo i m b)"
    "\<And>i. kept (cr_MarkSuccess repo i)" "\<And>i m. kept (cr_MarkSuspended repo i m)"
    "\<And>n. kept (cq_MoveDueRetryToReady queue n)" "kept (cq_PopReady queue)" "\<And>i. kept (cq_PushDLQ queue i)"
    "\<And>i t. kept (cq_ScheduleRetry queue i t)" "\<And>c t. kept (Registry_Handle registry c t)"
    "kept (cm_IncTaskRetry metrics)" "kept (cm_IncTaskDLQ metrics)" "kept (cm_IncConsumeSuccess metrics)"
    "kept (cm_IncConsumeFailure metrics)"
  shows "kept (consumer_schedule \<lparr>Consumer_repo = repo, Consumer_queue = queue, Consumer_registry = registry,
     Consumer_metrics = metrics\<rparr> cfg ctx bs)"
proof (induction bs)
  case Nil
  show ?case by (simp add: kept_ret)
next
  case (Cons b bs)
  have "kept (worker_round \<lparr>Consumer_repo = repo, Consumer_queue = queue, Consumer_registry = registry,
     Consumer_metrics = metrics\<rparr> cfg ctx)"
    unfolding worker_round_def consumeTask_def consume_failed_def consume_done_def consumer_ports.simps
    by (intro kept_rules assms)
  then show ?case
    unfolding consumer_schedule.simps One_nat_def runWorker.simps runRetryScheduler.simps consumer_ports.simps
    by (intro kept_rules assms Cons)
qed

lemma kept_recover: "(\<And>i m. kept (pr_MarkRecovered repo i m)) \<Longrightarrow> kept (recover_candidates repo msg cs acc)"
  by (induction cs arbitrary: acc) (simp_all add: kept_rules)

lemma kept_schedule:
  assumes "\<And>i t. kept (pq_ScheduleRetry (Comp_queue p) i t)" "\<And>s d. kept (pm_ObserveTaskRecovery (Comp_metrics p) s d)"
  shows "kept (schedule_candidates p now cs n)"
proof (induction cs arbitrary: n)
  case (Cons c cs)
  show ?case unfolding schedule_candidates.simps by (intro kept_rules assms Cons)
qed (simp add: kept_ret)

lemma kept_compensator_run:
  assumes "kept clock" "\<And>n. kept (pr_ListDueFailed repo n)" "\<And>t n. kept (pr_ListSuspended repo t n)"
    "\<And>t n. kept (pr_ListStaleRunning repo t n)" "\<And>i m. kept (pr_MarkRecovered repo i m)"
    "\<And>i t. kept (pq_ScheduleRetry queue i t)" "\<And>s d. kept (pm_ObserveTaskRecovery metrics s d)"
  shows "kept (compensator_run clock cfg \<lparr>Comp_repo = repo, Comp_queue = queue, Comp_metrics = metrics\<rparr> n)"
proof -
  have "kept (compensateOnce clock cfg \<lparr>Comp_repo = repo, Comp_queue = queue, Comp_metrics = metrics\<rparr>)"
    unfolding compensateOnce_def Let_def compensator_ports.simps
    by (intro kept_rules kept_recover kept_schedule; simp add: assms)
  then show ?thesis by (induction n) (simp_all add: kept_rules)
qed

end


section \<open>The relations of the processes\<close>

definition queue_keys :: "QueueConfig \<Rightarrow> string set" where
  "queue_keys q = {ReadyKey q, RetryKey q, DLQKey q}"

text \<open>Only task rows change, each along its life cycle, and only the keys of the queue.\<close>

definition tasks_step :: "QueueConfig \<Rightarrow> world \<Rightarrow> world \<Rightarrow> bool" where
  "tasks_step q w w' \<longleftrightarrow> (task_inv q w \<longrightarrow>
     task_inv q w' \<and> (w_db w')\<lparr>db_tasks := []\<rparr> = (w_db w)\<lparr>db_tasks := []\<rparr> \<and>
     map tk_task_id (db_tasks (w_db w')) = map tk_task_id (db_tasks (w_db w)) \<and>
     (\<forall>i. rel_option task_reaches (task_at w i) (task_at w' i)) \<and>
     (\<forall>k. k \<notin> queue_keys q \<longrightarrow> w_kv w' k = w_kv w k))"

text \<open>Only outbox events change, and only the keys of the queue.\<close>

definition events_step :: "QueueConfig \<Rightarrow> world \<Rightarrow> world \<Rightarrow> bool" where
  "events_step q w w' \<longleftrightarrow> (queue_ok q w \<longrightarrow>
     queue_ok q w' \<and> w_tx w' = w_tx w \<and> (w_db w')\<lparr>db_events := []\<rparr> = (w_db w)\<lparr>db_events := []\<rparr> \<and>
     map ev_event_id (db_events (w_db w')) = map ev_event_id (db_events (w_db w)) \<and>
     (\<forall>k. k \<notin> queue_keys q \<longrightarrow> w_kv w' k = w_kv w k))"

interpretation tasks_frame: step_frame "tasks_step q" for q
proof
  fix s t u
  show "tasks_step q s s" by (auto simp: tasks_step_def intro: option.rel_refl)
  assume st: "tasks_step q s t" and tu: "tasks_step q t u"
  show "tasks_step q s u"
    unfolding tasks_step_def
  proof (intro impI conjI allI)
    assume inv: "task_inv q s"
    with st have t: "task_inv q t" by (simp add: tasks_step_def)
    note S = st [unfolded tasks_step_def, rule_format, OF inv] and T = tu [unfolded tasks_step_def, rule_format, OF t]
    show "task_inv q u" "(w_db u)\<lparr>db_tasks := []\<rparr> = (w_db s)\<lparr>db_tasks := []\<rparr>"
      "map tk_task_id (db_tasks (w_db u)) = map tk_task_id (db_tasks (w_db s))" using S T by simp_all
    show "rel_option task_reaches (task_at s i) (task_at u i)" for i
      using S T option.rel_transp [OF transp_rtranclp [of task_trans]] by (blast dest: transpD)
    show "w_kv u k = w_kv s k" if "k \<notin> queue_keys q" for k using S T that by simp
  qed
qed

interpretation events_frame: step_frame "events_step q" for q
  by unfold_locales (auto simp: events_step_def)

section \<open>The operations on tasks\<close>

lemma tasks_step_idle: "idle w w' \<Longrightarrow> tasks_step q w w'"
  using task_inv_idle [of w w' q]
  by (auto simp: tasks_step_def idle_def same_env_def intro: option.rel_refl)

lemma tasks_step_put:
  assumes "task_put i x w w'" "task_at w i = Some r" "task_trans r x"
  shows "tasks_step q w w'"
  unfolding tasks_step_def
proof (intro impI conjI allI)
  assume inv: "task_inv q w"
  then show "task_inv q w'" using task_inv_put [OF assms(1)] by simp
  show "(w_db w')\<lparr>db_tasks := []\<rparr> = (w_db w)\<lparr>db_tasks := []\<rparr>"
    and "map tk_task_id (db_tasks (w_db w')) = map tk_task_id (db_tasks (w_db w))"
    using assms(1) put_row_keys [of tk_task_id x i "db_tasks (w_db w)"] by (simp_all add: task_put_def)
  have "task_at w' = (task_at w)(i \<mapsto> x)" using task_at_put [OF assms(1)] assms(2) by simp
  then show "rel_option task_reaches (task_at w j) (task_at w' j)" for j
    using assms(2,3) by (auto intro: option.rel_refl)
  show "w_kv w' k = w_kv w k" for k using assms(1) by (simp add: task_put_def same_env_def)
qed

lemma tasks_step_moved:
  assumes "task_moved i S f w w'" "\<And>r now. tk_status r \<in> S \<Longrightarrow> task_trans r (f now r)"
  shows "tasks_step q w w'"
  using assms tasks_step_put by (fastforce simp: task_moved_def)

lemma tasks_step_queue: "queue_ok q w' \<Longrightarrow> queue_frame q w w' \<Longrightarrow> tasks_step q w w'"
  by (auto simp: tasks_step_def queue_frame_def queue_keys_def task_inv_def tasks_ok_def task_at_def intro: option.rel_refl)

lemma tasks_step_upd: "queue_upd q f w w' \<Longrightarrow> tasks_step q w w'"
  by (simp add: queue_upd_def tasks_step_queue)

lemma tasks_keptI:
  assumes "\<And>w. tasks_ok w \<Longrightarrow> w_tx w = None \<Longrightarrow> queue_ok q w \<Longrightarrow> wp m (\<lambda>_. tasks_step q w) w"
  shows "tasks_frame.kept q m"
proof (rule tasks_frame.keptI)
  fix w
  show "wp m (\<lambda>_. tasks_step q w) w"
  proof (cases "task_inv q w")
    case True
    then show ?thesis using assms by (simp add: task_inv_def)
  qed (simp add: wp_iff tasks_step_def)
qed

lemma task_ops_kept:
  "tasks_frame.kept q (TryMarkRunning i)" "tasks_frame.kept q (MarkSuccess i)"
  "tasks_frame.kept q (task_MarkSuspended i m)" "tasks_frame.kept q (MarkRecoveredForRetry i m)"
  "tasks_frame.kept q (MarkReplayReady i)" "tasks_frame.kept q (RestoreDeadAfterReplayFailure i)"
proof -
  note moved = tasks_step_moved tasks_step_idle
  show "tasks_frame.kept q (TryMarkRunning i)"
    by (rule tasks_keptI, rule wp_TryMarkRunning, assumption) (auto intro: moved task_trans.intros)
  show "tasks_frame.kept q (MarkSuccess i)"
    by (rule tasks_keptI, rule wp_MarkSuccess, assumption) (auto intro: moved task_trans.intros)
  show "tasks_frame.kept q (task_MarkSuspended i m)"
    by (rule tasks_keptI, rule wp_task_MarkSuspended, assumption) (auto intro: moved task_trans.intros)
  show "tasks_frame.kept q (MarkRecoveredForRetry i m)"
    by (rule tasks_keptI, rule wp_MarkRecovered, assumption) (auto intro: moved task_trans.intros)
  show "tasks_frame.kept q (MarkReplayReady i)"
    by (rule tasks_keptI, rule wp_MarkReplayReady, assumption) (auto intro: moved task_trans.intros)
  show "tasks_frame.kept q (RestoreDeadAfterReplayFailure i)"
    by (rule tasks_keptI, rule wp_RestoreDead, assumption) (auto intro: moved task_trans.intros)
qed

lemma tasks_step_failed:
  assumes "task_failed i m base a w w'" shows "tasks_step q w w'"
  using assms
  by (auto simp: task_failed_def not_le split: if_splits intro: tasks_step_idle tasks_step_put task_trans.intros)

lemma MarkFailed_kept: "tasks_frame.kept q (MarkFailed i m b)"
  by (rule tasks_keptI, rule wp_MarkFailed, assumption+) (auto intro: tasks_step_failed tasks_step_idle)

lemma queue_ops_kept:
  "tasks_frame.kept q (PopReady q)" "tasks_frame.kept q (PushDLQ q i)" "tasks_frame.kept q (ScheduleRetry q i t)"
  "tasks_frame.kept q (MoveDueRetryToReady q n)" "tasks_frame.kept q (ReplayFromDLQ q i)"
proof -
  show "tasks_frame.kept q (PopReady q)"
    by (rule tasks_keptI, rule wp_PopReady, assumption) (auto intro: tasks_step_upd)
  show "tasks_frame.kept q (PushDLQ q i)"
    by (rule tasks_keptI, rule wp_PushDLQ, assumption) (auto intro: tasks_step_upd)
  show "tasks_frame.kept q (ScheduleRetry q i t)"
    by (rule tasks_keptI, rule wp_ScheduleRetry, assumption) (auto intro: tasks_step_upd)
  show "tasks_frame.kept q (MoveDueRetryToReady q n)"
    by (rule tasks_keptI, rule wp_MoveDueRetryToReady, assumption)
      (auto intro: tasks_step_upd tasks_step_queue simp: moved_ok_def)
  show "tasks_frame.kept q (ReplayFromDLQ q i)"
    by (rule tasks_keptI, rule wp_ReplayFromDLQ, assumption) (auto intro: tasks_step_upd)
qed

lemma task_reads_kept:
  "tasks_frame.kept q time_Now" "tasks_frame.kept q (metric c)"
  "tasks_frame.kept q (ListDueFailedForCompensation n)" "tasks_frame.kept q (ListSuspendedForCompensation t n)"
  "tasks_frame.kept q (ListStaleRunningForCompensation t n)"
proof -
  have metrics: "tasks_step q w (w\<lparr>w_metrics := ms\<rparr>)" for w ms by (auto simp: tasks_step_def intro: option.rel_refl)
  show clock: "tasks_frame.kept q time_Now"
    by (rule tasks_frame.keptI, rule wp_idle_clock) (rule tasks_step_idle)
  show "tasks_frame.kept q (metric c)"
    by (rule tasks_frame.keptI) (simp add: metrics)
  have query: "tasks_frame.kept q (wrapE pre (db_exec (query_rows f)))" for pre and f :: "db \<Rightarrow> RecoveryCandidate list"
    by (rule tasks_frame.keptI, rule wp_query) (rule tasks_step_idle, assumption)+
  show "tasks_frame.kept q (ListDueFailedForCompensation n)"
    unfolding ListDueFailedForCompensation_def by (intro tasks_frame.kept_rules clock query)
  show "tasks_frame.kept q (ListSuspendedForCompensation t n)" "tasks_frame.kept q (ListStaleRunningForCompensation t n)"
    unfolding ListSuspendedForCompensation_def ListStaleRunningForCompensation_def
    by (intro tasks_frame.kept_rules query)+
qed

lemma handler_kept: "tasks_frame.kept q (Registry_Handle quan_registry c t)"
  unfolding Registry_Handle_def
  by (auto simp: quan_registry_def Registry_Register_def NewHandlerRegistry_def SendCouponNoticeHandler_def
      intro: tasks_frame.kept_rules)

section \<open>The processes of the server\<close>

text \<open>The ports that main connects; \<open>m\<close> says whether the metrics are enabled.\<close>

definition consumer_wiring :: "bool \<Rightarrow> QueueConfig \<Rightarrow> world consumer_ports" where
  "consumer_wiring m q = \<lparr>Consumer_repo = task_repository, Consumer_queue = task_queue q, Consumer_registry = quan_registry,
     Consumer_metrics = (if m then consumer_counters else noopConsumerMetrics)\<rparr>"

definition compensator_wiring :: "bool \<Rightarrow> QueueConfig \<Rightarrow> world compensator_ports" where
  "compensator_wiring m q = \<lparr>Comp_repo = compensation_repository, Comp_queue = compensation_queue q,
     Comp_metrics = (if m then recovery_metrics else noopCompensationMetrics)\<rparr>"

lemma consumer_kept: "tasks_frame.kept q (consumer_schedule (consumer_wiring m q) cfg ctx bs)"
  unfolding consumer_wiring_def
  by (rule tasks_frame.kept_consumer_schedule)
    (simp_all add: consumer_counters_def noopConsumerMetrics_def tasks_frame.kept_ret task_ops_kept MarkFailed_kept queue_ops_kept task_reads_kept handler_kept)

lemma compensator_kept: "tasks_frame.kept q (compensator_run time_Now cfg (compensator_wiring m q) n)"
  unfolding compensator_wiring_def
  by (rule tasks_frame.kept_compensator_run) (simp_all add: noopCompensationMetrics_def tasks_frame.kept_ret task_ops_kept queue_ops_kept task_reads_kept)

text \<open>With the nil queue the replay panics after marking the task; what it did is a step of the task all the same.\<close>

lemma replay_kept:
  assumes "queue \<in> {RedisQueue q, NilQueue}"
  shows "tasks_frame.kept q (ReplayDLQTask (NewServiceWithQueue queue n) i)"
proof -
  have queue: "TaskSvc_queue (NewServiceWithQueue queue n) = queue" by (simp add: NewServiceWithQueue_def)
  have "tasks_frame.kept q (replay_queue queue i)"
    using assms by (auto simp: replay_queue_def intro!: tasks_frame.kept_rules queue_ops_kept)
  moreover have "tasks_frame.kept q (case moved of
              Panicked p \<Rightarrow> ret (Panicked p)
            | Returned (Inl err) \<Rightarrow> do {
                _ \<leftarrow> RestoreDeadAfterReplayFailure i;
                ret (Returned (Inl (apperr_Wrap CodeInternalError ''replay task from dlq failed'' err))) }
            | Returned (Inr False) \<Rightarrow> do {
                _ \<leftarrow> RestoreDeadAfterReplayFailure i;
                ret (Returned (Inl (apperr_New CodeNotFound ''task not found in dlq''))) }
            | Returned (Inr True) \<Rightarrow> ret (Returned (Inr ())))" for moved
    by (auto intro!: tasks_frame.kept_rules task_ops_kept split: outcome.split sum.split bool.split)
  ultimately show ?thesis
    unfolding ReplayDLQTask_def queue
    by (cases queue) (auto intro!: tasks_frame.kept_rules task_ops_kept)
qed


section \<open>The relay\<close>

lemma events_step_idle: "idle w w' \<Longrightarrow> events_step q w w'"
  using queue_same_env [of w w' q] by (auto simp: events_step_def idle_def same_env_def)

lemma events_step_upd:
  assumes "events_upd p upd w w'" "\<And>e. ev_event_id (upd e) = ev_event_id e"
  shows "events_step q w w'"
proof -
  have "queue_ok q w' = queue_ok q w" using queue_same_env [of w w' q] assms(1) by (simp add: events_upd_def)
  then show ?thesis
    using assms(1) map_ids_upd [OF assms(2), of p] by (auto simp: events_step_def events_upd_def same_env_def)
qed

lemma events_step_queue: "queue_upd q f w w' \<Longrightarrow> events_step q w w'"
  by (auto simp: events_step_def queue_upd_def queue_frame_def queue_keys_def)

lemma outbox_ops_kept:
  "events_frame.kept q (TryMarkDispatching i)" "events_frame.kept q (MarkPublished i)"
  "events_frame.kept q (MarkRetry i d m)" "events_frame.kept q (outbox_MarkSuspended i m)"
  "events_frame.kept q (RecoverStaleDispatching t n)"
proof -
  note upd = events_step_upd events_step_idle
  show "events_frame.kept q (TryMarkDispatching i)"
    by (rule events_frame.keptI, rule wp_TryMarkDispatching) (auto intro: upd simp: dispatching_row_def)
  show "events_frame.kept q (MarkPublished i)"
    by (rule events_frame.keptI, rule wp_MarkPublished) (auto intro: upd simp: published_row_def)
  show "events_frame.kept q (MarkRetry i d m)"
    by (rule events_frame.keptI, rule wp_MarkRetry) (auto intro: upd simp: retry_row_def)
  show "events_frame.kept q (outbox_MarkSuspended i m)"
    by (rule events_frame.keptI, rule wp_outbox_MarkSuspended) (auto intro: upd simp: suspended_row_def)
  show "events_frame.kept q (RecoverStaleDispatching t n)"
    by (rule events_frame.keptI, rule wp_RecoverStaleDispatching) (auto intro: upd simp: recovered_row_def)
qed

lemma outbox_reads_kept:
  "events_frame.kept q time_Now" "events_frame.kept q (metric c)" "events_frame.kept q CountPending"
  "events_frame.kept q (ListDispatchable n)" "events_frame.kept q (PublishReady q i)"
proof -
  show "events_frame.kept q time_Now"
    by (rule events_frame.keptI, rule wp_idle_clock) (rule events_step_idle)
  show "events_frame.kept q (metric c)"
    by (rule events_frame.keptI) (simp add: events_step_def queue_ok_def)
  show "events_frame.kept q CountPending"
    by (rule events_frame.keptI, rule wp_CountPending) (rule events_step_idle)
  show "events_frame.kept q (ListDispatchable n)"
    by (rule events_frame.keptI, rule wp_ListDispatchable) (rule events_step_idle, assumption)+
  show "events_frame.kept q (PublishReady q i)"
  proof (rule events_frame.keptI)
    fix w
    show "wp (PublishReady q i) (\<lambda>_. events_step q w) w"
    proof (cases "queue_ok q w")
      case True
      then show ?thesis by (rule wp_PublishReady) (auto intro: events_step_queue)
    qed (simp add: wp_iff events_step_def)
  qed
qed

definition relay_wiring :: "bool \<Rightarrow> QueueConfig \<Rightarrow> world relay_ports" where
  "relay_wiring m q = \<lparr>Relay_repo = outbox_repository, Relay_publisher = queue_publisher q,
     Relay_metrics = (if m then outbox_metrics else noopRelayMetrics)\<rparr>"

lemma relay_kept: "events_frame.kept q (relay_run time_Now cfg (relay_wiring m q) n)"
  unfolding relay_wiring_def
  by (rule events_frame.kept_relay_run)
    (simp_all add: outbox_ops_kept outbox_reads_kept outbox_repository_def queue_publisher_def outbox_metrics_def
      noopRelayMetrics_def events_frame.kept_ret)

section \<open>Claims and the keys of the queue\<close>

text \<open>The same calculus, on the keyspace: a command is kept when it writes none of the keys \<open>K\<close>.\<close>

definition same_on :: "string set \<Rightarrow> kv \<Rightarrow> kv \<Rightarrow> bool" where
  "same_on K m m' \<longleftrightarrow> (\<forall>k \<in> K. m' k = m k)"

interpretation keys_frame: step_frame "same_on K" for K
  by unfold_locales (auto simp: same_on_def)

lemma command_kept:
  assumes "k \<notin> K"
  shows "keys_frame.kept K (redis_GET now k)" "keys_frame.kept K (redis_SET_PX now k v t)"
    "keys_frame.kept K (redis_SETNX now k v)" "keys_frame.kept K (redis_DEL now k)"
    "keys_frame.kept K (redis_INCRBY now k d)" "keys_frame.kept K (redis_HGET now k f)"
    "keys_frame.kept K (redis_HSETNX now k f v)" "keys_frame.kept K (redis_HINCRBY now k f d)"
    "keys_frame.kept K (redis_HDEL now k f)"
proof -
  have k: "k' \<in> K \<Longrightarrow> k' \<noteq> k" for k' using assms by auto
  show "keys_frame.kept K (redis_GET now k)" "keys_frame.kept K (redis_HGET now k f)"
    "keys_frame.kept K (redis_SET_PX now k v t)" "keys_frame.kept K (redis_DEL now k)"
    by (auto simp: keys_frame.kept_def same_on_def redis_GET_def redis_HGET_def redis_SET_PX_def redis_DEL_def dest: k)
  show "keys_frame.kept K (redis_SETNX now k v)" "keys_frame.kept K (redis_INCRBY now k d)"
    "keys_frame.kept K (redis_HSETNX now k f v)" "keys_frame.kept K (redis_HINCRBY now k f d)"
    "keys_frame.kept K (redis_HDEL now k f)"
    unfolding redis_SETNX_def redis_INCRBY_def redis_HSETNX_def redis_HINCRBY_def redis_HDEL_def
    by (auto simp: keys_frame.kept_def same_on_def split: option.split prod.split rval.split dest: k)
qed

lemmas script_kept = keys_frame.kept_rules command_kept

lemma lua_num_kept: "(\<And>n. keys_frame.kept K (f n)) \<Longrightarrow> keys_frame.kept K (lua_num x f)"
  by (auto simp: lua_num_def split: option.split intro: keys_frame.kept_rules)

lemma then_cmd_kept: "keys_frame.kept K a \<Longrightarrow> keys_frame.kept K b \<Longrightarrow> keys_frame.kept K (then_cmd a b)"
  unfolding then_cmd_def by (intro keys_frame.kept_rules)

text \<open>None of the keys begins with the prefix of the claim keys.\<close>

definition claim_free :: "string set \<Rightarrow> bool" where
  "claim_free K \<longleftrightarrow> (\<forall>k \<in> K. \<not> HasPrefix k decisionNamespace)"

lemma claim_free_keys:
  assumes "claim_free K"
  shows "campaignStockKey c \<notin> K" "campaignMetaKey c \<notin> K" "campaignUserCountKey c \<notin> K" "idemDecisionKey c u i \<notin> K"
  using assms
  by (auto simp: claim_free_def campaignStockKey_def campaignMetaKey_def campaignUserCountKey_def idemDecisionKey_def)

lemma scripts_kept:
  assumes "claim_free K"
  shows "keys_frame.kept K (decide_script (campaignStockKey c) (campaignMetaKey c) (campaignUserCountKey c)
           (idemDecisionKey c u i) t user r ttl now)"
    and "keys_frame.kept K (ensure_script snap now)"
    and "keys_frame.kept K (finalize_script (idemDecisionKey c u i) r claim ttl now)"
    and "keys_frame.kept K (rollback_claim_script (campaignStockKey c) (campaignUserCountKey c) (idemDecisionKey c u i) r user now)"
    and "keys_frame.kept K (redis_GET now (idemDecisionKey c u i))"
  unfolding decide_script_def admit_script_def ensure_script_def finalize_script_def rollback_claim_script_def
    redis_DECR_def redis_INCR_def quiet_cmd_def Let_def
  by (intro script_kept lua_num_kept then_cmd_kept claim_free_keys [OF assms])+


text \<open>A claim changes none of the queue's keys and ends outside a transaction.\<close>

definition claims_step :: "QueueConfig \<Rightarrow> world \<Rightarrow> world \<Rightarrow> bool" where
  "claims_step q w w' \<longleftrightarrow> (campaigns_ok (w_db w) \<and> w_tx w = None \<longrightarrow>
     campaigns_ok (w_db w') \<and> w_tx w' = None \<and> same_on (queue_keys q) (w_kv w) (w_kv w'))"

interpretation claims_frame: step_frame "claims_step q" for q
  by unfold_locales (auto simp: claims_step_def same_on_def)

lemma claims_step_same [intro]: "w_db w' = w_db w \<Longrightarrow> w_tx w' = w_tx w \<Longrightarrow> w_kv w' = w_kv w \<Longrightarrow> claims_step q w w'"
  by (simp add: claims_step_def same_on_def)

lemma claims_redis_kept:
  assumes "\<And>now. keys_frame.kept (queue_keys q) (cmd now)"
  shows "claims_frame.kept q (redis_exec cmd)"
proof (rule claims_frame.keptI, rule wp_redis_exec)
  have "same_on (queue_keys q) m (snd (run_state (cmd now) m))" for now m
    using keys_frame.kept_final [OF assms] by (simp add: final_def)
  then show "claims_step q w (w\<lparr>w_faults := fs, w_kv := snd (run_state (cmd (UnixMilli (w_now w))) (w_kv w))\<rparr>)" for w fs
    by (simp add: claims_step_def)
  then show "claims_step q w (w\<lparr>w_faults := fs, w_kv := snd (run_state (cmd (UnixMilli (w_now w))) (w_kv w))\<rparr>)" for w fs .
qed auto

lemma claims_basic_kept:
  "claims_frame.kept q time_Now" "claims_frame.kept q (time_Sleep d)" "claims_frame.kept q (db_exec (query_row f))"
proof -
  show "claims_frame.kept q time_Now" by (rule claims_frame.keptI, rule wp_time_Now) auto
  show "claims_frame.kept q (time_Sleep d)" by (rule claims_frame.keptI) (auto simp: time_Sleep_def)
  show "claims_frame.kept q (db_exec (query_row f))" by (rule claims_frame.keptI, rule wp_db_read) auto
qed

lemma claims_step_claimed:
  assumes "same_env w w'" "w_tx w' = None" "claimed r ctx cid uid idem res (w_db w) (w_db w')"
  shows "claims_step q w w'"
proof -
  have "campaigns_ok d'" if "granted r ctx cid uid idem d rec d'" "campaigns_ok d" for d d' rec
    using that put_row_keys [of cp_coupon_id _ cid "db_campaigns d"] sql_row_Some_iff
    by (fastforce simp: granted_def campaigns_ok_def deducted_def with_claim_def sold_one_def campaign_of_def
        dest: notice_added_keeps(1))
  then have "campaigns_ok (w_db w')" if "campaigns_ok (w_db w)"
    using assms(3) that by (auto simp: claimed_def replayed_def rolled_back_def campaigns_ok_def split: sum.splits)
  with assms show ?thesis by (auto simp: claims_step_def same_on_def same_env_def)
qed

lemma claims_keptI:
  assumes "\<And>w. campaigns_ok (w_db w) \<Longrightarrow> w_tx w = None \<Longrightarrow> wp m (\<lambda>_. claims_step q w) w"
  shows "claims_frame.kept q m"
proof (rule claims_frame.keptI)
  fix w
  show "wp m (\<lambda>_. claims_step q w) w"
    by (cases "campaigns_ok (w_db w) \<and> w_tx w = None") (auto simp: assms, auto simp: wp_iff claims_step_def)
qed

lemma claim_tx_kept:
  "claims_frame.kept q (ClaimCoupon r ctx cid uid idem)" "claims_frame.kept q (PersistClaimAfterAdjudication r ctx cid uid idem)"
proof -
  show "claims_frame.kept q (ClaimCoupon r ctx cid uid idem)"
    by (rule claims_keptI, rule wp_mono [OF wp_ClaimCoupon]) (auto intro: claims_step_claimed)
  show "claims_frame.kept q (PersistClaimAfterAdjudication r ctx cid uid idem)"
    by (rule claims_keptI, rule wp_mono [OF wp_PersistClaim]) (auto intro: claims_step_claimed)
qed

lemma claim_kept:
  assumes free: "claim_free (queue_keys q)"
  shows "claims_frame.kept q (Claim s ctx rnd1 rnd2 cid uid idem)"
proof -
  note scripts = claims_redis_kept [OF scripts_kept(1) [OF free]] claims_redis_kept [OF scripts_kept(2) [OF free]]
    claims_redis_kept [OF scripts_kept(3) [OF free]] claims_redis_kept [OF scripts_kept(4) [OF free]]
    claims_redis_kept [OF scripts_kept(5) [OF free]]
  note rules = claims_frame.kept_rules claims_basic_kept scripts claim_tx_kept
  have wait: "claims_frame.kept q (wait_loop n deadline poll (idemDecisionKey c u i))" for n deadline poll c u i
  proof (induction n)
    case (Suc n)
    show ?case unfolding wait_loop.simps by (intro rules Suc)
  qed (simp add: rules)
  have attempt: "claims_frame.kept q (claimWithRedis s ctx rnd cid uid idem)" for rnd
    unfolding claimWithRedis_def claimReservationID_def Decide_def miss_campaign_def replay_claim_def waitPendingClaim_def
      persist_admitted_def WaitResult_def EnsureCampaign_def Finalize_def claim_Rollback_def LoadCampaign_def
      FindClaimByID_def Let_def
    by (intro rules wait)
  show ?thesis
    unfolding Claim_def claimWithoutRedis_def claim_attempts.simps by (intro rules attempt)
qed

end
