(* ===== verification/QuanSystem.thy ===== *)
theory QuanSystem
  imports StepFrame
begin

text \<open>
  The server as a whole. \<open>quan_step\<close> is the step relation of all its processes over the shared world:
  claim requests, task requests, replay requests, rounds of the relay, of the workers and of the
  compensator, new fault scripts, the passage of time, and the loss of any Redis keys. The invariant
  of the server and what a run may change are proved by rule induction over it; the lemmas of the
  components and their frames (\<open>StepFrame\<close>) carry the cases.
\<close>

section \<open>The tables\<close>

text \<open>Ids are positive, unique and below the counters; a business key has one task.\<close>

definition task_ids_ok :: "db \<Rightarrow> bool" where
  "task_ids_ok d \<longleftrightarrow> distinct (map tk_task_id (db_tasks d)) \<and> 0 < db_next_task_id d \<and>
     (\<forall>t \<in> set (db_tasks d). 0 < tk_task_id t \<and> tk_task_id t < db_next_task_id d)"

definition event_ids_ok :: "db \<Rightarrow> bool" where
  "event_ids_ok d \<longleftrightarrow> distinct (map ev_event_id (db_events d)) \<and>
     (\<forall>e \<in> set (db_events d). ev_event_id e < db_next_event_id d)"

definition task_keys :: "db \<Rightarrow> (string \<times> string) list" where
  "task_keys d = map (\<lambda>t. (db_collate d (tk_task_type t), db_collate d (tk_biz_id t))) (db_tasks d)"

definition ids_ok :: "db \<Rightarrow> bool" where
  "ids_ok d \<longleftrightarrow> task_ids_ok d \<and> event_ids_ok d \<and> distinct (task_keys d)"

definition notice_key :: "claim_row \<Rightarrow> string" where
  "notice_key x = ''claim:'' @ FormatInt (cl_claim_id x)"

text \<open>The outbox announces the task \<open>i\<close>: an event that names it is not suspended.\<close>

definition announced :: "db \<Rightarrow> int \<Rightarrow> bool" where
  "announced d i \<longleftrightarrow> (\<exists>e \<in> set (db_events d). ev_payload_json e = MarshalTaskCreatedPayload i \<and>
     (in_int64 i \<longrightarrow> ev_status e \<in> {outbox_StatusPending, outbox_StatusDispatching, outbox_StatusPublished}))"

definition noticed :: "db \<Rightarrow> claim_row \<Rightarrow> bool" where
  "noticed d x \<longleftrightarrow> (\<exists>t \<in> set (db_tasks d).
     same_task_key d TaskTypeSendCouponNotice (notice_key x) t \<and> announced d (tk_task_id t))"

definition tables_ok :: "db \<Rightarrow> bool" where
  "tables_ok d \<longleftrightarrow> books_ok d \<and> ids_ok d \<and> (\<forall>x \<in> set (db_claims d). noticed d x) \<and>
     (\<forall>t \<in> set (db_tasks d). announced d (tk_task_id t))"

lemma tables_ok_cong:
  assumes "tables_ok d" "books_ok d'" "db_tasks d' = db_tasks d" "db_events d' = db_events d" "db_claims d' = db_claims d"
    "db_collate d' = db_collate d" "db_next_task_id d \<le> db_next_task_id d'" "db_next_event_id d \<le> db_next_event_id d'"
  shows "tables_ok d'"
proof -
  have "announced d' = announced d" "noticed d' = noticed d" "task_keys d' = task_keys d"
    using assms by (auto simp: announced_def noticed_def same_task_key_def task_keys_def fun_eq_iff)
  moreover have "task_ids_ok d'" "event_ids_ok d'"
    using assms by (fastforce simp: tables_ok_def ids_ok_def task_ids_ok_def event_ids_ok_def)+
  ultimately show ?thesis using assms by (simp add: tables_ok_def ids_ok_def)
qed

lemma tables_ok_counters:
  assumes "tables_ok d" "counters_le d d1" shows "tables_ok (rolled_back d d1)"
proof (rule tables_ok_cong [OF assms(1)])
  show "books_ok (rolled_back d d1)"
    by (rule books_ok_cong [of _ d]) (use assms in \<open>auto simp: tables_ok_def rolled_back_def counters_le_def\<close>)
qed (use assms(2) in \<open>simp_all add: rolled_back_def counters_le_def\<close>)

lemma with_event_simps [simp]:
  "db_tasks (with_event p now d) = db_tasks d" "db_claims (with_event p now d) = db_claims d"
  "db_campaigns (with_event p now d) = db_campaigns d" "db_collate (with_event p now d) = db_collate d"
  "db_next_task_id (with_event p now d) = db_next_task_id d" "db_next_claim_id (with_event p now d) = db_next_claim_id d"
  "db_next_event_id (with_event p now d) = db_next_event_id d + 1"
  by (simp_all add: with_event_def insert_event_def)

lemma announced_with_event:
  "announced d i \<Longrightarrow> announced (with_event p now d) i" "announced (with_event (notice_event i) now d) i"
  by (auto simp: announced_def with_event_def insert_event_def notice_event_def)

lemma announced_more: "announced d i \<Longrightarrow> db_events d' = db_events d \<Longrightarrow> announced d' i"
  by (simp add: announced_def)

lemma ids_ok_event: "ids_ok d \<Longrightarrow> ids_ok (with_event p now d)"
proof -
  assume ok: "ids_ok d"
  have "event_ids_ok (with_event p now d)"
    using ok by (fastforce simp: ids_ok_def event_ids_ok_def with_event_def insert_event_def)
  moreover have "task_keys (with_event p now d) = task_keys d" "task_ids_ok (with_event p now d) = task_ids_ok d"
    by (simp_all add: task_keys_def task_ids_ok_def)
  ultimately show ?thesis using ok by (simp add: ids_ok_def)
qed

lemma ids_ok_task:
  assumes "ids_ok d" "\<forall>r \<in> set (db_tasks d). \<not> same_task_key d (TaskParams_TaskType p) (TaskParams_BizID p) r"
  shows "ids_ok (with_task p now d)"
proof -
  have "task_ids_ok (with_task p now d)" using assms(1) by (fastforce simp: ids_ok_def task_ids_ok_def with_task_def)
  moreover have "distinct (task_keys (with_task p now d))"
    using assms by (auto simp: ids_ok_def task_keys_def with_task_def same_task_key_def)
  moreover have "event_ids_ok (with_task p now d) = event_ids_ok d" by (simp add: event_ids_ok_def with_task_def)
  ultimately show ?thesis using assms(1) by (simp add: ids_ok_def)
qed

text \<open>A new task with its event.\<close>

lemma tables_ok_added:
  assumes ok: "ids_ok d" "\<forall>x \<in> C. noticed d x" "\<forall>t \<in> set (db_tasks d). announced d (tk_task_id t)"
    and new: "\<forall>r \<in> set (db_tasks d). \<not> same_task_key d (TaskParams_TaskType p) (TaskParams_BizID p) r"
    and d'_def: "d' = with_event (notice_event (db_next_task_id d)) now2 (with_task p now1 d)"
  shows "ids_ok d'" "\<forall>x \<in> C. noticed d' x" "\<forall>t \<in> set (db_tasks d'). announced d' (tk_task_id t)"
    and "\<exists>t \<in> set (db_tasks d'). same_task_key d' (TaskParams_TaskType p) (TaskParams_BizID p) t"
proof -
  show "ids_ok d'" unfolding d'_def by (intro ids_ok_event ids_ok_task ok(1) new)
  have ann: "announced d' i" if "announced d i" for i
    unfolding d'_def by (intro announced_with_event(1) announced_more [OF that]) (simp add: with_task_def)
  have own: "announced d' (db_next_task_id d)" unfolding d'_def by (rule announced_with_event(2))
  have tasks: "set (db_tasks d') = set (db_tasks d) \<union> {last (db_tasks d')}" "tk_task_id (last (db_tasks d')) = db_next_task_id d"
    "same_task_key d' = same_task_key d" "same_task_key d (TaskParams_TaskType p) (TaskParams_BizID p) (last (db_tasks d'))"
    by (auto simp: d'_def with_task_def same_task_key_def fun_eq_iff)
  show "\<forall>x \<in> C. noticed d' x" using ok(2) ann unfolding noticed_def tasks(1,3) by blast
  show "\<forall>t \<in> set (db_tasks d'). announced d' (tk_task_id t)" using ok(3) ann own tasks(2) unfolding tasks(1) by auto
  show "\<exists>t \<in> set (db_tasks d'). same_task_key d' (TaskParams_TaskType p) (TaskParams_BizID p) t"
    using tasks by auto
qed

lemma tables_ok_task_added:
  assumes "tables_ok d" "task_added p d t d'" shows "tables_ok d'"
proof -
  obtain now1 now2 where d': "d' = with_event (notice_event (db_next_task_id d)) now2 (with_task p now1 d)"
    and new: "\<forall>r \<in> set (db_tasks d). \<not> same_task_key d (TaskParams_TaskType p) (TaskParams_BizID p) r"
    using assms(2) by (auto simp: task_added_def)
  have ok: "ids_ok d" "\<forall>x \<in> set (db_claims d). noticed d x" "\<forall>t \<in> set (db_tasks d). announced d (tk_task_id t)"
    using assms(1) by (simp_all add: tables_ok_def)
  note added = tables_ok_added [OF ok new d']
  have "books_ok d'"
    by (rule books_ok_cong [of _ d]) (use assms(1) in \<open>simp_all add: tables_ok_def d' with_task_def\<close>)
  moreover have "db_claims d' = db_claims d" by (simp add: d' with_task_def)
  ultimately show ?thesis using added by (simp add: tables_ok_def)
qed


text \<open>A granted claim brings its notice.\<close>

lemma tables_ok_granted:
  assumes ok: "tables_ok d" and g: "granted r ctx cid uid idem d rec d'" and async: "Repo_async r"
  shows "tables_ok d'"
proof -
  obtain now c where c: "campaign_of cid d = Some c" "0 < cp_available_stock c"
      "int (length (user_claims cid uid d)) < effective_limit (cp_per_user_limit c)"
      "idem \<noteq> '''' \<longrightarrow> claim_by_idem cid uid idem d = None" "rec = claim_record (db_next_claim_id d) cid uid idem now"
    and notice: "notice_added r ctx rec (with_claim cid uid idem now (deducted cid now c d)) d'"
    using g unfolding granted_def by blast
  let ?d = "with_claim cid uid idem now (deducted cid now c d)" and ?p = "notice_params r ctx rec"
  have books: "books_ok d'"
    using books_ok_notice [OF notice] books_ok_grant [of d cid c uid idem now] ok c by (simp add: tables_ok_def)
  have same: "db_tasks ?d = db_tasks d" "db_events ?d = db_events d" "same_task_key ?d = same_task_key d"
    "db_next_task_id ?d = db_next_task_id d" "db_next_event_id ?d = db_next_event_id d"
    by (auto simp: with_claim_def deducted_def same_task_key_def fun_eq_iff)
  have "task_keys ?d = task_keys d" by (simp add: task_keys_def with_claim_def deducted_def)
  then have "ids_ok ?d = ids_ok d" by (simp add: ids_ok_def task_ids_ok_def event_ids_ok_def same)
  moreover have "announced ?d = announced d" "noticed ?d = noticed d"
    by (simp_all add: announced_def noticed_def same fun_eq_iff)
  ultimately have base: "ids_ok ?d" "\<forall>x \<in> set (db_claims d). noticed ?d x" "\<forall>t \<in> set (db_tasks ?d). announced ?d (tk_task_id t)"
    using ok unfolding tables_ok_def same(1) by simp_all
  have claims: "db_claims d' = db_claims d @ [new_claim cid uid idem now d]"
    using notice_added_keeps(2) [OF notice] by (simp add: with_claim_def deducted_def new_claim_def)
  have key: "TaskParams_TaskType ?p = TaskTypeSendCouponNotice"
      "TaskParams_BizID ?p = notice_key (new_claim cid uid idem now d)"
    using c(5) by (simp_all add: notice_params_def notice_key_def new_claim_def claim_record_def)
  from notice async consider
      (new) now1 now2 where "d' = with_event (notice_event (db_next_task_id ?d)) now2 (with_task ?p now1 ?d)"
        "\<forall>t \<in> set (db_tasks ?d). \<not> same_task_key ?d (TaskParams_TaskType ?p) (TaskParams_BizID ?p) t"
    | (known) t now1 where "t \<in> set (db_tasks ?d)" "same_task_key ?d (TaskParams_TaskType ?p) (TaskParams_BizID ?p) t"
        "d' = with_event (notice_event (tk_task_id t)) now1 (?d\<lparr>db_next_task_id := db_next_task_id ?d + 1\<rparr>)"
    unfolding notice_added_def Let_def by auto
  then have "ids_ok d' \<and> (\<forall>x \<in> set (db_claims d). noticed d' x) \<and> (\<forall>t \<in> set (db_tasks d'). announced d' (tk_task_id t)) \<and>
      (\<exists>t \<in> set (db_tasks d'). same_task_key d' (TaskParams_TaskType ?p) (TaskParams_BizID ?p) t)"
  proof cases
    case new
    show ?thesis by (intro conjI tables_ok_added [OF base new(2,1)])
  next
    case known
    let ?d1 = "?d\<lparr>db_next_task_id := db_next_task_id ?d + 1\<rparr>"
    have "task_keys ?d1 = task_keys ?d" "event_ids_ok ?d1 = event_ids_ok ?d" "announced ?d1 = announced ?d"
      by (simp_all add: task_keys_def event_ids_ok_def announced_def fun_eq_iff)
    moreover have "task_ids_ok ?d1" using base(1) by (fastforce simp: ids_ok_def task_ids_ok_def)
    ultimately have "ids_ok ?d1" "announced ?d1 = announced ?d" using base(1) by (simp_all add: ids_ok_def)
    then have "ids_ok d'" "announced ?d i \<Longrightarrow> announced d' i" for i
      unfolding known(3) by (auto intro: ids_ok_event announced_with_event(1))
    moreover have "db_tasks d' = db_tasks ?d" "same_task_key d' = same_task_key ?d"
      unfolding known(3) by (simp_all add: same_task_key_def fun_eq_iff)
    ultimately show ?thesis using base known(1,2) unfolding noticed_def by auto
  qed
  then have "ids_ok d'" "\<forall>x \<in> set (db_claims d). noticed d' x" "\<forall>t \<in> set (db_tasks d'). announced d' (tk_task_id t)"
      "noticed d' (new_claim cid uid idem now d)"
    unfolding key by (auto simp: noticed_def)
  with books show ?thesis unfolding tables_ok_def claims by simp
qed

lemma tables_ok_claimed:
  assumes "tables_ok d" "claimed r ctx cid uid idem res d d'" "Repo_async r"
  shows "tables_ok d'"
  using assms tables_ok_granted [OF assms(1) _ assms(3), of ctx cid uid idem] tables_ok_counters [OF assms(1)]
  by (auto simp: claimed_def replayed_def split: sum.splits)


section \<open>What the processes do to the tables\<close>

lemma tasks_only_same:
  assumes "d'\<lparr>db_tasks := []\<rparr> = d\<lparr>db_tasks := []\<rparr>"
  shows "db_claims d' = db_claims d" "db_campaigns d' = db_campaigns d" "db_events d' = db_events d"
    "db_collate d' = db_collate d" "db_next_claim_id d' = db_next_claim_id d"
    "db_next_task_id d' = db_next_task_id d" "db_next_event_id d' = db_next_event_id d"
  using assms by (cases d; cases d'; simp)+

lemma events_only_same:
  assumes "d'\<lparr>db_events := []\<rparr> = d\<lparr>db_events := []\<rparr>"
  shows "db_claims d' = db_claims d" "db_campaigns d' = db_campaigns d" "db_tasks d' = db_tasks d"
    "db_collate d' = db_collate d" "db_next_claim_id d' = db_next_claim_id d"
    "db_next_task_id d' = db_next_task_id d" "db_next_event_id d' = db_next_event_id d"
  using assms by (cases d; cases d'; simp)+

lemma tasks_step_identity:
  assumes "tasks_step q w w'" "task_inv q w"
  shows "map task_identity (db_tasks (w_db w')) = map task_identity (db_tasks (w_db w))"
proof (rule nth_equalityI)
  let ?ts = "db_tasks (w_db w)" and ?ts' = "db_tasks (w_db w')"
  note S = assms(1) [unfolded tasks_step_def, rule_format, OF assms(2)]
  have ids: "map tk_task_id ?ts' = map tk_task_id ?ts" and reach: "rel_option task_reaches (task_at w i) (task_at w' i)" for i
    using S by simp_all
  show len: "length (map task_identity ?ts') = length (map task_identity ?ts)"
    using arg_cong [OF ids, of length] by simp
  fix n assume "n < length (map task_identity ?ts')"
  then have n: "n < length ?ts'" "n < length ?ts" using len by simp_all
  have id: "tk_task_id (?ts' ! n) = tk_task_id (?ts ! n)" using arg_cong [OF ids, of "\<lambda>xs. xs ! n"] n by simp
  have ok: "tasks_ok w" "tasks_ok w'" using S assms(2) by (simp_all add: task_inv_def)
  have "task_at w (tk_task_id (?ts ! n)) = Some (?ts ! n)" using task_at_member [OF ok(1)] n(2) by simp
  moreover have "task_at w' (tk_task_id (?ts ! n)) = Some (?ts' ! n)"
    using task_at_member [OF ok(2), of "?ts' ! n"] n(1) id by simp
  ultimately have "task_reaches (?ts ! n) (?ts' ! n)" using reach [of "tk_task_id (?ts ! n)"] by simp
  then show "map task_identity ?ts' ! n = map task_identity ?ts ! n" using task_reaches_keeps n by simp
qed

lemma tables_ok_tasks_step:
  assumes "tasks_step q w w'" "task_inv q w" "tables_ok (w_db w)"
  shows "tables_ok (w_db w')"
proof -
  let ?d = "w_db w" and ?d' = "w_db w'"
  define key where "key = (\<lambda>i :: int \<times> string \<times> string \<times> json \<times> int \<times> int. (fst i, fst (snd i), fst (snd (snd i))))"
  have others: "?d'\<lparr>db_tasks := []\<rparr> = ?d\<lparr>db_tasks := []\<rparr>" using assms(1,2) by (simp add: tasks_step_def)
  note same = tasks_only_same [OF others]
  have "map (key \<circ> task_identity) (db_tasks ?d') = map (key \<circ> task_identity) (db_tasks ?d)"
    using tasks_step_identity [OF assms(1,2)] by (metis list.map_comp)
  then have keys: "map (\<lambda>t. (tk_task_id t, tk_task_type t, tk_biz_id t)) (db_tasks ?d') =
      map (\<lambda>t. (tk_task_id t, tk_task_type t, tk_biz_id t)) (db_tasks ?d)" (is "map ?f _ = map ?f _")
    by (simp add: key_def task_identity_def comp_def)
  have sets: "?f ` set (db_tasks ?d') = ?f ` set (db_tasks ?d)" using arg_cong [OF keys, of set] by simp
  have ids: "map tk_task_id (db_tasks ?d') = map tk_task_id (db_tasks ?d)" using arg_cong [OF keys, of "map fst"] by (simp add: comp_def)
  have "task_keys ?d' = task_keys ?d"
    using arg_cong [OF keys, of "map (\<lambda>(_, t, b). (db_collate ?d t, db_collate ?d b))"]
    by (simp add: task_keys_def same comp_def)
  moreover have "task_ids_ok ?d' = task_ids_ok ?d"
  proof -
    have alt: "task_ids_ok e = (distinct (map tk_task_id (db_tasks e)) \<and> 0 < db_next_task_id e \<and>
        (\<forall>i \<in> set (map tk_task_id (db_tasks e)). 0 < i \<and> i < db_next_task_id e))" for e :: db
      by (simp add: task_ids_ok_def)
    show ?thesis unfolding alt ids same ..
  qed
  moreover have "event_ids_ok ?d' = event_ids_ok ?d" by (simp add: event_ids_ok_def same)
  moreover have "announced ?d' = announced ?d" by (simp add: announced_def same fun_eq_iff)
  moreover have "noticed ?d' x = noticed ?d x" for x
  proof -
    have alt: "noticed e x = (\<exists>(i, ty, b) \<in> ?f ` set (db_tasks e). db_collate e ty = db_collate e TaskTypeSendCouponNotice \<and>
        db_collate e b = db_collate e (notice_key x) \<and> announced e i)" for e :: db
      by (auto simp: noticed_def same_task_key_def)
    show ?thesis unfolding alt sets same \<open>announced ?d' = announced ?d\<close> ..
  qed
  moreover have "(\<forall>t \<in> set (db_tasks ?d'). announced ?d (tk_task_id t)) = (\<forall>t \<in> set (db_tasks ?d). announced ?d (tk_task_id t))"
  proof -
    have alt: "(\<forall>t \<in> set ts. announced ?d (tk_task_id t)) = (\<forall>i \<in> set (map tk_task_id ts). announced ?d i)" for ts by simp
    show ?thesis unfolding alt ids ..
  qed
  moreover have "books_ok ?d'"
    by (rule books_ok_cong [of _ ?d]) (use assms(3) in \<open>simp_all add: same tables_ok_def\<close>)
  ultimately show ?thesis using assms(3) by (simp add: tables_ok_def ids_ok_def same)
qed


text \<open>An event that names a task by a valid payload stays on its way through a run of the relay.\<close>

lemma announced_relay:
  assumes ev: "event_ids_ok (w_db w)"
    and payload: "event_payload w' = event_payload w"
    and events: "\<forall>j. relay_event ys (event_payload w j) (event_status w j) (event_status w' j)"
    and i: "announced (w_db w) i" "0 < i"
  shows "announced (w_db w') i"
proof -
  obtain e where e: "e \<in> set (db_events (w_db w))" "ev_payload_json e = MarshalTaskCreatedPayload i"
      "in_int64 i \<longrightarrow> ev_status e \<in> {outbox_StatusPending, outbox_StatusDispatching, outbox_StatusPublished}"
    using i(1) by (auto simp: announced_def)
  have row: "outbox_row w (ev_event_id e) = Some e" using outbox_row_member e(1) ev by (simp add: event_ids_ok_def)
  then have p: "event_payload w (ev_event_id e) = Some (MarshalTaskCreatedPayload i)" by (simp add: event_payload_def e(2))
  then obtain e' where e': "outbox_row w' (ev_event_id e) = Some e'" "ev_payload_json e' = MarshalTaskCreatedPayload i"
    using payload unfolding event_payload_def fun_eq_iff by (metis (no_types, lifting) map_option_eq_Some)
  have "ev_status e' \<in> {outbox_StatusPending, outbox_StatusDispatching, outbox_StatusPublished}" if "in_int64 i"
  proof -
    have "task_of_payload (Some (MarshalTaskCreatedPayload i)) = Some i" using that i(2) by (simp add: task_of_payload_def)
    moreover have "relay_event ys (Some (MarshalTaskCreatedPayload i)) (Some (ev_status e)) (Some (ev_status e'))"
      using events [rule_format, of "ev_event_id e"] p row e'(1) by (simp add: event_status_def)
    ultimately show ?thesis using e(3) that by (auto simp: relay_event_def)
  qed
  moreover have "e' \<in> set (db_events (w_db w'))" using e'(1) outbox_row_id by blast
  ultimately show ?thesis using e'(2) by (auto simp: announced_def)
qed

lemma tables_ok_relay:
  assumes step: "events_step q w w'" "queue_ok q w" and ok: "tables_ok (w_db w)"
    and payload: "event_payload w' = event_payload w"
    and events: "\<forall>j. relay_event ys (event_payload w j) (event_status w j) (event_status w' j)"
  shows "tables_ok (w_db w')"
proof -
  let ?d = "w_db w" and ?d' = "w_db w'"
  note S = step(1) [unfolded events_step_def, rule_format, OF step(2)]
  have others: "?d'\<lparr>db_events := []\<rparr> = ?d\<lparr>db_events := []\<rparr>" and ids: "map ev_event_id (db_events ?d') = map ev_event_id (db_events ?d)"
    using S by simp_all
  note same = events_only_same [OF others]
  have ev: "event_ids_ok ?d" and tk: "task_ids_ok ?d" using ok by (simp_all add: tables_ok_def ids_ok_def)
  have ann: "announced ?d' (tk_task_id t)" if "t \<in> set (db_tasks ?d)" "announced ?d (tk_task_id t)" for t
    using announced_relay [OF ev payload events that(2)] tk that(1) by (simp add: task_ids_ok_def)
  have "event_ids_ok ?d'"
  proof -
    have alt: "event_ids_ok e = (distinct (map ev_event_id (db_events e)) \<and>
        (\<forall>i \<in> set (map ev_event_id (db_events e)). i < db_next_event_id e))" for e :: db by (simp add: event_ids_ok_def)
    show ?thesis using ev unfolding alt ids same .
  qed
  moreover have "task_ids_ok ?d'" "task_keys ?d' = task_keys ?d" using tk by (simp_all add: task_ids_ok_def task_keys_def same)
  moreover have "books_ok ?d'"
    by (rule books_ok_cong [of _ ?d]) (use ok in \<open>simp_all add: same tables_ok_def\<close>)
  moreover have "noticed ?d' x" if "noticed ?d x" for x
    using that ann by (auto simp: noticed_def same_task_key_def same)
  ultimately show ?thesis using ok ann by (auto simp: tables_ok_def ids_ok_def same)
qed

section \<open>The step relation\<close>

inductive quan_step :: "QueueConfig \<Rightarrow> world \<Rightarrow> world \<Rightarrow> bool" for q :: QueueConfig where
  step_claim: "quan_step q w (final (Claim (coupon_NewService (coupon_NewRepository True True retries) cache) ctx rnd1 rnd2
     couponID userID idemKey) w)"
| step_create: "quan_step q w (final (CreateTask (NewServiceWithQueue queue retries) req) w)"
| step_replay: "queue \<in> {RedisQueue q, NilQueue} \<Longrightarrow>
    quan_step q w (final (ReplayDLQTask (NewServiceWithQueue queue retries) taskID) w)"
| step_relay: "quan_step q w (final (relay_run time_Now rcfg (relay_wiring m q) n) w)"
| step_consume: "quan_step q w (final (consumer_schedule (consumer_wiring m q) ccfg ctx bs) w)"
| step_compensate: "quan_step q w (final (compensator_run time_Now pcfg (compensator_wiring m q) n) w)"
| step_world: "w_now w \<le> t \<Longrightarrow>
    quan_step q w (w\<lparr>w_now := t, w_ticks := ticks, w_faults := faults, w_metrics := metrics\<rparr>)"
| step_redis_loss: "(\<And>k. m k = w_kv w k \<or> m k = None) \<Longrightarrow> quan_step q w (w\<lparr>w_kv := m\<rparr>)"

abbreviation quan_run :: "QueueConfig \<Rightarrow> world \<Rightarrow> world \<Rightarrow> bool" where
  "quan_run q \<equiv> (quan_step q)\<^sup>*\<^sup>*"

definition quan_inv :: "QueueConfig \<Rightarrow> world \<Rightarrow> bool" where
  "quan_inv q w \<longleftrightarrow> w_tx w = None \<and> queue_ok q w \<and> tables_ok (w_db w) \<and> answers_ok (w_db w) (w_kv w)"

text \<open>What a run never takes back: claims stay, and a task stays and moves along its life cycle.\<close>

definition quan_grows :: "world \<Rightarrow> world \<Rightarrow> bool" where
  "quan_grows w w' \<longleftrightarrow> set (db_claims (w_db w)) \<subseteq> set (db_claims (w_db w')) \<and>
     (\<forall>i r. task_at w i = Some r \<longrightarrow> (\<exists>r'. task_at w' i = Some r' \<and> task_reaches r r'))"

lemma quan_grows_refl: "quan_grows w w"
  by (simp add: quan_grows_def)

lemma quan_grows_trans: "quan_grows u v \<Longrightarrow> quan_grows v w \<Longrightarrow> quan_grows u w"
  unfolding quan_grows_def by (meson order_trans rtranclp_trans)

lemma quan_inv_task_inv: "quan_inv q w \<Longrightarrow> task_inv q w"
  by (simp add: quan_inv_def task_inv_def tables_ok_def ids_ok_def task_ids_ok_def tasks_ok_def)

lemma answers_ok_outside:
  assumes "answers_ok d m" "claim_free K" "db_claims d' = db_claims d" "\<forall>k. k \<notin> K \<longrightarrow> m' k = m k"
  shows "answers_ok d' m'"
  using assms claim_free_keys(4) [OF assms(2)] by (simp add: answers_ok_def claim_in_def)

lemma quan_tasks_step:
  assumes "claim_free (queue_keys q)" "quan_inv q w" "tasks_step q w w'"
  shows "quan_inv q w' \<and> quan_grows w w'"
proof -
  note inv = quan_inv_task_inv [OF assms(2)]
  note S = assms(3) [unfolded tasks_step_def, rule_format, OF inv]
  have old: "tables_ok (w_db w)" "answers_ok (w_db w) (w_kv w)" using assms(2) by (simp_all add: quan_inv_def)
  have others: "(w_db w')\<lparr>db_tasks := []\<rparr> = (w_db w)\<lparr>db_tasks := []\<rparr>"
    and kv: "\<forall>k. k \<notin> queue_keys q \<longrightarrow> w_kv w' k = w_kv w k"
    and reach: "rel_option task_reaches (task_at w i) (task_at w' i)" and inv': "task_inv q w'" for i
    using S by blast+
  note claims = tasks_only_same(1) [OF others]
  have "answers_ok (w_db w') (w_kv w')" by (rule answers_ok_outside [OF old(2) assms(1) claims kv])
  moreover have "tables_ok (w_db w')" by (rule tables_ok_tasks_step [OF assms(3) inv old(1)])
  moreover have "\<exists>r'. task_at w' i = Some r' \<and> task_reaches r r'" if "task_at w i = Some r" for i r
    using reach [of i] that by (cases "task_at w' i") auto
  ultimately show ?thesis using inv' claims by (simp add: quan_inv_def quan_grows_def task_inv_def)
qed

text \<open>The relay of a server without metrics.\<close>

interpretation quiet_relay:
  relay_loop outbox_repository "queue_publisher q" "relay_inv q" event_status event_payload
    "ready_list q" time_Now noopRelayMetrics for q
  by unfold_locales
    (auto intro!: wp_time_Now simp: noopRelayMetrics_def relay_views fun_eq_iff outbox_row_def)

lemma relay_wiring_safe:
  assumes "relay_inv q w" and w'_def: "w' = final (relay_run time_Now cfg (relay_wiring m q) n) w"
  obtains ys where "event_payload w' = event_payload w"
    "\<forall>j. relay_event ys (event_payload w j) (event_status w j) (event_status w' j)"
  using outbox_relay.wp_relay_run [OF assms(1), of cfg n] quiet_relay.wp_relay_run [OF assms(1), of cfg n]
  by (cases m) (auto simp: wp_iff outbox_relay.relay_safe_def outbox_relay.ports_def quiet_relay.ports_def relay_wiring_def w'_def)

lemma quan_events_step:
  assumes "claim_free (queue_keys q)" "quan_inv q w" and step: "events_step q w w'"
    and payload: "event_payload w' = event_payload w"
    and events: "\<forall>j. relay_event ys (event_payload w j) (event_status w j) (event_status w' j)"
  shows "quan_inv q w' \<and> quan_grows w w'"
proof -
  have old: "w_tx w = None" "queue_ok q w" "tables_ok (w_db w)" "answers_ok (w_db w) (w_kv w)"
    using assms(2) by (simp_all add: quan_inv_def)
  note S = step [unfolded events_step_def, rule_format, OF old(2)]
  have others: "(w_db w')\<lparr>db_events := []\<rparr> = (w_db w)\<lparr>db_events := []\<rparr>"
    and kv: "\<forall>k. k \<notin> queue_keys q \<longrightarrow> w_kv w' k = w_kv w k" and tx: "w_tx w' = w_tx w" and ok: "queue_ok q w'"
    using S by blast+
  have "answers_ok (w_db w') (w_kv w')" by (rule answers_ok_outside [OF old(4) assms(1) events_only_same(1) [OF others] kv])
  moreover have "tables_ok (w_db w')" by (rule tables_ok_relay [OF step old(2,3) payload events])
  moreover have "task_at w' = task_at w" by (simp add: task_at_def events_only_same [OF others] fun_eq_iff)
  ultimately show ?thesis using tx ok old(1) by (simp add: quan_inv_def quan_grows_def events_only_same [OF others])
qed

lemma quan_inv_relay_inv: "quan_inv q w \<Longrightarrow> relay_inv q w"
  by (simp add: quan_inv_def relay_inv_def tables_ok_def ids_ok_def event_ids_ok_def)

lemma quan_relay_step:
  assumes "claim_free (queue_keys q)" "quan_inv q w"
    and w'_def: "w' = final (relay_run time_Now cfg (relay_wiring m q) n) w"
  shows "quan_inv q w' \<and> quan_grows w w'"
proof -
  obtain ys where "event_payload w' = event_payload w"
    "\<forall>j. relay_event ys (event_payload w j) (event_status w j) (event_status w' j)"
    using relay_wiring_safe [OF quan_inv_relay_inv [OF assms(2)] w'_def] by blast
  moreover have "events_step q w w'" unfolding w'_def by (rule events_frame.kept_final [OF relay_kept])
  ultimately show ?thesis using quan_events_step [OF assms(1,2)] by blast
qed

text \<open>Rows that a transaction appends leave the rows before them as they are.\<close>

definition tasks_appended :: "db \<Rightarrow> db \<Rightarrow> bool" where
  "tasks_appended d d' \<longleftrightarrow> (\<exists>ts. db_tasks d' = db_tasks d @ ts)"

lemma sql_row_append: "sql_row p xs = Some r \<Longrightarrow> sql_row p (xs @ ys) = Some r"
  by (induction xs) (auto simp: sql_row_def split: if_splits)

lemma quan_request_step:
  assumes "quan_inv q w" "same_on (queue_keys q) (w_kv w) (w_kv w')" "w_tx w' = None" "tables_ok (w_db w')"
    "answers_ok (w_db w') (w_kv w')" "set (db_claims (w_db w)) \<subseteq> set (db_claims (w_db w'))" "tasks_appended (w_db w) (w_db w')"
  shows "quan_inv q w' \<and> quan_grows w w'"
proof
  have "queue_ok q w'" using assms(1,2) by (simp add: quan_inv_def queue_ok_def queue_keys_def same_on_def list_key_def zset_key_def)
  with assms show "quan_inv q w'" by (simp add: quan_inv_def)
  show "quan_grows w w'" using assms(6,7) by (auto simp: quan_grows_def tasks_appended_def task_at_def sql_row_append)
qed

lemma appended_cases:
  "tasks_appended d (rolled_back d d1)" "task_added p d t d' \<Longrightarrow> tasks_appended d d'"
  "granted r ctx cid uid idem d rec d' \<Longrightarrow> tasks_appended d d'"
proof -
  show "tasks_appended d (rolled_back d d1)" by (simp add: tasks_appended_def rolled_back_def)
  show "task_added p d t d' \<Longrightarrow> tasks_appended d d'" by (auto simp: tasks_appended_def task_added_def with_task_def)
  show "granted r ctx cid uid idem d rec d' \<Longrightarrow> tasks_appended d d'"
    by (auto simp: tasks_appended_def granted_def notice_added_def with_task_def with_claim_def deducted_def Let_def split: if_splits)
qed

lemma task_known_rolled_back:
  "task_known p d t d' \<Longrightarrow> d' = rolled_back d d' \<and> counters_le d d'"
  by (auto simp: task_known_def rolled_back_def counters_le_def)

lemma quan_create_step:
  assumes inv: "quan_inv q w" and w': "w' = final (CreateTask s req) w"
  shows "quan_inv q w' \<and> quan_grows w w'"
proof (cases "create_params s req")
  case None
  then have "w' = w" by (simp add: w' CreateTask_def final_def)
  then show ?thesis using inv by (simp add: quan_grows_refl)
next
  case (Some p)
  have old: "w_tx w = None" "tables_ok (w_db w)" "answers_ok (w_db w) (w_kv w)" using inv by (simp_all add: quan_inv_def)
  have fin: "w' = final (within_tx (createTask_tx p)) w"
    by (simp add: w' CreateTask_def Some final_def split: prod.split sum.split)
  have e: "same_env w w'" "w_tx w' = None" "task_create_effect p (answer (within_tx (createTask_tx p)) w) (w_db w) (w_db w')"
    using wp_create_within_tx [OF old(1), of p] by (simp_all add: wp_iff fin)
  have known: "\<exists>d1. counters_le (w_db w) d1 \<and> w_db w' = rolled_back (w_db w) d1" if "task_known p (w_db w) t (w_db w')" for t
    using task_known_rolled_back [OF that] by blast
  from e(3) consider d1 where "counters_le (w_db w) d1" "w_db w' = rolled_back (w_db w) d1" | t where "task_added p (w_db w) t (w_db w')"
    using known by (auto simp: task_create_effect_def split: sum.splits)
  then have "tables_ok (w_db w') \<and> tasks_appended (w_db w) (w_db w') \<and> db_claims (w_db w') = db_claims (w_db w)"
    by cases (auto simp: tables_ok_counters [OF old(2)] tables_ok_task_added [OF old(2)] appended_cases,
        auto simp: rolled_back_def task_added_def with_task_def)
  moreover have "same_on (queue_keys q) (w_kv w) (w_kv w')" "w_kv w' = w_kv w" using e(1) by (simp_all add: same_env_def same_on_def)
  ultimately show ?thesis using e(2) old(3) answers_ok_db [of "w_db w" "w_kv w" "w_db w'"] by (intro quan_request_step [OF inv]) simp_all
qed

lemma quan_claim_step:
  assumes free: "claim_free (queue_keys q)" and inv: "quan_inv q w"
    and w': "w' = final (Claim (coupon_NewService (coupon_NewRepository True True n) cache) ctx rnd1 rnd2 cid uid idem) w"
  shows "quan_inv q w' \<and> quan_grows w w'"
proof -
  let ?s = "coupon_NewService (coupon_NewRepository True True n) cache" and ?r = "coupon_NewRepository True True n"
  have repo: "Svc_repo ?s = ?r" "Repo_async ?r" by (simp_all add: coupon_NewService_def coupon_NewRepository_def)
  have old: "w_tx w = None" "tables_ok (w_db w)" "answers_ok (w_db w) (w_kv w)" "campaigns_ok (w_db w)"
    using inv by (simp_all add: quan_inv_def tables_ok_def books_ok_def)
  have e: "claim_effect ?s ctx cid uid idem w (answer (Claim ?s ctx rnd1 rnd2 cid uid idem) w) w'"
    using wp_Claim [OF old(4,1) refl, of ?r cache ctx rnd1 rnd2 cid uid idem] by (simp add: wp_iff w')
  have step: "claims_step q w w'" unfolding w' by (rule claims_frame.kept_final [OF claim_kept [OF free]])
  have "tables_ok d' \<and> tasks_appended d d'" if "claimed ?r ctx cid uid idem res d d'" "tables_ok d" for res d d'
    using tables_ok_claimed [OF that(2,1) repo(2)] that(1) appended_cases
    by (auto simp: claimed_def replayed_def tasks_appended_def rolled_back_def split: sum.splits)
  then have "tables_ok (w_db w') \<and> tasks_appended (w_db w) (w_db w')"
    using e old(2) unfolding claim_effect_def quiet_def repo(1) by (auto simp: tasks_appended_def)
  then show ?thesis
    using step old(1,4) claim_effect_answers [OF e old(3)] claims_grow_subset [OF claim_effect_grows [OF e]]
    by (intro quan_request_step [OF inv]) (simp_all add: claims_step_def)
qed


section \<open>Runs\<close>

lemma quan_step_ok:
  assumes "claim_free (queue_keys q)" "quan_step q w w'" "quan_inv q w"
  shows "quan_inv q w' \<and> quan_grows w w'"
  using assms(2)
proof cases
  case (step_claim retries cache ctx rnd1 rnd2 couponID userID idemKey)
  show ?thesis by (rule quan_claim_step [OF assms(1,3) step_claim])
next
  case (step_create queue retries req)
  show ?thesis by (rule quan_create_step [OF assms(3) step_create])
next
  case (step_replay queue retries taskID)
  show ?thesis unfolding step_replay(1)
    by (rule quan_tasks_step [OF assms(1,3) tasks_frame.kept_final [OF replay_kept [OF step_replay(2)]]])
next
  case (step_relay rcfg m n)
  show ?thesis by (rule quan_relay_step [OF assms(1,3) step_relay])
next
  case (step_consume m ccfg ctx bs)
  show ?thesis unfolding step_consume by (rule quan_tasks_step [OF assms(1,3) tasks_frame.kept_final [OF consumer_kept]])
next
  case (step_compensate pcfg m n)
  show ?thesis unfolding step_compensate
    by (rule quan_tasks_step [OF assms(1,3) tasks_frame.kept_final [OF compensator_kept]])
next
  case (step_world t ticks faults metrics)
  then show ?thesis using assms(3) by (simp add: quan_inv_def quan_grows_def queue_ok_def task_at_def)
next
  case (step_redis_loss m)
  have "list_key m k" if "list_key (w_kv w) k" for k using that step_redis_loss(2) [of k] by (auto simp: list_key_def)
  moreover have "zset_key m k" if "zset_key (w_kv w) k" for k using that step_redis_loss(2) [of k] by (auto simp: zset_key_def)
  moreover have "answers_ok (w_db w) m"
    using assms(3) step_redis_loss(2) unfolding quan_inv_def answers_ok_def by (metis option.distinct(1))
  ultimately show ?thesis using assms(3) step_redis_loss(1) by (simp add: quan_inv_def quan_grows_def queue_ok_def task_at_def)
qed

lemma quan_run_ok:
  assumes "claim_free (queue_keys q)" "quan_run q w w'" "quan_inv q w"
  shows "quan_inv q w' \<and> quan_grows w w'"
  using assms(2,3)
proof (induction rule: rtranclp_induct)
  case base
  then show ?case by (simp add: quan_grows_refl)
next
  case (step u v)
  then show ?case using quan_step_ok [OF assms(1) step.hyps(2)] quan_grows_trans by blast
qed

text \<open>A server before its first request: campaigns that have sold nothing, empty tables, no keys.\<close>

definition tables_fresh :: "db \<Rightarrow> bool" where
  "tables_fresh d \<longleftrightarrow> campaigns_ok d \<and>
     (\<forall>c \<in> set (db_campaigns d). 0 \<le> cp_total_stock c \<and> cp_available_stock c = cp_total_stock c) \<and>
     db_claims d = [] \<and> db_tasks d = [] \<and> db_events d = [] \<and> 0 < db_next_task_id d"

definition quan_fresh :: "world \<Rightarrow> bool" where
  "quan_fresh w \<longleftrightarrow> w_tx w = None \<and> w_kv w = (\<lambda>_. None) \<and> tables_fresh (w_db w)"

lemma tables_fresh_ok:
  assumes "tables_fresh d" shows "tables_ok d"
proof -
  have "0 \<le> effective_limit n" for n by (simp add: effective_limit_def)
  with assms have "books_ok d"
    by (simp add: tables_fresh_def books_defs claims_of_def user_claims_def sql_select_def)
  with assms show ?thesis
    by (simp add: tables_fresh_def tables_ok_def ids_ok_def task_ids_ok_def event_ids_ok_def task_keys_def)
qed

lemma quan_fresh_inv:
  assumes "quan_fresh w" "distinct [ReadyKey q, RetryKey q, DLQKey q]"
  shows "quan_inv q w"
  using assms tables_fresh_ok [of "w_db w"]
  by (simp add: quan_inv_def quan_fresh_def tables_fresh_def queue_ok_def list_key_def zset_key_def answers_ok_def)

section \<open>Properties\<close>

text \<open>The tasks that serve as the notice of a claim.\<close>

definition notice_tasks :: "db \<Rightarrow> claim_row \<Rightarrow> task_row list" where
  "notice_tasks d x = filter (same_task_key d TaskTypeSendCouponNotice (notice_key x)) (db_tasks d)"

lemma distinct_singleton: "set xs = {t} \<Longrightarrow> distinct xs \<Longrightarrow> xs = [t]"
  by (cases xs; cases "tl xs") auto

lemma noticed_unique:
  assumes "distinct (task_keys d)" "noticed d x"
  shows "\<exists>t. notice_tasks d x = [t] \<and> announced d (tk_task_id t)"
proof -
  obtain t where t: "t \<in> set (db_tasks d)" "same_task_key d TaskTypeSendCouponNotice (notice_key x) t" "announced d (tk_task_id t)"
    using assms(2) unfolding noticed_def by blast
  let ?key = "\<lambda>t. (db_collate d (tk_task_type t), db_collate d (tk_biz_id t))"
  have inj: "distinct (map ?key (db_tasks d))" using assms(1) by (simp add: task_keys_def)
  have "t' = t" if "t' \<in> set (db_tasks d)" "same_task_key d TaskTypeSendCouponNotice (notice_key x) t'" for t'
  proof -
    have "?key t' = ?key t" using that(2) t(2) by (simp add: same_task_key_def)
    moreover have "inj_on ?key (set (db_tasks d))" using inj by (simp only: distinct_map)
    ultimately show ?thesis using that(1) t(1) by (rule_tac inj_onD)
  qed
  with t(1,2) have "set (notice_tasks d x) = {t}" unfolding notice_tasks_def set_filter by blast
  moreover have "distinct (notice_tasks d x)" using inj by (simp add: notice_tasks_def distinct_map)
  ultimately have "notice_tasks d x = [t]" by (rule distinct_singleton)
  with t(3) show ?thesis by blast
qed

lemma tables_ok_books:
  assumes "tables_ok (w_db w)"
  shows "(\<forall>c \<in> set (db_campaigns (w_db w)). 0 \<le> cp_available_stock c \<and>
            cp_available_stock c + int (length (claims_of (cp_coupon_id c) (w_db w))) = cp_total_stock c \<and>
            (\<forall>u. int (length (user_claims (cp_coupon_id c) u (w_db w))) \<le> effective_limit (cp_per_user_limit c))) \<and>
         (\<forall>x \<in> set (db_claims (w_db w)). \<exists>t. notice_tasks (w_db w) x = [t] \<and> announced (w_db w) (tk_task_id t))"
proof -
  have books: "ledger_ok (w_db w)" "limits_ok (w_db w)" and keys: "distinct (task_keys (w_db w))"
    and notice: "\<forall>x \<in> set (db_claims (w_db w)). noticed (w_db w) x"
    using assms by (simp_all add: tables_ok_def books_ok_def ids_ok_def)
  show ?thesis using books notice noticed_unique [OF keys] by (auto simp: ledger_ok_def limits_ok_def)
qed

lemma quan_inv_books: "quan_inv q w \<Longrightarrow> tables_ok (w_db w)"
  by (simp add: quan_inv_def)

lemma quan_grows_history:
  assumes "quan_grows w w'"
  shows "set (db_claims (w_db w)) \<subseteq> set (db_claims (w_db w')) \<and>
    (\<forall>i. case task_at w i of None \<Rightarrow> True
       | Some r \<Rightarrow> \<exists>r'. task_at w' i = Some r' \<and> task_reaches r r' \<and> task_identity r' = task_identity r \<and>
           (task_wf r \<longrightarrow> task_wf r') \<and> (tk_status r = task_StatusSuccess \<longrightarrow> r' = r))"
proof -
  have "\<exists>r'. task_at w' i = Some r' \<and> task_reaches r r' \<and> task_identity r' = task_identity r \<and>
           (task_wf r \<longrightarrow> task_wf r') \<and> (tk_status r = task_StatusSuccess \<longrightarrow> r' = r)" if "task_at w i = Some r" for i r
    using assms that task_reaches_keeps task_reaches_success unfolding quan_grows_def by blast
  with assms show ?thesis by (auto simp: quan_grows_def split: option.split)
qed

lemma demo_shop_fresh: "0 \<le> n \<Longrightarrow> quan_fresh (demo_shop [demo_campaign n] [] fs)"
  by (simp add: quan_fresh_def tables_fresh_def demo_shop_def demo_campaign_def campaigns_ok_def)

lemma demo_keys_free: "distinct [ReadyKey demo_keys, RetryKey demo_keys, DLQKey demo_keys]" "claim_free (queue_keys demo_keys)"
  by (simp_all add: demo_keys_def QueueConfig_withDefaults_def claim_free_def queue_keys_def HasPrefix_def decisionNamespace_def)

text \<open>A day of the demo server: a claim whose commit is not answered, a loss of Redis, and a round of the relay.\<close>

definition demo_dawn :: world where
  "demo_dawn = demo_shop [demo_campaign 1] [] (replicate 8 NoFault @ [Lost ''reset''])"

definition demo_morning :: world where
  "demo_morning = final (Claim (coupon_NewService (coupon_NewRepository True True 0) False) (Ctx None) 5 6 1001 7 ''k1'') demo_dawn"

definition demo_noon :: world where
  "demo_noon = final (relay_run time_Now (RelayConfig_withDefaults demo_relay) (relay_wiring True demo_keys) 0)
     (demo_morning\<lparr>w_kv := \<lambda>_. None\<rparr>)"

lemma demo_runs: "quan_run demo_keys demo_dawn demo_noon"
proof -
  have "quan_step demo_keys demo_dawn demo_morning" unfolding demo_morning_def by (rule step_claim)
  moreover have "quan_step demo_keys demo_morning (demo_morning\<lparr>w_kv := \<lambda>_. None\<rparr>)" by (rule step_redis_loss) simp
  moreover have "quan_step demo_keys (demo_morning\<lparr>w_kv := \<lambda>_. None\<rparr>) demo_noon" unfolding demo_noon_def by (rule step_relay)
  ultimately show ?thesis by (meson r_into_rtranclp rtranclp.rtrancl_into_rtrancl)
qed

lemma demo_dawn_fresh: "quan_fresh demo_dawn"
  unfolding demo_dawn_def by (rule demo_shop_fresh) simp

end
