(* ===== verification/IsolationLimiter.thy ===== *)
theory IsolationLimiter
  imports AppErrors "HOL-Library.Multiset"
begin

text \<open>
  pkg/isolation/isolation.go: the limiter that bounds how many requests of a route run and how many
  wait. \<open>Acquire_step\<close> is the code of \<^verbatim>\<open>Acquire\<close> and of the release function it returns, one atomic
  action (a channel operation or an atomic addition) at a time. The goroutines of all requests run
  it concurrently: a state of the system is the semaphore, the queue counter and the multiset of the
  program points of the goroutines, and \<open>iso_step\<close> lets any goroutine make its next action.
\<close>

section \<open>Configuration\<close>

record RouteConfig =
  Route_MaxConcurrent :: int
  Route_MaxQueue :: int
  Route_WaitTimeoutMs :: int

record IsolationConfig =
  Isolation_Enabled :: bool
  Isolation_Routes :: "string \<rightharpoonup> RouteConfig"

record iso_Limiter =
  Lim_capacity :: int
  Lim_maxQueue :: int
  Lim_waitTimeout :: int

definition NewLimiter :: "int \<Rightarrow> int \<Rightarrow> int \<Rightarrow> iso_Limiter" where
  "NewLimiter maxConcurrent maxQueue waitTimeout =
     \<lparr>Lim_capacity = (if maxConcurrent \<le> 0 then 1 else maxConcurrent),
      Lim_maxQueue = (if maxQueue < 0 then 0 else maxQueue),
      Lim_waitTimeout = (if waitTimeout \<le> 0 then 50 * Millisecond else waitTimeout)\<rparr>"

definition NewManager :: "IsolationConfig \<Rightarrow> (string \<rightharpoonup> iso_Limiter)" where
  "NewManager cfg = (\<lambda>route. map_option (\<lambda>rc. NewLimiter (Route_MaxConcurrent rc) (Route_MaxQueue rc)
     (wrap64 (Route_WaitTimeoutMs rc * Millisecond))) (Isolation_Routes cfg route))"

text \<open>A nil manager has no limiters.\<close>

definition Manager_Limiter :: "(string \<rightharpoonup> iso_Limiter) option \<Rightarrow> string \<Rightarrow> iso_Limiter option" where
  "Manager_Limiter m path = (case m of None \<Rightarrow> None | Some limiters \<Rightarrow> limiters path)"

definition ErrRejected :: goerr where "ErrRejected = ErrNew ''request rejected''"

lemma NewLimiter_bounds:
  "0 < Lim_capacity (NewLimiter c n t)" "0 \<le> Lim_maxQueue (NewLimiter c n t)" "0 < Lim_waitTimeout (NewLimiter c n t)"
  by (simp_all add: NewLimiter_def Millisecond_def)

section \<open>One goroutine\<close>

text \<open>
  Program points: before the first select, after its default branch, after \<^verbatim>\<open>queued.Add(1)\<close> returned a
  number, in the second select, after it (the deferred \<^verbatim>\<open>queued.Add(-1)\<close> is still to come), running
  the request, and the end.
\<close>

datatype iso_result = Acquired | Refused goerr

datatype iso_pc =
    TryNow
  | TryQueue
  | Counted int
  | Waiting
  | LeavingQueue iso_result
  | Running
  | Finished iso_result

record iso_shared =
  Sh_sem :: int
  Sh_queued :: int

text \<open>What can wake the second select.\<close>

datatype wakeup = SemFree | Timer | CtxDone goerr

text \<open>\<open>None\<close>: the action is not possible now. The wakeup matters in the second select only.\<close>

fun Acquire_step :: "iso_Limiter \<Rightarrow> wakeup \<Rightarrow> iso_pc \<Rightarrow> iso_shared \<Rightarrow> (iso_pc \<times> iso_shared) option" where
  "Acquire_step l k TryNow sh =
     (if Sh_sem sh < Lim_capacity l then Some (Running, sh\<lparr>Sh_sem := Sh_sem sh + 1\<rparr>) else Some (TryQueue, sh))"
| "Acquire_step l k TryQueue sh =
     (if Lim_maxQueue l = 0 then Some (Finished (Refused ErrRejected), sh)
      else Some (Counted (Sh_queued sh + 1), sh\<lparr>Sh_queued := Sh_queued sh + 1\<rparr>))"
| "Acquire_step l k (Counted v) sh =
     (if v > Lim_maxQueue l then Some (Finished (Refused ErrRejected), sh\<lparr>Sh_queued := Sh_queued sh - 1\<rparr>)
      else Some (Waiting, sh))"
| "Acquire_step l k Waiting sh = (case k of
       SemFree \<Rightarrow> if Sh_sem sh < Lim_capacity l then Some (LeavingQueue Acquired, sh\<lparr>Sh_sem := Sh_sem sh + 1\<rparr>) else None
     | Timer \<Rightarrow> Some (LeavingQueue (Refused ErrRejected), sh)
     | CtxDone e \<Rightarrow> Some (LeavingQueue (Refused e), sh))"
| "Acquire_step l k (LeavingQueue r) sh =
     Some (case r of Acquired \<Rightarrow> Running | Refused e \<Rightarrow> Finished r, sh\<lparr>Sh_queued := Sh_queued sh - 1\<rparr>)"
| "Acquire_step l k Running sh = Some (Finished Acquired, sh\<lparr>Sh_sem := Sh_sem sh - 1\<rparr>)"
| "Acquire_step l k (Finished r) sh = None"

section \<open>All goroutines\<close>

type_synonym iso_state = "iso_shared \<times> iso_pc multiset"

inductive iso_step :: "iso_Limiter \<Rightarrow> iso_state \<Rightarrow> iso_state \<Rightarrow> bool" for l where
  arrive: "iso_step l (sh, M) (sh, add_mset TryNow M)"
| act: "Acquire_step l k pc sh = Some (pc', sh') \<Longrightarrow> iso_step l (sh, add_mset pc M) (sh', add_mset pc' M)"

inductive_cases iso_stepE: "iso_step l s s'"

definition iso_init :: iso_state where
  "iso_init = (\<lparr>Sh_sem = 0, Sh_queued = 0\<rparr>, {#})"

text \<open>A goroutine that holds the semaphore, one that the counter counts, one that may wait.\<close>

definition holds :: "iso_pc \<Rightarrow> bool" where
  "holds pc \<longleftrightarrow> pc \<in> {Running, LeavingQueue Acquired}"

fun counted :: "iso_pc \<Rightarrow> bool" where
  "counted (Counted v) = True" | "counted Waiting = True" | "counted (LeavingQueue r) = True" | "counted _ = False"

fun queue_member :: "iso_Limiter \<Rightarrow> iso_pc \<Rightarrow> bool" where
  "queue_member l (Counted v) = (v \<le> Lim_maxQueue l)"
| "queue_member l Waiting = True"
| "queue_member l (LeavingQueue r) = True"
| "queue_member l _ = False"

definition number :: "(iso_pc \<Rightarrow> bool) \<Rightarrow> iso_pc multiset \<Rightarrow> int" where
  "number P M = int (size (filter_mset P M))"

lemma number_simps [simp]:
  "number P {#} = 0" "number P (add_mset x M) = (if P x then 1 else 0) + number P M" "0 \<le> number P M"
  by (simp_all add: number_def)

lemma number_mono: "(\<And>x. P x \<Longrightarrow> Q x) \<Longrightarrow> number P M \<le> number Q M"
  by (induction M) auto

definition iso_inv :: "iso_Limiter \<Rightarrow> iso_state \<Rightarrow> bool" where
  "iso_inv l s \<longleftrightarrow> (case s of (sh, M) \<Rightarrow>
     Sh_sem sh = number holds M \<and> Sh_sem sh \<le> Lim_capacity l \<and>
     Sh_queued sh = number counted M \<and> number (queue_member l) M \<le> Lim_maxQueue l)"

lemma holds_simps [simp]:
  "holds Running" "\<not> holds TryNow" "\<not> holds TryQueue" "\<not> holds (Counted v)" "\<not> holds Waiting"
  "\<not> holds (Finished r)" "holds (LeavingQueue r) \<longleftrightarrow> r = Acquired"
  by (simp_all add: holds_def)

lemma queue_member_counted: "queue_member l pc \<Longrightarrow> counted pc"
  by (cases pc) auto

lemma iso_inv_init: "0 \<le> Lim_capacity l \<Longrightarrow> 0 \<le> Lim_maxQueue l \<Longrightarrow> iso_inv l iso_init"
  by (simp add: iso_inv_def iso_init_def)

lemma iso_inv_act:
  assumes "iso_inv l (sh, add_mset pc M)" "Acquire_step l k pc sh = Some (pc', sh')"
  shows "iso_inv l (sh', add_mset pc' M)"
proof -
  have le: "number (queue_member l) M \<le> number counted M"
    by (rule number_mono) (rule queue_member_counted)
  show ?thesis
    using assms le
    by (cases pc) (auto simp: iso_inv_def split: if_splits wakeup.splits iso_result.splits)
qed

lemma iso_step_inv: "iso_step l s s' \<Longrightarrow> iso_inv l s \<Longrightarrow> iso_inv l s'"
  by (erule iso_stepE) (auto simp: iso_inv_def [of l "(_, add_mset TryNow _)"] intro: iso_inv_act, simp_all add: iso_inv_def)

section \<open>Properties\<close>

text \<open>
  C25. The limiter keeps its bounds under every interleaving. However the requests of a route
  interleave, at most \<^verbatim>\<open>MaxConcurrent\<close> of them (at least one) run at a time and at most
  \<^verbatim>\<open>MaxQueue\<close> wait; the semaphore and the counter always say how many, so when all requests have
  ended both are back at zero: nothing leaks, whether a request was served, rejected or cancelled.
\<close>

theorem isolation_bounds:
  assumes "(iso_step (NewLimiter c n t))\<^sup>*\<^sup>* iso_init (sh, M)"
  shows "number (\<lambda>pc. pc = Running) M \<le> max 1 c \<and> number (\<lambda>pc. pc = Waiting) M \<le> max 0 n \<and>
    Sh_sem sh = number holds M \<and> Sh_queued sh = number counted M \<and>
    ((\<forall>pc \<in># M. \<exists>r. pc = Finished r) \<longrightarrow> Sh_sem sh = 0 \<and> Sh_queued sh = 0)"
proof -
  let ?l = "NewLimiter c n t"
  have "iso_inv ?l (sh, M)"
    using assms
  proof (induction rule: rtranclp_induct)
    case base
    show ?case by (rule iso_inv_init) (simp_all add: NewLimiter_def)
  next
    case (step s s')
    then show ?case using iso_step_inv by blast
  qed
  then have inv: "Sh_sem sh = number holds M" "number holds M \<le> Lim_capacity ?l" "Sh_queued sh = number counted M"
      "number (queue_member ?l) M \<le> Lim_maxQueue ?l" by (simp_all add: iso_inv_def)
  have "number (\<lambda>pc. pc = Running) M \<le> number holds M" by (rule number_mono) simp
  moreover have "number (\<lambda>pc. pc = Waiting) M \<le> number (queue_member ?l) M" by (rule number_mono) simp
  moreover have "number holds M = 0 \<and> number counted M = 0" if "\<forall>pc \<in># M. \<exists>r. pc = Finished r"
    using that by (induction M) auto
  ultimately show ?thesis using inv by (auto simp: NewLimiter_def max_def split: if_splits)
qed

text \<open>One request runs and a second one waits.\<close>

lemma iso_demo_run:
  "(iso_step (NewLimiter 1 1 0))\<^sup>*\<^sup>* iso_init (\<lparr>Sh_sem = 1, Sh_queued = 1\<rparr>, {#Waiting, Running#})"
proof -
  let ?l = "NewLimiter 1 1 0"
  let ?sh = "\<lambda>s q. \<lparr>Sh_sem = s, Sh_queued = q\<rparr>"
  have go: "(iso_step ?l)\<^sup>*\<^sup>* a c" if "(iso_step ?l)\<^sup>*\<^sup>* a b" "iso_step ?l b c" for a b c
    using that by (rule rtranclp.rtrancl_into_rtrancl)
  have "iso_step ?l iso_init (?sh 0 0, {#TryNow#})" unfolding iso_init_def by (rule arrive)
  moreover have "iso_step ?l (?sh 0 0, {#TryNow#}) (?sh 1 0, {#Running#})"
    by (rule act [where M = "{#}"]) (simp add: NewLimiter_def)
  moreover have "iso_step ?l (?sh 1 0, {#Running#}) (?sh 1 0, {#TryNow, Running#})" by (rule arrive)
  moreover have "iso_step ?l (?sh 1 0, {#TryNow, Running#}) (?sh 1 0, {#TryQueue, Running#})"
    by (rule act [where M = "{#Running#}"]) (simp add: NewLimiter_def)
  moreover have "iso_step ?l (?sh 1 0, {#TryQueue, Running#}) (?sh 1 1, {#Counted 1, Running#})"
    by (rule act [where M = "{#Running#}"]) (simp add: NewLimiter_def)
  moreover have "iso_step ?l (?sh 1 1, {#Counted 1, Running#}) (?sh 1 1, {#Waiting, Running#})"
    by (rule act [where M = "{#Running#}"]) (simp add: NewLimiter_def)
  ultimately show ?thesis by (meson go rtranclp.rtrancl_refl)
qed

theorem isolation_bounds_witness:
  "let M = {#Waiting, Running#}; sh = \<lparr>Sh_sem = 1, Sh_queued = 1\<rparr> in
    number (\<lambda>pc. pc = Running) M \<le> max 1 1 \<and> number (\<lambda>pc. pc = Waiting) M \<le> max 0 1 \<and>
    Sh_sem sh = number holds M \<and> Sh_queued sh = number counted M \<and>
    ((\<forall>pc \<in># M. \<exists>r. pc = Finished r) \<longrightarrow> Sh_sem sh = 0 \<and> Sh_queued sh = 0)"
  unfolding Let_def by (rule isolation_bounds [OF iso_demo_run])

end
