(* ===== verification/MetricRegistry.thy ===== *)
theory MetricRegistry
  imports AppErrors
begin

text \<open>
  pkg/metric/metric.go: the collectors of the HTTP metrics and their registration. The Prometheus client is a parameter of two operations:
  registering collectors, and choosing a child of a collector by its labels. Either returns or panics with a text. What the program relies on is
  what the client documents: names are the namespace and the name joined by an underscore, well-formed collectors with
  new names are accepted, a collector that is already there is refused, and labels must be the declared ones with values in UTF-8.
\<close>

section \<open>UTF-8\<close>

text \<open>
  \<^verbatim>\<open>utf8.ValidString\<close> of the standard library: the first byte of a sequence fixes the ranges of the bytes after it.
\<close>

definition utf8_tail :: "nat \<Rightarrow> (nat \<times> nat) list option" where
  "utf8_tail b =
     (if b < 0x80 then Some []
      else if 0xC2 \<le> b \<and> b \<le> 0xDF then Some [(0x80, 0xBF)]
      else if b = 0xE0 then Some [(0xA0, 0xBF), (0x80, 0xBF)]
      else if b = 0xED then Some [(0x80, 0x9F), (0x80, 0xBF)]
      else if 0xE1 \<le> b \<and> b \<le> 0xEF then Some [(0x80, 0xBF), (0x80, 0xBF)]
      else if b = 0xF0 then Some [(0x90, 0xBF), (0x80, 0xBF), (0x80, 0xBF)]
      else if 0xF1 \<le> b \<and> b \<le> 0xF3 then Some [(0x80, 0xBF), (0x80, 0xBF), (0x80, 0xBF)]
      else if b = 0xF4 then Some [(0x80, 0x8F), (0x80, 0xBF), (0x80, 0xBF)]
      else None)"

function utf8_valid :: "nat list \<Rightarrow> bool" where
  "utf8_valid [] = True"
| "utf8_valid (b # bs) = (case utf8_tail b of
     None \<Rightarrow> False
   | Some rs \<Rightarrow> list_all2 (\<lambda>(lo, hi) c. lo \<le> c \<and> c \<le> hi) rs (take (length rs) bs) \<and> utf8_valid (drop (length rs) bs))"
  by pat_completeness auto
termination by (relation "measure length") simp_all

definition ValidString :: "string \<Rightarrow> bool" where
  "ValidString s = utf8_valid (map of_char s)"

definition is_ascii :: "string \<Rightarrow> bool" where
  "is_ascii s = list_all (\<lambda>c. (of_char c :: nat) < 0x80) s"

lemma ValidString_ascii: "is_ascii s \<Longrightarrow> ValidString s"
  by (induction s) (simp_all add: is_ascii_def ValidString_def utf8_tail_def)

lemma is_ascii_append [simp]: "is_ascii (s @ t) \<longleftrightarrow> is_ascii s \<and> is_ascii t"
  by (simp add: is_ascii_def)

lemma is_ascii_FormatInt [simp]: "is_ascii (FormatInt i)"
proof -
  have "is_ascii (nat_decimal n)" for n
    using nat_decimal_digits [of _ n] by (fastforce simp: is_ascii_def list_all_iff is_digit_def)
  then show ?thesis by (simp add: FormatInt_def is_ascii_def)
qed

section \<open>The Prometheus client\<close>

datatype metric_kind = Counter | Gauge | Histogram_DefBuckets

record collector =
  Coll_kind :: metric_kind
  Coll_Namespace :: string
  Coll_Name :: string
  Coll_Help :: string
  Coll_labels :: "string list"

datatype registry = DefaultRegistry | OtherRegistry nat

text \<open>The collectors that the program has registered.\<close>

type_synonym registries = "registry \<Rightarrow> collector list"

type_synonym labels = "(string \<times> string) list"

record prometheus =
  Prom_MustRegister :: "registry \<Rightarrow> collector list \<Rightarrow> collector list \<Rightarrow> string option"
  Prom_With :: "collector \<Rightarrow> labels \<Rightarrow> string option"

definition MustRegister :: "prometheus \<Rightarrow> registry \<Rightarrow> collector list \<Rightarrow> registries \<Rightarrow> string + registries" where
  "MustRegister prom reg cs regs = (case Prom_MustRegister prom reg (regs reg) cs of
     Some p \<Rightarrow> Inl p
   | None \<Rightarrow> Inr (regs(reg := regs reg @ cs)))"

definition fq_name :: "collector \<Rightarrow> string" where
  "fq_name c = Coll_Namespace c @ ''_'' @ Coll_Name c"

definition name_char :: "char \<Rightarrow> bool" where
  "name_char c \<longleftrightarrow> c \<in> set ''abcdefghijklmnopqrstuvwxyzABCDEFGHIJKLMNOPQRSTUVWXYZ_''"

definition valid_metric_name :: "string \<Rightarrow> bool" where
  "valid_metric_name s \<longleftrightarrow> s \<noteq> [] \<and> (name_char (hd s) \<or> hd s = CHR '':'') \<and> list_all (\<lambda>c. name_char c \<or> is_digit c \<or> c = CHR '':'') s"

definition valid_label_name :: "string \<Rightarrow> bool" where
  "valid_label_name s \<longleftrightarrow> s \<noteq> [] \<and> name_char (hd s) \<and> list_all (\<lambda>c. name_char c \<or> is_digit c) s \<and> \<not> HasPrefix s ''__''"

text \<open>The default registry holds the collectors of the Go runtime, of the process and of the exposition handler from the start.\<close>

definition built_in :: "string \<Rightarrow> bool" where
  "built_in s \<longleftrightarrow> HasPrefix s ''go_'' \<or> HasPrefix s ''process_'' \<or> HasPrefix s ''promhttp_''"

definition well_formed :: "collector \<Rightarrow> bool" where
  "well_formed c \<longleftrightarrow> valid_metric_name (fq_name c) \<and> \<not> built_in (fq_name c) \<and>
     distinct (Coll_labels c) \<and> list_all valid_label_name (Coll_labels c)"

definition declared :: "collector \<Rightarrow> labels \<Rightarrow> bool" where
  "declared c ls \<longleftrightarrow> distinct (map fst ls) \<and> set (map fst ls) = set (Coll_labels c)"

definition registration_documented :: "prometheus \<Rightarrow> bool" where
  "registration_documented prom \<longleftrightarrow>
     (\<forall>reg old cs. list_all well_formed cs \<and> distinct (map fq_name (old @ cs)) \<longrightarrow> Prom_MustRegister prom reg old cs = None) \<and>
     (\<forall>reg old cs c. c \<in> set old \<and> c \<in> set cs \<longrightarrow> Prom_MustRegister prom reg old cs \<noteq> None)"

definition labels_documented :: "prometheus \<Rightarrow> bool" where
  "labels_documented prom \<longleftrightarrow> (\<forall>c ls. Prom_With prom c ls = None \<longleftrightarrow> declared c ls \<and> list_all ValidString (map snd ls))"

section \<open>pkg/metric\<close>

record MetricConfig =
  Metric_Enabled :: bool
  Metric_Path :: string
  Metric_Namespace :: string

record http_metrics =
  M_prom :: prometheus
  reqCount :: collector
  reqLatency :: collector
  inFlight :: collector
  errCount :: collector

definition http_namespace :: "MetricConfig \<Rightarrow> string" where
  "http_namespace cfg = (if Metric_Namespace cfg = '''' then ''mini_jupiter'' else Metric_Namespace cfg)"

definition metric_of :: "prometheus \<Rightarrow> MetricConfig \<Rightarrow> http_metrics" where
  "metric_of prom cfg = \<lparr>M_prom = prom,
     reqCount = \<lparr>Coll_kind = Counter, Coll_Namespace = http_namespace cfg, Coll_Name = ''http_requests_total'',
       Coll_Help = ''Total number of HTTP requests.'', Coll_labels = [''method'', ''path'', ''status'', ''status_class'']\<rparr>,
     reqLatency = \<lparr>Coll_kind = Histogram_DefBuckets, Coll_Namespace = http_namespace cfg, Coll_Name = ''http_request_duration_seconds'',
       Coll_Help = ''HTTP request duration in seconds.'', Coll_labels = [''method'', ''path'', ''status'', ''status_class'']\<rparr>,
     inFlight = \<lparr>Coll_kind = Gauge, Coll_Namespace = http_namespace cfg, Coll_Name = ''http_inflight_requests'',
       Coll_Help = ''Current number of in-flight HTTP requests.'', Coll_labels = [''method'', ''path'']\<rparr>,
     errCount = \<lparr>Coll_kind = Counter, Coll_Namespace = http_namespace cfg, Coll_Name = ''http_error_total'',
       Coll_Help = ''Total number of error responses by error code.'', Coll_labels = [''code'']\<rparr>\<rparr>"

definition http_collectors :: "http_metrics \<Rightarrow> collector list" where
  "http_collectors m = [reqCount m, reqLatency m, inFlight m, errCount m]"

definition metric_New :: "prometheus \<Rightarrow> MetricConfig \<Rightarrow> registries \<Rightarrow> string + http_metrics \<times> registries" where
  "metric_New prom cfg regs =
     (let m = metric_of prom cfg in map_sum id (Pair m) (MustRegister prom DefaultRegistry (http_collectors m) regs))"

definition statusClass :: "int \<Rightarrow> string" where
  "statusClass status =
     (if status \<ge> 500 then ''5xx'' else if status \<ge> 400 then ''4xx'' else if status \<ge> 300 then ''3xx''
      else if status \<ge> 200 then ''2xx'' else ''other'')"

text \<open>The label sets that the operations pass to \<^verbatim>\<open>With\<close>.\<close>

definition request_labels :: "string \<Rightarrow> string \<Rightarrow> int \<Rightarrow> labels" where
  "request_labels meth path status =
     [(''method'', meth), (''path'', path), (''status'', FormatInt status), (''status_class'', statusClass status)]"

definition in_flight_labels :: "string \<Rightarrow> string \<Rightarrow> labels" where
  "in_flight_labels meth path = [(''method'', meth), (''path'', path)]"

definition error_labels :: "int \<Rightarrow> labels" where
  "error_labels code = [(''code'', FormatInt code)]"

lemma metric_New_is: "metric_New prom cfg regs = Inr (m, regs') \<Longrightarrow> m = metric_of prom cfg"
  by (auto simp: metric_New_def Let_def map_sum_def split: sum.splits)

lemma M_prom_metric_of [simp]: "M_prom (metric_of prom cfg) = prom"
  by (simp add: metric_of_def)

lemma is_ascii_statusClass [simp]: "is_ascii (statusClass n)"
  by (simp add: statusClass_def is_ascii_def)

text \<open>The documented behaviour of \<^verbatim>\<open>With\<close> on the labels that the operations pass: only the method and the path can be refused.\<close>

lemma metric_With:
  assumes "labels_documented prom"
  shows "Prom_With prom (inFlight (metric_of prom cfg)) (in_flight_labels meth path) = None \<longleftrightarrow> ValidString meth \<and> ValidString path"
    "Prom_With prom (reqCount (metric_of prom cfg)) (request_labels meth path status) = None \<longleftrightarrow> ValidString meth \<and> ValidString path"
    "Prom_With prom (reqLatency (metric_of prom cfg)) (request_labels meth path status) = None \<longleftrightarrow> ValidString meth \<and> ValidString path"
    "Prom_With prom (errCount (metric_of prom cfg)) (error_labels code) = None"
  using assms unfolding labels_documented_def
  by (auto simp: metric_of_def declared_def in_flight_labels_def request_labels_def error_labels_def ValidString_ascii)

end
