(* ===== verification/HttpMiddleware.thy ===== *)
theory HttpMiddleware
  imports IsolationLimiter MetricRegistry
begin

text \<open>
  internal/middleware and the operations of pkg/metric: handlers and what is wrapped around them. A
  handler runs on the response writer, on the request's \<^verbatim>\<open>Pattern\<close> (which the router sets in place),
  on the HTTP metrics and on a state \<open>'s\<close> of its own; it returns or panics. The writer follows
  net/http: the first status written stays, a body without a status means 200. The limiters the
  middlewares use are ports, records of operations on \<open>'s\<close>. Log lines are not modelled; the random
  trace id is an argument.
\<close>

section \<open>Handlers\<close>

record Request =
  Rq_Method :: string
  Rq_Path :: string
  Rq_Query :: "string \<Rightarrow> string"
  Rq_Header :: "string \<Rightarrow> string"
  Rq_PathValue :: "string \<Rightarrow> string"
  Rq_Body :: "json option"
  Rq_Ctx :: ctx

datatype content = Text string | Json json

record Writer =
  Wr_status :: "int option"
  Wr_headers :: "(string \<times> string) list"
  Wr_body :: "content list"

datatype http_metric =
    InFlightInc string string
  | InFlightDec string string
  | RequestCounted string string string string
  | LatencyObserved string string string string
  | ErrorObserved string

text \<open>
  \<open>Ex_recorded\<close> is the status field of the response recorder that \<^verbatim>\<open>Logging\<close> puts in place, and
  \<open>Ex_reporter\<close> says whether \<^verbatim>\<open>apperr.SetReporter\<close> has installed the error counter of the metrics.
\<close>

record 's exchange =
  Ex_writer :: Writer
  Ex_recorded :: int
  Ex_pattern :: string
  Ex_reporter :: bool
  Ex_metrics :: "http_metric list"
  Ex_state :: 's

type_synonym 's Handler = "Request \<Rightarrow> ('s exchange, unit outcome) state"

type_synonym 's Middleware = "'s Handler \<Rightarrow> 's Handler"

abbreviation finished :: "unit outcome" where
  "finished \<equiv> Returned (Inr ())"

definition on_writer :: "(Writer \<Rightarrow> Writer) \<Rightarrow> ('s exchange, unit) state" where
  "on_writer f = State_Monad.update (\<lambda>x. x\<lparr>Ex_writer := f (Ex_writer x)\<rparr>)"

text \<open>The recorder notes every code, the writer keeps the first.\<close>

definition WriteHeader :: "int \<Rightarrow> ('s exchange, unit) state" where
  "WriteHeader code = do {
     _ \<leftarrow> State_Monad.update (\<lambda>x. x\<lparr>Ex_recorded := code\<rparr>);
     on_writer (\<lambda>w. if Wr_status w = None then w\<lparr>Wr_status := Some code\<rparr> else w) }"

definition Write :: "content \<Rightarrow> ('s exchange, unit) state" where
  "Write c = on_writer (\<lambda>w. w\<lparr>Wr_status := (if Wr_status w = None then Some 200 else Wr_status w), Wr_body := Wr_body w @ [c]\<rparr>)"

text \<open>Headers set after the status was written are not sent.\<close>

definition SetHeader :: "string \<Rightarrow> string \<Rightarrow> ('s exchange, unit) state" where
  "SetHeader k v = on_writer (\<lambda>w. if Wr_status w = None
     then w\<lparr>Wr_headers := filter (\<lambda>(k', _). k' \<noteq> k) (Wr_headers w) @ [(k, v)]\<rparr> else w)"

definition in_state :: "('s, 'a) state \<Rightarrow> ('s exchange, 'a) state" where
  "in_state m = State (\<lambda>x. case run_state m (Ex_state x) of (a, s) \<Rightarrow> (a, x\<lparr>Ex_state := s\<rparr>))"

definition http_metric :: "http_metric \<Rightarrow> ('s exchange, unit) state" where
  "http_metric m = State_Monad.update (\<lambda>x. x\<lparr>Ex_metrics := Ex_metrics x @ [m]\<rparr>)"

definition ObserveError :: "bool \<Rightarrow> int \<Rightarrow> ('s exchange, unit) state" where
  "ObserveError m code = (if \<not> m then ret () else http_metric (ErrorObserved (FormatInt code)))"

text \<open>\<^verbatim>\<open>apperr.WriteHTTPWithContext\<close> for an application error.\<close>

definition write_error :: "ctx \<Rightarrow> int \<Rightarrow> string \<Rightarrow> ('s exchange, unit) state" where
  "write_error c code msg = do {
     x \<leftarrow> State_Monad.get;
     _ \<leftarrow> ObserveError (Ex_reporter x) code;
     _ \<leftarrow> SetHeader ''Content-Type'' ''application/json'';
     _ \<leftarrow> WriteHeader (HTTPStatus (Some (apperr_New code msg)));
     Write (Json (response_json code msg (TraceIDFromContext c))) }"

section \<open>pkg/metric\<close>

text \<open>
  The metrics object may be nil (\<open>None\<close>). \<^verbatim>\<open>With\<close> panics when the client refuses the labels; for the error counter it never does
  (\<open>metric_With\<close>), so \<^verbatim>\<open>ObserveError\<close> above leaves this out.
\<close>

definition with_labels :: "http_metrics \<Rightarrow> collector \<Rightarrow> labels \<Rightarrow> http_metric \<Rightarrow> ('s exchange, unit outcome) state" where
  "with_labels M c ls ev = (case Prom_With (M_prom M) c ls of
     Some p \<Rightarrow> ret (Panicked p)
   | None \<Rightarrow> do { _ \<leftarrow> http_metric ev; ret finished })"

definition Metrics_Observe :: "http_metrics option \<Rightarrow> string \<Rightarrow> string \<Rightarrow> int \<Rightarrow> ('s exchange, unit outcome) state" where
  "Metrics_Observe m meth path status = (case m of
     None \<Rightarrow> ret finished
   | Some M \<Rightarrow> do {
       let labels = request_labels meth path status;
       out \<leftarrow> with_labels M (reqCount M) labels (RequestCounted meth path (FormatInt status) (statusClass status));
       case out of
         Panicked p \<Rightarrow> ret (Panicked p)
       | Returned _ \<Rightarrow> with_labels M (reqLatency M) labels (LatencyObserved meth path (FormatInt status) (statusClass status)) })"

definition IncInFlight :: "http_metrics option \<Rightarrow> string \<Rightarrow> string \<Rightarrow> ('s exchange, unit outcome) state" where
  "IncInFlight m meth path = (case m of
     None \<Rightarrow> ret finished
   | Some M \<Rightarrow> with_labels M (inFlight M) (in_flight_labels meth path) (InFlightInc meth path))"

definition DecInFlight :: "http_metrics option \<Rightarrow> string \<Rightarrow> string \<Rightarrow> ('s exchange, unit outcome) state" where
  "DecInFlight m meth path = (case m of
     None \<Rightarrow> ret finished
   | Some M \<Rightarrow> with_labels M (inFlight M) (in_flight_labels meth path) (InFlightDec meth path))"

section \<open>The middlewares\<close>

definition Chain :: "'s Middleware list \<Rightarrow> 's Middleware" where
  "Chain middlewares nxt = fold (\<lambda>m h. m h) (rev middlewares) nxt"

definition Recovery :: "'s Middleware" where
  "Recovery nxt r = do {
     out \<leftarrow> nxt r;
     case out of
       Panicked p \<Rightarrow> do {
         _ \<leftarrow> WriteHeader 500;
         _ \<leftarrow> Write (Text ''internal server error'');
         ret finished }
     | Returned v \<Rightarrow> ret (Returned v) }"

definition traceHeader :: string where "traceHeader = ''X-Trace-Id''"

text \<open>Twelve random bytes in hexadecimal, or a fixed text when the system has none.\<close>

definition hex_digit :: "nat \<Rightarrow> char" where
  "hex_digit n = ''0123456789abcdef'' ! (n mod 16)"

definition EncodeToString :: "nat list \<Rightarrow> string" where
  "EncodeToString bs = concat (map (\<lambda>b. [hex_digit (b div 16), hex_digit b]) bs)"

definition newTraceID :: "nat list option \<Rightarrow> string" where
  "newTraceID rnd = (case rnd of None \<Rightarrow> ''trace-unknown'' | Some b \<Rightarrow> EncodeToString b)"

definition TraceID :: "nat list option \<Rightarrow> 's Middleware" where
  "TraceID rnd nxt r = do {
     let traceID = (if Rq_Header r traceHeader = '''' then newTraceID rnd else Rq_Header r traceHeader);
     let ctx = WithTraceID (Rq_Ctx r) traceID;
     _ \<leftarrow> SetHeader traceHeader traceID;
     nxt (r\<lparr>Rq_Ctx := ctx\<rparr>) }"

definition path_label :: "Request \<Rightarrow> ('s exchange, string) state" where
  "path_label r = State (\<lambda>x. (if Ex_pattern x \<noteq> '''' then Ex_pattern x else Rq_Path r, x))"

text \<open>
  The deferred \<^verbatim>\<open>DecInFlight\<close> runs on a panic too; the observation after the call does not. A panic of
  \<^verbatim>\<open>IncInFlight\<close> comes before the handler and before the \<^verbatim>\<open>defer\<close>.
\<close>

definition Logging :: "http_metrics option \<Rightarrow> 's Middleware" where
  "Logging m nxt r = do {
     label \<leftarrow> path_label r;
     inc \<leftarrow> IncInFlight m (Rq_Method r) label;
     case inc of
       Panicked p \<Rightarrow> ret (Panicked p)
     | Returned _ \<Rightarrow> do {
         _ \<leftarrow> State_Monad.update (\<lambda>x. x\<lparr>Ex_recorded := 200\<rparr>);
         called \<leftarrow> nxt r;
         out \<leftarrow> (case called of
           Panicked p \<Rightarrow> ret (Panicked p)
         | Returned v \<Rightarrow> do {
             x \<leftarrow> State_Monad.get;
             let label2 = (if Ex_pattern x \<noteq> '''' then Ex_pattern x else label);
             obs \<leftarrow> Metrics_Observe m (Rq_Method r) label2 (Ex_recorded x);
             ret (case obs of Panicked p \<Rightarrow> Panicked p | Returned _ \<Rightarrow> Returned v) });
         dec \<leftarrow> DecInFlight m (Rq_Method r) label;
         ret (case dec of Panicked p \<Rightarrow> Panicked p | Returned _ \<Rightarrow> out) } }"

definition RateLimit :: "('s, bool) state option \<Rightarrow> 's Middleware" where
  "RateLimit l nxt r = (case l of
     None \<Rightarrow> nxt r
   | Some allow \<Rightarrow> do {
       ok \<leftarrow> in_state allow;
       if \<not> ok then do { _ \<leftarrow> write_error (Rq_Ctx r) CodeTooManyRequests ''too many requests''; ret finished }
       else nxt r })"

text \<open>A limiter as the middleware sees it; \<open>None\<close> from \<open>lp_Acquire\<close> is success.\<close>

record 's limiter_port =
  lp_Acquire :: "('s, goerr option) state"
  lp_release :: "('s, unit) state"

definition Isolation :: "(string \<Rightarrow> 's limiter_port option) option \<Rightarrow> 's Middleware" where
  "Isolation mgr nxt r = (case mgr of
     None \<Rightarrow> nxt r
   | Some limiters \<Rightarrow> (case limiters (Rq_Path r) of
       None \<Rightarrow> nxt r
     | Some limiter \<Rightarrow> do {
         err \<leftarrow> in_state (lp_Acquire limiter);
         case err of
           Some e \<Rightarrow> do { _ \<leftarrow> write_error (Rq_Ctx r) CodeTooManyRequests ''request rejected''; ret finished }
         | None \<Rightarrow> do {
             out \<leftarrow> nxt r;
             _ \<leftarrow> in_state (lp_release limiter);
             ret out } }))"

section \<open>Rules\<close>

lemma Chain_foldr: "Chain ms h = foldr (\<lambda>m h. m h) ms h"
  by (simp add: Chain_def foldr_conv_fold)

lemma Chain_simps [simp]: "Chain [] h = h" "Chain (m # ms) h = m (Chain ms h)" "Chain (ms @ ns) h = Chain ms (Chain ns h)"
  by (simp_all add: Chain_foldr)

lemma wp_on_writer [simp]: "wp (on_writer f) Q = (\<lambda>x. Q () (x\<lparr>Ex_writer := f (Ex_writer x)\<rparr>))"
  by (simp add: on_writer_def)

lemma wp_in_state [simp]: "wp (in_state m) Q = (\<lambda>x. wp m (\<lambda>a s. Q a (x\<lparr>Ex_state := s\<rparr>)) (Ex_state x))"
  by (auto simp: in_state_def fun_eq_iff wp_def split: prod.split)

lemma wp_http_metric [simp]: "wp (http_metric m) Q = (\<lambda>x. Q () (x\<lparr>Ex_metrics := Ex_metrics x @ [m]\<rparr>))"
  by (simp add: http_metric_def)

lemma wp_path_label [simp]: "wp (path_label r) Q = (\<lambda>x. Q (if Ex_pattern x \<noteq> '''' then Ex_pattern x else Rq_Path r) x)"
  by (simp add: path_label_def fun_eq_iff)

section \<open>What the chain guarantees\<close>

text \<open>The requests counted as being in flight for a method and a path.\<close>

definition in_flight_gauge :: "string \<Rightarrow> string \<Rightarrow> http_metric list \<Rightarrow> int" where
  "in_flight_gauge m p ms = int (count_list ms (InFlightInc m p)) - int (count_list ms (InFlightDec m p))"

definition observations :: "http_metric list \<Rightarrow> nat" where
  "observations ms = length (filter (\<lambda>x. case x of RequestCounted _ _ _ _ \<Rightarrow> True | _ \<Rightarrow> False) ms)"

lemma gauge_simps [simp]:
  "in_flight_gauge m p [] = 0"
  "in_flight_gauge m p (ms @ ns) = in_flight_gauge m p ms + in_flight_gauge m p ns"
  "in_flight_gauge m p (InFlightInc m' p' # ms) = (if m = m' \<and> p = p' then 1 else 0) + in_flight_gauge m p ms"
  "in_flight_gauge m p (InFlightDec m' p' # ms) = (if m = m' \<and> p = p' then - 1 else 0) + in_flight_gauge m p ms"
  "in_flight_gauge m p (RequestCounted a b c d # ms) = in_flight_gauge m p ms"
  "in_flight_gauge m p (LatencyObserved a b c d # ms) = in_flight_gauge m p ms"
  "in_flight_gauge m p (ErrorObserved c # ms) = in_flight_gauge m p ms" "observations (ErrorObserved c # ms) = observations ms"
  "observations [] = 0" "observations (ms @ ns) = observations ms + observations ns"
  "observations (InFlightInc m' p' # ms) = observations ms" "observations (InFlightDec m' p' # ms) = observations ms"
  "observations (RequestCounted a b c d # ms) = Suc (observations ms)" "observations (LatencyObserved a b c d # ms) = observations ms"
  by (auto simp: in_flight_gauge_def observations_def)

text \<open>
  What the handlers of the servers do to an exchange, apart from their own state: they leave the router's pattern alone, they
  add at most errors to the metrics, and they leave the trace header alone. A handler that panics has not written.
\<close>

definition handler_step :: "'s exchange \<Rightarrow> 's exchange \<Rightarrow> bool" where
  "handler_step x x' \<longleftrightarrow> Ex_pattern x' = Ex_pattern x \<and>
     (\<exists>new. Ex_metrics x' = Ex_metrics x @ new \<and> (\<forall>me p. in_flight_gauge me p new = 0) \<and> observations new = 0) \<and>
     (\<forall>v. (traceHeader, v) \<in> set (Wr_headers (Ex_writer x')) \<longleftrightarrow> (traceHeader, v) \<in> set (Wr_headers (Ex_writer x)))"

definition well_behaved :: "'s Handler \<Rightarrow> bool" where
  "well_behaved h \<longleftrightarrow> (\<forall>r x. wp (h r) (\<lambda>out x'. handler_step x x' \<and>
     (case out of Panicked p \<Rightarrow> Ex_writer x' = Ex_writer x | Returned v \<Rightarrow> True)) x)"

text \<open>The same for the router, which sets the pattern: it is empty or one of \<open>ps\<close>.\<close>

definition routes_well :: "string set \<Rightarrow> 's Handler \<Rightarrow> bool" where
  "routes_well ps h \<longleftrightarrow> (\<forall>r x. wp (h r) (\<lambda>out x'. Ex_pattern x' \<in> insert (Ex_pattern x) ps \<and>
     handler_step (x\<lparr>Ex_pattern := Ex_pattern x'\<rparr>) x' \<and> (case out of Panicked p \<Rightarrow> Ex_writer x' = Ex_writer x | Returned v \<Rightarrow> True)) x)"

lemma handler_step_refl [simp]: "handler_step x x"
  by (auto simp: handler_step_def intro!: exI [of _ "[]"])

lemma handler_step_trans: "handler_step x y \<Longrightarrow> handler_step y z \<Longrightarrow> handler_step x z"
proof -
  assume xy: "handler_step x y" and yz: "handler_step y z"
  obtain a where a: "Ex_metrics y = Ex_metrics x @ a" "\<forall>me p. in_flight_gauge me p a = 0" "observations a = 0"
    using xy by (auto simp: handler_step_def)
  obtain b where b: "Ex_metrics z = Ex_metrics y @ b" "\<forall>me p. in_flight_gauge me p b = 0" "observations b = 0"
    using yz by (auto simp: handler_step_def)
  have "\<exists>new. Ex_metrics z = Ex_metrics x @ new \<and> (\<forall>me p. in_flight_gauge me p new = 0) \<and> observations new = 0"
    using a b by (intro exI [of _ "a @ b"]) simp
  then show ?thesis using xy yz by (simp add: handler_step_def)
qed

text \<open>Whether the client takes the labels of a request: those of the gauge before the handler and those of the counters after it.\<close>

definition gauge_takes :: "http_metrics option \<Rightarrow> string \<Rightarrow> string \<Rightarrow> bool" where
  "gauge_takes m meth path \<longleftrightarrow> (case m of None \<Rightarrow> True | Some M \<Rightarrow> Prom_With (M_prom M) (inFlight M) (in_flight_labels meth path) = None)"

definition counters_take :: "http_metrics option \<Rightarrow> string \<Rightarrow> string \<Rightarrow> int \<Rightarrow> bool" where
  "counters_take m meth path status \<longleftrightarrow> (case m of None \<Rightarrow> True
   | Some M \<Rightarrow> Prom_With (M_prom M) (reqCount M) (request_labels meth path status) = None \<and>
       Prom_With (M_prom M) (reqLatency M) (request_labels meth path status) = None)"

lemma wp_InFlight:
  assumes "gauge_takes m meth path"
  shows "wp (IncInFlight m meth path) Q =
      (\<lambda>x. Q finished (x\<lparr>Ex_metrics := Ex_metrics x @ (if m = None then [] else [InFlightInc meth path])\<rparr>))"
    "wp (DecInFlight m meth path) Q =
      (\<lambda>x. Q finished (x\<lparr>Ex_metrics := Ex_metrics x @ (if m = None then [] else [InFlightDec meth path])\<rparr>))"
  using assms by (cases m; simp add: gauge_takes_def IncInFlight_def DecInFlight_def with_labels_def)+

lemma wp_IncInFlight_refused: "\<not> gauge_takes m meth path \<Longrightarrow> \<exists>p. \<forall>Q. wp (IncInFlight m meth path) Q = Q (Panicked p)"
  by (cases m) (auto simp: gauge_takes_def IncInFlight_def with_labels_def)

lemma wp_Metrics_Observe:
  "wp (Metrics_Observe m meth path status) (\<lambda>out x'. \<exists>new. x' = x\<lparr>Ex_metrics := Ex_metrics x @ new\<rparr> \<and>
     (\<forall>me p. in_flight_gauge me p new = 0) \<and>
     (counters_take m meth path status \<longrightarrow> out = finished \<and> observations new = (if m = None then 0 else 1))) x"
proof (cases m)
  case None
  then show ?thesis by (auto simp: Metrics_Observe_def intro!: exI [of _ "[]"])
next
  case (Some M)
  let ?labels = "request_labels meth path status"
  let ?counted = "RequestCounted meth path (FormatInt status) (statusClass status)"
  let ?timed = "LatencyObserved meth path (FormatInt status) (statusClass status)"
  show ?thesis
  proof (cases "Prom_With (M_prom M) (reqCount M) ?labels")
    case None
    show ?thesis
    proof (cases "Prom_With (M_prom M) (reqLatency M) ?labels")
      case t: None
      show ?thesis using None t
        by (auto simp: Some Metrics_Observe_def with_labels_def Let_def intro!: exI [of _ "[?counted, ?timed]"])
    next
      case t: (Some p)
      show ?thesis using None t
        by (auto simp: Some Metrics_Observe_def with_labels_def counters_take_def Let_def intro!: exI [of _ "[?counted]"])
    qed
  next
    case c: (Some p)
    then show ?thesis
      by (auto simp: Some Metrics_Observe_def with_labels_def counters_take_def Let_def intro!: exI [of _ "[]"])
  qed
qed

definition trace_of :: "nat list option \<Rightarrow> Request \<Rightarrow> string" where
  "trace_of rnd r = (if Rq_Header r traceHeader = '''' then newTraceID rnd else Rq_Header r traceHeader)"

lemma wp_TraceID:
  assumes "Wr_status (Ex_writer x) = None"
  shows "wp (TraceID rnd nxt r) Q x = wp (nxt (r\<lparr>Rq_Ctx := Ctx (Some (trace_of rnd r))\<rparr>)) Q
    (x\<lparr>Ex_writer := (Ex_writer x)\<lparr>Wr_headers :=
      filter (\<lambda>(k', _). k' \<noteq> traceHeader) (Wr_headers (Ex_writer x)) @ [(traceHeader, trace_of rnd r)]\<rparr>\<rparr>)"
  unfolding TraceID_def Let_def trace_of_def [symmetric] using assms by (simp add: SetHeader_def WithTraceID_def)

lemma wp_Recovery:
  "wp (Recovery nxt r) Q x = wp (nxt r) (\<lambda>out. case out of
     Panicked p \<Rightarrow> wp (do { _ \<leftarrow> WriteHeader 500; _ \<leftarrow> Write (Text ''internal server error''); ret finished }) Q
   | Returned v \<Rightarrow> Q (Returned v)) x"
  unfolding Recovery_def wp_bind
  by (rule arg_cong [where f = "\<lambda>K. wp (nxt r) K x"]) (simp add: fun_eq_iff split: outcome.split)

text \<open>
  What \<^verbatim>\<open>Logging\<close> adds to the metrics: one more and one less in flight, and the observation when the
  handler returned and the client takes its labels. When the client refuses the labels of the gauge, nothing happens but the panic.
\<close>

definition label_of :: "Request \<Rightarrow> 's exchange \<Rightarrow> string" where
  "label_of r x = (if Ex_pattern x \<noteq> '''' then Ex_pattern x else Rq_Path r)"

definition label_after :: "string \<Rightarrow> 's exchange \<Rightarrow> string" where
  "label_after label x = (if Ex_pattern x \<noteq> '''' then Ex_pattern x else label)"

lemma wp_Logging_refused:
  fixes x :: "'s exchange"
  assumes "\<not> gauge_takes m (Rq_Method r) (label_of r x)"
  shows "\<exists>p. \<forall>Q. wp (Logging m h r) Q x = Q (Panicked p) x"
proof -
  obtain p where p: "wp (IncInFlight m (Rq_Method r) (label_of r x)) Q = Q (Panicked p)" for Q :: "unit outcome \<Rightarrow> 's exchange \<Rightarrow> bool"
    using wp_IncInFlight_refused [OF assms] by blast
  have "wp (Logging m h r) Q x = Q (Panicked p) x" for Q
    unfolding Logging_def wp_bind wp_path_label label_of_def [symmetric] p by simp
  then show ?thesis by blast
qed

text \<open>The three phases of \<^verbatim>\<open>Logging\<close> when the client takes the labels of the gauge.\<close>

definition entered :: "http_metrics option \<Rightarrow> string \<Rightarrow> string \<Rightarrow> 's exchange \<Rightarrow> 's exchange" where
  "entered m meth label x = x\<lparr>Ex_metrics := Ex_metrics x @ (if m = None then [] else [InFlightInc meth label]), Ex_recorded := 200\<rparr>"

definition observe_call :: "http_metrics option \<Rightarrow> string \<Rightarrow> string \<Rightarrow> unit outcome \<Rightarrow> ('s exchange, unit outcome) state" where
  "observe_call m meth label called = (case called of
     Panicked p \<Rightarrow> ret (Panicked p)
   | Returned v \<Rightarrow> do {
       z \<leftarrow> State_Monad.get;
       obs \<leftarrow> Metrics_Observe m meth (label_after label z) (Ex_recorded z);
       ret (case obs of Panicked p \<Rightarrow> Panicked p | Returned _ \<Rightarrow> Returned v) })"

definition left :: "http_metrics option \<Rightarrow> string \<Rightarrow> string \<Rightarrow> 's exchange \<Rightarrow> 's exchange" where
  "left m meth label x = x\<lparr>Ex_metrics := Ex_metrics x @ (if m = None then [] else [InFlightDec meth label])\<rparr>"

lemma wp_Logging_run:
  assumes "gauge_takes m (Rq_Method r) (label_of r x)"
  shows "wp (Logging m h r) Q x = wp (h r) (\<lambda>called. wp (observe_call m (Rq_Method r) (label_of r x) called)
      (\<lambda>out z. Q out (left m (Rq_Method r) (label_of r x) z))) (entered m (Rq_Method r) (label_of r x) x)"
proof -
  have "wp (case called of
       Panicked p \<Rightarrow> ret (Panicked p)
     | Returned v \<Rightarrow> do {
         z \<leftarrow> State_Monad.get;
         let label2 = (if Ex_pattern z \<noteq> '''' then Ex_pattern z else label_of r x);
         obs \<leftarrow> Metrics_Observe m (Rq_Method r) label2 (Ex_recorded z);
         ret (case obs of Panicked p \<Rightarrow> Panicked p | Returned _ \<Rightarrow> Returned v) }) = wp (observe_call m (Rq_Method r) (label_of r x) called)"
    for called :: "unit outcome"
    unfolding observe_call_def label_after_def Let_def by (rule refl)
  note same = this and start = wp_InFlight(1) [OF assms] and stop = wp_InFlight(2) [OF assms]
  show ?thesis
    unfolding Logging_def wp_bind wp_path_label label_of_def [symmetric] start wp_update outcome.case same stop wp_ret
    by (simp add: entered_def left_def)
qed

lemma entered_left_simps [simp]:
  "Ex_writer (entered m meth label x) = Ex_writer x" "Ex_state (entered m meth label x) = Ex_state x"
  "Ex_pattern (entered m meth label x) = Ex_pattern x"
  "Ex_writer (left m meth label x) = Ex_writer x" "Ex_state (left m meth label x) = Ex_state x"
  "Ex_pattern (left m meth label x) = Ex_pattern x" "Ex_recorded (left m meth label x) = Ex_recorded x"
  by (simp_all add: entered_def left_def)

lemma gauge_entered_left:
  assumes "Ex_metrics z = Ex_metrics (entered m meth label x) @ new"
  shows "in_flight_gauge me p (Ex_metrics (left m meth label z)) = in_flight_gauge me p (Ex_metrics x) + in_flight_gauge me p new"
    "observations (Ex_metrics (left m meth label z)) = observations (Ex_metrics x) + observations new"
  by (simp_all add: assms left_def) (simp_all add: entered_def)

lemma wp_observe_call:
  "wp (observe_call m meth label called) (\<lambda>out z'. \<exists>new. z' = z\<lparr>Ex_metrics := Ex_metrics z @ new\<rparr> \<and> (\<forall>me p. in_flight_gauge me p new = 0) \<and>
     (case called of
        Panicked p \<Rightarrow> out = Panicked p \<and> observations new = 0
      | Returned v \<Rightarrow> counters_take m meth (label_after label z) (Ex_recorded z) \<longrightarrow>
          out = Returned v \<and> observations new = (if m = None then 0 else 1))) z"
proof (cases called)
  case (Returned v)
  show ?thesis unfolding Returned observe_call_def outcome.case wp_bind wp_get
    by (rule wp_mono [OF wp_Metrics_Observe]) auto
next
  case (Panicked p)
  then show ?thesis by (auto simp: observe_call_def intro!: exI [of _ "[]"])
qed

lemma wp_Logging_frame:
  assumes "routes_well ps h" "gauge_takes m (Rq_Method r) (label_of r x)"
  defines "y \<equiv> entered m (Rq_Method r) (label_of r x) x"
  shows "wp (Logging m h r) (\<lambda>out x'. Ex_writer x' = Ex_writer (final (h r) y) \<and> Ex_state x' = Ex_state (final (h r) y) \<and>
      (\<forall>me p. in_flight_gauge me p (Ex_metrics x') = in_flight_gauge me p (Ex_metrics x)) \<and>
      (case answer (h r) y of
         Panicked p \<Rightarrow> out = Panicked p \<and> observations (Ex_metrics x') = observations (Ex_metrics x)
       | Returned v \<Rightarrow> counters_take m (Rq_Method r) (label_after (label_of r x) (final (h r) y)) (Ex_recorded (final (h r) y)) \<longrightarrow>
           out = Returned v \<and> observations (Ex_metrics x') = observations (Ex_metrics x) + (if m = None then 0 else 1))) x"
proof -
  let ?meth = "Rq_Method r" and ?label = "label_of r x"
  obtain own where own: "Ex_metrics (final (h r) y) = Ex_metrics y @ own" "\<forall>me p. in_flight_gauge me p own = 0" "observations own = 0"
    using assms(1) unfolding routes_well_def wp_iff by (fastforce simp: handler_step_def)
  show ?thesis
    unfolding wp_Logging_run [OF assms(2)] wp_iff [of "h r"] y_def [symmetric]
  proof (rule wp_mono [OF wp_observe_call], elim exE conjE, intro conjI, goal_cases)
    case (4 out x' new)
    then have "Ex_metrics x' = Ex_metrics (entered m ?meth ?label x) @ own @ new" by (simp add: own y_def [symmetric])
    from gauge_entered_left(2) [OF this] 4(3) own(3) show ?case by (cases "answer (h r) y") (simp_all split del: if_split)
  next
    case (3 out x' new)
    then have "Ex_metrics x' = Ex_metrics (entered m ?meth ?label x) @ own @ new" by (simp add: own y_def [symmetric])
    from gauge_entered_left(1) [OF this] 3 own(2) show ?case by simp
  qed simp_all
qed

text \<open>The metrics that main makes, if any, with a client that treats labels as documented.\<close>

definition documented_metrics :: "http_metrics option \<Rightarrow> bool" where
  "documented_metrics m \<longleftrightarrow> (case m of None \<Rightarrow> True | Some M \<Rightarrow> labels_documented (M_prom M) \<and> (\<exists>cfg. M = metric_of (M_prom M) cfg))"

lemma documented_takes:
  assumes "documented_metrics m"
  shows "gauge_takes m meth path \<longleftrightarrow> m = None \<or> ValidString meth \<and> ValidString path"
    "counters_take m meth path status \<longleftrightarrow> m = None \<or> ValidString meth \<and> ValidString path"
proof -
  have "(m = None) \<or> (\<exists>prom cfg. labels_documented prom \<and> m = Some (metric_of prom cfg))"
    using assms by (auto simp: documented_metrics_def split: option.splits)
  then show "gauge_takes m meth path \<longleftrightarrow> m = None \<or> ValidString meth \<and> ValidString path"
    "counters_take m meth path status \<longleftrightarrow> m = None \<or> ValidString meth \<and> ValidString path"
    by (auto simp: gauge_takes_def counters_take_def metric_With M_prom_metric_of)
qed

text \<open>
  The chain of recovery, trace id and logging around a router. \<open>handed\<close> is the exchange that the router gets.
\<close>

definition handed :: "http_metrics option \<Rightarrow> nat list option \<Rightarrow> Request \<Rightarrow> 's exchange \<Rightarrow> 's exchange" where
  "handed met rnd r x = entered met (Rq_Method r) (label_of r x)
     (x\<lparr>Ex_writer := (Ex_writer x)\<lparr>Wr_headers :=
        filter (\<lambda>(k', _). k' \<noteq> traceHeader) (Wr_headers (Ex_writer x)) @ [(traceHeader, trace_of rnd r)]\<rparr>\<rparr>)"

lemma handed_simps [simp]:
  "Ex_state (handed met rnd r x) = Ex_state x" "Ex_pattern (handed met rnd r x) = Ex_pattern x"
  "Wr_status (Ex_writer (handed met rnd r x)) = Wr_status (Ex_writer x)"
  by (simp_all add: handed_def)

lemma chain_around:
  fixes r :: Request and rnd :: "nat list option"
  assumes "routes_well ps h" "\<forall>p \<in> ps. ValidString p" "ValidString (Ex_pattern x)" "Wr_status (Ex_writer x) = None" "documented_metrics met"
  defines "served \<equiv> h (r\<lparr>Rq_Ctx := Ctx (Some (trace_of rnd r))\<rparr>)" and "y \<equiv> handed met rnd r x"
  shows "wp (Chain [Recovery, TraceID rnd, Logging met] h r) (\<lambda>out x'.
    (\<exists>v. out = Returned v) \<and> (\<forall>v. (traceHeader, v) \<in> set (Wr_headers (Ex_writer x')) \<longleftrightarrow> v = trace_of rnd r) \<and>
    (\<forall>me p. in_flight_gauge me p (Ex_metrics x') = in_flight_gauge me p (Ex_metrics x)) \<and>
    (if met \<noteq> None \<and> \<not> (ValidString (Rq_Method r) \<and> ValidString (label_of r x))
     then Wr_status (Ex_writer x') = Some 500 \<and> Ex_state x' = Ex_state x \<and> observations (Ex_metrics x') = observations (Ex_metrics x)
     else Ex_state x' = Ex_state (final served y) \<and> (case answer served y of
        Panicked p \<Rightarrow> Wr_status (Ex_writer x') = Some 500 \<and> observations (Ex_metrics x') = observations (Ex_metrics x)
      | Returned v \<Rightarrow> Ex_writer x' = Ex_writer (final served y) \<and>
          observations (Ex_metrics x') = observations (Ex_metrics x) + (if met = None then 0 else 1)))) x"
proof -
  let ?t = "trace_of rnd r"
  let ?r = "r\<lparr>Rq_Ctx := Ctx (Some ?t)\<rparr>"
  let ?x = "x\<lparr>Ex_writer := (Ex_writer x)\<lparr>Wr_headers :=
      filter (\<lambda>(k', _). k' \<noteq> traceHeader) (Wr_headers (Ex_writer x)) @ [(traceHeader, ?t)]\<rparr>\<rparr>"
  let ?utf8 = "met = None \<or> ValidString (Rq_Method r) \<and> ValidString (label_of r x)"
  have same: "label_of ?r ?x = label_of r x" "Rq_Method ?r = Rq_Method r" by (simp_all add: label_of_def)
  have y: "entered met (Rq_Method r) (label_of r x) ?x = y" by (simp add: y_def handed_def)
  have well: "Ex_pattern (final served y) \<in> insert (Ex_pattern y) ps" "handler_step (y\<lparr>Ex_pattern := Ex_pattern (final served y)\<rparr>) (final served y)"
    "answer served y = Panicked p \<Longrightarrow> Ex_writer (final served y) = Ex_writer y" for p
    using assms(1) unfolding routes_well_def wp_iff served_def by (auto split: outcome.splits)
  have sent: "(traceHeader, v) \<in> set (Wr_headers (Ex_writer y)) \<longleftrightarrow> v = ?t" for v by (auto simp: y_def handed_def)
  then have header: "(traceHeader, v) \<in> set (Wr_headers (Ex_writer (final served y))) \<longleftrightarrow> v = ?t" for v
    using well(2) by (simp add: handler_step_def)
  have pattern: "ValidString (Ex_pattern (final served y))" using well(1) assms(2,3) by (auto simp: y_def)
  show ?thesis
  proof (cases ?utf8)
    case False
    then have "\<not> gauge_takes met (Rq_Method ?r) (label_of ?r ?x)" unfolding same documented_takes [OF assms(5)] by simp
    from wp_Logging_refused [OF this, where h = h] obtain p where p: "wp (Logging met h ?r) Q ?x = Q (Panicked p) ?x" for Q by blast
    show ?thesis unfolding Chain_simps wp_Recovery wp_TraceID [OF assms(4)] p using False assms(4) by (auto simp: WriteHeader_def Write_def)
  next
    case True
    then have takes: "gauge_takes met (Rq_Method ?r) (label_of ?r ?x)" unfolding same documented_takes [OF assms(5)] by simp
    have taken: "counters_take met (Rq_Method r) (label_after (label_of r x) (final served y)) n" for n
      unfolding documented_takes [OF assms(5)] using True pattern by (auto simp: label_after_def)
    note logged = wp_Logging_frame [OF assms(1) takes, unfolded same y served_def [symmetric]]
    show ?thesis
      unfolding Chain_simps wp_Recovery wp_TraceID [OF assms(4)]
    proof (rule wp_mono [OF logged], elim conjE, goal_cases)
      case (1 out x')
      then show ?case
        using True taken header sent well(3) assms(4)
        by (cases "answer served y") (auto simp: WriteHeader_def Write_def y_def)
    qed
  qed
qed

text \<open>The handler of \<^verbatim>\<open>GET /ping\<close> of the two servers.\<close>

definition ping :: "'s Handler" where
  "ping r = do { _ \<leftarrow> WriteHeader 200; _ \<leftarrow> Write (Text ''pong''); ret finished }"

definition new_exchange :: "'s \<Rightarrow> 's exchange" where
  "new_exchange s = \<lparr>Ex_writer = \<lparr>Wr_status = None, Wr_headers = [], Wr_body = []\<rparr>, Ex_recorded = 200, Ex_pattern = '''', Ex_reporter = False,
     Ex_metrics = [], Ex_state = s\<rparr>"

definition ping_request :: Request where
  "ping_request = \<lparr>Rq_Method = ''GET'', Rq_Path = ''/ping'', Rq_Query = (\<lambda>_. ''''), Rq_Header = (\<lambda>_. ''''),
     Rq_PathValue = (\<lambda>_. ''''), Rq_Body = None, Rq_Ctx = Ctx None\<rparr>"

text \<open>The operations that handlers use.\<close>

lemma wp_handler_steps:
  "wp (WriteHeader code) (\<lambda>_. handler_step x) x" "wp (Write c) (\<lambda>_. handler_step x) x"
  "k \<noteq> traceHeader \<Longrightarrow> wp (SetHeader k v) (\<lambda>_. handler_step x) x" "wp (in_state m) (\<lambda>_. handler_step x) x"
  "wp (ObserveError b code) (\<lambda>_. handler_step x) x"
  by (auto simp: WriteHeader_def Write_def SetHeader_def ObserveError_def handler_step_def wp_iff [of m]
      intro!: exI [of _ "[]"] exI [of _ "[ErrorObserved (FormatInt code)]"])

definition demo_http_metrics :: http_metrics where
  "demo_http_metrics = metric_of
     \<lparr>Prom_MustRegister = \<lambda>_ _ _. None,
      Prom_With = \<lambda>c ls. if declared c ls \<and> list_all ValidString (map snd ls) then None else Some ''inconsistent label''\<rparr>
     \<lparr>Metric_Enabled = True, Metric_Path = '''', Metric_Namespace = ''''\<rparr>"

lemma demo_http_metrics_documented: "documented_metrics (Some demo_http_metrics)"
  by (auto simp: documented_metrics_def demo_http_metrics_def labels_documented_def metric_of_def)

end
