(* ===== verification/HttpMux.thy ===== *)
theory HttpMux
  imports HttpMiddleware
begin

text \<open>
  The router of the two servers: \<^verbatim>\<open>http.ServeMux\<close> of the standard library, as far as their patterns use
  it. A pattern is an optional method and a path of literal segments and single-segment wildcards;
  hosts, trailing slashes, \<^verbatim>\<open>{$}\<close> and \<^verbatim>\<open>{x...}\<close> are outside of the model, which treats them like a pattern that the
  router refuses. Registering a pattern that is malformed or that conflicts with another one panics. Of several
  patterns that match a request the most specific one is taken. Request paths are clean and without escapes.
\<close>

section \<open>Patterns\<close>

datatype seg = Lit string | Wild string

record pattern =
  Pat_text :: string
  Pat_method :: string
  Pat_segs :: "seg list"

fun split_on :: "char \<Rightarrow> string \<Rightarrow> string list" where
  "split_on c [] = [[]]"
| "split_on c (x # xs) = (if x = c then [] # split_on c xs
     else case split_on c xs of [] \<Rightarrow> [[x]] | y # ys \<Rightarrow> (x # y) # ys)"

definition ident_char :: "char \<Rightarrow> bool" where
  "ident_char c = (let n = of_char c :: nat in
     65 \<le> n \<and> n \<le> 90 \<or> 97 \<le> n \<and> n \<le> 122 \<or> 48 \<le> n \<and> n \<le> 57 \<or> n = 95)"

definition parse_seg :: "string \<Rightarrow> seg option" where
  "parse_seg s =
     (if s = '''' then None
      else if hd s = CHR ''{'' \<and> last s = CHR ''}'' \<and> 2 < length s \<and> list_all ident_char (butlast (tl s))
      then Some (Wild (butlast (tl s)))
      else if CHR ''{'' \<in> set s \<or> CHR ''}'' \<in> set s then None
      else Some (Lit s))"

definition parse_pattern :: "string \<Rightarrow> pattern option" where
  "parse_pattern text =
     (let (method, path) = (if CHR '' '' \<in> set text
            then (takeWhile (\<lambda>c. c \<noteq> CHR '' '') text, tl (dropWhile (\<lambda>c. c \<noteq> CHR '' '') text)) else ('''', text)) in
      if path = '''' \<or> hd path \<noteq> CHR ''/'' \<or> (method = '''' \<and> path \<noteq> text) then None
      else map_option (\<lambda>segs. \<lparr>Pat_text = text, Pat_method = method, Pat_segs = segs\<rparr>)
             (those (map parse_seg (split_on (CHR ''/'') (tl path)))))"

text \<open>A \<^verbatim>\<open>GET\<close> pattern also serves \<^verbatim>\<open>HEAD\<close>.\<close>

definition method_in :: "string \<Rightarrow> string \<Rightarrow> bool" where
  "method_in m general \<longleftrightarrow> general = '''' \<or> general = m \<or> general = ''GET'' \<and> m = ''HEAD''"

fun seg_match :: "seg list \<Rightarrow> string list \<Rightarrow> (string \<times> string) list option" where
  "seg_match [] [] = Some []"
| "seg_match (Lit a # ps) (s # ss) = (if s = a then seg_match ps ss else None)"
| "seg_match (Wild n # ps) (s # ss) = (if s = '''' then None else map_option ((#) (n, s)) (seg_match ps ss))"
| "seg_match _ _ = None"

definition path_segs :: "Request \<Rightarrow> string list" where
  "path_segs r = split_on (CHR ''/'') (tl (Rq_Path r))"

definition pattern_match :: "pattern \<Rightarrow> Request \<Rightarrow> (string \<times> string) list option" where
  "pattern_match p r = (if method_in (Rq_Method r) (Pat_method p) then seg_match (Pat_segs p) (path_segs r) else None)"

section \<open>Specificity\<close>

definition seg_in :: "seg \<Rightarrow> seg \<Rightarrow> bool" where
  "seg_in a b = (case b of Wild _ \<Rightarrow> True | Lit t \<Rightarrow> a = Lit t)"

definition covered_by :: "pattern \<Rightarrow> pattern \<Rightarrow> bool" where
  "covered_by p q \<longleftrightarrow> method_in (Pat_method p) (Pat_method q) \<and> list_all2 seg_in (Pat_segs p) (Pat_segs q)"

definition apart :: "pattern \<Rightarrow> pattern \<Rightarrow> bool" where
  "apart p q \<longleftrightarrow> \<not> method_in (Pat_method p) (Pat_method q) \<and> \<not> method_in (Pat_method q) (Pat_method p) \<or>
     \<not> list_all2 (\<lambda>a b. seg_in a b \<or> seg_in b a) (Pat_segs p) (Pat_segs q)"

definition conflict :: "pattern \<Rightarrow> pattern \<Rightarrow> bool" where
  "conflict p q \<longleftrightarrow> \<not> apart p q \<and> covered_by p q = covered_by q p"

section \<open>The router\<close>

type_synonym 's mux = "(pattern \<times> 's Handler) list"

text \<open>\<open>None\<close> is the panic of \<^verbatim>\<open>Handle\<close>.\<close>

definition mux_Handle :: "string \<Rightarrow> 's Handler \<Rightarrow> 's mux \<Rightarrow> 's mux option" where
  "mux_Handle text h m = (case parse_pattern text of
     None \<Rightarrow> None
   | Some p \<Rightarrow> if list_ex (\<lambda>(q, _). conflict p q) m then None else Some (m @ [(p, h)]))"

fun mux_routes :: "(string \<times> 's Handler) list \<Rightarrow> 's mux \<Rightarrow> 's mux option" where
  "mux_routes [] m = Some m"
| "mux_routes ((text, h) # rs) m = Option.bind (mux_Handle text h m) (mux_routes rs)"

definition http_Error :: "string \<Rightarrow> int \<Rightarrow> ('s exchange, unit) state" where
  "http_Error msg code = do {
     _ \<leftarrow> SetHeader ''Content-Type'' ''text/plain; charset=utf-8'';
     _ \<leftarrow> SetHeader ''X-Content-Type-Options'' ''nosniff'';
     _ \<leftarrow> WriteHeader code;
     Write (Text (msg @ [CHR 0x0A])) }"

definition candidates :: "'s mux \<Rightarrow> Request \<Rightarrow> (pattern \<times> 's Handler) list" where
  "candidates m r = filter (\<lambda>(p, _). pattern_match p r \<noteq> None) m"

definition best_match :: "'s mux \<Rightarrow> Request \<Rightarrow> (pattern \<times> 's Handler) option" where
  "best_match m r = find (\<lambda>(p, _). list_all (\<lambda>(q, _). covered_by p q) (candidates m r)) (candidates m r)"

definition mux_ServeHTTP :: "'s mux \<Rightarrow> 's Handler" where
  "mux_ServeHTTP m r = (case best_match m r of
     Some (p, h) \<Rightarrow> do {
       _ \<leftarrow> State_Monad.update (\<lambda>x. x\<lparr>Ex_pattern := Pat_text p\<rparr>);
       h (r\<lparr>Rq_PathValue := (\<lambda>n. case map_of (the (pattern_match p r)) n of None \<Rightarrow> '''' | Some s \<Rightarrow> s)\<rparr>) }
   | None \<Rightarrow> do {
       _ \<leftarrow> (if list_ex (\<lambda>(p, _). seg_match (Pat_segs p) (path_segs r) \<noteq> None) m
              then http_Error ''Method Not Allowed'' 405 else http_Error ''404 page not found'' 404);
       ret finished })"

section \<open>Facts about routing\<close>

lemma best_match_member: "best_match m r = Some (p, h) \<Longrightarrow> (p, h) \<in> set m"
  by (auto simp: best_match_def candidates_def find_Some_iff dest: nth_mem)

lemma parse_pattern_text: "parse_pattern t = Some p \<Longrightarrow> Pat_text p = t"
  by (auto simp: parse_pattern_def Let_def split: if_splits prod.splits)

lemma mux_routes_handlers: "mux_routes rs m = Some m' \<Longrightarrow> (p, h) \<in> set m' \<Longrightarrow> (p, h) \<in> set m \<or> (Pat_text p, h) \<in> set rs"
  by (induction rs m rule: mux_routes.induct)
    (fastforce simp: mux_Handle_def dest: parse_pattern_text split: option.splits if_splits bind_splits)+

text \<open>Whether registration panics depends on the patterns alone.\<close>

lemma mux_routes_patterns:
  "map fst rs = map fst rs' \<Longrightarrow> map fst m = map fst m' \<Longrightarrow>
   (case mux_routes rs m of None \<Rightarrow> mux_routes rs' m' = None
    | Some n \<Rightarrow> \<exists>n'. mux_routes rs' m' = Some n' \<and> map fst n' = map fst n)"
proof (induction rs arbitrary: rs' m m')
  case Nil
  then show ?case by simp
next
  case (Cons a rs)
  obtain t h h' rs1 where a: "a = (t, h)" "rs' = (t, h') # rs1" "map fst rs = map fst rs1"
    using Cons.prems(1) by (cases a; cases rs') auto
  have "list_ex (\<lambda>(q, _). conflict p q) n = list_ex (conflict p) (map fst n)" for p and n :: "(pattern \<times> 'x) list"
    by (induction n) auto
  then have same: "list_ex (\<lambda>(q, _). conflict p q) m = list_ex (\<lambda>(q, _). conflict p q) m'" for p
    using Cons.prems(2) by metis
  have "case mux_routes rs (m @ [(p, h)]) of None \<Rightarrow> mux_routes rs1 (m' @ [(p, h')]) = None
      | Some n \<Rightarrow> \<exists>n'. mux_routes rs1 (m' @ [(p, h')]) = Some n' \<and> map fst n' = map fst n" for p
    using Cons.IH [OF a(3), of "m @ [(p, h)]" "m' @ [(p, h')]"] Cons.prems(2) by simp
  then show ?case unfolding a mux_routes.simps mux_Handle_def same by (cases "parse_pattern t") (auto cong: option.case_cong)
qed


lemma first_route:
  assumes "map fst m = p # ps" "pattern_match p r \<noteq> None" "list_all (\<lambda>q. pattern_match q r = None) ps"
  shows "\<exists>h. best_match m r = Some (p, h)"
proof -
  obtain h n where m: "m = (p, h) # n" "map fst n = ps" using assms(1) by (cases m) auto
  have "candidates n r = []" using assms(3) unfolding m(2) [symmetric] by (induction n) (auto simp: candidates_def)
  then have "candidates m r = [(p, h)]" using assms(2) by (simp add: m(1) candidates_def)
  moreover have "covered_by p p" by (auto simp: covered_by_def method_in_def seg_in_def list_all2_same split: seg.split)
  ultimately show ?thesis by (simp add: best_match_def)
qed

lemma mux_registers:
  assumes "map fst rs = map fst rs'" "mux_routes rs [] \<noteq> None"
  obtains m where "mux_routes rs' [] = Some m"
  using mux_routes_patterns [OF assms(1), of "[]" "[]"] assms(2) by auto


text \<open>
  A router all of whose patterns are plain, literal paths for every method: two of them conflict when they are
  the same path, so a request for a registered path finds exactly its handler.
\<close>

definition plain_pattern :: "pattern \<Rightarrow> bool" where
  "plain_pattern p \<longleftrightarrow> Pat_method p = '''' \<and> list_all (\<lambda>s. \<exists>t. s = Lit t) (Pat_segs p)"

lemma plain_conflict: "plain_pattern p \<Longrightarrow> Pat_segs p = Pat_segs q \<Longrightarrow> plain_pattern q \<Longrightarrow> conflict p q"
  by (auto simp: plain_pattern_def conflict_def apart_def covered_by_def method_in_def seg_in_def list_all2_same list_all_iff
      split: seg.splits)

lemma seg_match_plain:
  "list_all (\<lambda>s. \<exists>t. s = Lit t) ps \<Longrightarrow> seg_match ps ss = (if ps = map Lit ss then Some [] else None)"
  by (induction ps ss rule: seg_match.induct) auto

lemma plain_routes:
  assumes "mux_routes rs m0 = Some m" "list_all (\<lambda>(p, _). plain_pattern p) m0" "distinct (map (\<lambda>x. Pat_segs (fst x)) m0)"
    and "\<forall>t p. t \<in> fst ` set rs \<longrightarrow> parse_pattern t = Some p \<longrightarrow> plain_pattern p"
  shows "list_all (\<lambda>(p, _). plain_pattern p) m \<and> distinct (map (\<lambda>x. Pat_segs (fst x)) m) \<and>
    set m = set m0 \<union> (\<lambda>(t, h). (the (parse_pattern t), h)) ` set rs"
  using assms
proof (induction rs m0 arbitrary: m rule: mux_routes.induct)
  case (2 t h rs m0)
  obtain p where p: "parse_pattern t = Some p" "\<not> list_ex (\<lambda>(q, _). conflict p q) m0" "mux_routes rs (m0 @ [(p, h)]) = Some m"
    using "2.prems"(1) by (auto simp: mux_Handle_def split: option.splits if_splits bind_splits)
  have plain: "plain_pattern p" using "2.prems"(4) p(1) by simp
  have "Pat_segs p \<noteq> Pat_segs q" if "(q, g) \<in> set m0" for q g
    using that p(2) plain_conflict [OF plain] "2.prems"(2) by (fastforce simp: list_ex_iff list_all_iff)
  then have "Pat_segs p \<notin> (\<lambda>x. Pat_segs (fst x)) ` set m0" by (metis (no_types, lifting) imageE prod.collapse)
  then have "list_all (\<lambda>(p, _). plain_pattern p) (m0 @ [(p, h)])" "distinct (map (\<lambda>x. Pat_segs (fst x)) (m0 @ [(p, h)]))"
    using "2.prems"(2,3) plain by simp_all
  with "2.IH" [of "m0 @ [(p, h)]" m] p "2.prems"(4) show ?case by (auto simp: mux_Handle_def)
qed simp

lemma plain_best_match:
  assumes "list_all (\<lambda>(p, _). plain_pattern p) m" "distinct (map (\<lambda>x. Pat_segs (fst x)) m)" "(p, h) \<in> set m"
    "Pat_segs p = map Lit (path_segs r)"
  shows "best_match m r = Some (p, h)"
proof -
  have "pattern_match q r \<noteq> None \<longleftrightarrow> Pat_segs q = Pat_segs p" if "(q, g) \<in> set m" for q g
    using that assms(1,4) by (auto simp: list_all_iff plain_pattern_def pattern_match_def method_in_def seg_match_plain split: if_splits)
  then have "(\<lambda>(q, _). pattern_match q r \<noteq> None) x = (Pat_segs (fst x) = Pat_segs p)" if "x \<in> set m" for x
    using that by (cases x) simp
  then have "candidates m r = filter (\<lambda>x. Pat_segs (fst x) = Pat_segs p) m"
    unfolding candidates_def by (intro filter_cong refl)
  also have "\<dots> = [(p, h)]"
    using assms(2,3) by (induction m) (auto simp: filter_empty_conv image_iff)
  finally have "candidates m r = [(p, h)]" .
  moreover have "covered_by p p" by (auto simp: covered_by_def method_in_def seg_in_def list_all2_same split: seg.split)
  ultimately show ?thesis by (simp add: best_match_def)
qed

end
