(* ===== verification/AppRuntime.thy ===== *)
theory AppRuntime
  imports AppErrors "HOL-Library.Multiset"
begin

text \<open>
  pkg/runtime: starting and stopping the components of a server. A component is a pair of stateful
  operations on the state of the process. \<^verbatim>\<open>stopReverse\<close> starts one goroutine per component and waits
  for all of them; the order in which their \<^verbatim>\<open>Stop\<close> calls take effect is a permutation chosen by the
  scheduler, an argument of the model. A context is its deadline, if it has one; a call that gives up at
  its deadline shows as an error. The theory ends with pkg/runtime/signal.go and the life of a server: start, wait for a signal, stop.
\<close>

section \<open>Components\<close>

type_synonym deadline = "int option"

record 's Component =
  Component_Start :: "deadline \<Rightarrow> ('s, unit result) state"
  Component_Stop :: "deadline \<Rightarrow> ('s, unit result) state"

record 's App =
  App_components :: "'s Component list"
  App_stopTimeout :: int

datatype App_Option = WithStopTimeout int

definition App_New :: "'s Component list \<Rightarrow> 's App" where
  "App_New components = \<lparr>App_components = components, App_stopTimeout = 10 * Second\<rparr>"

definition apply_App_Option :: "'s App \<Rightarrow> App_Option \<Rightarrow> 's App" where
  "apply_App_Option a opt = (case opt of WithStopTimeout d \<Rightarrow> a\<lparr>App_stopTimeout := d\<rparr>)"

definition NewWithOptions :: "App_Option list \<Rightarrow> 's App" where
  "NewWithOptions opts = foldl apply_App_Option (App_New []) opts"

definition App_Use :: "'s Component list \<Rightarrow> 's App \<Rightarrow> 's App" where
  "App_Use components a = a\<lparr>App_components := App_components a @ components\<rparr>"

text \<open>\<^verbatim>\<open>errors.Join\<close>: the texts, one per line.\<close>

fun errors_Join :: "goerr list \<Rightarrow> goerr option" where
  "errors_Join [] = None"
| "errors_Join [e] = Some e"
| "errors_Join (e # es) = map_option (\<lambda>e'. ErrWrap [] e (CHR 0x0A # errstr e')) (errors_Join es)"

text \<open>The stop calls in the order in which they take effect; the errors in that order.\<close>

primrec stop_all :: "deadline \<Rightarrow> 's Component list \<Rightarrow> ('s, goerr list) state" where
  "stop_all ctx [] = ret []"
| "stop_all ctx (c # cs) = do {
     r \<leftarrow> Component_Stop c ctx;
     errs \<leftarrow> stop_all ctx cs;
     ret (case r of Inl e \<Rightarrow> e # errs | Inr _ \<Rightarrow> errs) }"

text \<open>
  The goroutines are started from the last component to the first; \<open>sched n\<close> is the order in which
  \<open>n\<close> of them get to run.
\<close>

type_synonym schedule = "nat \<Rightarrow> nat list"

definition is_schedule :: "schedule \<Rightarrow> bool" where
  "is_schedule sched \<longleftrightarrow> (\<forall>n. mset (sched n) = mset [0..<n])"

text \<open>A context without a deadline gets one, counted from the moment \<open>now\<close> at which the components are stopped.\<close>

definition withDefaultTimeout :: "int \<Rightarrow> deadline \<Rightarrow> int \<Rightarrow> deadline" where
  "withDefaultTimeout now ctx d = (case ctx of Some t \<Rightarrow> Some t | None \<Rightarrow> Some (now + d))"

definition stopReverse :: "schedule \<Rightarrow> int \<Rightarrow> deadline \<Rightarrow> int \<Rightarrow> 's Component list \<Rightarrow> ('s, unit result) state" where
  "stopReverse sched now ctx stopTimeout comps = do {
     errs \<leftarrow> stop_all (withDefaultTimeout now ctx stopTimeout) (map (nth (rev comps)) (sched (length comps)));
     ret (case errors_Join errs of None \<Rightarrow> Inr () | Some e \<Rightarrow> Inl e) }"

primrec start_from ::
  "schedule \<Rightarrow> int \<Rightarrow> deadline \<Rightarrow> int \<Rightarrow> 's Component list \<Rightarrow> 's Component list \<Rightarrow> ('s, unit result) state"
where
  "start_from sched now ctx stopTimeout started [] = returnE ()"
| "start_from sched now ctx stopTimeout started (c # cs) = do {
     r \<leftarrow> Component_Start c ctx;
     case r of
       Inl err \<Rightarrow> do { _ \<leftarrow> stopReverse sched now ctx stopTimeout started; throwE err }
     | Inr _ \<Rightarrow> start_from sched now ctx stopTimeout (started @ [c]) cs }"

definition App_Start :: "schedule \<Rightarrow> int \<Rightarrow> deadline \<Rightarrow> 's App \<Rightarrow> ('s, unit result) state" where
  "App_Start sched now ctx a = start_from sched now ctx (App_stopTimeout a) [] (App_components a)"

definition App_Stop :: "schedule \<Rightarrow> int \<Rightarrow> deadline \<Rightarrow> 's App \<Rightarrow> ('s, unit result) state" where
  "App_Stop sched now ctx a = stopReverse sched now ctx (App_stopTimeout a) (App_components a)"

section \<open>Waiting for a signal\<close>

text \<open>
  pkg/runtime/signal.go. \<^verbatim>\<open>signal.Notify\<close> puts the signals asked for into a channel of capacity one, without blocking; \<^verbatim>\<open>select\<close> takes
  a ready case, any of them when both are. The events are what happens to the process while it waits; an
  unread rest is left over. Signals that end a process by themselves are not among them.
\<close>

datatype os_signal = SIGINT | SIGTERM | OtherSignal int

datatype sig_event = Deliver os_signal | CtxDone goerr

datatype wait_ctx = NilWait | Background | Cancellable

record signal_wait =
  Wait_ch :: "os_signal list"
  Wait_err :: "goerr option"

definition sig_arrives :: "wait_ctx \<Rightarrow> os_signal list \<Rightarrow> sig_event \<Rightarrow> signal_wait \<Rightarrow> signal_wait" where
  "sig_arrives ctx signals ev st = (case ev of
     Deliver s \<Rightarrow> if s \<in> set signals \<and> length (Wait_ch st) < 1 then st\<lparr>Wait_ch := Wait_ch st @ [s]\<rparr> else st
   | CtxDone e \<Rightarrow> if ctx = Cancellable \<and> Wait_err st = None then st\<lparr>Wait_err := Some e\<rparr> else st)"

inductive selects :: "wait_ctx \<Rightarrow> os_signal list \<Rightarrow> signal_wait \<Rightarrow> sig_event list \<Rightarrow> unit result \<Rightarrow> sig_event list \<Rightarrow> bool"
  for ctx signals where
  select_ctx: "Wait_err st = Some e \<Longrightarrow> selects ctx signals st evs (Inl e) evs"
| select_signal: "Wait_ch st \<noteq> [] \<Longrightarrow> selects ctx signals st evs (Inr ()) evs"
| select_waits: "selects ctx signals (sig_arrives ctx signals ev st) evs r rest \<Longrightarrow> selects ctx signals st (ev # evs) r rest"

inductive_cases selects_NilE: "selects ctx signals st [] r rest"
inductive_cases selects_ConsE: "selects ctx signals st (ev # evs) r rest"

definition WaitSignal :: "wait_ctx \<Rightarrow> os_signal list \<Rightarrow> sig_event list \<Rightarrow> unit result \<Rightarrow> sig_event list \<Rightarrow> bool" where
  "WaitSignal ctx signals evs r rest =
     selects (if ctx = NilWait then Background else ctx) (if signals = [] then [SIGINT, SIGTERM] else signals)
       \<lparr>Wait_ch = [], Wait_err = None\<rparr> evs r rest"

text \<open>
  The end of both \<^verbatim>\<open>main\<close> functions: start, wait, stop, all with a background context. The result of \<^verbatim>\<open>Stop\<close> is only logged.
  \<open>failed_at\<close> and \<open>stopped_at\<close> are the times at which the components are stopped.
\<close>

datatype main_end = StartFailed goerr | Exited "unit result"

definition app_main :: "schedule \<Rightarrow> int \<Rightarrow> int \<Rightarrow> 's App \<Rightarrow> sig_event list \<Rightarrow> 's \<Rightarrow> main_end \<Rightarrow> 's \<Rightarrow> bool" where
  "app_main sched failed_at stopped_at a evs s out s' \<longleftrightarrow> (case run_state (App_Start sched failed_at None a) s of
     (Inl e, s1) \<Rightarrow> out = StartFailed e \<and> s' = s1
   | (Inr _, s1) \<Rightarrow> (\<exists>r rest. WaitSignal Background [] evs r rest) \<and>
       (case run_state (App_Stop sched stopped_at None a) s1 of (res, s2) \<Rightarrow> out = Exited res \<and> s' = s2))"

section \<open>What start and stop call\<close>

text \<open>
  To observe the calls, components are given by numbered handles whose operations write to a log, \<^verbatim>\<open>Stop\<close> with its deadline.
\<close>

datatype lifecycle = Started nat | Stopped deadline nat

definition logged :: "(nat \<Rightarrow> 's Component) \<Rightarrow> nat \<Rightarrow> ('s \<times> lifecycle list) Component" where
  "logged parts i = \<lparr>
     Component_Start = (\<lambda>ctx. State (\<lambda>(s, l). case run_state (Component_Start (parts i) ctx) s of (r, s') \<Rightarrow>
        (r, (s', case r of Inl _ \<Rightarrow> l | Inr _ \<Rightarrow> l @ [Started i])))),
     Component_Stop = (\<lambda>ctx. State (\<lambda>(s, l). case run_state (Component_Stop (parts i) ctx) s of (r, s') \<Rightarrow>
        (r, (s', l @ [Stopped ctx i]))))\<rparr>"

lemma wp_logged [simp]:
  "wp (Component_Stop (logged parts i) ctx) Q (s, l) =
     (case run_state (Component_Stop (parts i) ctx) s of (r, s') \<Rightarrow> Q r (s', l @ [Stopped ctx i]))"
  "wp (Component_Start (logged parts i) ctx) Q (s, l) =
     (case run_state (Component_Start (parts i) ctx) s of (r, s') \<Rightarrow>
        Q r (s', case r of Inl _ \<Rightarrow> l | Inr _ \<Rightarrow> l @ [Started i]))"
  by (simp_all add: logged_def split: prod.split)

lemma wp_stop_all:
  "wp (stop_all ctx (map (logged parts) is)) (\<lambda>_ (s', l'). l' = snd sl @ map (Stopped ctx) is) sl"
proof (induction "is" arbitrary: sl)
  case Nil
  then show ?case by (cases sl) simp
next
  case (Cons i "is")
  obtain s l where sl: "sl = (s, l)" by (cases sl)
  have "wp (stop_all ctx (map (logged parts) is)) (\<lambda>_ (s', l'). l' = l @ map (Stopped ctx) (i # is)) (s', l @ [Stopped ctx i])" for s'
    using Cons.IH [of "(s', l @ [Stopped ctx i])"] by simp
  then show ?case by (simp add: sl split: prod.split)
qed

lemma schedule_in_range: "is_schedule sched \<Longrightarrow> i \<in> set (sched n) \<longleftrightarrow> i < n"
  unfolding is_schedule_def by (metis atLeastLessThan_iff atLeast_upt lessThan_iff set_mset_mset)

lemma mset_map_nth: "mset js = mset [0..<length xs] \<Longrightarrow> mset (map (nth xs) js) = mset xs"
  by (metis map_nth mset_map)

text \<open>The log of stopping \<open>is\<close>: each once, all with the deadline \<open>ctx\<close>.\<close>

definition stop_log :: "deadline \<Rightarrow> nat list \<Rightarrow> lifecycle list \<Rightarrow> bool" where
  "stop_log ctx is l \<longleftrightarrow> (\<exists>js. mset js = mset is \<and> l = map (Stopped ctx) js)"

lemma wp_stopReverse:
  assumes "is_schedule sched"
  shows "wp (stopReverse sched now ctx d (map (logged parts) is))
    (\<lambda>_ (s', l'). \<exists>l. stop_log (withDefaultTimeout now ctx d) is l \<and> l' = snd sl @ l) sl"
proof -
  let ?js = "map (nth (rev is)) (sched (length is))" and ?ctx = "withDefaultTimeout now ctx d"
  have "map (nth (rev (map (logged parts) is))) (sched (length is)) = map (logged parts) ?js"
    using schedule_in_range [OF assms] by (auto simp: rev_map)
  moreover have "mset ?js = mset is"
    using mset_map_nth [of "sched (length is)" "rev is"] assms by (simp add: is_schedule_def)
  then have "stop_log ?ctx is (map (Stopped ?ctx) ?js)" unfolding stop_log_def by blast
  ultimately show ?thesis
    unfolding stopReverse_def wp_bind length_map wp_ret
    by (simp only:) (rule wp_mono [OF wp_stop_all [where sl = sl]], clarify, rule exI [of _ "map (Stopped ?ctx) ?js"], simp only: simp_thms)
qed

text \<open>
  The log of a start that has already started \<open>pre\<close>: the components are started in order; either all
  are, or the first failing one ends it and exactly those started before are stopped, once each.
\<close>

definition start_log :: "deadline \<Rightarrow> nat list \<Rightarrow> nat list \<Rightarrow> unit result \<Rightarrow> lifecycle list \<Rightarrow> bool" where
  "start_log ctx pre is r l \<longleftrightarrow> (case r of
     Inr _ \<Rightarrow> l = map Started is
   | Inl e \<Rightarrow> \<exists>k < length is. \<exists>l'. stop_log ctx (pre @ take k is) l' \<and> l = map Started (take k is) @ l')"

lemma wp_start_from:
  assumes "is_schedule sched"
  shows "wp (start_from sched now ctx d (map (logged parts) pre) (map (logged parts) is))
    (\<lambda>r (s', l'). \<exists>l. l' = snd sl @ l \<and> start_log (withDefaultTimeout now ctx d) pre is r l) sl"
proof (induction "is" arbitrary: pre sl)
  case Nil
  then show ?case by (cases sl) (simp add: start_log_def)
next
  case (Cons i "is")
  let ?ctx = "withDefaultTimeout now ctx d"
  obtain s l where sl: "sl = (s, l)" by (cases sl)
  have fail: "wp (stopReverse sched now ctx d (map (logged parts) pre))
      (\<lambda>_ (s', l'). \<exists>l1. l' = l @ l1 \<and> start_log ?ctx pre (i # is) (Inl e) l1) (s1, l)" for e s1
    by (rule wp_mono [OF wp_stopReverse [OF assms]])
      (force simp: start_log_def split: prod.splits intro!: exI [of _ 0])
  have go: "wp (start_from sched now ctx d (map (logged parts) (pre @ [i])) (map (logged parts) is))
      (\<lambda>r (s', l'). \<exists>l1. l' = l @ l1 \<and> start_log ?ctx pre (i # is) r l1) (s1, l @ [Started i])" for s1
  proof (rule wp_mono [OF Cons.IH [of "pre @ [i]" "(s1, l @ [Started i])"]], clarsimp)
    fix r l1 assume "start_log ?ctx (pre @ [i]) is r l1"
    then show "start_log ?ctx pre (i # is) r (Started i # l1)"
    proof (cases r)
      case (Inl e)
      with \<open>start_log ?ctx (pre @ [i]) is r l1\<close> obtain k l' where "k < length is" "stop_log ?ctx ((pre @ [i]) @ take k is) l'"
          "l1 = map Started (take k is) @ l'" by (auto simp: start_log_def)
      then show ?thesis unfolding start_log_def Inl sum.case by (intro exI [of _ "Suc k"] conjI exI [of _ l']) simp_all
    qed (simp add: start_log_def)
  qed
  show ?case
    using fail go by (cases "run_state (Component_Start (parts i) ctx) s") (auto simp: sl split: sum.split)
qed

lemma components_apply: "App_components (foldl apply_App_Option a opts) = App_components a"
  by (induction opts arbitrary: a) (simp_all add: apply_App_Option_def split: App_Option.split)

text \<open>The last timeout given, or ten seconds.\<close>

definition stop_timeout :: "App_Option list \<Rightarrow> int" where
  "stop_timeout opts = (if opts = [] then 10 * Second else case last opts of WithStopTimeout d \<Rightarrow> d)"

lemma timeout_NewWithOptions [simp]: "App_stopTimeout (NewWithOptions opts) = stop_timeout opts"
  by (induction opts rule: rev_induct)
    (simp_all add: NewWithOptions_def App_New_def apply_App_Option_def stop_timeout_def split: App_Option.split)

lemma components_NewWithOptions [simp]: "App_components (NewWithOptions opts) = []"
  by (simp add: NewWithOptions_def components_apply) (simp add: App_New_def)

lemma selects_signal:
  assumes "selects ctx signals st evs r rest" "Wait_err st = None" "ctx \<noteq> Cancellable" "Wait_ch st = []"
  shows "\<exists>s \<in> set signals. Deliver s \<in> set evs"
  using assms
proof (induction rule: selects.induct)
  case (select_waits ev st evs r rest)
  show ?case
  proof (cases "Wait_ch (sig_arrives ctx signals ev st) = []")
    case True
    have "Wait_err (sig_arrives ctx signals ev st) = None"
      using select_waits.prems by (simp add: sig_arrives_def split: sig_event.split)
    from select_waits.IH [OF this select_waits.prems(2) True] show ?thesis by auto
  next
    case False
    then show ?thesis using select_waits.prems by (auto simp: sig_arrives_def split: sig_event.splits if_splits)
  qed
qed simp_all

lemma selects_ready:
  assumes "s \<in> set signals" "Deliver s \<in> set evs"
  shows "\<exists>r rest. selects ctx signals st evs r rest"
  using assms(2)
proof (induction evs arbitrary: st)
  case (Cons ev evs)
  show ?case
  proof (cases "ev = Deliver s")
    case True
    have "Wait_ch (sig_arrives ctx signals ev st) \<noteq> []" using True assms(1) by (auto simp: sig_arrives_def)
    then show ?thesis by (blast intro: select_waits select_signal)
  next
    case False
    then show ?thesis using Cons by (fastforce intro: select_waits)
  qed
qed simp

section \<open>Properties\<close>

text \<open>
  C32. The life of a server. Whatever the components do and however the scheduler orders the stop calls, the components are started
  in the order they were added. When one fails to start, exactly those that had started before it are stopped, once
  each, and the process ends. When all have started, the process lives until it gets SIGINT or SIGTERM and no longer; then every component is
  stopped exactly once, whatever their stop calls answer. All stop calls have the same deadline: the last stop timeout configured, or ten
  seconds, after the moment stopping began.
\<close>

theorem app_lifecycle:
  assumes "is_schedule sched"
  shows "let app = App_Use (map (logged parts) is) (NewWithOptions opts); timeout = stop_timeout opts;
             asked = (Deliver SIGINT \<in> set evs \<or> Deliver SIGTERM \<in> set evs) in
    (\<forall>out s' l. app_main sched failed_at stopped_at app evs (s, []) out (s', l) \<longrightarrow> (case out of
        StartFailed e \<Rightarrow> start_log (Some (failed_at + timeout)) [] is (Inl e) l
      | Exited res \<Rightarrow> asked \<and> (\<exists>l'. stop_log (Some (stopped_at + timeout)) is l' \<and> l = map Started is @ l'))) \<and>
    (asked \<longrightarrow> (\<exists>out s'. app_main sched failed_at stopped_at app evs (s, []) out s'))"
proof -
  let ?app = "App_Use (map (logged parts) is) (NewWithOptions opts)" and ?d = "stop_timeout opts"
  have due: "withDefaultTimeout now None ?d = Some (now + ?d)" for now by (simp add: withDefaultTimeout_def)
  obtain r s1 l1 where start: "run_state (App_Start sched failed_at None ?app) (s, []) = (r, s1, l1)" by (metis prod.exhaust)
  have log: "start_log (Some (failed_at + ?d)) [] is r l1"
    using wp_start_from [OF assms, of failed_at None ?d parts "[]" "is" "(s, [])"] start
    by (auto simp: wp_def App_Start_def App_Use_def due)
  have stop: "\<exists>l''. stop_log (Some (stopped_at + ?d)) is l'' \<and> l' = l1 @ l''"
    if "run_state (App_Stop sched stopped_at None ?app) (s1, l1) = (res, s2, l')" for res s2 l'
    using wp_stopReverse [OF assms, of stopped_at None ?d parts "is" "(s1, l1)"] that
    by (auto simp: wp_def App_Stop_def App_Use_def due)
  have wait: "(\<exists>r rest. WaitSignal Background [] evs r rest) \<longleftrightarrow> Deliver SIGINT \<in> set evs \<or> Deliver SIGTERM \<in> set evs"
    unfolding WaitSignal_def using selects_signal [of Background "[SIGINT, SIGTERM]"] selects_ready [of _ "[SIGINT, SIGTERM]"] by fastforce
  show ?thesis
  proof (cases r)
    case (Inl e)
    then show ?thesis using start log by (auto simp: app_main_def Let_def)
  next
    case (Inr u)
    then have "l1 = map Started is" using log by (simp add: start_log_def)
    with Inr start stop wait show ?thesis
      by (cases "run_state (App_Stop sched stopped_at None ?app) (s1, l1)") (auto simp: app_main_def Let_def)
  qed
qed

text \<open>Two components that run until SIGTERM; a third, not among them, would fail to start.\<close>

definition demo_part :: "nat \<Rightarrow> unit Component" where
  "demo_part i = \<lparr>Component_Start = (\<lambda>_. if i = 1 then throwE (ErrNew ''port in use'') else returnE ()), Component_Stop = (\<lambda>_. returnE ())\<rparr>"

theorem app_lifecycle_witness:
  "\<exists>out l. app_main (\<lambda>n. [0..<n]) 5 7 (App_Use (map (logged demo_part) [0, 2]) (NewWithOptions [WithStopTimeout Second]))
     [Deliver (OtherSignal 1), Deliver SIGTERM] ((), []) out ((), l)"
  using app_lifecycle [of "\<lambda>n. [0..<n]" demo_part "[0, 2]" "[WithStopTimeout Second]" "[Deliver (OtherSignal 1), Deliver SIGTERM]" 5 7 "()"]
  by (simp add: is_schedule_def Let_def)

end
