(* ===== verification/ConfigLoader.thy ===== *)
theory ConfigLoader
  imports AppErrors
begin

text \<open>
  pkg/config/config.go: loading a configuration into a struct and reloading it when the file changes.
  The viper instance is third-party code: its operations are the fields of the record \<open>viper_ops\<close> over a state
  \<open>'v\<close> of its own (its settings, the file and the environment), and decoding into the struct yields
  a value \<open>'c\<close>. The reflected type of the configuration is a \<open>gotype\<close>; types are finite here, while a
  struct that contains a pointer to itself would make \<^verbatim>\<open>bindEnvs\<close> recurse for ever.
\<close>

section \<open>Types and fields\<close>

datatype gotype =
    BasicType string
  | PointerType gotype
  | StructType "gofield list"
and gofield = Field (Field_Name: string) (Field_PkgPath: string) (Field_Tags: "(string \<times> string) list") (Field_Type: gotype)

definition Tag_Get :: "gofield \<Rightarrow> string \<Rightarrow> string" where
  "Tag_Get f k = (case map_of (Field_Tags f) k of None \<Rightarrow> '''' | Some v \<Rightarrow> v)"

text \<open>\<^verbatim>\<open>strings.ToLower\<close> on the ASCII letters, which is all that the program's field names use.\<close>

definition strings_ToLower :: "string \<Rightarrow> string" where
  "strings_ToLower s = map ascii_fold s"

text \<open>The key of a field; \<open>None\<close> is the \<^verbatim>\<open>skip\<close> of the code.\<close>

definition fieldKey :: "gofield \<Rightarrow> string option" where
  "fieldKey f =
     (if Tag_Get f ''mapstructure'' \<noteq> '''' then
        (if Tag_Get f ''mapstructure'' = ''-'' then None else Some (Tag_Get f ''mapstructure''))
      else if Tag_Get f ''yaml'' \<noteq> '''' then
        (if Tag_Get f ''yaml'' = ''-'' then None else Some (Tag_Get f ''yaml''))
      else if Tag_Get f ''json'' \<noteq> '''' then
        (if Tag_Get f ''json'' = ''-'' then None else Some (Tag_Get f ''json''))
      else Some (strings_ToLower (Field_Name f)))"

definition validateConfig :: "gotype option \<Rightarrow> gofield list result" where
  "validateConfig cfg = (case cfg of
     None \<Rightarrow> Inl (ErrNew ''cfg is nil'')
   | Some (PointerType (StructType fs)) \<Rightarrow> Inr fs
   | Some _ \<Rightarrow> Inl (ErrNew ''cfg must be a pointer to struct''))"

section \<open>Binding the environment\<close>

record ('v, 'c) viper_ops =
  vp_SetConfigFile :: "string \<Rightarrow> ('v, unit) state"
  vp_SetConfigType :: "string \<Rightarrow> ('v, unit) state"
  vp_SetEnvPrefix :: "string \<Rightarrow> ('v, unit) state"
  vp_SetEnvKeyReplacer :: "string \<Rightarrow> string \<Rightarrow> ('v, unit) state"
  vp_AutomaticEnv :: "('v, unit) state"
  vp_BindEnv :: "string \<Rightarrow> ('v, unit result) state"
  vp_ReadInConfig :: "('v, unit result) state"
  vp_Unmarshal :: "('v, goerr option \<times> 'c) state"

text \<open>The struct behind a field's type, if there is one: only one pointer is followed.\<close>

definition struct_of :: "gotype \<Rightarrow> gofield list option" where
  "struct_of t = (case t of StructType fs \<Rightarrow> Some fs | PointerType (StructType fs) \<Rightarrow> Some fs | _ \<Rightarrow> None)"

lemma struct_of_size: "struct_of (Field_Type f) = Some gs \<Longrightarrow> size_list size gs < size f"
  by (cases f) (auto simp: struct_of_def split: gotype.splits)

text \<open>
  The loop over the fields. A field whose type is a struct or a pointer to one is descended into;
  every other field is bound.
\<close>

function (sequential) bindEnvs :: "('v, 'c) viper_ops \<Rightarrow> gofield list \<Rightarrow> string \<Rightarrow> ('v, unit result) state" where
  "bindEnvs v [] prefix = returnE ()"
| "bindEnvs v (f # fs) prefix =
     (if Field_PkgPath f \<noteq> '''' then bindEnvs v fs prefix
      else case fieldKey f of
        None \<Rightarrow> bindEnvs v fs prefix
      | Some key0 \<Rightarrow>
          let key = (if prefix \<noteq> '''' then prefix @ ''.'' @ key0 else key0) in
          case struct_of (Field_Type f) of
            Some gs \<Rightarrow> bindE (bindEnvs v gs key) (\<lambda>_. bindEnvs v fs prefix)
          | None \<Rightarrow> bindE (mapErr (\<lambda>err. ErrWrap (''bind env '' @ key @ '': '') err '''') (vp_BindEnv v key))
                   (\<lambda>_. bindEnvs v fs prefix))"
  by pat_completeness auto
termination
  by (relation "measure (\<lambda>(v, fs, prefix). size_list size fs)") (auto dest: struct_of_size)

section \<open>The manager\<close>

datatype config_option = WithEnvPrefix string | WithOnChange "nat option" | WithWatch

text \<open>\<open>Mgr_onChange\<close> holds the callbacks by number; nil callbacks are not added.\<close>

record 'c Manager =
  Mgr_cfgType :: "gofield list"
  Mgr_current :: "'c option"
  Mgr_onChange :: "nat list"
  Mgr_envPrefix :: string
  Mgr_enableWatch :: bool

definition apply_config_option :: "'c Manager \<Rightarrow> config_option \<Rightarrow> 'c Manager" where
  "apply_config_option m opt = (case opt of
     WithEnvPrefix prefix \<Rightarrow> m\<lparr>Mgr_envPrefix := prefix\<rparr>
   | WithOnChange None \<Rightarrow> m
   | WithOnChange (Some fn) \<Rightarrow> m\<lparr>Mgr_onChange := Mgr_onChange m @ [fn]\<rparr>
   | WithWatch \<Rightarrow> m\<lparr>Mgr_enableWatch := True\<rparr>)"

text \<open>\<^verbatim>\<open>filepath.Ext\<close>: from the last dot of the last path element on.\<close>

definition filepath_Ext :: "string \<Rightarrow> string" where
  "filepath_Ext path =
     (let base = rev (takeWhile (\<lambda>c. c \<noteq> CHR ''/'') (rev path)) in
      if CHR ''.'' \<in> set base then CHR ''.'' # rev (takeWhile (\<lambda>c. c \<noteq> CHR ''.'') (rev base)) else '''')"

definition initViper :: "('v, 'c) viper_ops \<Rightarrow> 'c Manager \<Rightarrow> string \<Rightarrow> ('v, unit result) state" where
  "initViper v m path =
     (if path = '''' then throwE (ErrNew ''config path is empty'')
      else do {
        _ \<leftarrow> vp_SetConfigFile v path;
        let ext = TrimPrefix (filepath_Ext path) ''.'';
        _ \<leftarrow> (if ext \<noteq> '''' then vp_SetConfigType v ext else ret ());
        _ \<leftarrow> (if Mgr_envPrefix m \<noteq> '''' then vp_SetEnvPrefix v (Mgr_envPrefix m) else ret ());
        _ \<leftarrow> vp_SetEnvKeyReplacer v ''.'' ''_'';
        _ \<leftarrow> vp_AutomaticEnv v;
        bindEnvs v (Mgr_cfgType m) '''' })"

text \<open>The value the struct holds afterwards comes with an error from decoding.\<close>

definition reloadInto :: "('v, 'c) viper_ops \<Rightarrow> ('v, 'c result) state" where
  "reloadInto v =
     bindE (mapErr (\<lambda>err. ErrWrap ''read config: '' err '''') (vp_ReadInConfig v)) (\<lambda>_. do {
       (err, cfg) \<leftarrow> vp_Unmarshal v;
       ret (case err of Some e \<Rightarrow> Inl (ErrWrap ''unmarshal config: '' e '''') | None \<Rightarrow> Inr cfg) })"

definition config_Load ::
  "('v, 'c) viper_ops \<Rightarrow> string \<Rightarrow> gotype option \<Rightarrow> config_option list \<Rightarrow> ('v, 'c Manager result) state"
where
  "config_Load v path cfg opts = (case validateConfig cfg of
     Inl err \<Rightarrow> throwE err
   | Inr cfgType \<Rightarrow>
       let m = foldl apply_config_option \<lparr>Mgr_cfgType = cfgType, Mgr_current = None, Mgr_onChange = [],
                 Mgr_envPrefix = '''', Mgr_enableWatch = False\<rparr> opts in
       bindE (initViper v m path) (\<lambda>_.
         bindE (reloadInto v) (\<lambda>c. returnE (m\<lparr>Mgr_current := Some c\<rparr>))))"

definition Manager_Current :: "'c Manager \<Rightarrow> 'c option" where
  "Manager_Current m = Mgr_current m"

text \<open>The callback that \<^verbatim>\<open>watch\<close> installs: the new manager and the callbacks it calls, each with its argument.\<close>

definition on_file_change :: "('v, 'c) viper_ops \<Rightarrow> 'c Manager \<Rightarrow> ('v, 'c Manager \<times> (nat \<times> 'c) list) state" where
  "on_file_change v m = do {
     r \<leftarrow> reloadInto v;
     ret (case r of
            Inl _ \<Rightarrow> (m, [])
          | Inr c \<Rightarrow> (m\<lparr>Mgr_current := Some c\<rparr>, map (\<lambda>fn. (fn, c)) (Mgr_onChange m))) }"

text \<open>A run of the watcher; \<open>edit\<close> is what happens to the file and the environment before each event.\<close>

fun watch_run ::
  "('v, 'c) viper_ops \<Rightarrow> ('v \<Rightarrow> 'v) list \<Rightarrow> 'c Manager \<Rightarrow> ('v, 'c Manager \<times> (nat \<times> 'c) list) state"
where
  "watch_run v [] m = ret (m, [])"
| "watch_run v (edit # edits) m =
     (if \<not> Mgr_enableWatch m then ret (m, [])
      else do {
        _ \<leftarrow> State_Monad.update edit;
        (m1, calls1) \<leftarrow> on_file_change v m;
        (m2, calls2) \<leftarrow> watch_run v edits m1;
        ret (m2, calls1 @ calls2) })"

section \<open>Which keys are bound\<close>

text \<open>
  The keys of the environment, described without the loop: a path leads from the configuration struct through
  exported, not skipped struct fields to one that is no struct, and its key joins the names with dots.
\<close>

definition exported_key :: "gofield \<Rightarrow> string option" where
  "exported_key f = (if Field_PkgPath f \<noteq> '''' then None else fieldKey f)"

inductive leaf_path :: "gofield list \<Rightarrow> string list \<Rightarrow> bool" where
  leaf_here: "f \<in> set fs \<Longrightarrow> exported_key f = Some k \<Longrightarrow> struct_of (Field_Type f) = None \<Longrightarrow> leaf_path fs [k]"
| leaf_below: "f \<in> set fs \<Longrightarrow> exported_key f = Some k \<Longrightarrow> struct_of (Field_Type f) = Some gs \<Longrightarrow> leaf_path gs p \<Longrightarrow>
    leaf_path fs (k # p)"

fun join_dots :: "string list \<Rightarrow> string" where
  "join_dots [] = ''''"
| "join_dots [k] = k"
| "join_dots (k # ks) = k @ ''.'' @ join_dots ks"

text \<open>Field names of Go are not empty.\<close>

fun named_type :: "gotype \<Rightarrow> bool" and named_field :: "gofield \<Rightarrow> bool" where
  "named_type (BasicType s) = True"
| "named_type (PointerType t) = named_type t"
| "named_type (StructType fs) = list_all named_field fs"
| "named_field (Field n pkg tags t) = (n \<noteq> '''' \<and> named_type t)"

lemma named_field_iff: "named_field f \<longleftrightarrow> Field_Name f \<noteq> '''' \<and> named_type (Field_Type f)"
  by (cases f) simp

lemma named_struct_of: "struct_of t = Some gs \<Longrightarrow> named_type t \<Longrightarrow> list_all named_field gs"
  by (auto simp: struct_of_def split: gotype.splits)

lemma exported_key_nonempty: "exported_key f = Some k \<Longrightarrow> Field_Name f \<noteq> '''' \<Longrightarrow> k \<noteq> ''''"
  by (auto simp: exported_key_def fieldKey_def strings_ToLower_def split: if_splits)

function (sequential) leaf_paths :: "gofield list \<Rightarrow> string list list" where
  "leaf_paths [] = []"
| "leaf_paths (f # fs) = (case exported_key f of
     None \<Rightarrow> leaf_paths fs
   | Some k \<Rightarrow> (case struct_of (Field_Type f) of
        None \<Rightarrow> [k] # leaf_paths fs
      | Some gs \<Rightarrow> map ((#) k) (leaf_paths gs) @ leaf_paths fs))"
  by pat_completeness auto
termination
  by (relation "measure (size_list size)") (auto dest: struct_of_size)

lemma leaf_path_iff: "leaf_path fs p \<longleftrightarrow> (\<exists>f \<in> set fs. case exported_key f of None \<Rightarrow> False
   | Some k \<Rightarrow> (case struct_of (Field_Type f) of None \<Rightarrow> p = [k] | Some gs \<Rightarrow> \<exists>p'. p = k # p' \<and> leaf_path gs p'))"
  (is "_ = (\<exists>f \<in> set fs. ?leaf f)")
proof
  assume "leaf_path fs p"
  then show "\<exists>f \<in> set fs. ?leaf f" by cases (force split: option.split)+
next
  assume "\<exists>f \<in> set fs. ?leaf f"
  then obtain f where f: "f \<in> set fs" "?leaf f" by blast
  then show "leaf_path fs p" by (auto intro: leaf_path.intros split: option.splits)
qed

lemma set_leaf_paths: "set (leaf_paths fs) = Collect (leaf_path fs)"
proof (induction fs rule: leaf_paths.induct)
  case 1
  show ?case by (simp add: leaf_path_iff)
next
  case (2 f fs)
  have "leaf_path (f # fs) p \<longleftrightarrow> leaf_path [f] p \<or> leaf_path fs p" for p
    unfolding leaf_path_iff [of "f # fs"] leaf_path_iff [of "[f]"] leaf_path_iff [of fs] by auto
  then show ?case using 2 by (auto simp: leaf_path_iff [of "[f]"] split: option.splits)
qed

lemma leaf_paths_not_Nil: "[] \<notin> set (leaf_paths fs)"
  by (induction fs rule: leaf_paths.induct) (auto split: option.splits)

text \<open>Binding a list of keys, up to the first error.\<close>

fun bind_keys :: "('v, 'c) viper_ops \<Rightarrow> string list \<Rightarrow> ('v, unit result) state" where
  "bind_keys v [] = returnE ()"
| "bind_keys v (key # keys) =
     bindE (mapErr (\<lambda>err. ErrWrap (''bind env '' @ key @ '': '') err '''') (vp_BindEnv v key)) (\<lambda>_. bind_keys v keys)"

lemma bindE_assoc: "bindE (bindE m f) g = bindE m (\<lambda>x. bindE (f x) g)"
  by (rule state.expand) (auto simp: fun_eq_iff split: prod.split sum.split)

lemma bindE_returnE [simp]: "bindE (returnE x) f = f x"
  by (rule state.expand) (simp add: fun_eq_iff)

lemma bind_keys_append: "bind_keys v (ks @ ks') = bindE (bind_keys v ks) (\<lambda>_. bind_keys v ks')"
  by (induction ks) (simp_all add: bindE_assoc)

definition prefixed :: "string \<Rightarrow> string \<Rightarrow> string" where
  "prefixed prefix key = (if prefix \<noteq> '''' then prefix @ ''.'' @ key else key)"

lemma prefixed_join: "p \<noteq> [] \<Longrightarrow> k \<noteq> '''' \<Longrightarrow> prefixed (prefixed prefix k) (join_dots p) = prefixed prefix (join_dots (k # p))"
  by (cases p) (simp_all add: prefixed_def)

lemma bindEnvs_step:
  "bindEnvs v (f # fs) prefix = (case exported_key f of
     None \<Rightarrow> bindEnvs v fs prefix
   | Some k \<Rightarrow> (case struct_of (Field_Type f) of
        None \<Rightarrow> bindE (bind_keys v [prefixed prefix k]) (\<lambda>_. bindEnvs v fs prefix)
      | Some gs \<Rightarrow> bindE (bindEnvs v gs (prefixed prefix k)) (\<lambda>_. bindEnvs v fs prefix)))"
  by (simp add: exported_key_def prefixed_def bindE_assoc Let_def split: option.split)

lemma bindEnvs_keys:
  "list_all named_field fs \<Longrightarrow> bindEnvs v fs prefix = bind_keys v (map (\<lambda>p. prefixed prefix (join_dots p)) (leaf_paths fs))"
proof (induction fs arbitrary: prefix rule: leaf_paths.induct)
  case 1
  show ?case by simp
next
  case (2 f fs)
  have named: "Field_Name f \<noteq> ''''" "named_type (Field_Type f)" "list_all named_field fs"
    using "2.prems" by (auto simp: named_field_iff [of f])
  show ?case
  proof (cases "exported_key f")
    case None
    then show ?thesis using "2.IH"(1) named by (simp add: bindEnvs_step del: bindEnvs.simps)
  next
    case k: (Some k)
    show ?thesis
    proof (cases "struct_of (Field_Type f)")
      case None
      then show ?thesis using "2.IH"(2) k named
        by (simp add: bindEnvs_step bindE_assoc del: bindEnvs.simps)
    next
      case s: (Some gs)
      have "map (\<lambda>p. prefixed (prefixed prefix k) (join_dots p)) (leaf_paths gs)
            = map ((\<lambda>p. prefixed prefix (join_dots p)) \<circ> (#) k) (leaf_paths gs)"
        using leaf_paths_not_Nil [of gs] exported_key_nonempty [OF k named(1)] by (auto intro: prefixed_join)
      from arg_cong [OF this, of "bind_keys v"] show ?thesis
        using "2.IH"(3) [OF k s named_struct_of [OF s named(2)]] "2.IH"(4) [OF k s named(3)] k s
        by (simp add: bindEnvs_step bind_keys_append del: bindEnvs.simps map_eq_conv)
    qed
  qed
qed

section \<open>Loading and reloading\<close>

lemma config_Load_cases:
  assumes "run_state (config_Load v path cfg opts) s = (Inr m, s')"
  obtains fs c where "cfg = Some (PointerType (StructType fs))" "path \<noteq> ''''"
    "m = (foldl apply_config_option \<lparr>Mgr_cfgType = fs, Mgr_current = None, Mgr_onChange = [],
            Mgr_envPrefix = '''', Mgr_enableWatch = False\<rparr> opts)\<lparr>Mgr_current := Some c\<rparr>"
proof -
  have "\<exists>fs. cfg = Some (PointerType (StructType fs))"
    using assms by (auto simp: config_Load_def validateConfig_def split: option.splits gotype.splits)
  moreover have "path \<noteq> ''''"
    using assms by (auto simp: config_Load_def initViper_def split: sum.splits)
  ultimately show thesis
    using assms that by (auto simp: config_Load_def validateConfig_def Let_def split: prod.splits sum.splits)
qed

lemma options_applied:
  "Mgr_onChange (foldl apply_config_option m opts) = Mgr_onChange m @ [fn. WithOnChange (Some fn) \<leftarrow> opts]"
  "Mgr_enableWatch (foldl apply_config_option m opts) = (Mgr_enableWatch m \<or> WithWatch \<in> set opts)"
  "Mgr_cfgType (foldl apply_config_option m opts) = Mgr_cfgType m"
  by (induction opts arbitrary: m)
    (auto simp: apply_config_option_def split: config_option.splits option.splits)

text \<open>
  A viper that also lists the calls it receives. \<open>logs\<close> relates a computation over it to the same computation over the plain
  viper: same outcome, same state of the viper, and the calls made are the given ones, up to the first error.
\<close>

datatype viper_call =
    Call_SetConfigFile string
  | Call_SetConfigType string
  | Call_SetEnvPrefix string
  | Call_SetEnvKeyReplacer string string
  | Call_AutomaticEnv
  | Call_BindEnv string
  | Call_ReadInConfig
  | Call_Unmarshal

definition logged :: "viper_call \<Rightarrow> ('v, 'a) state \<Rightarrow> ('v \<times> viper_call list, 'a) state" where
  "logged c m = State (\<lambda>(s, calls). case run_state m s of (x, s') \<Rightarrow> (x, s', calls @ [c]))"

definition recorded :: "('v, 'c) viper_ops \<Rightarrow> ('v \<times> viper_call list, 'c) viper_ops" where
  "recorded v = \<lparr>vp_SetConfigFile = \<lambda>p. logged (Call_SetConfigFile p) (vp_SetConfigFile v p),
     vp_SetConfigType = \<lambda>t. logged (Call_SetConfigType t) (vp_SetConfigType v t),
     vp_SetEnvPrefix = \<lambda>p. logged (Call_SetEnvPrefix p) (vp_SetEnvPrefix v p),
     vp_SetEnvKeyReplacer = \<lambda>a b. logged (Call_SetEnvKeyReplacer a b) (vp_SetEnvKeyReplacer v a b),
     vp_AutomaticEnv = logged Call_AutomaticEnv (vp_AutomaticEnv v),
     vp_BindEnv = \<lambda>k. logged (Call_BindEnv k) (vp_BindEnv v k),
     vp_ReadInConfig = logged Call_ReadInConfig (vp_ReadInConfig v),
     vp_Unmarshal = logged Call_Unmarshal (vp_Unmarshal v)\<rparr>"

lemma recorded_ops:
  "vp_SetConfigFile (recorded v) p = logged (Call_SetConfigFile p) (vp_SetConfigFile v p)"
  "vp_SetConfigType (recorded v) p = logged (Call_SetConfigType p) (vp_SetConfigType v p)"
  "vp_SetEnvPrefix (recorded v) p = logged (Call_SetEnvPrefix p) (vp_SetEnvPrefix v p)"
  "vp_SetEnvKeyReplacer (recorded v) p p' = logged (Call_SetEnvKeyReplacer p p') (vp_SetEnvKeyReplacer v p p')"
  "vp_AutomaticEnv (recorded v) = logged Call_AutomaticEnv (vp_AutomaticEnv v)"
  "vp_BindEnv (recorded v) p = logged (Call_BindEnv p) (vp_BindEnv v p)"
  "vp_ReadInConfig (recorded v) = logged Call_ReadInConfig (vp_ReadInConfig v)"
  "vp_Unmarshal (recorded v) = logged Call_Unmarshal (vp_Unmarshal v)"
  by (simp_all add: recorded_def)

lemma run_logged [simp]:
  "run_state (logged c m) (s, calls) = (case run_state m s of (x, s') \<Rightarrow> (x, s', calls @ [c]))"
  by (simp add: logged_def)

definition logs :: "('v \<times> viper_call list, 'a result) state \<Rightarrow> ('v, 'a result) state \<Rightarrow> viper_call list \<Rightarrow> bool" where
  "logs m' m cs \<longleftrightarrow> (\<forall>s calls. \<exists>cs'. run_state m' (s, calls) =
     (fst (run_state m s), snd (run_state m s), calls @ cs') \<and> (\<exists>rest. cs = cs' @ rest) \<and>
     (\<forall>x. fst (run_state m s) = Inr x \<longrightarrow> cs' = cs))"

lemma logs_ret: "logs (ret r) (ret r) []"
  by (simp add: logs_def)

lemma logs_returnE: "logs (returnE x) (returnE x) []"
  by (simp add: logs_def)

lemma logs_call:
  assumes "\<And>x. logs (k' x) (k x) cs"
  shows "logs (State_Monad.bind (logged c m) k') (State_Monad.bind m k) (c # cs)"
  unfolding logs_def
proof (intro allI)
  fix s calls
  obtain x s1 where m: "run_state m s = (x, s1)" by fastforce
  obtain cs' where "run_state (k' x) (s1, calls @ [c]) =
      (fst (run_state (k x) s1), snd (run_state (k x) s1), (calls @ [c]) @ cs')" "\<exists>rest. cs = cs' @ rest"
      "\<And>y. fst (run_state (k x) s1) = Inr y \<Longrightarrow> cs' = cs"
    using assms [of x] unfolding logs_def by blast
  then show "\<exists>cs'. run_state (State_Monad.bind (logged c m) k') (s, calls) =
      (fst (run_state (State_Monad.bind m k) s), snd (run_state (State_Monad.bind m k) s), calls @ cs') \<and>
      (\<exists>rest. c # cs = cs' @ rest) \<and>
      (\<forall>x. fst (run_state (State_Monad.bind m k) s) = Inr x \<longrightarrow> cs' = c # cs)"
    using m by (intro exI [of _ "c # cs'"]) simp
qed

lemma logs_opt: "logs k' k cs \<Longrightarrow> logs (State_Monad.bind (if b then logged c m else ret ()) (\<lambda>_. k'))
    (State_Monad.bind (if b then m else ret ()) (\<lambda>_. k)) ((if b then [c] else []) @ cs)"
  using logs_call [of "\<lambda>_. k'" "\<lambda>_. k" cs c m] by (cases b) (simp_all add: State_Monad.bind_def)

lemma logs_mapErr: "logs (mapErr g (logged c m)) (mapErr g m) [c]"
  unfolding logs_def by (auto split: prod.split sum.split)

lemma logs_bindE:
  assumes "logs m' m cs" "\<And>x. logs (k' x) (k x) ds"
  shows "logs (bindE m' k') (bindE m k) (cs @ ds)"
  unfolding logs_def
proof (intro allI)
  fix s calls
  obtain cs' where 1: "run_state m' (s, calls) = (fst (run_state m s), snd (run_state m s), calls @ cs')" "\<exists>rest. cs = cs' @ rest"
      "\<And>x. fst (run_state m s) = Inr x \<Longrightarrow> cs' = cs"
    using assms(1) unfolding logs_def by blast
  show "\<exists>cs'. run_state (bindE m' k') (s, calls) =
      (fst (run_state (bindE m k) s), snd (run_state (bindE m k) s), calls @ cs') \<and> (\<exists>rest. cs @ ds = cs' @ rest) \<and>
      (\<forall>x. fst (run_state (bindE m k) s) = Inr x \<longrightarrow> cs' = cs @ ds)"
  proof (cases "run_state m s")
    case (Pair r s1)
    show ?thesis
    proof (cases r)
      case (Inl e)
      then show ?thesis using Pair 1 by (intro exI [of _ cs']) auto
    next
      case (Inr x)
      obtain ds' where "run_state (k' x) (s1, calls @ cs) =
          (fst (run_state (k x) s1), snd (run_state (k x) s1), (calls @ cs) @ ds')" "\<exists>rest. ds = ds' @ rest"
          "\<And>y. fst (run_state (k x) s1) = Inr y \<Longrightarrow> ds' = ds"
        using assms(2) [of x] unfolding logs_def by blast
      then show ?thesis using Pair 1 Inr by (intro exI [of _ "cs @ ds'"]) simp
    qed
  qed
qed

lemma logs_bind_keys: "logs (bind_keys (recorded v) keys) (bind_keys v keys) (map Call_BindEnv keys)"
proof (induction keys)
  case (Cons key keys)
  show ?case using logs_bindE [OF logs_mapErr Cons.IH] by (simp add: recorded_ops)
qed (simp add: logs_returnE)

text \<open>The calls of a load that succeeds: the settings, one binding per leaf, and then the file is read and decoded.\<close>

definition option_prefix :: "config_option list \<Rightarrow> string" where
  "option_prefix opts = last ('''' # [p. WithEnvPrefix p \<leftarrow> opts])"

definition setting_calls :: "string \<Rightarrow> config_option list \<Rightarrow> viper_call list" where
  "setting_calls path opts =
     (let ext = TrimPrefix (filepath_Ext path) ''.''; envPrefix = option_prefix opts in
      [Call_SetConfigFile path] @ (if ext = '''' then [] else [Call_SetConfigType ext]) @
      (if envPrefix = '''' then [] else [Call_SetEnvPrefix envPrefix]) @
      [Call_SetEnvKeyReplacer ''.'' ''_'', Call_AutomaticEnv])"

definition load_calls :: "string \<Rightarrow> gofield list \<Rightarrow> config_option list \<Rightarrow> viper_call list" where
  "load_calls path fs opts = setting_calls path opts @ map (Call_BindEnv \<circ> join_dots) (leaf_paths fs) @
     [Call_ReadInConfig, Call_Unmarshal]"

lemma envPrefix_applied: "Mgr_envPrefix (foldl apply_config_option m opts) = last (Mgr_envPrefix m # [p. WithEnvPrefix p \<leftarrow> opts])"
  by (induction opts arbitrary: m) (auto simp: apply_config_option_def split: config_option.splits option.splits)

lemma logs_initViper:
  assumes "path \<noteq> ''''" "list_all named_field (Mgr_cfgType m)"
    "Mgr_envPrefix m = option_prefix opts"
  shows "logs (initViper (recorded v) m path) (initViper v m path)
    (setting_calls path opts @ map (Call_BindEnv \<circ> join_dots) (leaf_paths (Mgr_cfgType m)))"
proof -
  note keys = logs_bind_keys [of v "map join_dots (leaf_paths (Mgr_cfgType m))"]
  have "logs (initViper (recorded v) m path) (initViper v m path)
    (Call_SetConfigFile path # (if TrimPrefix (filepath_Ext path) ''.'' \<noteq> '''' then
       [Call_SetConfigType (TrimPrefix (filepath_Ext path) ''.'')] else []) @
     (if Mgr_envPrefix m \<noteq> '''' then [Call_SetEnvPrefix (Mgr_envPrefix m)] else []) @
     Call_SetEnvKeyReplacer ''.'' ''_'' # Call_AutomaticEnv # map Call_BindEnv (map join_dots (leaf_paths (Mgr_cfgType m))))"
    unfolding initViper_def recorded_ops Let_def if_not_P [OF assms(1)] bindEnvs_keys [OF assms(2)]
    using keys by (intro logs_call logs_opt) (simp add: prefixed_def)
  then show ?thesis using assms(3) by (simp add: setting_calls_def Let_def split: if_splits)
qed

lemma logs_reloadInto: "logs (reloadInto (recorded v)) (reloadInto v) [Call_ReadInConfig, Call_Unmarshal]"
proof -
  have "logs (reloadInto (recorded v)) (reloadInto v) ([Call_ReadInConfig] @ [Call_Unmarshal])"
    unfolding reloadInto_def recorded_ops
    by (intro logs_bindE logs_mapErr logs_call) (simp add: logs_ret split_beta)
  then show ?thesis by simp
qed

lemma logs_Load:
  fixes v :: "('a, 'b) viper_ops"
  assumes "path \<noteq> ''''" "list_all named_field fs"
  shows "logs (config_Load (recorded v) path (Some (PointerType (StructType fs))) opts)
    (config_Load v path (Some (PointerType (StructType fs))) opts) (load_calls path fs opts)"
proof -
  define m :: "'b Manager" where "m = foldl apply_config_option \<lparr>Mgr_cfgType = fs, Mgr_current = None, Mgr_onChange = [],
      Mgr_envPrefix = '''', Mgr_enableWatch = False\<rparr> opts"
  have "logs (initViper (recorded v) m path) (initViper v m path)
      (setting_calls path opts @ map (Call_BindEnv \<circ> join_dots) (leaf_paths (Mgr_cfgType m)))"
    by (rule logs_initViper) (simp_all add: m_def options_applied envPrefix_applied option_prefix_def assms)
  from logs_bindE [OF this logs_bindE [OF logs_reloadInto logs_returnE]]
  show ?thesis by (simp add: config_Load_def validateConfig_def Let_def load_calls_def m_def options_applied)
qed

text \<open>
  C38. The environment of a configuration. Let the calls that \<^verbatim>\<open>Load\<close> makes on any viper be recorded, which does not change what it
  does. For a pointer to a struct whose field names are not empty, and a path that is not, they are the settings (file, type by
  the extension, prefix of the last option, the replacement of dots, the environment), then one binding per leaf in the order of the fields, under
  its dotted path, and then the reading and decoding of the file; all of them when loading succeeds and the calls up to the first error when
  it fails, so that the file is only read with every key bound. The leaves are exactly the paths to the exported, not skipped fields that are no structs.
  Anything but a pointer to a struct, and an empty path, is refused without a call.
\<close>

theorem config_binds_fields:
  assumes "pred_option named_type cfg"
    "run_state (config_Load (recorded v) path cfg opts) (s, []) = (r, s', calls)"
  shows "run_state (config_Load v path cfg opts) s = (r, s') \<and>
    (case cfg of
       Some (PointerType (StructType fs)) \<Rightarrow> set (leaf_paths fs) = {p. leaf_path fs p} \<and>
         (if path = '''' then r = Inl (ErrNew ''config path is empty'') \<and> calls = []
          else (\<exists>rest. load_calls path fs opts = calls @ rest) \<and> (case r of Inr m \<Rightarrow> calls = load_calls path fs opts | Inl e \<Rightarrow> True))
     | None \<Rightarrow> r = Inl (ErrNew ''cfg is nil'') \<and> calls = []
     | Some t \<Rightarrow> r = Inl (ErrNew ''cfg must be a pointer to struct'') \<and> calls = [])"
proof (cases "\<exists>fs. cfg = Some (PointerType (StructType fs)) \<and> path \<noteq> ''''")
  case True
  then obtain fs where cfg: "cfg = Some (PointerType (StructType fs))" and path: "path \<noteq> ''''" by blast
  then have "logs (config_Load (recorded v) path cfg opts) (config_Load v path cfg opts) (load_calls path fs opts)"
    using assms(1) by (simp add: logs_Load)
  then show ?thesis using assms(2) cfg path set_leaf_paths [of fs]
    by (auto simp: logs_def prod_eq_iff split: sum.split dest!: spec [of _ s] spec [of _ "[]"])
next
  case False
  then show ?thesis using assms(2)
    by (auto simp: config_Load_def validateConfig_def initViper_def Let_def set_leaf_paths split: option.splits gotype.splits)
qed

text \<open>The outcomes of the reloads that a sequence of changes triggers.\<close>

fun reload_results :: "('v, 'c) viper_ops \<Rightarrow> ('v \<Rightarrow> 'v) list \<Rightarrow> 'v \<Rightarrow> 'c result list" where
  "reload_results v [] s = []"
| "reload_results v (edit # edits) s = (case run_state (reloadInto v) (edit s) of (r, s1) \<Rightarrow> r # reload_results v edits s1)"

definition good_results :: "'c result list \<Rightarrow> 'c list" where
  "good_results rs = [c. Inr c \<leftarrow> rs]"

lemma good_results_simps [simp]:
  "good_results [] = []" "good_results (Inl e # rs) = good_results rs" "good_results (Inr c # rs) = c # good_results rs"
  by (simp_all add: good_results_def)

lemma run_on_file_change:
  "run_state (reloadInto v) s = (r, s1) \<Longrightarrow> run_state (on_file_change v m) s =
     (case r of Inl _ \<Rightarrow> (m, []) | Inr c \<Rightarrow> (m\<lparr>Mgr_current := Some c\<rparr>, map (\<lambda>fn. (fn, c)) (Mgr_onChange m)), s1)"
  by (simp add: on_file_change_def)

lemma run_watch:
  assumes "Mgr_enableWatch m" "Mgr_current m = Some c"
  shows "fst (run_state (watch_run v edits m) s) =
    (m\<lparr>Mgr_current := Some (last (c # good_results (reload_results v edits s)))\<rparr>,
     concat (map (\<lambda>c. map (\<lambda>fn. (fn, c)) (Mgr_onChange m)) (good_results (reload_results v edits s))))"
  using assms
proof (induction edits arbitrary: m c s)
  case Nil
  then show ?case by simp
next
  case (Cons edit edits)
  obtain r s1 where r: "run_state (reloadInto v) (edit s) = (r, s1)" by fastforce
  show ?case
  proof (cases r)
    case (Inl e)
    then show ?thesis using Cons.IH [OF Cons.prems, of s1] Cons.prems run_on_file_change [OF r] r
      by (simp add: State_Monad.update_def split_beta)
  next
    case (Inr c')
    have "fst (run_state (watch_run v edits (m\<lparr>Mgr_current := Some c'\<rparr>)) s1) =
      (m\<lparr>Mgr_current := Some (last (c' # good_results (reload_results v edits s1)))\<rparr>,
       concat (map (\<lambda>c. map (\<lambda>fn. (fn, c)) (Mgr_onChange m)) (good_results (reload_results v edits s1))))"
      using Cons.IH [of "m\<lparr>Mgr_current := Some c'\<rparr>" c' s1] Cons.prems by simp
    then show ?thesis using Inr Cons.prems run_on_file_change [OF r] r
      by (simp add: State_Monad.update_def split_beta)
  qed
qed

text \<open>
  C37. The last good configuration. A loaded manager always has a configuration. Whatever happens to the file and the environment,
  after any number of changes it is the configuration of the last reload that could be read and decoded, and that of loading if there
  was none: a failing reload changes nothing and calls nobody. Each good reload calls every registered callback once, in the order
  of registration, with the new configuration. Without \<^verbatim>\<open>WithWatch\<close> nothing is ever reloaded.
\<close>

theorem config_last_good:
  assumes "run_state (config_Load v path cfg opts) s = (Inr m, s0)"
  shows "\<exists>c0. Manager_Current m = Some c0 \<and>
    (let goods = (if WithWatch \<in> set opts then good_results (reload_results v edits s0) else []);
         (m', calls) = fst (run_state (watch_run v edits m) s0)
     in Manager_Current m' = Some (last (c0 # goods)) \<and>
        calls = concat (map (\<lambda>c. map (\<lambda>fn. (fn, c)) [fn. WithOnChange (Some fn) \<leftarrow> opts]) goods))"
  using assms
proof (rule config_Load_cases)
  fix fs c
  assume "m = (foldl apply_config_option \<lparr>Mgr_cfgType = fs, Mgr_current = None, Mgr_onChange = [],
            Mgr_envPrefix = '''', Mgr_enableWatch = False\<rparr> opts)\<lparr>Mgr_current := Some c\<rparr>"
  then have m: "Mgr_current m = Some c" "Mgr_onChange m = [fn. WithOnChange (Some fn) \<leftarrow> opts]"
    "Mgr_enableWatch m = (WithWatch \<in> set opts)"
    by (simp_all add: options_applied)
  show ?thesis
  proof (cases "Mgr_enableWatch m")
    case True
    then show ?thesis using run_watch [OF True m(1), of v edits s0] m by (simp add: Manager_Current_def)
  next
    case False
    then show ?thesis using m by (cases edits) (simp_all add: Manager_Current_def)
  qed
qed

section \<open>A sample configuration\<close>

text \<open>A viper whose file holds a number, or cannot be read; odd numbers do not decode. The state also lists the bound keys.\<close>

definition demo_viper :: "(int option \<times> string list, int) viper_ops" where
  "demo_viper = \<lparr>vp_SetConfigFile = \<lambda>_. ret (), vp_SetConfigType = \<lambda>_. ret (), vp_SetEnvPrefix = \<lambda>_. ret (),
     vp_SetEnvKeyReplacer = \<lambda>_ _. ret (), vp_AutomaticEnv = ret (),
     vp_BindEnv = \<lambda>k. State (\<lambda>(file, keys). (Inr (), (file, keys @ [k]))),
     vp_ReadInConfig = State (\<lambda>(file, keys). (if file = None then Inl (ErrNew ''no such file'') else Inr (), (file, keys))),
     vp_Unmarshal = State (\<lambda>(file, keys). ((if even (the file) then None else Some (ErrNew ''odd''), the file), (file, keys)))\<rparr>"

lemma demo_viper_ops:
  "vp_SetConfigFile demo_viper p = ret ()" "vp_SetConfigType demo_viper t = ret ()" "vp_SetEnvPrefix demo_viper t = ret ()"
  "vp_SetEnvKeyReplacer demo_viper a b = ret ()" "vp_AutomaticEnv demo_viper = ret ()"
  "run_state (vp_BindEnv demo_viper k) (file, keys) = (Inr (), file, keys @ [k])"
  "run_state (vp_ReadInConfig demo_viper) (file, keys) = (if file = None then Inl (ErrNew ''no such file'') else Inr (), file, keys)"
  "run_state (vp_Unmarshal demo_viper) (file, keys) = ((if even (the file) then None else Some (ErrNew ''odd''), the file), file, keys)"
  by (simp_all add: demo_viper_def)

definition demo_struct :: "gofield list" where
  "demo_struct =
     [Field ''HTTP'' '''' [(''yaml'', ''http'')] (StructType [Field ''Addr'' '''' [] (BasicType ''string'')]),
      Field ''secret'' ''main'' [] (BasicType ''string''),
      Field ''Skipped'' '''' [(''mapstructure'', ''-''), (''yaml'', ''skipped'')] (BasicType ''string''),
      Field ''Log'' '''' [] (PointerType (StructType [Field ''Level'' '''' [(''json'', ''lvl'')] (BasicType ''string'')]))]"

lemma demo_struct_paths: "leaf_paths demo_struct = [[''http'', ''addr''], [''log'', ''lvl'']]"
  by (simp add: demo_struct_def exported_key_def fieldKey_def Tag_Get_def struct_of_def strings_ToLower_def ascii_fold_def char_of_def bit_0)

lemma demo_struct_named: "list_all named_field demo_struct"
  by (simp add: demo_struct_def)

lemma demo_binds: "run_state (bindEnvs demo_viper demo_struct []) (file, []) = (Inr (), file, [''http.addr'', ''log.lvl''])"
  by (simp add: bindEnvs_keys [OF demo_struct_named] demo_struct_paths prefixed_def demo_viper_ops)

theorem config_binds_fields_witness:
  "\<exists>m s'. run_state (config_Load (recorded demo_viper) ''conf/app.yaml'' (Some (PointerType (StructType demo_struct)))
       [WithEnvPrefix ''QUAN'']) ((Some 2, []), []) = (Inr m, s',
     [Call_SetConfigFile ''conf/app.yaml'', Call_SetConfigType ''yaml'', Call_SetEnvPrefix ''QUAN'',
      Call_SetEnvKeyReplacer ''.'' ''_'', Call_AutomaticEnv, Call_BindEnv ''http.addr'', Call_BindEnv ''log.lvl'',
      Call_ReadInConfig, Call_Unmarshal])"
proof -
  let ?cfg = "Some (PointerType (StructType demo_struct))"
  let ?path = "''conf/app.yaml''"
  let ?opts = "[WithEnvPrefix ''QUAN'']"
  obtain r s' calls where run: "run_state (config_Load (recorded demo_viper) ?path ?cfg ?opts) ((Some 2, []), []) = (r, s', calls)"
    using prod_cases3 by blast
  have "pred_option named_type ?cfg" using demo_struct_named by simp
  from config_binds_fields [OF this run]
  have "run_state (config_Load demo_viper ?path ?cfg ?opts) (Some 2, []) = (r, s')"
    and calls: "\<And>m. r = Inr m \<Longrightarrow> calls = load_calls ?path demo_struct ?opts"
    by auto
  then obtain m where "r = Inr m"
    by (auto simp: config_Load_def validateConfig_def initViper_def apply_config_option_def demo_binds
        filepath_Ext_def TrimPrefix_def HasPrefix_def demo_viper_ops reloadInto_def)
  then show ?thesis using run calls [of m]
    by (simp add: load_calls_def setting_calls_def Let_def option_prefix_def demo_struct_paths filepath_Ext_def TrimPrefix_def HasPrefix_def)
qed

definition demo_edits :: "(int option \<times> string list \<Rightarrow> int option \<times> string list) list" where
  "demo_edits = map (\<lambda>file (_, keys). (file, keys)) [Some 4, Some 5, None, Some 6, Some 7]"

theorem config_last_good_witness:
  "\<exists>m s0. run_state (config_Load demo_viper ''config.yaml'' (Some (PointerType (StructType demo_struct)))
       [WithOnChange (Some 1), WithWatch, WithOnChange None, WithOnChange (Some 2)]) (Some 2, []) = (Inr m, s0) \<and>
     map_prod Manager_Current id (fst (run_state (watch_run demo_viper demo_edits m) s0)) =
       (Some 6, [(1, 4), (2, 4), (1, 6), (2, 6)])"
proof -
  let ?opts = "[WithOnChange (Some 1), WithWatch, WithOnChange None, WithOnChange (Some 2)]"
  let ?cfg = "Some (PointerType (StructType demo_struct))"
  obtain m s0 where load: "run_state (config_Load demo_viper ''config.yaml'' ?cfg ?opts) (Some 2, []) = (Inr m, s0)"
      and s0: "s0 = (Some 2, [''http.addr'', ''log.lvl''])" "Manager_Current m = Some 2"
    by (simp add: config_Load_def validateConfig_def initViper_def apply_config_option_def demo_binds Manager_Current_def
        filepath_Ext_def TrimPrefix_def HasPrefix_def demo_viper_ops reloadInto_def)
  have "good_results (reload_results demo_viper demo_edits s0) = [4, 6]"
    by (simp add: demo_edits_def demo_viper_ops reloadInto_def s0)
  with config_last_good [OF load, of demo_edits] load show ?thesis by (auto simp: split_beta s0 prod_eq_iff)
qed

end
