(* ===== verification/PkgClients.thy ===== *)
theory PkgClients
  imports AppRuntime ConfigLoader
begin

text \<open>
  pkg/mysql/{config,client,component}.go, pkg/redis/{config,client,component}.go and
  pkg/log/logger.go: what stands between the configuration and the drivers. \<^verbatim>\<open>sql.DB\<close> is of the standard library
  and modelled as the settings of its pool; the MySQL driver decides which data source names it accepts
  (\<open>parse_dsn\<close>) and what a ping answers (\<open>server\<close>, given the deadline). go-redis and zap are third-party:
  their operations are parameters. A context is its deadline, if it has one.
\<close>

section \<open>Deadlines\<close>

definition withTimeoutIfNone :: "int \<Rightarrow> int option \<Rightarrow> int \<Rightarrow> int" where
  "withTimeoutIfNone now deadline d = (case deadline of Some t \<Rightarrow> t | None \<Rightarrow> now + d)"

section \<open>pkg/mysql\<close>

record MySQLConfig =
  MySQL_Enabled :: bool
  MySQL_DSN :: string
  MySQL_MaxOpenConns :: int
  MySQL_MaxIdleConns :: int
  MySQL_ConnMaxLifetime :: int
  MySQL_ConnTimeout :: int

definition MySQLConfig_withDefaults :: "MySQLConfig \<Rightarrow> MySQLConfig" where
  "MySQLConfig_withDefaults c0 =
     (let c1 = (if MySQL_MaxOpenConns c0 \<le> 0 then c0\<lparr>MySQL_MaxOpenConns := 50\<rparr> else c0);
          c2 = (if MySQL_MaxIdleConns c1 < 0 then c1\<lparr>MySQL_MaxIdleConns := 0\<rparr> else c1);
          c3 = (if MySQL_MaxIdleConns c2 > MySQL_MaxOpenConns c2
                then c2\<lparr>MySQL_MaxIdleConns := MySQL_MaxOpenConns c2\<rparr> else c2);
          c4 = (if MySQL_ConnMaxLifetime c3 \<le> 0 then c3\<lparr>MySQL_ConnMaxLifetime := 30 * Minute\<rparr> else c3)
      in (if MySQL_ConnTimeout c4 \<le> 0 then c4\<lparr>MySQL_ConnTimeout := 2 * Second\<rparr> else c4))"

text \<open>
  The pool settings of \<^verbatim>\<open>sql.DB\<close>: \<open>Sql_maxOpen\<close> 0 means no limit, \<open>Sql_maxIdle\<close> 0 the default of two
  and a negative value that no idle connection is kept.
\<close>

record sql_pool =
  Sql_dsn :: string
  Sql_maxOpen :: int
  Sql_maxIdle :: int
  Sql_maxLifetime :: int
  Sql_closed :: bool

definition maxIdleConns :: "sql_pool \<Rightarrow> int" where
  "maxIdleConns p = (if Sql_maxIdle p = 0 then 2 else if Sql_maxIdle p < 0 then 0 else Sql_maxIdle p)"

definition sql_Open :: "(string \<Rightarrow> unit result) \<Rightarrow> string \<Rightarrow> sql_pool result" where
  "sql_Open parse_dsn dsn = (case parse_dsn dsn of
     Inl e \<Rightarrow> Inl e
   | Inr _ \<Rightarrow> Inr \<lparr>Sql_dsn = dsn, Sql_maxOpen = 0, Sql_maxIdle = 0, Sql_maxLifetime = 0, Sql_closed = False\<rparr>)"

definition SetMaxIdleConns :: "int \<Rightarrow> sql_pool \<Rightarrow> sql_pool" where
  "SetMaxIdleConns n p0 =
     (let p = p0\<lparr>Sql_maxIdle := (if n > 0 then n else - 1)\<rparr> in
      if Sql_maxOpen p > 0 \<and> maxIdleConns p > Sql_maxOpen p then p\<lparr>Sql_maxIdle := Sql_maxOpen p\<rparr> else p)"

definition SetMaxOpenConns :: "int \<Rightarrow> sql_pool \<Rightarrow> sql_pool" where
  "SetMaxOpenConns n p0 =
     (let p = p0\<lparr>Sql_maxOpen := (if n < 0 then 0 else n)\<rparr> in
      if Sql_maxOpen p > 0 \<and> maxIdleConns p > Sql_maxOpen p then SetMaxIdleConns n p else p)"

definition SetConnMaxLifetime :: "int \<Rightarrow> sql_pool \<Rightarrow> sql_pool" where
  "SetConnMaxLifetime d p = p\<lparr>Sql_maxLifetime := (if d < 0 then 0 else d)\<rparr>"

definition err_db_closed :: goerr where
  "err_db_closed = ErrNew ''sql: database is closed''"

definition mysql_NewClient :: "(string \<Rightarrow> unit result) \<Rightarrow> MySQLConfig \<Rightarrow> sql_pool result" where
  "mysql_NewClient parse_dsn cfg0 =
     (let cfg = MySQLConfig_withDefaults cfg0 in
      if MySQL_DSN cfg = '''' then Inl (ErrNew ''mysql dsn is empty'')
      else case sql_Open parse_dsn (MySQL_DSN cfg) of
        Inl e \<Rightarrow> Inl (ErrWrap ''open mysql: '' e '''')
      | Inr db \<Rightarrow> Inr (SetConnMaxLifetime (MySQL_ConnMaxLifetime cfg)
                  (SetMaxIdleConns (MySQL_MaxIdleConns cfg) (SetMaxOpenConns (MySQL_MaxOpenConns cfg) db))))"

definition mysql_Ping :: "(int \<Rightarrow> unit result) \<Rightarrow> int \<Rightarrow> (sql_pool, unit result) state" where
  "mysql_Ping server deadline = State (\<lambda>p. (if Sql_closed p then Inl err_db_closed else server deadline, p))"

definition mysql_Close :: "(sql_pool, unit result) state" where
  "mysql_Close = State (\<lambda>p. (Inr (), p\<lparr>Sql_closed := True\<rparr>))"

text \<open>A component: its configuration and its pool. The life cycle runs on the pool.\<close>

definition mysql_NewComponent :: "(string \<Rightarrow> unit result) \<Rightarrow> MySQLConfig \<Rightarrow> (MySQLConfig \<times> sql_pool) result" where
  "mysql_NewComponent parse_dsn cfg =
     (if \<not> MySQL_Enabled cfg then Inl (ErrNew ''mysql is disabled'')
      else case mysql_NewClient parse_dsn cfg of Inl e \<Rightarrow> Inl e | Inr client \<Rightarrow> Inr (cfg, client))"

definition mysql_Component :: "(int \<Rightarrow> unit result) \<Rightarrow> int \<Rightarrow> MySQLConfig \<Rightarrow> sql_pool Component" where
  "mysql_Component server now cfg =
     \<lparr>Component_Start = (\<lambda>ctx. mysql_Ping server
        (withTimeoutIfNone now ctx (MySQL_ConnTimeout (MySQLConfig_withDefaults cfg)))),
      Component_Stop = (\<lambda>_. mysql_Close)\<rparr>"

section \<open>pkg/redis\<close>

record RedisConfig =
  Redis_Enabled :: bool
  Redis_Addr :: string
  Redis_Password :: string
  Redis_DB :: int
  Redis_DialTimeout :: int

definition RedisConfig_withDefaults :: "RedisConfig \<Rightarrow> RedisConfig" where
  "RedisConfig_withDefaults c0 =
     (let c = (if Redis_Addr c0 = '''' then c0\<lparr>Redis_Addr := ''127.0.0.1:6379''\<rparr> else c0)
      in (if Redis_DialTimeout c \<le> 0 then c\<lparr>Redis_DialTimeout := 2 * Second\<rparr> else c))"

record redis_Options =
  Opt_Addr :: string
  Opt_Password :: string
  Opt_DB :: int
  Opt_DialTimeout :: int

text \<open>The operations of go-redis on its client \<open>'c\<close>.\<close>

record 'c goredis =
  gr_NewClient :: "redis_Options \<Rightarrow> 'c"
  gr_Ping :: "int \<Rightarrow> ('c, unit result) state"
  gr_Close :: "('c, unit result) state"

definition redis_NewClient :: "'c goredis \<Rightarrow> RedisConfig \<Rightarrow> 'c result" where
  "redis_NewClient gr cfg0 =
     (let cfg = RedisConfig_withDefaults cfg0 in
      if Redis_Addr cfg = '''' then Inl (ErrNew ''redis addr is empty'')
      else Inr (gr_NewClient gr \<lparr>Opt_Addr = Redis_Addr cfg, Opt_Password = Redis_Password cfg,
                  Opt_DB = Redis_DB cfg, Opt_DialTimeout = Redis_DialTimeout cfg\<rparr>))"

definition redis_NewComponent :: "'c goredis \<Rightarrow> RedisConfig \<Rightarrow> (RedisConfig \<times> 'c) result" where
  "redis_NewComponent gr cfg =
     (if \<not> Redis_Enabled cfg then Inl (ErrNew ''redis is disabled'')
      else case redis_NewClient gr cfg of Inl e \<Rightarrow> Inl e | Inr client \<Rightarrow> Inr (cfg, client))"

definition redis_Component :: "'c goredis \<Rightarrow> int \<Rightarrow> RedisConfig \<Rightarrow> 'c Component" where
  "redis_Component gr now cfg =
     \<lparr>Component_Start = (\<lambda>ctx. gr_Ping gr
        (withTimeoutIfNone now ctx (Redis_DialTimeout (RedisConfig_withDefaults cfg)))),
      Component_Stop = (\<lambda>_. gr_Close gr)\<rparr>"

section \<open>pkg/log\<close>

record LogConfig =
  Log_Level :: string
  Log_Encoding :: string
  Log_OutputPaths :: "string list"
  Log_ErrorOutputPaths :: "string list"

text \<open>The fields of zap's configuration that \<^verbatim>\<open>Init\<close> sets; \<open>'l\<close> is a level.\<close>

record 'l zap_Config =
  Zap_Encoding :: string
  Zap_Level :: 'l
  Zap_OutputPaths :: "string list"
  Zap_ErrorOutputPaths :: "string list"

text \<open>
  zap: its production configuration, parsing a level, building a logger \<open>'g\<close>, flushing it, a child with a field added, and the sugared form \<open>'u\<close> of a logger.
\<close>

record ('l, 'g, 'u) zap_ops =
  zap_ProductionConfig :: "'l zap_Config"
  zap_InfoLevel :: 'l
  zap_Level_Set :: "string \<Rightarrow> 'l result"
  zap_Build :: "'l zap_Config \<Rightarrow> 'g result"
  zap_Sync :: "'g \<Rightarrow> unit result"
  zap_With :: "'g \<Rightarrow> string \<times> string \<Rightarrow> 'g"
  zap_Sugar :: "'g \<Rightarrow> 'u"

text \<open>The state is the global logger.\<close>

definition log_Init :: "('l, 'g, 'u) zap_ops \<Rightarrow> LogConfig \<Rightarrow> ('g, unit result) state" where
  "log_Init zap cfg =
     (let zcfg1 = (zap_ProductionConfig zap)\<lparr>Zap_Encoding := (if Log_Encoding cfg \<noteq> '''' then Log_Encoding cfg else ''console'')\<rparr> in
      case (if Log_Level cfg \<noteq> '''' then zap_Level_Set zap (strings_ToLower (Log_Level cfg)) else Inr (zap_InfoLevel zap)) of
        Inl err \<Rightarrow> throwE err
      | Inr level \<Rightarrow>
          let zcfg2 = zcfg1\<lparr>Zap_Level := level\<rparr>;
              zcfg3 = (if Log_OutputPaths cfg \<noteq> [] then zcfg2\<lparr>Zap_OutputPaths := Log_OutputPaths cfg\<rparr> else zcfg2);
              zcfg4 = (if Log_ErrorOutputPaths cfg \<noteq> [] then zcfg3\<lparr>Zap_ErrorOutputPaths := Log_ErrorOutputPaths cfg\<rparr> else zcfg3) in
          case zap_Build zap zcfg4 of
            Inl err \<Rightarrow> throwE err
          | Inr logger \<Rightarrow> do { _ \<leftarrow> State_Monad.set logger; returnE () })"

definition log_Sync :: "('l, 'g, 'u) zap_ops \<Rightarrow> ('g, unit) state" where
  "log_Sync zap = do { logger \<leftarrow> State_Monad.get; let _ = zap_Sync zap logger; ret () }"

definition log_Base :: "('g, 'g) state" where
  "log_Base = State_Monad.get"

definition log_L :: "('l, 'g, 'u) zap_ops \<Rightarrow> ctx \<Rightarrow> ('g, 'g) state" where
  "log_L zap c =
     (let traceID = TraceIDFromContext c in
      if traceID = '''' then State_Monad.get
      else do { logger \<leftarrow> State_Monad.get; ret (zap_With zap logger (''trace_id'', traceID)) })"

definition log_S :: "('l, 'g, 'u) zap_ops \<Rightarrow> ctx \<Rightarrow> ('g, 'u) state" where
  "log_S zap c = do { logger \<leftarrow> log_L zap c; ret (zap_Sugar zap logger) }"

text \<open>
  Logging never changes the global logger, only a successful \<^verbatim>\<open>Init\<close> does; the logger of a context carries the trace id exactly when
  there is one.
\<close>

lemma log_keeps_logger:
  "wp (log_Sync zap) (\<lambda>_ g'. g' = g) g" "wp (log_S zap c) (\<lambda>_ g'. g' = g) g" "wp log_Base (\<lambda>l g'. l = g \<and> g' = g) g"
  "wp (log_L zap (WithTraceID c t)) (\<lambda>l g'. l = (if t = '''' then g else zap_With zap g (''trace_id'', t)) \<and> g' = g) g"
  by (simp_all add: log_Sync_def log_L_def log_S_def log_Base_def Let_def)

lemma log_Init_failed: "wp (log_Init zap cfg) (\<lambda>r g'. r = Inr () \<or> g' = g) g"
  unfolding log_Init_def Let_def by (simp split del: if_split split: sum.split)

section \<open>The pool of connections\<close>

lemma MySQL_defaults:
  "MySQL_DSN (MySQLConfig_withDefaults cfg) = MySQL_DSN cfg"
  "MySQL_MaxOpenConns (MySQLConfig_withDefaults cfg) = (if MySQL_MaxOpenConns cfg \<le> 0 then 50 else MySQL_MaxOpenConns cfg)"
  "MySQL_MaxIdleConns (MySQLConfig_withDefaults cfg) =
     min (max 0 (MySQL_MaxIdleConns cfg)) (MySQL_MaxOpenConns (MySQLConfig_withDefaults cfg))"
  "0 < MySQL_ConnMaxLifetime (MySQLConfig_withDefaults cfg)"
  "MySQL_ConnTimeout (MySQLConfig_withDefaults cfg) = (if MySQL_ConnTimeout cfg \<le> 0 then 2 * Second else MySQL_ConnTimeout cfg)"
  by (simp_all add: MySQLConfig_withDefaults_def Let_def Minute_def Second_def Millisecond_def)

text \<open>The order of the two setters does not matter here: the idle limit is what was asked for, up to the open limit.\<close>

lemma pool_limits:
  assumes "0 < n" "0 \<le> k" "k \<le> n"
  shows "Sql_maxOpen (SetMaxIdleConns k (SetMaxOpenConns n p)) = n"
    "maxIdleConns (SetMaxIdleConns k (SetMaxOpenConns n p)) = k"
    "Sql_dsn (SetMaxIdleConns k (SetMaxOpenConns n p)) = Sql_dsn p"
    "Sql_closed (SetMaxIdleConns k (SetMaxOpenConns n p)) = Sql_closed p"
  using assms by (auto simp: SetMaxIdleConns_def SetMaxOpenConns_def maxIdleConns_def Let_def)

text \<open>
  C39. The MySQL client stays within its limits. A component is refused only when it is disabled, has no data source
  name or one that the driver does not accept. Otherwise its pool has a positive limit of open connections, keeps as many idle ones
  as configured but never more than may be open and never a negative number, and renews connections after a positive time, for every
  configuration, negative numbers included. Starting pings the server under the caller's deadline, or one of the
  connection timeout when there is none, and after stopping every ping fails.
\<close>

theorem mysql_pool_bounded:
  "case mysql_NewComponent parse_dsn cfg of
     Inl e \<Rightarrow> MySQL_Enabled cfg = False \<or> MySQL_DSN cfg = '''' \<or> (\<exists>e'. parse_dsn (MySQL_DSN cfg) = Inl e')
   | Inr (c, pool) \<Rightarrow>
       let comp = mysql_Component server now c in
       Sql_dsn pool = MySQL_DSN cfg \<and> 0 < Sql_maxOpen pool \<and>
       Sql_maxOpen pool = (if MySQL_MaxOpenConns cfg \<le> 0 then 50 else MySQL_MaxOpenConns cfg) \<and>
       maxIdleConns pool = min (max 0 (MySQL_MaxIdleConns cfg)) (Sql_maxOpen pool) \<and>
       0 < Sql_maxLifetime pool \<and>
       answer (Component_Start comp ctx) pool = server (case ctx of Some t \<Rightarrow> t
         | None \<Rightarrow> now + (if MySQL_ConnTimeout cfg \<le> 0 then 2 * Second else MySQL_ConnTimeout cfg)) \<and>
       answer (Component_Start comp ctx) (final (Component_Stop comp ctx') pool) = Inl err_db_closed"
proof (cases "mysql_NewComponent parse_dsn cfg")
  case (Inl e)
  then show ?thesis
    by (auto simp: mysql_NewComponent_def mysql_NewClient_def sql_Open_def Let_def MySQL_defaults split: if_splits sum.splits)
next
  case (Inr cp)
  let ?d = "MySQLConfig_withDefaults cfg"
  obtain db where pool: "snd cp = SetConnMaxLifetime (MySQL_ConnMaxLifetime ?d)
      (SetMaxIdleConns (MySQL_MaxIdleConns ?d) (SetMaxOpenConns (MySQL_MaxOpenConns ?d) db))"
    and db: "Sql_dsn db = MySQL_DSN cfg" "Sql_closed db = False" and c: "fst cp = cfg"
    using Inr by (auto simp: mysql_NewComponent_def mysql_NewClient_def sql_Open_def Let_def MySQL_defaults(1) split: if_splits sum.splits)
  have "0 < MySQL_MaxOpenConns ?d" "0 \<le> MySQL_MaxIdleConns ?d" "MySQL_MaxIdleConns ?d \<le> MySQL_MaxOpenConns ?d"
    by (simp_all add: MySQL_defaults)
  note lim = pool_limits [OF this, of db]
  have life: "maxIdleConns (SetConnMaxLifetime t p) = maxIdleConns p" for t p
    by (simp add: maxIdleConns_def SetConnMaxLifetime_def)
  have "Sql_dsn (snd cp) = MySQL_DSN cfg" "Sql_closed (snd cp) = False" "Sql_maxOpen (snd cp) = MySQL_MaxOpenConns ?d"
    "maxIdleConns (snd cp) = MySQL_MaxIdleConns ?d" "0 < Sql_maxLifetime (snd cp)"
    using lim db MySQL_defaults(4) [of cfg] by (simp_all add: pool life) (simp_all add: SetConnMaxLifetime_def)
  then show ?thesis
    using c by (cases cp) (simp add: Inr mysql_Component_def mysql_Ping_def mysql_Close_def answer_def final_def
        withTimeoutIfNone_def MySQL_defaults Let_def split: option.split)
qed

end
