(* ===== verification/Migration.thy ===== *)
theory Migration
  imports World "HOL-Library.List_Lexorder" "HOL-Library.Char_ord" "HOL-Library.Sublist"
begin

text \<open>
  pkg/mysql/migration.go: the migrations that run before the server starts. A migration file is its
  valid UTF-8 text; since every character the splitter looks at is ASCII, running over bytes and
  over runes is the same. The database keeps the statements sent to it (their meaning is MySQL's)
  and the rows of the metadata table; which round trips fail is a script, as in \<open>World\<close>. SHA-256,
  the directory and the clock are arguments.
\<close>

section \<open>Splitting a file into statements\<close>

record split_state =
  Split_statements :: "string list"
  Split_builder :: string
  Split_inSingleQuote :: bool
  Split_inDoubleQuote :: bool
  Split_inBacktick :: bool
  Split_inLineComment :: bool
  Split_inBlockComment :: bool
  Split_previousEscaped :: bool

definition split_start :: split_state where
  "split_start = \<lparr>Split_statements = [], Split_builder = [], Split_inSingleQuote = False, Split_inDoubleQuote = False,
     Split_inBacktick = False, Split_inLineComment = False, Split_inBlockComment = False, Split_previousEscaped = False\<rparr>"

text \<open>Appending the trimmed builder when it is not empty.\<close>

definition flush :: "string list \<Rightarrow> string \<Rightarrow> string list" where
  "flush statements builder = (let stmt = TrimSpace builder in if stmt \<noteq> '''' then statements @ [stmt] else statements)"

abbreviation apostrophe :: char where "apostrophe \<equiv> CHR 0x27"

definition toggle_quotes :: "char \<Rightarrow> split_state \<Rightarrow> split_state" where
  "toggle_quotes ch st =
     (if \<not> Split_inDoubleQuote st \<and> \<not> Split_inBacktick st \<and> ch = apostrophe \<and> \<not> Split_previousEscaped st
      then st\<lparr>Split_inSingleQuote := \<not> Split_inSingleQuote st\<rparr>
      else if \<not> Split_inSingleQuote st \<and> \<not> Split_inBacktick st \<and> ch = CHR 0x22 \<and> \<not> Split_previousEscaped st
      then st\<lparr>Split_inDoubleQuote := \<not> Split_inDoubleQuote st\<rparr>
      else if \<not> Split_inSingleQuote st \<and> \<not> Split_inDoubleQuote st \<and> ch = CHR 0x60 \<and> \<not> Split_previousEscaped st
      then st\<lparr>Split_inBacktick := \<not> Split_inBacktick st\<rparr>
      else st)"

definition in_quotes :: "split_state \<Rightarrow> bool" where
  "in_quotes st \<longleftrightarrow> Split_inSingleQuote st \<or> Split_inDoubleQuote st \<or> Split_inBacktick st"

text \<open>The part of the loop body after the comment tests.\<close>

definition split_char :: "char \<Rightarrow> split_state \<Rightarrow> split_state" where
  "split_char ch st0 =
     (let st = toggle_quotes ch st0 in
      if ch = CHR 0x3B \<and> \<not> in_quotes st
      then st\<lparr>Split_statements := flush (Split_statements st) (Split_builder st), Split_builder := [],
              Split_previousEscaped := False\<rparr>
      else st\<lparr>Split_builder := Split_builder st @ [ch],
              Split_previousEscaped := (ch = CHR 0x5C \<and> \<not> Split_previousEscaped st)\<rparr>)"

text \<open>One iteration: the new state, and whether the index is advanced once more (\<^verbatim>\<open>i++\<close>).\<close>

definition split_iter :: "char \<Rightarrow> char option \<Rightarrow> split_state \<Rightarrow> split_state \<times> bool" where
  "split_iter ch nxt st =
     (if Split_inLineComment st then (if ch = CHR 0x0A then st\<lparr>Split_inLineComment := False\<rparr> else st, False)
      else if Split_inBlockComment st then
        (if ch = CHR 0x2A \<and> nxt = Some (CHR 0x2F) then (st\<lparr>Split_inBlockComment := False\<rparr>, True) else (st, False))
      else if \<not> in_quotes st \<and> ch = CHR 0x2D \<and> nxt = Some (CHR 0x2D) then (st\<lparr>Split_inLineComment := True\<rparr>, True)
      else if \<not> in_quotes st \<and> ch = CHR 0x23 then (st\<lparr>Split_inLineComment := True\<rparr>, False)
      else if \<not> in_quotes st \<and> ch = CHR 0x2F \<and> nxt = Some (CHR 0x2A) then (st\<lparr>Split_inBlockComment := True\<rparr>, True)
      else (split_char ch st, False))"

definition peek :: "string \<Rightarrow> char option" where
  "peek cs = (case cs of [] \<Rightarrow> None | c # _ \<Rightarrow> Some c)"

function split_loop :: "split_state \<Rightarrow> string \<Rightarrow> split_state" where
  "split_loop st [] = st"
| "split_loop st (ch # cs) =
     (case split_iter ch (peek cs) st of (st', skip) \<Rightarrow> split_loop st' (if skip then tl cs else cs))"
  by pat_completeness auto
termination
  by (relation "measure (length \<circ> snd)") auto

definition splitSQLStatements :: "string \<Rightarrow> string list" where
  "splitSQLStatements sqlContent =
     (let st = split_loop split_start sqlContent in flush (Split_statements st) (Split_builder st))"

section \<open>A reference splitter\<close>

text \<open>
  A lexer with one mode instead of five flags. A token is a character that is kept or the end of a
  statement; comments give no token.
\<close>

datatype sql_mode = Code | Quoted char | LineComment | BlockComment

datatype sql_token = Kept char | Sep

fun sql_lex :: "sql_mode \<Rightarrow> bool \<Rightarrow> string \<Rightarrow> sql_token list" where
  "sql_lex m esc [] = []"
| "sql_lex LineComment esc (c # cs) = sql_lex (if c = CHR 0x0A then Code else LineComment) esc cs"
| "sql_lex BlockComment esc (c # cs) =
     (if c = CHR 0x2A \<and> peek cs = Some (CHR 0x2F) then sql_lex Code esc (tl cs) else sql_lex BlockComment esc cs)"
| "sql_lex (Quoted q) esc (c # cs) =
     Kept c # sql_lex (if c = q \<and> \<not> esc then Code else Quoted q) (c = CHR 0x5C \<and> \<not> esc) cs"
| "sql_lex Code esc (c # cs) =
     (if c = CHR 0x2D \<and> peek cs = Some (CHR 0x2D) then sql_lex LineComment esc (tl cs)
      else if c = CHR 0x23 then sql_lex LineComment esc cs
      else if c = CHR 0x2F \<and> peek cs = Some (CHR 0x2A) then sql_lex BlockComment esc (tl cs)
      else if c = CHR 0x3B then Sep # sql_lex Code False cs
      else Kept c # sql_lex (if c \<in> {apostrophe, CHR 0x22, CHR 0x60} \<and> \<not> esc then Quoted c else Code)
             (c = CHR 0x5C \<and> \<not> esc) cs)"

fun statements_of :: "string \<Rightarrow> sql_token list \<Rightarrow> string list" where
  "statements_of acc [] = [acc]"
| "statements_of acc (Kept c # ts) = statements_of (acc @ [c]) ts"
| "statements_of acc (Sep # ts) = acc # statements_of [] ts"

definition sql_statements :: "string \<Rightarrow> string list" where
  "sql_statements s = filter (\<lambda>x. x \<noteq> []) (map TrimSpace (statements_of [] (sql_lex Code False s)))"

text \<open>The flags of the loop stand for a mode.\<close>

fun in_mode :: "sql_mode \<Rightarrow> split_state \<Rightarrow> bool" where
  "in_mode Code st \<longleftrightarrow> \<not> in_quotes st \<and> \<not> Split_inLineComment st \<and> \<not> Split_inBlockComment st"
| "in_mode (Quoted q) st \<longleftrightarrow> q \<in> {apostrophe, CHR 0x22, CHR 0x60} \<and> Split_inSingleQuote st = (q = apostrophe) \<and>
     Split_inDoubleQuote st = (q = CHR 0x22) \<and> Split_inBacktick st = (q = CHR 0x60) \<and>
     \<not> Split_inLineComment st \<and> \<not> Split_inBlockComment st"
| "in_mode LineComment st \<longleftrightarrow> \<not> in_quotes st \<and> Split_inLineComment st \<and> \<not> Split_inBlockComment st"
| "in_mode BlockComment st \<longleftrightarrow> \<not> in_quotes st \<and> \<not> Split_inLineComment st \<and> Split_inBlockComment st"

definition result_of :: "split_state \<Rightarrow> string list" where
  "result_of st = flush (Split_statements st) (Split_builder st)"

abbreviation trimmed :: "string list \<Rightarrow> string list" where
  "trimmed xs \<equiv> filter (\<lambda>x. x \<noteq> []) (map TrimSpace xs)"

lemma flush_trimmed: "flush xs b = xs @ trimmed [b]"
  by (simp add: flush_def Let_def)

lemma in_quotes_upd [simp]:
  "in_quotes (st\<lparr>Split_inLineComment := b\<rparr>) = in_quotes st" "in_quotes (st\<lparr>Split_inBlockComment := b\<rparr>) = in_quotes st"
  "in_quotes (st\<lparr>Split_statements := xs\<rparr>) = in_quotes st" "in_quotes (st\<lparr>Split_builder := bs\<rparr>) = in_quotes st"
  "in_quotes (st\<lparr>Split_previousEscaped := b\<rparr>) = in_quotes st"
  by (simp_all add: in_quotes_def)

lemma split_char_mode:
  assumes "in_mode Code st" "c \<noteq> CHR 0x3B"
  shows "in_mode (if c \<in> {apostrophe, CHR 0x22, CHR 0x60} \<and> \<not> Split_previousEscaped st then Quoted c else Code) (split_char c st)"
  using assms by (auto simp: split_char_def toggle_quotes_def in_quotes_def Let_def)

lemma split_char_fields:
  assumes "in_mode Code st \<and> c \<noteq> CHR 0x3B \<or> in_mode (Quoted q) st"
  shows "Split_builder (split_char c st) = Split_builder st @ [c]" "Split_statements (split_char c st) = Split_statements st"
    "Split_previousEscaped (split_char c st) = (c = CHR 0x5C \<and> \<not> Split_previousEscaped st)"
  using assms by (auto simp: split_char_def toggle_quotes_def in_quotes_def Let_def)

lemma split_char_quoted:
  assumes "in_mode (Quoted q) st"
  shows "in_mode (if c = q \<and> \<not> Split_previousEscaped st then Code else Quoted q) (split_char c st)"
  using assms by (auto simp: split_char_def toggle_quotes_def in_quotes_def Let_def)

lemma split_char_sep:
  assumes "in_mode Code st"
  shows "split_char (CHR 0x3B) st = st\<lparr>Split_statements := flush (Split_statements st) (Split_builder st), Split_builder := [],
     Split_previousEscaped := False\<rparr>"
  using assms by (simp add: split_char_def toggle_quotes_def Let_def)

lemma split_loop_lex:
  assumes "in_mode m st"
  shows "result_of (split_loop st s) =
    Split_statements st @ trimmed (statements_of (Split_builder st) (sql_lex m (Split_previousEscaped st) s))"
  using assms
proof (induction m "Split_previousEscaped st" s arbitrary: st rule: sql_lex.induct)
  case (1 m)
  then show ?case by (simp add: result_of_def flush_trimmed)
next
  case (2 c cs)
  then show ?case by (simp add: split_iter_def)
next
  case (3 c cs)
  then show ?case by (simp add: split_iter_def)
next
  case (4 q c cs)
  then have iter: "split_iter c (peek cs) st = (split_char c st, False)" by (auto simp: split_iter_def in_quotes_def)
  show ?case
    using 4 split_char_quoted [OF 4(2), of c] split_char_fields [where st = st and c = c and q = q] by (simp add: iter)
next
  case (5 c cs)
  note code = 5(6)
  consider "c = CHR 0x2D \<and> peek cs = Some (CHR 0x2D)" | "c = CHR 0x23" | "c = CHR 0x2F \<and> peek cs = Some (CHR 0x2A)"
    | "c = CHR 0x3B" | "\<not> (c = CHR 0x2D \<and> peek cs = Some (CHR 0x2D))" "c \<noteq> CHR 0x23"
      "\<not> (c = CHR 0x2F \<and> peek cs = Some (CHR 0x2A))" "c \<noteq> CHR 0x3B" by blast
  then show ?case
  proof cases
    case 1
    then show ?thesis using 5(1) code by (simp add: split_iter_def)
  next
    case 2
    then show ?thesis using 5(2) code by (simp add: split_iter_def)
  next
    case 3
    then show ?thesis using 5(3) code by (simp add: split_iter_def)
  next
    case 4
    have iter: "split_iter (CHR 0x3B) (peek cs) st = (split_char (CHR 0x3B) st, False)" using code by (simp add: split_iter_def)
    show ?thesis using 4 5(4) code by (simp add: iter split_char_sep flush_trimmed)
  next
    case other: 5
    have iter: "split_iter c (peek cs) st = (split_char c st, False)" using other code by (auto simp: split_iter_def)
    show ?thesis
      using 5(5) [OF other, of "split_char c st"] other split_char_mode [OF code other(4)]
        split_char_fields [where st = st and c = c] code by (simp add: iter) auto
  qed
qed

lemma split_eq_lexing: "splitSQLStatements s = sql_statements s"
proof -
  have "in_mode Code split_start" by (simp add: split_start_def in_quotes_def)
  from split_loop_lex [OF this, of s] show ?thesis
    by (simp add: splitSQLStatements_def sql_statements_def result_of_def split_start_def Let_def)
qed

section \<open>Properties of the splitter\<close>

text \<open>
  C28. The splitter computes what its specification says. For every file, the loop with its six flags
  gives the statements of the one-mode lexer: split at semicolons outside quotes and comments,
  comments dropped, trimmed, empty ones left out.
\<close>

theorem split_is_lexing: "splitSQLStatements s = sql_statements s"
  by (rule split_eq_lexing)

text \<open>Where the lexer is after a text, and the texts it keeps whole.\<close>

fun lex_end :: "sql_mode \<Rightarrow> bool \<Rightarrow> string \<Rightarrow> sql_mode" where
  "lex_end m esc [] = m"
| "lex_end LineComment esc (c # cs) = lex_end (if c = CHR 0x0A then Code else LineComment) esc cs"
| "lex_end BlockComment esc (c # cs) =
     (if c = CHR 0x2A \<and> peek cs = Some (CHR 0x2F) then lex_end Code esc (tl cs) else lex_end BlockComment esc cs)"
| "lex_end (Quoted q) esc (c # cs) = lex_end (if c = q \<and> \<not> esc then Code else Quoted q) (c = CHR 0x5C \<and> \<not> esc) cs"
| "lex_end Code esc (c # cs) =
     (if c = CHR 0x2D \<and> peek cs = Some (CHR 0x2D) then lex_end LineComment esc (tl cs)
      else if c = CHR 0x23 then lex_end LineComment esc cs
      else if c = CHR 0x2F \<and> peek cs = Some (CHR 0x2A) then lex_end BlockComment esc (tl cs)
      else if c = CHR 0x3B then lex_end Code False cs
      else lex_end (if c \<in> {apostrophe, CHR 0x22, CHR 0x60} \<and> \<not> esc then Quoted c else Code) (c = CHR 0x5C \<and> \<not> esc) cs)"

definition sql_plain :: "string \<Rightarrow> bool" where
  "sql_plain s \<longleftrightarrow> sql_lex Code False s = map Kept s \<and> lex_end Code False s = Code \<and> TrimSpace s = s \<and> s \<noteq> []"

lemma peek_simps [simp]: "peek (c # cs) = Some c" "peek [] = None"
  by (simp_all add: peek_def)

lemma sql_lex_sep:
  assumes "lex_end m esc s = Code"
  shows "sql_lex m esc (s @ CHR 0x3B # t) = sql_lex m esc s @ Sep # sql_lex Code False t"
  using assms
proof (induction m esc s rule: sql_lex.induct)
  case (3 esc c cs)
  then show ?case by (cases cs) auto
next
  case (5 esc c cs)
  have nxt: "peek (cs @ CHR 0x3B # t) = Some d \<longleftrightarrow> peek cs = Some d" if "d \<noteq> CHR 0x3B" for d
    using that by (cases cs) auto
  have skip: "tl (cs @ CHR 0x3B # t) = tl cs @ CHR 0x3B # t" if "peek cs = Some d" for d
    using that by (cases cs) auto
  consider "c = CHR 0x2D" "peek cs = Some (CHR 0x2D)" | "c = CHR 0x23" | "c = CHR 0x2F" "peek cs = Some (CHR 0x2A)"
    | "c = CHR 0x3B" | "\<not> (c = CHR 0x2D \<and> peek cs = Some (CHR 0x2D))" "c \<noteq> CHR 0x23"
      "\<not> (c = CHR 0x2F \<and> peek cs = Some (CHR 0x2A))" "c \<noteq> CHR 0x3B" by blast
  then show ?case
  proof cases
    case 1
    then show ?thesis using 5(1,6) by (simp add: nxt skip)
  next
    case 2
    then show ?thesis using 5(2,6) by simp
  next
    case 3
    then show ?thesis using 5(3,6) by (simp add: nxt skip)
  next
    case 4
    then show ?thesis using 5(4,6) by simp
  next
    case other: 5
    then have e: "lex_end Code esc (c # cs) = lex_end (if c \<in> {apostrophe, CHR 0x22, CHR 0x60} \<and> \<not> esc then Quoted c else Code)
        (c = CHR 0x5C \<and> \<not> esc) cs"
      and l: "sql_lex Code esc (c # xs) = Kept c # sql_lex (if c \<in> {apostrophe, CHR 0x22, CHR 0x60} \<and> \<not> esc then Quoted c else Code)
        (c = CHR 0x5C \<and> \<not> esc) xs" if "\<And>d. d \<noteq> CHR 0x3B \<Longrightarrow> peek xs = Some d \<longleftrightarrow> peek cs = Some d" for xs
      using that by auto
    have "sql_lex Code esc (c # (cs @ CHR 0x3B # t)) = Kept c # sql_lex (if c \<in> {apostrophe, CHR 0x22, CHR 0x60} \<and> \<not> esc
        then Quoted c else Code) (c = CHR 0x5C \<and> \<not> esc) (cs @ CHR 0x3B # t)" by (rule l) (rule nxt)
    also have "\<dots> = sql_lex Code esc (c # cs) @ Sep # sql_lex Code False t"
      using 5(5) [OF other] 5(6) by (simp only: e [OF refl] l [OF refl] append_Cons)
    finally show ?thesis by (simp only: append_Cons)
  qed
qed (simp_all split: if_splits)

lemma statements_of_Kept: "statements_of acc (map Kept s @ ts) = statements_of (acc @ s) ts"
  by (induction s arbitrary: acc) simp_all

lemma sql_lex_printed:
  assumes "list_all sql_plain xs"
  shows "statements_of [] (sql_lex Code False (concat (map (\<lambda>s. s @ [CHR 0x3B]) xs))) = xs @ [[]]"
  using assms
proof (induction xs)
  case (Cons x xs)
  then show ?case by (simp add: sql_plain_def sql_lex_sep statements_of_Kept)
qed simp

text \<open>
  C29. Splitting undoes joining. Statements that are trimmed, not empty, lex as code without comments
  or top-level semicolons and close their quotes (semicolons and comment marks inside quotes are
  allowed) come back unchanged and in order when they are written one after the other, each
  ended by a semicolon.
\<close>

theorem split_joined:
  assumes "list_all sql_plain xs"
  shows "splitSQLStatements (concat (map (\<lambda>s. s @ [CHR 0x3B]) xs)) = xs"
proof -
  have "map TrimSpace xs = xs" "filter (\<lambda>x. x \<noteq> []) xs = xs"
    using assms by (induction xs) (auto simp: sql_plain_def)
  then show ?thesis by (simp add: split_eq_lexing sql_statements_def sql_lex_printed [OF assms])
qed

theorem split_joined_witness:
  "splitSQLStatements (concat (map (\<lambda>s. s @ [CHR 0x3B]) [''INSERT INTO t VALUES (\"a;b -- c\")'', ''SELECT 1''])) =
     [''INSERT INTO t VALUES (\"a;b -- c\")'', ''SELECT 1'']"
proof (rule split_joined)
  show "list_all sql_plain [''INSERT INTO t VALUES (\"a;b -- c\")'', ''SELECT 1'']" by code_simp
qed

text \<open>A comment is dropped without leaving white space, so the words around it run together.\<close>

lemma split_drops_comment: "splitSQLStatements ''SELECT/**/1;SELECT 5--3'' = [''SELECT1'', ''SELECT 5'']"
  by code_simp

section \<open>The migrator\<close>

record MigrationConfig =
  Migration_Enabled :: bool
  Migration_Dir :: string
  Migration_TableName :: string

definition MigrationConfig_withDefaults :: "MigrationConfig \<Rightarrow> MigrationConfig" where
  "MigrationConfig_withDefaults c =
     (if Migration_TableName c = '''' then c\<lparr>Migration_TableName := ''schema_migrations''\<rparr> else c)"

text \<open>The regular expression \<^verbatim>\<open>^[a-zA-Z0-9_]+$\<close>.\<close>

definition word_char :: "char \<Rightarrow> bool" where
  "word_char c \<longleftrightarrow> (let n = (of_char c :: nat) in
     (97 \<le> n \<and> n \<le> 122) \<or> (65 \<le> n \<and> n \<le> 90) \<or> (48 \<le> n \<and> n \<le> 57) \<or> n = 95)"

definition migrationTableNameRE :: "string \<Rightarrow> bool" where
  "migrationTableNameRE s \<longleftrightarrow> s \<noteq> [] \<and> list_all word_char s"

definition NewMigrator :: "bool \<Rightarrow> MigrationConfig \<Rightarrow> MigrationConfig result" where
  "NewMigrator db cfg0 =
     (if \<not> db then Inl (ErrNew ''migrator db is nil'')
      else let cfg = MigrationConfig_withDefaults cfg0 in
        if Migration_Dir cfg = '''' then Inl (ErrNew ''migration dir is empty'')
        else if \<not> migrationTableNameRE (Migration_TableName cfg)
        then Inl (ErrNew (''invalid migration table name: '' @ Migration_TableName cfg))
        else Inr cfg)"

text \<open>
  The database of the migrator: the statements it has executed and the metadata table (\<open>None\<close> when
  it does not exist), a row being version, checksum and time.
\<close>

record mig_state =
  mig_log :: "string list"
  mig_table :: "(string \<times> string \<times> int) list option"
  mig_faults :: "fault list"

definition mig_trip :: "'a result \<Rightarrow> (mig_state \<Rightarrow> mig_state) \<Rightarrow> (mig_state, 'a result) state" where
  "mig_trip ok upd = State (\<lambda>s.
     let s' = s\<lparr>mig_faults := tl (mig_faults s)\<rparr> in
     case mig_faults s of
       Drop e # _ \<Rightarrow> (Inl (ErrIO e), s')
     | Lost e # _ \<Rightarrow> (Inl (ErrIO e), upd s')
     | _ \<Rightarrow> (ok, upd s'))"

definition ExecStatement :: "string \<Rightarrow> (mig_state, unit result) state" where
  "ExecStatement stmt = mig_trip (Inr ()) (\<lambda>s. s\<lparr>mig_log := mig_log s @ [stmt]\<rparr>)"

definition ensureMetadataTable :: "(mig_state, unit result) state" where
  "ensureMetadataTable = mapErr (\<lambda>e. ErrWrap ''ensure migration metadata table: '' e '''')
     (mig_trip (Inr ()) (\<lambda>s. if mig_table s = None then s\<lparr>mig_table := Some []\<rparr> else s))"

definition loadAppliedVersions :: "(mig_state, string list result) state" where
  "loadAppliedVersions = do {
     s \<leftarrow> State_Monad.get;
     mapErr (\<lambda>e. ErrWrap ''query applied migrations: '' e '''')
       (mig_trip (case mig_table s of
            None \<Rightarrow> Inl (ErrNew ''table does not exist'')
          | Some rows \<Rightarrow> Inr (map fst rows)) (\<lambda>s. s)) }"

definition record_version :: "string \<Rightarrow> string \<Rightarrow> int \<Rightarrow> (mig_state, unit result) state" where
  "record_version version checksum now = mig_trip (Inr ())
     (\<lambda>s. s\<lparr>mig_table := map_option (\<lambda>rows. rows @ [(version, checksum, now)]) (mig_table s)\<rparr>)"

text \<open>A directory lists file names with their contents; unreadable files are errors.\<close>

type_synonym directory = "(string \<times> string result) list"

definition sql_file :: "string \<Rightarrow> bool" where
  "sql_file name \<longleftrightarrow> 4 \<le> length name \<and> drop (length name - 4) name = ''.sql''"

definition discoverFiles :: "directory \<Rightarrow> string list" where
  "discoverFiles dir = sort (filter sql_file (map fst dir))"

definition applyFile :: "(string \<Rightarrow> string) \<Rightarrow> int \<Rightarrow> directory \<Rightarrow> string \<Rightarrow> (mig_state, unit result) state" where
  "applyFile sha256hex now dir version = (case map_of dir version of
     Some (Inr content) \<Rightarrow>
       let statements = splitSQLStatements content in
       if statements = [] then throwE (ErrNew (''migration '' @ version @ '' has no executable statement''))
       else bindE (forE (enumerate 0 statements) (\<lambda>(idx, stmt).
                mapErr (\<lambda>e. ErrWrap (''execute migration '' @ version @ '' statement '' @ FormatInt (int idx + 1) @ '': '') e '''')
                  (ExecStatement stmt)))
         (\<lambda>_. mapErr (\<lambda>e. ErrWrap (''record migration '' @ version @ '': '') e '''')
                (record_version version (sha256hex content) now))
   | Some (Inl e) \<Rightarrow> throwE (ErrWrap (''read migration file '' @ version @ '': '') e '''')
   | None \<Rightarrow> throwE (ErrNew (''read migration file '' @ version)))"

definition Migrator_Run :: "(string \<Rightarrow> string) \<Rightarrow> int \<Rightarrow> directory \<Rightarrow> (mig_state, unit result) state" where
  "Migrator_Run sha256hex now dir =
     bindE ensureMetadataTable (\<lambda>_.
     bindE loadAppliedVersions (\<lambda>applied.
       forE (discoverFiles dir) (\<lambda>version.
         if version \<in> set applied then returnE () else applyFile sha256hex now dir version)))"

text \<open>The component: without a migrator it does nothing.\<close>

definition NewMigrationComponent :: "bool \<Rightarrow> MigrationConfig \<Rightarrow> MigrationConfig option result" where
  "NewMigrationComponent db cfg =
     (if \<not> Migration_Enabled cfg then Inr None
      else case NewMigrator db cfg of Inl e \<Rightarrow> Inl e | Inr m \<Rightarrow> Inr (Some m))"

definition MigrationComponent_Start ::
  "(string \<Rightarrow> string) \<Rightarrow> int \<Rightarrow> (string \<Rightarrow> directory) \<Rightarrow> MigrationConfig option \<Rightarrow> (mig_state, unit result) state"
where
  "MigrationComponent_Start sha256hex now dirs c = (case c of
     None \<Rightarrow> returnE () | Some cfg \<Rightarrow> Migrator_Run sha256hex now (dirs (Migration_Dir cfg)))"

section \<open>What a run does\<close>

definition versions :: "mig_state \<Rightarrow> string list" where
  "versions s = (case mig_table s of None \<Rightarrow> [] | Some rows \<Rightarrow> map fst rows)"

definition file_statements :: "directory \<Rightarrow> string \<Rightarrow> string list" where
  "file_statements dir v = (case map_of dir v of Some (Inr content) \<Rightarrow> splitSQLStatements content | _ \<Rightarrow> [])"

text \<open>
  The pending files \<open>vs\<close> up to some point are done: executed and recorded, in order. Of the next one
  some statements may have been executed; without an error there is no next one.
\<close>

definition progress :: "directory \<Rightarrow> string list \<Rightarrow> mig_state \<Rightarrow> unit result \<Rightarrow> mig_state \<Rightarrow> bool" where
  "progress dir vs s r s' \<longleftrightarrow> (\<exists>fin rest part. vs = fin @ rest \<and> versions s' = versions s @ fin \<and>
     mig_log s' = mig_log s @ concat (map (file_statements dir) fin) @ part \<and>
     (part = [] \<or> (\<exists>v vs'. rest = v # vs' \<and> prefix part (file_statements dir v))) \<and> (r = Inr () \<longrightarrow> rest = []))"

lemma wp_mig_trip:
  assumes "\<And>fs. Q ok (upd (s\<lparr>mig_faults := fs\<rparr>))" "\<And>e fs. Q (Inl (ErrIO e)) (s\<lparr>mig_faults := fs\<rparr>)"
    and "\<And>e fs. Q (Inl (ErrIO e)) (upd (s\<lparr>mig_faults := fs\<rparr>))"
  shows "wp (mig_trip ok upd) Q s"
  using assms by (simp add: mig_trip_def Let_def split: list.split fault.split)

lemma wp_ExecStatement:
  assumes "\<And>fs. Q (Inr ()) (s\<lparr>mig_faults := fs, mig_log := mig_log s @ [x]\<rparr>)"
    and "\<And>e fs. Q (Inl e) (s\<lparr>mig_faults := fs\<rparr>)" "\<And>e fs. Q (Inl e) (s\<lparr>mig_faults := fs, mig_log := mig_log s @ [x]\<rparr>)"
  shows "wp (ExecStatement x) Q s"
  unfolding ExecStatement_def by (rule wp_mig_trip) (use assms in simp_all)

lemma wp_exec_all:
  assumes "mig_table s = Some rows"
  shows "wp (forE (enumerate k xs) (\<lambda>(idx, stmt). mapErr (f idx) (ExecStatement stmt)))
    (\<lambda>r s'. \<exists>part. mig_table s' = Some rows \<and> mig_log s' = mig_log s @ part \<and> prefix part xs \<and> (r = Inr () \<longrightarrow> part = xs)) s"
  using assms
proof (induction xs arbitrary: s k)
  case (Cons x xs)
  have rest: "wp (forE (enumerate (Suc k) xs) (\<lambda>(idx, stmt). mapErr (f idx) (ExecStatement stmt)))
      (\<lambda>r s'. \<exists>part. mig_table s' = Some rows \<and> mig_log s' = mig_log s @ part \<and> prefix part (x # xs) \<and>
         (r = Inr () \<longrightarrow> part = x # xs)) (s\<lparr>mig_faults := fs, mig_log := mig_log s @ [x]\<rparr>)" for fs
  proof (rule wp_mono [OF Cons.IH], simp add: Cons.prems, elim exE conjE)
    fix r s' part
    assume "mig_table s' = Some rows" "mig_log s' = mig_log (s\<lparr>mig_faults := fs, mig_log := mig_log s @ [x]\<rparr>) @ part"
      "prefix part xs" "r = Inr () \<longrightarrow> part = xs"
    then show "\<exists>part. mig_table s' = Some rows \<and> mig_log s' = mig_log s @ part \<and> prefix part (x # xs) \<and>
         (r = Inr () \<longrightarrow> part = x # xs)"
      by (intro exI [of _ "x # part"]) simp
  qed
  show ?case
    unfolding enumerate_simps forE.simps wp_bindE prod.case wp_mapErr
    by (rule wp_ExecStatement) (use rest Cons.prems in \<open>auto intro: exI [of _ "[]"] exI [of _ "[x]"]\<close>)
qed simp

lemma wp_applyFile:
  assumes "mig_table s = Some rows"
  shows "wp (applyFile sha now dir v) (\<lambda>r s'. progress dir [v] s r s' \<and> (\<exists>rows. mig_table s' = Some rows)) s"
    (is "wp _ ?Q s")
proof (cases "\<exists>content. map_of dir v = Some (Inr content) \<and> splitSQLStatements content \<noteq> []")
  case False
  have "?Q (Inl e) s" for e using assms by (auto simp: progress_def)
  with False show ?thesis
    by (auto simp: applyFile_def Let_def split: option.split sum.split)
next
  case True
  then obtain content where c: "map_of dir v = Some (Inr content)" "splitSQLStatements content \<noteq> []" by blast
  let ?st = "file_statements dir v"
  have st: "splitSQLStatements content = ?st" using c by (simp add: file_statements_def)
  have recorded: "?Q r (s1\<lparr>mig_faults := fs, mig_table := Some (rows @ [(v, h, t)])\<rparr>)"
    if "mig_table s1 = Some rows" "mig_log s1 = mig_log s @ ?st" for s1 r h t fs
    using that assms by (auto simp: progress_def versions_def intro!: exI [of _ "[v]"])
  have stopped: "?Q (Inl e) s1" if "mig_table s1 = Some rows" "mig_log s1 = mig_log s @ part" "prefix part ?st" for s1 e part
    using that assms by (auto simp: progress_def versions_def intro!: exI [of _ "[]"] exI [of _ "[v]"] exI [of _ part])
  show ?thesis
    unfolding applyFile_def c(1) option.case sum.case Let_def if_not_P [OF c(2)] wp_bindE
  proof (rule wp_mono [OF wp_exec_all [OF assms]], unfold st, elim exE conjE)
    fix s1 :: mig_state and part and r :: "unit result"
    assume 1: "mig_table s1 = Some rows" "mig_log s1 = mig_log s @ part" "prefix part ?st" "r = Inr () \<longrightarrow> part = ?st"
    show "(case r of Inl e \<Rightarrow> ?Q (Inl e) | Inr a \<Rightarrow> wp (mapErr (\<lambda>e. ErrWrap (''record migration '' @ v @ '': '') e '''')
        (record_version v (sha content) now)) ?Q) s1"
    proof (cases r)
      case (Inl e)
      then show ?thesis using stopped [OF 1(1-3)] by simp
    next
      case (Inr u)
      then have log: "mig_log s1 = mig_log s @ ?st" using 1 by simp
      show ?thesis unfolding Inr sum.case wp_mapErr record_version_def
        by (rule wp_mig_trip) (use recorded [OF 1(1) log] stopped [of "s1\<lparr>mig_faults := fs\<rparr>" for fs] 1 log in \<open>auto\<close>)
    qed
  qed
qed

lemma progress_trans:
  assumes "progress dir vs s (Inr ()) t" "progress dir ws t r u"
  shows "progress dir (vs @ ws) s r u"
proof -
  have 1: "versions t = versions s @ vs" "mig_log t = mig_log s @ concat (map (file_statements dir) vs)"
    using assms(1) by (auto simp: progress_def)
  obtain fin rest part where "ws = fin @ rest" "versions u = versions t @ fin"
     "mig_log u = mig_log t @ concat (map (file_statements dir) fin) @ part"
     "part = [] \<or> (\<exists>v vs'. rest = v # vs' \<and> prefix part (file_statements dir v))" "r = Inr () \<longrightarrow> rest = []"
    using assms(2) unfolding progress_def by blast
  with 1 show ?thesis unfolding progress_def by (intro exI [of _ "vs @ fin"] exI [of _ rest] exI [of _ part]) simp
qed

lemma progress_stop: "progress dir vs s (Inl e) t \<Longrightarrow> progress dir (vs @ ws) s (Inl e) t"
proof -
  assume "progress dir vs s (Inl e) t"
  then obtain fin rest part where "vs = fin @ rest" "versions t = versions s @ fin"
     "mig_log t = mig_log s @ concat (map (file_statements dir) fin) @ part"
     "part = [] \<or> (\<exists>v vs'. rest = v # vs' \<and> prefix part (file_statements dir v))"
    unfolding progress_def by blast
  then show ?thesis unfolding progress_def by (intro exI [of _ fin] exI [of _ "rest @ ws"] exI [of _ part]) auto
qed

lemma wp_apply_pending:
  assumes "mig_table s = Some rows"
  shows "wp (forE vs (\<lambda>v. if v \<in> A then returnE () else applyFile sha now dir v))
    (progress dir (filter (\<lambda>v. v \<notin> A) vs) s) s"
  using assms
proof (induction vs arbitrary: s rows)
  case Nil
  then show ?case by (simp add: progress_def)
next
  case (Cons v vs)
  show ?case
  proof (cases "v \<in> A")
    case True
    then show ?thesis using Cons by simp
  next
    case False
    have "wp (forE vs (\<lambda>v. if v \<in> A then returnE () else applyFile sha now dir v))
        (progress dir ([v] @ filter (\<lambda>v. v \<notin> A) vs) s) s1"
      if "progress dir [v] s (Inr ()) s1" "mig_table s1 = Some rows'" for s1 rows'
      by (rule wp_mono [OF Cons.IH [OF that(2)]]) (rule progress_trans [OF that(1)])
    with False show ?thesis
      unfolding forE.simps wp_bindE
      by (simp only: if_False, intro wp_mono [OF wp_applyFile [OF Cons.prems]])
        (auto split: sum.split dest: progress_stop [where ws = "filter (\<lambda>v. v \<notin> A) vs"])
  qed
qed

lemma wp_Migrator_Run:
  "wp (Migrator_Run sha now dir)
    (progress dir (filter (\<lambda>v. v \<notin> set (versions s)) (discoverFiles dir)) s) s"
    (is "wp _ ?Q s")
proof -
  have same: "?Q (Inl e) t" if "versions t = versions s" "mig_log t = mig_log s" for e t
    using that by (auto simp: progress_def)
  have cong: "progress dir vs t r u \<Longrightarrow> progress dir vs s r u" if "versions t = versions s" "mig_log t = mig_log s" for vs t r u
    using that by (simp add: progress_def)
  have load: "wp loadAppliedVersions (\<lambda>a. case a of Inl e \<Rightarrow> ?Q (Inl e) | Inr applied \<Rightarrow>
      wp (forE (discoverFiles dir) (\<lambda>v. if v \<in> set applied then returnE () else applyFile sha now dir v)) ?Q) t"
    if t: "versions t = versions s" "mig_log t = mig_log s" "mig_table t = Some rows" for t rows
  proof -
    have rows: "map fst rows = versions s" using t by (simp add: versions_def)
    have go: "wp (forE (discoverFiles dir) (\<lambda>v. if v \<in> set (versions s) then returnE () else applyFile sha now dir v)) ?Q
        (t\<lparr>mig_faults := fs\<rparr>)" for fs
      by (rule wp_mono [OF wp_apply_pending [where rows = rows]]) (use t cong [of "t\<lparr>mig_faults := fs\<rparr>"] in \<open>auto simp: versions_def\<close>)
    have stop: "?Q (Inl e) (t\<lparr>mig_faults := fs\<rparr>)" for e fs by (rule same) (use t in \<open>simp_all add: versions_def\<close>)
    show ?thesis
      unfolding loadAppliedVersions_def wp_bind wp_get wp_mapErr t(3) option.case
      by (rule wp_mig_trip) (use go stop in \<open>auto simp: rows\<close>)
  qed
  show ?thesis
    unfolding Migrator_Run_def wp_bindE ensureMetadataTable_def wp_mapErr
  proof (rule wp_mig_trip, goal_cases)
    case (1 fs)
    show ?case unfolding sum.case
      by (rule load [where rows = "case mig_table s of None \<Rightarrow> [] | Some rows \<Rightarrow> rows"])
        (simp_all add: versions_def split: option.split)
  next
    case (2 e fs)
    show ?case unfolding sum.case by (rule same) (simp_all add: versions_def)
  next
    case (3 e fs)
    show ?case unfolding sum.case by (rule same) (simp_all add: versions_def split: option.split)
  qed
qed

section \<open>Properties of the migrator\<close>

text \<open>
  C30. Migrations run in order and are recorded after they ran. Whatever round trips fail, a run takes
  the files that are not recorded yet in the order of their names; those up to some point are
  executed statement by statement and recorded, of the next one at most a leading part of the
  statements was executed and it is not recorded; when the run succeeds there is no next one.
\<close>

theorem migrate_in_order:
  "let m = Migrator_Run sha now dir; s' = final m s; pending = filter (\<lambda>v. v \<notin> set (versions s)) (discoverFiles dir) in
    sorted (discoverFiles dir) \<and> progress dir pending s (answer m s) s'"
  using wp_Migrator_Run [of sha now dir s] by (simp add: wp_iff Let_def discoverFiles_def)

text \<open>
  C31. A finished migration is not repeated. After a successful run over a directory, another run over
  it, whatever fails then, executes no statement and records nothing.
\<close>

theorem migrate_once:
  assumes "answer (Migrator_Run sha now dir) s = Inr ()" "s' = final (Migrator_Run sha now dir) s"
  shows "let s2 = final (Migrator_Run sha2 now2 dir) (s'\<lparr>mig_faults := fs\<rparr>) in
    set (discoverFiles dir) \<subseteq> set (versions s') \<and> mig_log s2 = mig_log s' \<and> versions s2 = versions s'"
proof -
  have "progress dir (filter (\<lambda>v. v \<notin> set (versions s)) (discoverFiles dir)) s (Inr ()) s'"
    using wp_Migrator_Run [of sha now dir s] assms by (simp add: wp_iff)
  then have all: "set (discoverFiles dir) \<subseteq> set (versions s')" by (auto simp: progress_def)
  let ?s = "s'\<lparr>mig_faults := fs\<rparr>"
  have "versions ?s = versions s'" by (simp add: versions_def)
  with all have none: "filter (\<lambda>v. v \<notin> set (versions ?s)) (discoverFiles dir) = []" by (auto simp: filter_empty_conv)
  have "progress dir [] ?s (answer (Migrator_Run sha2 now2 dir) ?s) (final (Migrator_Run sha2 now2 dir) ?s)"
    using wp_Migrator_Run [of sha2 now2 dir ?s] by (simp only: none wp_iff)
  with all show ?thesis by (auto simp: progress_def Let_def versions_def)
qed

definition demo_dir :: directory where
  "demo_dir = [(''002.sql'', Inr ''SELECT 2''), (''README'', Inr ''''), (''001.sql'', Inr ''SELECT 1;SELECT 3'')]"

definition demo_mig :: mig_state where
  "demo_mig = \<lparr>mig_log = [], mig_table = None, mig_faults = []\<rparr>"

lemma demo_mig_run:
  "answer (Migrator_Run (\<lambda>s. s) 0 demo_dir) demo_mig = Inr () \<and>
   mig_log (final (Migrator_Run (\<lambda>s. s) 0 demo_dir) demo_mig) = [''SELECT 1'', ''SELECT 3'', ''SELECT 2'']"
  by code_simp

theorem migrate_once_witness:
  "let s' = final (Migrator_Run (\<lambda>s. s) 0 demo_dir) demo_mig;
       s2 = final (Migrator_Run (\<lambda>s. s) 1 demo_dir) (s'\<lparr>mig_faults := [NoFault, Lost ''reset'']\<rparr>) in
    set (discoverFiles demo_dir) \<subseteq> set (versions s') \<and> mig_log s2 = mig_log s' \<and> versions s2 = versions s'"
  unfolding Let_def by (rule migrate_once [unfolded Let_def, OF _ refl]) (rule demo_mig_run [THEN conjunct1])

end
