(* ===== verification/Observability.thy ===== *)
theory Observability
  imports Complex_Main CouponHandler MetricRegistry
begin

text \<open>
  examples/Quan/internal/observability/metrics.go: the business metrics of the server. Counters and
  histograms are kept per label; a histogram by the number and the sum of its observations. The two
  counters behind the fail rate are \<^verbatim>\<open>uint64\<close> values. The fail rate is the exact quotient, before it is
  rounded to a \<^verbatim>\<open>float64\<close>. \<open>apply_metric\<close> feeds a metrics object with the calls that the other
  components make, in the form in which \<open>World\<close> records them.
\<close>

section \<open>The metrics\<close>

record histogram =
  Hist_count :: nat
  Hist_sum :: int

record QuanMetrics =
  QM_outboxPending :: int
  QM_taskRetryTotal :: nat
  QM_taskDLQTotal :: nat
  QM_taskConsumeTotal :: "string \<Rightarrow> nat"
  QM_taskFailRate :: rat
  QM_couponClaimTotal :: "string \<times> string \<Rightarrow> nat"
  QM_couponClaimLatency :: "string \<Rightarrow> histogram"
  QM_taskRecoveryTotal :: "string \<Rightarrow> nat"
  QM_taskRecoveryLatency :: "string \<Rightarrow> histogram"
  QM_appErrorTotal :: "string \<times> string \<Rightarrow> nat"
  QM_consumeSuccess :: "64 word"
  QM_consumeFail :: "64 word"

definition empty_histogram :: histogram where
  "empty_histogram = \<lparr>Hist_count = 0, Hist_sum = 0\<rparr>"

definition metrics_New :: QuanMetrics where
  "metrics_New = \<lparr>QM_outboxPending = 0, QM_taskRetryTotal = 0, QM_taskDLQTotal = 0, QM_taskConsumeTotal = (\<lambda>_. 0),
     QM_taskFailRate = 0, QM_couponClaimTotal = (\<lambda>_. 0), QM_couponClaimLatency = (\<lambda>_. empty_histogram),
     QM_taskRecoveryTotal = (\<lambda>_. 0), QM_taskRecoveryLatency = (\<lambda>_. empty_histogram), QM_appErrorTotal = (\<lambda>_. 0),
     QM_consumeSuccess = 0, QM_consumeFail = 0\<rparr>"

definition hist_Observe :: "int \<Rightarrow> histogram \<Rightarrow> histogram" where
  "hist_Observe d h = \<lparr>Hist_count = Hist_count h + 1, Hist_sum = Hist_sum h + d\<rparr>"

definition bump :: "'k \<Rightarrow> ('k \<Rightarrow> nat) \<Rightarrow> 'k \<Rightarrow> nat" where
  "bump k f = f(k := f k + 1)"

section \<open>Operations\<close>

text \<open>A nil \<^verbatim>\<open>*Metrics\<close> ignores every call.\<close>

definition QM_SetOutboxPending :: "int \<Rightarrow> QuanMetrics option \<Rightarrow> QuanMetrics option" where
  "QM_SetOutboxPending v = map_option (\<lambda>m. m\<lparr>QM_outboxPending := v\<rparr>)"

definition QM_IncTaskRetry :: "QuanMetrics option \<Rightarrow> QuanMetrics option" where
  "QM_IncTaskRetry = map_option (\<lambda>m. m\<lparr>QM_taskRetryTotal := QM_taskRetryTotal m + 1\<rparr>)"

definition QM_IncTaskDLQ :: "QuanMetrics option \<Rightarrow> QuanMetrics option" where
  "QM_IncTaskDLQ = map_option (\<lambda>m. m\<lparr>QM_taskDLQTotal := QM_taskDLQTotal m + 1\<rparr>)"

definition fail_rate :: "64 word \<Rightarrow> 64 word \<Rightarrow> rat" where
  "fail_rate fail success =
     (let total = fail + success in if total = 0 then 0 else of_nat (unat fail) / of_nat (unat total))"

definition refreshFailRate :: "QuanMetrics \<Rightarrow> QuanMetrics" where
  "refreshFailRate m = m\<lparr>QM_taskFailRate := fail_rate (QM_consumeFail m) (QM_consumeSuccess m)\<rparr>"

definition QM_IncConsumeSuccess :: "QuanMetrics option \<Rightarrow> QuanMetrics option" where
  "QM_IncConsumeSuccess = map_option (\<lambda>m. refreshFailRate
     (m\<lparr>QM_taskConsumeTotal := bump ''success'' (QM_taskConsumeTotal m), QM_consumeSuccess := QM_consumeSuccess m + 1\<rparr>))"

definition QM_IncConsumeFailure :: "QuanMetrics option \<Rightarrow> QuanMetrics option" where
  "QM_IncConsumeFailure = map_option (\<lambda>m. refreshFailRate
     (m\<lparr>QM_taskConsumeTotal := bump ''failed'' (QM_taskConsumeTotal m), QM_consumeFail := QM_consumeFail m + 1\<rparr>))"

definition or_unknown :: "string \<Rightarrow> string" where
  "or_unknown s = (if s = '''' then ''unknown'' else s)"

definition QM_ObserveCouponClaim :: "string \<Rightarrow> string \<Rightarrow> int \<Rightarrow> QuanMetrics option \<Rightarrow> QuanMetrics option" where
  "QM_ObserveCouponClaim resultClass resultCode duration = map_option (\<lambda>m.
     m\<lparr>QM_couponClaimTotal := bump (or_unknown resultClass, or_unknown resultCode) (QM_couponClaimTotal m),
       QM_couponClaimLatency := (QM_couponClaimLatency m)(or_unknown resultClass :=
         hist_Observe duration (QM_couponClaimLatency m (or_unknown resultClass)))\<rparr>)"

definition QM_ObserveTaskRecovery :: "string \<Rightarrow> int \<Rightarrow> QuanMetrics option \<Rightarrow> QuanMetrics option" where
  "QM_ObserveTaskRecovery source latency = map_option (\<lambda>m.
     m\<lparr>QM_taskRecoveryTotal := bump (or_unknown source) (QM_taskRecoveryTotal m),
       QM_taskRecoveryLatency := (QM_taskRecoveryLatency m)(or_unknown source :=
         hist_Observe latency (QM_taskRecoveryLatency m (or_unknown source)))\<rparr>)"

definition classifyAppError :: "int \<Rightarrow> string" where
  "classifyAppError code =
     (if code = CodeConflict then ''business_conflict''
      else if code \<in> {CodeBadRequest, CodeNotFound, CodeTooManyRequests} then ''client_error''
      else if code = CodeInternalError then ''server_error''
      else if code \<ge> 500 then ''server_error''
      else if code \<ge> 400 then ''client_error''
      else ''unknown'')"

definition classifyAppErrorCode :: "int \<Rightarrow> string" where
  "classifyAppErrorCode code =
     (if code = CodeConflict then ''conflict''
      else if code = CodeBadRequest then ''bad_request''
      else if code = CodeNotFound then ''not_found''
      else if code = CodeTooManyRequests then ''too_many_requests''
      else if code = CodeInternalError then ''internal_error''
      else ''code_'' @ FormatInt code)"

definition QM_ObserveAppError :: "int \<Rightarrow> QuanMetrics option \<Rightarrow> QuanMetrics option" where
  "QM_ObserveAppError code = map_option (\<lambda>m.
     if code = CodeOK then m
     else m\<lparr>QM_appErrorTotal := bump (classifyAppError code, classifyAppErrorCode code) (QM_appErrorTotal m)\<rparr>)"

text \<open>Durations of claims are not recorded in \<open>World\<close>; they do not matter for what is counted.\<close>

fun apply_metric :: "metric_call \<Rightarrow> QuanMetrics option \<Rightarrow> QuanMetrics option" where
  "apply_metric (SetOutboxPending v) = QM_SetOutboxPending v"
| "apply_metric IncTaskRetry = QM_IncTaskRetry"
| "apply_metric IncTaskDLQ = QM_IncTaskDLQ"
| "apply_metric IncConsumeSuccess = QM_IncConsumeSuccess"
| "apply_metric IncConsumeFailure = QM_IncConsumeFailure"
| "apply_metric (ObserveCouponClaim cls code) = QM_ObserveCouponClaim cls code 0"
| "apply_metric (ObserveTaskRecovery source d) = QM_ObserveTaskRecovery source d"
| "apply_metric (ObserveAppError code) = QM_ObserveAppError code"

definition apply_metrics :: "metric_call list \<Rightarrow> QuanMetrics option \<Rightarrow> QuanMetrics option" where
  "apply_metrics cs = fold apply_metric cs"

section \<open>Collectors\<close>

text \<open>
  The ten collectors behind the counters and their registration. A nil registerer or gatherer stands for the default one. \<open>label_values\<close> lists the
  calls of \<^verbatim>\<open>WithLabelValues\<close> that an operation makes.
\<close>

record quan_collectors =
  outboxPendingGauge :: collector
  taskRetryTotal :: collector
  taskDLQTotal :: collector
  taskConsumeTotal :: collector
  taskFailRateGauge :: collector
  couponClaimTotal :: collector
  couponClaimLatency :: collector
  taskRecoveryTotal :: collector
  taskRecoveryLatency :: collector
  appErrorTotal :: collector
  Obs_gatherer :: registry

definition quan_collectors_of :: "string \<Rightarrow> registry \<Rightarrow> quan_collectors" where
  "quan_collectors_of namespace gatherer =
     (let ns = (if namespace = '''' then ''mini_jupiter_quan'' else namespace);
          coll = (\<lambda>kind name help ls. \<lparr>Coll_kind = kind, Coll_Namespace = ns, Coll_Name = name, Coll_Help = help, Coll_labels = ls\<rparr>)
      in \<lparr>outboxPendingGauge = coll Gauge ''outbox_pending'' ''Current pending outbox event count.'' [],
          taskRetryTotal = coll Counter ''task_retry_total'' ''Total number of task retries.'' [],
          taskDLQTotal = coll Counter ''task_dlq_total'' ''Total number of tasks moved to DLQ.'' [],
          taskConsumeTotal = coll Counter ''task_consume_total'' ''Total number of task consumption results.'' [''status''],
          taskFailRateGauge = coll Gauge ''task_consume_fail_rate'' ''Task consume fail ratio (fail/total).'' [],
          couponClaimTotal = coll Counter ''coupon_claim_total'' ''Total number of coupon claim results by normalized outcome.''
            [''result_class'', ''result_code''],
          couponClaimLatency = coll Histogram_DefBuckets ''coupon_claim_duration_seconds'' ''Coupon claim request latency in seconds.''
            [''result_class''],
          taskRecoveryTotal = coll Counter ''task_recovery_total'' ''Total number of task recoveries by source.'' [''source''],
          taskRecoveryLatency = coll Histogram_DefBuckets ''task_recovery_latency_seconds''
            ''Latency from task becoming recoverable to compensator rescheduling it.'' [''source''],
          appErrorTotal = coll Counter ''app_error_total'' ''Application errors grouped by normalized class and code.'' [''class'', ''code''],
          Obs_gatherer = gatherer\<rparr>)"

definition collectors :: "quan_collectors \<Rightarrow> collector list" where
  "collectors m =
     [outboxPendingGauge m, taskRetryTotal m, taskDLQTotal m, taskConsumeTotal m, taskFailRateGauge m, couponClaimTotal m,
      couponClaimLatency m, taskRecoveryTotal m, taskRecoveryLatency m, appErrorTotal m]"

definition observability_New ::
  "prometheus \<Rightarrow> string \<Rightarrow> registry option \<Rightarrow> registry option \<Rightarrow> registries \<Rightarrow> string + (quan_collectors \<times> QuanMetrics) \<times> registries"
where
  "observability_New prom namespace reg gatherer regs =
     (let reg' = (case reg of None \<Rightarrow> DefaultRegistry | Some r \<Rightarrow> r);
          gatherer' = (case gatherer of None \<Rightarrow> DefaultRegistry | Some g \<Rightarrow> g);
          m = quan_collectors_of namespace gatherer'
      in map_sum id (Pair (m, metrics_New)) (MustRegister prom reg' (collectors m) regs))"

fun label_values :: "metric_call \<Rightarrow> quan_collectors \<Rightarrow> (collector \<times> string list) list" where
  "label_values (SetOutboxPending v) m = []"
| "label_values IncTaskRetry m = []"
| "label_values IncTaskDLQ m = []"
| "label_values IncConsumeSuccess m = [(taskConsumeTotal m, [''success''])]"
| "label_values IncConsumeFailure m = [(taskConsumeTotal m, [''failed''])]"
| "label_values (ObserveCouponClaim cls code) m =
     [(couponClaimTotal m, [or_unknown cls, or_unknown code]), (couponClaimLatency m, [or_unknown cls])]"
| "label_values (ObserveTaskRecovery source d) m = [(taskRecoveryTotal m, [or_unknown source]), (taskRecoveryLatency m, [or_unknown source])]"
| "label_values (ObserveAppError code) m =
     (if code = CodeOK then [] else [(appErrorTotal m, [classifyAppError code, classifyAppErrorCode code])])"

section \<open>What the metrics say\<close>

definition claim_label :: "string \<Rightarrow> metric_call \<Rightarrow> bool" where
  "claim_label cls c \<longleftrightarrow> (\<exists>cl code. c = ObserveCouponClaim cl code \<and> or_unknown cl = cls)"

text \<open>
  What a sequence of calls says about each metric, read off the calls alone: the labels of the claims and of the application errors,
  the recoveries with their latency, the values of the gauge.
\<close>

definition observed_claims :: "metric_call list \<Rightarrow> (string \<times> string) list" where
  "observed_claims cs = [(or_unknown cls, or_unknown code). ObserveCouponClaim cls code \<leftarrow> cs]"

definition observed_recoveries :: "metric_call list \<Rightarrow> (string \<times> int) list" where
  "observed_recoveries cs = [(or_unknown source, d). ObserveTaskRecovery source d \<leftarrow> cs]"

definition observed_errors :: "metric_call list \<Rightarrow> (string \<times> string) list" where
  "observed_errors cs = [(classifyAppError code, classifyAppErrorCode code). ObserveAppError code \<leftarrow> cs, code \<noteq> CodeOK]"

definition observed_pending :: "metric_call list \<Rightarrow> int list" where
  "observed_pending cs = [v. SetOutboxPending v \<leftarrow> cs]"

definition latencies :: "string \<Rightarrow> (string \<times> int) list \<Rightarrow> int list" where
  "latencies source rs = [d. (s, d) \<leftarrow> rs, s = source]"

lemmas observed_defs = observed_claims_def observed_recoveries_def observed_errors_def observed_pending_def latencies_def

definition metrics_ok :: "metric_call list \<Rightarrow> QuanMetrics \<Rightarrow> bool" where
  "metrics_ok cs m \<longleftrightarrow>
     QM_outboxPending m = last (0 # observed_pending cs) \<and>
     QM_taskRetryTotal m = count_list cs IncTaskRetry \<and> QM_taskDLQTotal m = count_list cs IncTaskDLQ \<and>
     QM_taskConsumeTotal m =
       (\<lambda>_. 0)(''success'' := count_list cs IncConsumeSuccess, ''failed'' := count_list cs IncConsumeFailure) \<and>
     QM_consumeSuccess m = of_nat (count_list cs IncConsumeSuccess) \<and>
     QM_consumeFail m = of_nat (count_list cs IncConsumeFailure) \<and>
     QM_taskFailRate m = fail_rate (QM_consumeFail m) (QM_consumeSuccess m) \<and>
     QM_couponClaimTotal m = count_list (observed_claims cs) \<and>
     (\<forall>cls. Hist_count (QM_couponClaimLatency m cls) = length (filter (claim_label cls) cs)) \<and>
     QM_taskRecoveryTotal m = count_list (map fst (observed_recoveries cs)) \<and>
     (\<forall>source. Hist_count (QM_taskRecoveryLatency m source) = length (latencies source (observed_recoveries cs)) \<and>
        Hist_sum (QM_taskRecoveryLatency m source) = sum_list (latencies source (observed_recoveries cs))) \<and>
     QM_appErrorTotal m = count_list (observed_errors cs)"

lemma refreshFailRate_simps [simp]:
  "QM_taskRetryTotal (refreshFailRate m) = QM_taskRetryTotal m" "QM_taskDLQTotal (refreshFailRate m) = QM_taskDLQTotal m"
  "QM_taskConsumeTotal (refreshFailRate m) = QM_taskConsumeTotal m" "QM_consumeSuccess (refreshFailRate m) = QM_consumeSuccess m"
  "QM_consumeFail (refreshFailRate m) = QM_consumeFail m" "QM_couponClaimLatency (refreshFailRate m) = QM_couponClaimLatency m"
  "QM_taskFailRate (refreshFailRate m) = fail_rate (QM_consumeFail m) (QM_consumeSuccess m)"
  by (simp_all add: refreshFailRate_def)

lemma refreshFailRate_frame [simp]:
  "QM_outboxPending (refreshFailRate m) = QM_outboxPending m" "QM_couponClaimTotal (refreshFailRate m) = QM_couponClaimTotal m"
  "QM_taskRecoveryTotal (refreshFailRate m) = QM_taskRecoveryTotal m"
  "QM_taskRecoveryLatency (refreshFailRate m) = QM_taskRecoveryLatency m" "QM_appErrorTotal (refreshFailRate m) = QM_appErrorTotal m"
  by (simp_all add: refreshFailRate_def)

lemma metrics_ok_step:
  assumes "metrics_ok cs m"
  shows "\<exists>m'. apply_metric c (Some m) = Some m' \<and> metrics_ok (cs @ [c]) m'"
  using assms
  by (cases c) (auto simp: metrics_ok_def QM_SetOutboxPending_def QM_IncTaskRetry_def QM_IncTaskDLQ_def
    QM_IncConsumeSuccess_def QM_IncConsumeFailure_def QM_ObserveCouponClaim_def QM_ObserveTaskRecovery_def QM_ObserveAppError_def
    bump_def hist_Observe_def claim_label_def observed_defs fun_eq_iff)

lemma metrics_ok_run:
  "\<exists>m. apply_metrics cs (Some metrics_New) = Some m \<and> metrics_ok cs m"
proof (induction cs rule: rev_induct)
  case Nil
  then show ?case
    by (simp add: apply_metrics_def metrics_ok_def metrics_New_def fail_rate_def empty_histogram_def observed_defs fun_eq_iff)
next
  case (snoc c cs)
  then show ?case using metrics_ok_step [of cs _ c] by (auto simp: apply_metrics_def)
qed

text \<open>While the sum of the two counters stays below the word's range, the rate is the true share.\<close>

lemma fail_rate_of_nat:
  assumes "g + b < 2 ^ 64"
  shows "fail_rate (of_nat b) (of_nat g) = (if g + b = 0 then 0 else of_nat b / of_nat (g + b))"
proof -
  have u: "unat (of_nat k :: 64 word) = k" if "k \<le> g + b" for k
    using that assms by (simp add: unat_of_nat take_bit_nat_eq_self_iff)
  have s: "(of_nat b :: 64 word) + of_nat g = of_nat (g + b)" by simp
  have z: "(of_nat (g + b) :: 64 word) = 0 \<longleftrightarrow> g + b = 0"
  proof
    assume "(of_nat (g + b) :: 64 word) = 0"
    then have "unat (of_nat (g + b) :: 64 word) = 0" by (simp only: unat_0)
    then show "g + b = 0" by (simp only: u [OF le_refl])
  next
    assume "g + b = 0"
    then show "(of_nat (g + b) :: 64 word) = 0" by (simp del: of_nat_add)
  qed
  show ?thesis
    unfolding fail_rate_def Let_def s z u [of "g + b", OF le_refl] u [of b, OF le_add2] by (rule refl)
qed

section \<open>Registration\<close>

definition valid_namespace :: "string \<Rightarrow> bool" where
  "valid_namespace ns \<longleftrightarrow> ns = '''' \<or> valid_metric_name ns \<and> \<not> built_in (ns @ ''_'')"

lemma HasPrefix_word:
  assumes "CHR ''_'' \<notin> set p" "HasPrefix (ns @ CHR ''_'' # n) (p @ ''_'')"
  shows "HasPrefix (ns @ ''_'') (p @ ''_'')"
  using assms
proof (induction p arbitrary: ns)
  case Nil
  then show ?case by (cases ns) (simp_all add: HasPrefix_def)
next
  case (Cons c p)
  then show ?case by (cases ns) (auto simp: HasPrefix_def)
qed

lemma built_in_namespace: "built_in (ns @ CHR ''_'' # n) \<Longrightarrow> built_in (ns @ ''_'')"
  using HasPrefix_word [of "''go''" ns n] HasPrefix_word [of "''process''" ns n] HasPrefix_word [of "''promhttp''" ns n]
  by (auto simp: built_in_def)

lemma name_char_underscore: "name_char (CHR ''_'')"
  by (simp add: name_char_def)

lemma collector_names:
  "map Coll_Name (http_collectors (metric_of prom cfg)) =
    [''http_requests_total'', ''http_request_duration_seconds'', ''http_inflight_requests'', ''http_error_total'']"
  "map Coll_Name (collectors (quan_collectors_of ns g)) =
    [''outbox_pending'', ''task_retry_total'', ''task_dlq_total'', ''task_consume_total'', ''task_consume_fail_rate'', ''coupon_claim_total'',
     ''coupon_claim_duration_seconds'', ''task_recovery_total'', ''task_recovery_latency_seconds'', ''app_error_total'']"
  by (simp_all add: metric_of_def http_collectors_def quan_collectors_of_def collectors_def Let_def)

lemma collector_labels:
  "map Coll_labels (http_collectors (metric_of prom cfg)) =
    [[''method'', ''path'', ''status'', ''status_class''], [''method'', ''path'', ''status'', ''status_class''], [''method'', ''path''], [''code'']]"
  "map Coll_labels (collectors (quan_collectors_of ns g)) =
    [[], [], [], [''status''], [], [''result_class'', ''result_code''], [''result_class''], [''source''], [''source''], [''class'', ''code'']]"
  by (simp_all add: metric_of_def http_collectors_def quan_collectors_of_def collectors_def Let_def)

lemma collector_namespaces:
  "list_all (\<lambda>c. Coll_Namespace c = http_namespace cfg) (http_collectors (metric_of prom cfg))"
  "list_all (\<lambda>c. Coll_Namespace c = (if ns = '''' then ''mini_jupiter_quan'' else ns)) (collectors (quan_collectors_of ns g))"
  by (simp_all add: metric_of_def http_collectors_def quan_collectors_of_def collectors_def Let_def)

text \<open>A collector of a well-formed namespace is well-formed when its own name and labels are.\<close>

definition good_labels :: "string list \<Rightarrow> bool" where
  "good_labels ls \<longleftrightarrow> distinct ls \<and> list_all valid_label_name ls"

lemma well_formed_all:
  assumes "valid_metric_name ns" "\<not> built_in (ns @ ''_'')" "list_all (\<lambda>c. Coll_Namespace c = ns) cs"
    "list_all (list_all name_char) (map Coll_Name cs)" "list_all good_labels (map Coll_labels cs)"
  shows "list_all well_formed cs"
proof -
  have "well_formed c" if "Coll_Namespace c = ns" "list_all name_char (Coll_Name c)" "good_labels (Coll_labels c)" for c
  proof -
    have "valid_metric_name (fq_name c)"
      using assms(1) that name_char_underscore by (auto simp: fq_name_def valid_metric_name_def list_all_iff)
    then show ?thesis using assms(2) that built_in_namespace [of ns] by (auto simp: well_formed_def good_labels_def fq_name_def)
  qed
  then show ?thesis using assms(3-) by (simp add: list_all_iff)
qed

lemma source_names:
  "list_all (list_all name_char) [''http_requests_total'', ''http_request_duration_seconds'', ''http_inflight_requests'', ''http_error_total'']"
  "list_all (list_all name_char)
    [''outbox_pending'', ''task_retry_total'', ''task_dlq_total'', ''task_consume_total'', ''task_consume_fail_rate'', ''coupon_claim_total'',
     ''coupon_claim_duration_seconds'', ''task_recovery_total'', ''task_recovery_latency_seconds'', ''app_error_total'']"
  by code_simp+

lemma source_labels:
  "list_all good_labels
    [[''method'', ''path'', ''status'', ''status_class''], [''method'', ''path'', ''status'', ''status_class''], [''method'', ''path''], [''code'']]"
  "list_all good_labels
    [[], [], [], [''status''], [], [''result_class'', ''result_code''], [''result_class''], [''source''], [''source''], [''class'', ''code'']]"
  by code_simp+

lemma default_namespaces:
  "valid_metric_name ''mini_jupiter''" "valid_metric_name ''mini_jupiter_quan''"
  "\<not> built_in (''mini_jupiter'' @ ''_'')" "\<not> built_in (''mini_jupiter_quan'' @ ''_'')"
  by code_simp+

lemma collectors_well_formed:
  assumes "valid_namespace ns"
  shows "ns = Metric_Namespace cfg \<Longrightarrow> list_all well_formed (http_collectors (metric_of prom cfg))"
    "list_all well_formed (collectors (quan_collectors_of ns g))"
proof -
  assume "ns = Metric_Namespace cfg"
  then have "valid_metric_name (http_namespace cfg)" "\<not> built_in (http_namespace cfg @ ''_'')"
    using assms default_namespaces(1,3) by (auto simp only: valid_namespace_def http_namespace_def split: if_split)
  then show "list_all well_formed (http_collectors (metric_of prom cfg))"
    by (rule well_formed_all [OF _ _ collector_namespaces(1)]) (simp_all only: collector_names collector_labels source_names source_labels)
next
  let ?ns = "if ns = '''' then ''mini_jupiter_quan'' else ns"
  have "valid_metric_name ?ns" "\<not> built_in (?ns @ ''_'')"
    using assms default_namespaces(2,4) by (auto simp only: valid_namespace_def split: if_split)
  then show "list_all well_formed (collectors (quan_collectors_of ns g))"
    by (rule well_formed_all [OF _ _ collector_namespaces(2)]) (simp_all only: collector_names collector_labels source_names source_labels)
qed

lemma is_ascii_classify [simp]: "is_ascii (classifyAppError code)" "is_ascii (classifyAppErrorCode code)"
proof -
  show "is_ascii (classifyAppError code)" by (simp add: classifyAppError_def is_ascii_def)
  show "is_ascii (classifyAppErrorCode code)"
    using is_ascii_FormatInt [of code] by (simp add: classifyAppErrorCode_def is_ascii_def)
qed

lemma MustRegister_documented:
  assumes "registration_documented prom" "list_all well_formed cs" "distinct (map fq_name (regs reg @ cs))"
  shows "MustRegister prom reg cs regs = Inr (regs(reg := regs reg @ cs))"
  using assms by (simp add: registration_documented_def MustRegister_def)

text \<open>No two collectors of the process share a name: with one namespace by their own names, with the defaults by inspection.\<close>

lemma collector_names_distinct:
  "distinct (map fq_name (http_collectors (metric_of prom cfg) @ collectors (quan_collectors_of (Metric_Namespace cfg) g)))"
  by (cases "Metric_Namespace cfg = ''''")
    (simp_all add: metric_of_def http_collectors_def http_namespace_def quan_collectors_of_def collectors_def Let_def fq_name_def)

lemma metrics_created:
  assumes "registration_documented prom" "valid_namespace (Metric_Namespace cfg)"
  shows "metric_New prom cfg (\<lambda>_. []) = Inr (metric_of prom cfg, (\<lambda>_. [])(DefaultRegistry := http_collectors (metric_of prom cfg)))"
    "observability_New prom (Metric_Namespace cfg) None None ((\<lambda>_. [])(DefaultRegistry := http_collectors (metric_of prom cfg))) =
      Inr ((quan_collectors_of (Metric_Namespace cfg) DefaultRegistry, metrics_New), (\<lambda>_. [])(DefaultRegistry :=
        http_collectors (metric_of prom cfg) @ collectors (quan_collectors_of (Metric_Namespace cfg) DefaultRegistry)))"
proof -
  let ?m = "metric_of prom cfg" and ?q = "quan_collectors_of (Metric_Namespace cfg) DefaultRegistry"
  let ?regs1 = "(\<lambda>_. [])(DefaultRegistry := http_collectors ?m)"
  have names: "distinct (map fq_name (http_collectors ?m @ collectors ?q))" by (rule collector_names_distinct)
  then show "metric_New prom cfg (\<lambda>_. []) = Inr (?m, ?regs1)"
    using MustRegister_documented [OF assms(1) collectors_well_formed(1) [OF assms(2) refl], where regs = "\<lambda>_. []" and reg = DefaultRegistry]
    by (simp add: metric_New_def Let_def)
  from names show "observability_New prom (Metric_Namespace cfg) None None ?regs1 =
      Inr ((?q, metrics_New), (\<lambda>_. [])(DefaultRegistry := http_collectors ?m @ collectors ?q))"
    using MustRegister_documented [OF assms(1) collectors_well_formed(2) [OF assms(2)], where regs = ?regs1 and reg = DefaultRegistry]
    by (simp add: observability_New_def Let_def)
qed

section \<open>Properties\<close>

text \<open>
  C34. The metrics count what happened. After any sequence of calls on new metrics: the retry, dead-letter and consumption counters
  equal the number of the calls; the counter of claims has, for every class and code, the number of claims observed with them, and
  every class has one latency observation per claim; the counter of recoveries and its histogram have, for every source, the number of
  recoveries and the sum of their latencies; the counter of application errors has, for every class and code, the number of
  errors (CodeOK is none) filed there; the gauge of pending events has the last value set. As long as fewer
  than 2^64 tasks were consumed, the fail rate is the share of the failed ones, between 0 and 1.
\<close>

theorem metrics_count:
  "case apply_metrics cs (Some metrics_New) of
     None \<Rightarrow> False
   | Some m \<Rightarrow>
      (let good = count_list cs IncConsumeSuccess; bad = count_list cs IncConsumeFailure in
       QM_outboxPending m = last (0 # observed_pending cs) \<and>
       QM_taskRetryTotal m = count_list cs IncTaskRetry \<and> QM_taskDLQTotal m = count_list cs IncTaskDLQ \<and>
       QM_taskConsumeTotal m = (\<lambda>_. 0)(''success'' := good, ''failed'' := bad) \<and>
       QM_couponClaimTotal m = count_list (observed_claims cs) \<and>
       (\<forall>cls. Hist_count (QM_couponClaimLatency m cls) = length (filter (claim_label cls) cs)) \<and>
       QM_taskRecoveryTotal m = count_list (map fst (observed_recoveries cs)) \<and>
       (\<forall>source. Hist_count (QM_taskRecoveryLatency m source) = length (latencies source (observed_recoveries cs)) \<and>
          Hist_sum (QM_taskRecoveryLatency m source) = sum_list (latencies source (observed_recoveries cs))) \<and>
       QM_appErrorTotal m = count_list (observed_errors cs) \<and>
       (good + bad < 2 ^ 64 \<longrightarrow>
          QM_taskFailRate m = (if good + bad = 0 then 0 else of_nat bad / of_nat (good + bad)) \<and>
          0 \<le> QM_taskFailRate m \<and> QM_taskFailRate m \<le> 1))"
proof -
  obtain m where m: "apply_metrics cs (Some metrics_New) = Some m" "metrics_ok cs m" using metrics_ok_run by blast
  let ?good = "count_list cs IncConsumeSuccess" and ?bad = "count_list cs IncConsumeFailure"
  have "QM_taskFailRate m = (if ?good + ?bad = 0 then 0 else of_nat ?bad / of_nat (?good + ?bad))" if "?good + ?bad < 2 ^ 64"
    using m(2) fail_rate_of_nat [OF that] by (simp add: metrics_ok_def)
  with m show ?thesis by (simp add: metrics_ok_def Let_def)
qed

text \<open>Two good and one failed task, a retry, a claim and a recovery of each kind, errors and two counts of pending events.\<close>

definition sample_calls :: "metric_call list" where
  "sample_calls = [SetOutboxPending 9, IncConsumeSuccess, IncTaskRetry, IncConsumeFailure, ObserveCouponClaim ''success'' '''',
     ObserveTaskRecovery ''stale_running'' 30, ObserveAppError 404, ObserveAppError CodeOK, IncConsumeSuccess,
     ObserveTaskRecovery ''stale_running'' 12, SetOutboxPending 4]"

theorem metrics_count_witness:
  "\<exists>m. apply_metrics sample_calls (Some metrics_New) = Some m \<and>
       QM_taskConsumeTotal m ''success'' = 2 \<and> QM_taskFailRate m = 1 / 3 \<and> QM_outboxPending m = 4 \<and>
       QM_couponClaimTotal m (''success'', ''unknown'') = 1 \<and> Hist_sum (QM_taskRecoveryLatency m ''stale_running'') = 42 \<and>
       QM_appErrorTotal m (''client_error'', ''not_found'') = 1"
  using metrics_count [of sample_calls]
  by (simp add: sample_calls_def Let_def observed_defs or_unknown_def classifyAppError_def classifyAppErrorCode_def code_defs
      split: option.splits)

text \<open>
  C35. The metrics of the coupon server can be created and used. Let the Prometheus client behave as it documents and let the configured
  namespace be empty or a well-formed metric name that does not claim a built-in prefix. Then, in a fresh process, \<^verbatim>\<open>metric.New\<close> followed
  by \<^verbatim>\<open>observability.New\<close> with the same namespace registers fourteen collectors with different names and does not panic. Every call of
  \<^verbatim>\<open>WithLabelValues\<close> passes as many values as its collector has labels; the error counter gets values in UTF-8 for every code, and the HTTP metrics
  refuse nothing but a method or a path that is not UTF-8. A second \<^verbatim>\<open>metric.New\<close> in the same process panics.
\<close>

theorem metrics_register:
  assumes "registration_documented prom" "labels_documented prom" "valid_namespace (Metric_Namespace cfg)"
  shows "\<exists>m regs1 q regs2. metric_New prom cfg (\<lambda>_. []) = Inr (m, regs1) \<and>
    observability_New prom (Metric_Namespace cfg) None None regs1 = Inr ((q, metrics_New), regs2) \<and>
    length (regs2 DefaultRegistry) = 14 \<and> distinct (map fq_name (regs2 DefaultRegistry)) \<and>
    (\<forall>call. list_all (\<lambda>(c, vs). c \<in> set (regs2 DefaultRegistry) \<and> length vs = length (Coll_labels c)) (label_values call q)) \<and>
    (\<forall>code. list_all (\<lambda>(c, vs). list_all ValidString vs) (label_values (ObserveAppError code) q)) \<and>
    (\<forall>code. Prom_With prom (errCount m) (error_labels code) = None) \<and>
    (\<forall>meth path. Prom_With prom (inFlight m) (in_flight_labels meth path) = None \<longleftrightarrow> ValidString meth \<and> ValidString path) \<and>
    (\<forall>meth path status. Prom_With prom (reqCount m) (request_labels meth path status) = None \<longleftrightarrow> ValidString meth \<and> ValidString path) \<and>
    (\<exists>p. metric_New prom cfg regs1 = Inl p)"
proof -
  let ?m = "metric_of prom cfg" and ?q = "quan_collectors_of (Metric_Namespace cfg) DefaultRegistry"
  let ?regs1 = "(\<lambda>_. [])(DefaultRegistry := http_collectors ?m)"
  let ?regs2 = "(\<lambda>_. [])(DefaultRegistry := http_collectors ?m @ collectors ?q)"
  have names: "distinct (map fq_name (http_collectors ?m @ collectors ?q))" by (rule collector_names_distinct)
  note made = metrics_created [OF assms(1,3)]
  have "reqCount ?m \<in> set (http_collectors ?m)" by (simp add: http_collectors_def)
  then have "Prom_MustRegister prom DefaultRegistry (http_collectors ?m) (http_collectors ?m) \<noteq> None"
    using assms(1) unfolding registration_documented_def by blast
  then have again: "\<exists>p. metric_New prom cfg ?regs1 = Inl p" by (auto simp: metric_New_def MustRegister_def Let_def)
  have counts: "list_all (\<lambda>(c, vs). c \<in> set (collectors ?q) \<and> length vs = length (Coll_labels c)) (label_values call ?q)" for call
    by (cases call) (simp_all add: quan_collectors_of_def collectors_def Let_def)
  have utf8: "list_all (\<lambda>(c, vs). list_all ValidString vs) (label_values (ObserveAppError code) ?q)" for code
    by (simp add: ValidString_ascii)
  have size: "length (http_collectors ?m @ collectors ?q) = 14" by (simp add: http_collectors_def collectors_def)
  show ?thesis
    by (intro exI [of _ ?m] exI [of _ ?regs1] exI [of _ ?q] exI [of _ ?regs2] conjI made again)
      (use names size counts utf8 metric_With [OF assms(2)] in \<open>auto simp: list_all_iff split_beta\<close>)
qed

text \<open>A client that keeps to its documentation.\<close>

definition demo_prometheus :: prometheus where
  "demo_prometheus = \<lparr>
     Prom_MustRegister = \<lambda>reg old cs.
       if list_all well_formed cs \<and> distinct (map fq_name (old @ cs)) then None else Some ''duplicate metrics collector registration attempted'',
     Prom_With = \<lambda>c ls. if declared c ls \<and> list_all ValidString (map snd ls) then None else Some ''inconsistent label''\<rparr>"

lemma demo_prometheus_documented: "registration_documented demo_prometheus" "labels_documented demo_prometheus"
  by (auto simp: registration_documented_def labels_documented_def demo_prometheus_def)

definition demo_metric :: MetricConfig where
  "demo_metric = \<lparr>Metric_Enabled = True, Metric_Path = ''/metrics'', Metric_Namespace = ''mini_jupiter_quan''\<rparr>"

lemma demo_metric_namespace: "valid_namespace (Metric_Namespace demo_metric)"
  by code_simp

theorem metrics_register_witness:
  "\<exists>m regs1 q regs2. metric_New demo_prometheus demo_metric (\<lambda>_. []) = Inr (m, regs1) \<and>
     observability_New demo_prometheus (Metric_Namespace demo_metric) None None regs1 = Inr ((q, metrics_New), regs2) \<and>
     length (regs2 DefaultRegistry) = 14 \<and> (\<exists>p. metric_New demo_prometheus demo_metric regs1 = Inl p)"
  using metrics_register [OF demo_prometheus_documented demo_metric_namespace] by blast

text \<open>
  The two classifications of an application error agree on the codes that the server uses:
  the class under which the error counter files a code is the class under which the claim counter
  files an error of that code exactly for the four client codes and for every code from 500 on. On the others
  (say 403, which the claim counter takes for a server error) they differ.
\<close>

theorem classifiers_agree:
  "classifyAppError code = classifyClaimResult (Some (AppError code msg cause)) \<longleftrightarrow>
     code \<in> {CodeBadRequest, CodeNotFound, CodeConflict, CodeTooManyRequests} \<or> 500 \<le> code"
  by (simp add: classifyAppError_def classifyClaimResult_def HTTPStatus_def code_defs Let_def)

end
