(* ===== verification/QuanMain.thy ===== *)
theory QuanMain
  imports QuanSystem HttpMux PkgClients Migration Observability
begin

text \<open>
  examples/Quan/main.go: how the server is put together and what it then does. \<open>quan_wire\<close> follows \<^verbatim>\<open>main\<close> from the
  loaded configuration to the list of components and the HTTP handler; a \<^verbatim>\<open>Fatal\<close> log line and a panic
  end it with a failure. The server that it returns makes the steps of \<open>server_step\<close>: it serves requests
  through its middlewares and its router, and its background components make their rounds, in any order.
  The refinement lemma says that all of these are runs of the transition system of QuanSystem, whatever the configuration. The last
  section shows what the middlewares do around the routes of this server.
\<close>

section \<open>Configuration\<close>

record QuanConfig =
  Cfg_Addr :: string
  Cfg_Log :: LogConfig
  Cfg_Metric :: MetricConfig
  Cfg_Redis :: RedisConfig
  Cfg_MySQL :: MySQLConfig
  Cfg_Migration :: MigrationConfig
  Cfg_Queue :: QueueConfig
  Cfg_Consume :: ConsumeConfig
  Cfg_Compensation :: CompensationConfig
  Cfg_Relay :: RelayConfig
  Cfg_Recovery :: bool
  Cfg_TraceID :: bool
  Cfg_Logging :: bool

abbreviation Cfg_MetricEnabled :: "QuanConfig \<Rightarrow> bool" where
  "Cfg_MetricEnabled cfg \<equiv> Metric_Enabled (Cfg_Metric cfg)"

abbreviation Cfg_MetricPath :: "QuanConfig \<Rightarrow> string" where
  "Cfg_MetricPath cfg \<equiv> Metric_Path (Cfg_Metric cfg)"

section \<open>The HTTP side\<close>

text \<open>What a request gets from the machine: random bytes for its trace id and two random numbers for reservations.\<close>

record entropy =
  En_trace :: "nat list option"
  En_rnd1 :: int
  En_rnd2 :: int

text \<open>The printers of times and of the metrics, and the Prometheus client, which are not code of the repository.\<close>

record printers =
  Pr_rfc3339 :: "int \<Rightarrow> string"
  Pr_rfc3339milli :: "int \<Rightarrow> string"
  Pr_exposition :: "metric_call list \<Rightarrow> string"
  Pr_prom :: prometheus

definition to_request :: "Request \<Rightarrow> body_request" where
  "to_request r = \<lparr>Req_Header = Rq_Header r, Req_PathValue = Rq_PathValue r, Req_Context = Rq_Ctx r, Req_Body = Rq_Body r\<rparr>"

definition write_response :: "response outcome \<Rightarrow> (world exchange, unit outcome) state" where
  "write_response out = (case out of
     Panicked p \<Rightarrow> ret (Panicked p)
   | Returned (Inl e) \<Rightarrow> ret (Returned (Inl e))
   | Returned (Inr resp) \<Rightarrow> do {
       _ \<leftarrow> SetHeader ''Content-Type'' ''application/json'';
       _ \<leftarrow> WriteHeader (rs_status resp);
       _ \<leftarrow> (case rs_body resp of None \<Rightarrow> ret () | Some b \<Rightarrow> Write (Json b));
       ret finished })"

definition as_handler :: "(body_request \<Rightarrow> response outcome io) \<Rightarrow> world Handler" where
  "as_handler h r = do { out \<leftarrow> in_state (h (to_request r)); write_response out }"

definition returning :: "response io \<Rightarrow> response outcome io" where
  "returning m = do { resp \<leftarrow> m; ret (Returned (Inr resp)) }"

text \<open>\<^verbatim>\<open>handler.Register\<close> and \<^verbatim>\<open>taskHTTPHandler.Register\<close>.\<close>

definition coupon_Register :: "printers \<Rightarrow> entropy \<Rightarrow> reporter \<Rightarrow> coupon_Handler \<Rightarrow> (string \<times> world Handler) list" where
  "coupon_Register pr en rep h = zip coupon_routes
     [as_handler (\<lambda>r. returning (claimCoupon (Pr_rfc3339 pr) rep h (En_rnd1 en) (En_rnd2 en) (http_request.truncate r))),
      as_handler (\<lambda>r. returning (getMyClaim rep (http_request.truncate r)))]"

definition task_Register :: "printers \<Rightarrow> reporter \<Rightarrow> task_Service \<Rightarrow> (string \<times> world Handler) list" where
  "task_Register pr rep s = zip task_routes
     [as_handler (createTask rep s), as_handler (getTask (Pr_rfc3339milli pr) rep), as_handler (replayTask rep s)]"

definition metrics_handler :: "printers \<Rightarrow> world Handler" where
  "metrics_handler pr r = do {
     x \<leftarrow> State_Monad.get;
     _ \<leftarrow> WriteHeader 200;
     _ \<leftarrow> Write (Text (Pr_exposition pr (w_metrics (Ex_state x))));
     ret finished }"

definition quan_routes :: "QuanConfig \<Rightarrow> printers \<Rightarrow> entropy \<Rightarrow> coupon_Service \<Rightarrow> task_Service \<Rightarrow> (string \<times> world Handler) list" where
  "quan_routes cfg pr en svc taskService =
     (let m = Cfg_MetricEnabled cfg; rep = metrics_reporter m;
          metricPath = (if Cfg_MetricPath cfg = '''' then ''/metrics'' else Cfg_MetricPath cfg)
      in [(''GET /ping'', ping)] @ (if m then [(metricPath, metrics_handler pr)] else []) @
         coupon_Register pr en rep (Handler_SetMetrics m (coupon_NewHandler svc)) @
         task_Register pr rep taskService)"

definition quan_middlewares :: "QuanConfig \<Rightarrow> http_metrics option \<Rightarrow> entropy \<Rightarrow> world Middleware list" where
  "quan_middlewares cfg httpMetrics en =
     (if Cfg_Recovery cfg then [Recovery] else []) @ (if Cfg_TraceID cfg then [TraceID (En_trace en)] else []) @
     (if Cfg_Logging cfg then [Logging httpMetrics] else [])"

section \<open>Wiring\<close>

datatype startup_failure = Fatal string goerr | MainPanics string

definition or_fatal :: "string \<Rightarrow> 'a result \<Rightarrow> ('a \<Rightarrow> startup_failure + 'b) \<Rightarrow> startup_failure + 'b" where
  "or_fatal msg r k = (case r of Inl e \<Rightarrow> Inl (Fatal msg e) | Inr a \<Rightarrow> k a)"

definition NewTxManager :: "bool \<Rightarrow> unit result" where
  "NewTxManager db = (if \<not> db then Inl (ErrNew ''tx manager db is nil'') else Inr ())"

datatype quan_part = MySQLPart | MigrationPart | RedisPart | RelayPart | ConsumerPart | CompensatorPart | HttpPart

record quan_async =
  Async_queue :: QueueConfig
  Async_relay :: "world Relay"
  Async_consumer :: "world Consumer"
  Async_compensator :: "world Compensator"

record quan_server =
  Srv_cfg :: QuanConfig
  Srv_pool :: sql_pool
  Srv_migration :: "MigrationConfig option"
  Srv_relay :: "world Relay option"
  Srv_consumer :: "world Consumer option"
  Srv_compensator :: "world Compensator option"
  Srv_service :: coupon_Service
  Srv_tasks :: task_Service
  Srv_httpMetrics :: "http_metrics option"
  Srv_parts :: "quan_part list"

text \<open>What is built only when there is a Redis client.\<close>

definition wire_async :: "QuanConfig \<Rightarrow> startup_failure + quan_async" where
  "wire_async cfg =
     or_fatal ''task queue init failed'' (NewQueue True (Cfg_Queue cfg)) (\<lambda>q.
     or_fatal ''outbox relay init failed'' (NewRelay (Some outbox_repository) (Some (queue_publisher q)) (Cfg_Relay cfg)) (\<lambda>relay.
     let registry = Registry_Register NewHandlerRegistry TaskTypeSendCouponNotice SendCouponNoticeHandler in
     or_fatal ''task consumer init failed''
       (NewConsumer (Some task_repository) (Some (task_queue q)) (Some registry) (Cfg_Consume cfg)) (\<lambda>c.
     or_fatal ''task compensator init failed''
       (NewCompensator (Some compensation_repository) (Some (compensation_queue q)) (Cfg_Compensation cfg)) (\<lambda>p.
     Inr \<lparr>Async_queue = q, Async_relay = relay, Async_consumer = c, Async_compensator = p\<rparr>))))"

text \<open>The two metrics objects, registered in this order; a refusal of the client is a panic of \<^verbatim>\<open>main\<close>.\<close>

definition quan_metrics :: "prometheus \<Rightarrow> QuanConfig \<Rightarrow> string + (http_metrics \<times> quan_collectors) option" where
  "quan_metrics prom cfg =
     (if Cfg_MetricEnabled cfg then
        (case metric_New prom (Cfg_Metric cfg) (\<lambda>_. []) of
           Inl p \<Rightarrow> Inl p
         | Inr (httpMetrics, regs) \<Rightarrow>
             (case observability_New prom (Metric_Namespace (Cfg_Metric cfg)) None None regs of
                Inl p \<Rightarrow> Inl p
              | Inr ((quanMetrics, _), _) \<Rightarrow> Inr (Some (httpMetrics, quanMetrics))))
      else Inr None)"

text \<open>
  The rest of \<^verbatim>\<open>main\<close>, once the stores are there: services, routes, metrics and components. The mux is built once; its handlers
  get the random numbers of each request, so the routes are registered here with those of an arbitrary one to see whether
  registration panics. With Redis disabled the variable \<^verbatim>\<open>taskQueue\<close> is a nil pointer and the task
  service gets it as a non-nil interface (\<open>NilQueue\<close>).
\<close>

definition quan_assemble ::
  "QuanConfig \<Rightarrow> printers \<Rightarrow> entropy \<Rightarrow> sql_pool \<Rightarrow> MigrationConfig option \<Rightarrow> bool \<Rightarrow> quan_async option \<Rightarrow> startup_failure + quan_server"
where
  "quan_assemble cfg pr en pool migrationComp redis async =
     (let retries = Consume_DefaultMaxRetry (Cfg_Consume cfg); m = Cfg_MetricEnabled cfg;
          svc = coupon_NewService (coupon_NewRepository True True retries) redis;
          taskService = NewServiceWithQueue (case async of None \<Rightarrow> NilQueue | Some a \<Rightarrow> RedisQueue (Async_queue a)) retries in
      case quan_metrics (Pr_prom pr) cfg of Inl p \<Rightarrow> Inl (MainPanics p) | Inr metrics \<Rightarrow> (
      case mux_routes (quan_routes cfg pr en svc taskService) [] of
        None \<Rightarrow> Inl (MainPanics ''http: invalid or conflicting pattern'')
      | Some _ \<Rightarrow>
          Inr \<lparr>Srv_cfg = cfg, Srv_pool = pool, Srv_migration = migrationComp,
               Srv_relay = Relay_SetMetrics (map_option Async_relay async) (if m then Some outbox_metrics else None),
               Srv_consumer = Consumer_SetMetrics (map_option Async_consumer async) (if m then Some consumer_counters else None),
               Srv_compensator = Compensator_SetMetrics (map_option Async_compensator async) (if m then Some recovery_metrics else None),
               Srv_service = svc, Srv_tasks = taskService, Srv_httpMetrics = map_option fst metrics,
               Srv_parts = [MySQLPart, MigrationPart] @ (if redis then [RedisPart] else []) @
                 (if async \<noteq> None then [RelayPart, ConsumerPart, CompensatorPart] else []) @ [HttpPart]\<rparr>))"

text \<open>\<^verbatim>\<open>main\<close> from the loaded configuration on.\<close>

definition quan_wire :: "(string \<Rightarrow> unit result) \<Rightarrow> 'c goredis \<Rightarrow> printers \<Rightarrow> entropy \<Rightarrow> QuanConfig \<Rightarrow> startup_failure + quan_server" where
  "quan_wire parse_dsn gr pr en cfg =
     or_fatal ''mysql init failed'' (mysql_NewComponent parse_dsn (Cfg_MySQL cfg)) (\<lambda>mysqlComp.
     or_fatal ''migration init failed'' (NewMigrationComponent True (Cfg_Migration cfg)) (\<lambda>migrationComp.
     or_fatal ''tx manager init failed'' (NewTxManager True) (\<lambda>_.
     if Redis_Enabled (Cfg_Redis cfg) then
       or_fatal ''redis init failed'' (redis_NewComponent gr (Cfg_Redis cfg)) (\<lambda>redisComp.
         case wire_async cfg of
           Inl e \<Rightarrow> Inl e
         | Inr async \<Rightarrow> quan_assemble cfg pr en (snd mysqlComp) migrationComp True (Some async))
     else quan_assemble cfg pr en (snd mysqlComp) migrationComp False None)))"

text \<open>\<^verbatim>\<open>main\<close> as a whole: \<open>load\<close> is what \<^verbatim>\<open>config.Load\<close> answers for the path and \<open>log_init\<close> what \<^verbatim>\<open>applog.Init\<close> answers.\<close>

definition quan_config_path :: "string \<Rightarrow> string" where
  "quan_config_path env = (if env = '''' then ''examples/Quan/config.yaml'' else env)"

definition quan_main ::
  "string \<Rightarrow> (string \<Rightarrow> QuanConfig result) \<Rightarrow> (LogConfig \<Rightarrow> unit result) \<Rightarrow> (string \<Rightarrow> unit result) \<Rightarrow> 'c goredis \<Rightarrow> printers \<Rightarrow> entropy \<Rightarrow>
     startup_failure + quan_server"
where
  "quan_main env load log_init parse_dsn gr pr en = (case load (quan_config_path env) of
     Inl err \<Rightarrow> Inl (MainPanics (errstr err))
   | Inr cfg \<Rightarrow> (case log_init (Cfg_Log cfg) of
       Inl err \<Rightarrow> Inl (MainPanics (errstr err))
     | Inr _ \<Rightarrow> quan_wire parse_dsn gr pr en cfg))"

text \<open>The components in the order of the \<^verbatim>\<open>Use\<close> calls; \<open>component\<close> gives each part its life cycle.\<close>

definition quan_app :: "(quan_part \<Rightarrow> 's Component) \<Rightarrow> quan_server \<Rightarrow> 's App" where
  "quan_app component srv = App_Use (map component (Srv_parts srv)) (NewWithOptions [WithStopTimeout (10 * Second)])"

text \<open>\<^verbatim>\<open>httpComponent\<close>: whether the listener is open; \<open>listen\<close> and \<open>shutdown\<close> are what the network answers.\<close>

definition httpComponent :: "unit result \<Rightarrow> (deadline \<Rightarrow> unit result) \<Rightarrow> bool Component" where
  "httpComponent listen shutdown =
     \<lparr>Component_Start = (\<lambda>_. State (\<lambda>open. case listen of Inl e \<Rightarrow> (Inl e, open) | Inr _ \<Rightarrow> (Inr (), True))),
      Component_Stop = (\<lambda>ctx. State (\<lambda>open. (shutdown ctx, False)))\<rparr>"

definition quan_router :: "printers \<Rightarrow> entropy \<Rightarrow> quan_server \<Rightarrow> world Handler" where
  "quan_router pr en srv =
     mux_ServeHTTP (the (mux_routes (quan_routes (Srv_cfg srv) pr en (Srv_service srv) (Srv_tasks srv)) []))"

definition quan_handler :: "printers \<Rightarrow> entropy \<Rightarrow> quan_server \<Rightarrow> world Handler" where
  "quan_handler pr en srv = Chain (quan_middlewares (Srv_cfg srv) (Srv_httpMetrics srv) en) (quan_router pr en srv)"


section \<open>What the server does\<close>

text \<open>A request, rounds of a background component, the passing of time, faults to come, and a loss of Redis keys.\<close>

inductive server_step :: "printers \<Rightarrow> quan_server \<Rightarrow> world \<Rightarrow> world \<Rightarrow> bool" for pr srv where
  srv_request: "server_step pr srv w (Ex_state (final (quan_handler pr en srv r) (new_exchange w)))"
| srv_relay: "RelayPart \<in> set (Srv_parts srv) \<Longrightarrow>
    server_step pr srv w (final (Relay_StartStop time_Now (Srv_relay srv) n) w)"
| srv_consumer: "ConsumerPart \<in> set (Srv_parts srv) \<Longrightarrow>
    server_step pr srv w (final (Consumer_StartStop (Srv_consumer srv) ctx bs) w)"
| srv_compensator: "CompensatorPart \<in> set (Srv_parts srv) \<Longrightarrow>
    server_step pr srv w (final (Compensator_StartStop time_Now (Srv_compensator srv) n) w)"
| srv_environment: "w_now w \<le> t \<Longrightarrow> server_step pr srv w (w\<lparr>w_now := t, w_ticks := ticks, w_faults := faults\<rparr>)"
| srv_redis_loss: "(\<And>k. m k = w_kv w k \<or> m k = None) \<Longrightarrow> server_step pr srv w (w\<lparr>w_kv := m\<rparr>)"

abbreviation server_run :: "printers \<Rightarrow> quan_server \<Rightarrow> world \<Rightarrow> world \<Rightarrow> bool" where
  "server_run pr srv \<equiv> (server_step pr srv)\<^sup>*\<^sup>*"

section \<open>Handlers make system steps\<close>

interpretation quan_frame: step_frame "quan_run q" for q
  by unfold_locales simp_all

interpretation http_frame: step_frame "\<lambda>x y. quan_run q (Ex_state x) (Ex_state y)" for q
  by unfold_locales simp_all

lemma quan_step_calm:
  assumes "w_db w' = w_db w" "w_tx w' = w_tx w" "w_kv w' = w_kv w" "w_now w \<le> w_now w'"
  shows "quan_run q w w'"
proof -
  have "w' = w\<lparr>w_now := w_now w', w_ticks := w_ticks w', w_faults := w_faults w', w_metrics := w_metrics w'\<rparr>"
    using assms by simp
  then have "quan_step q w w'" using step_world [OF assms(4)] by metis
  then show ?thesis by blast
qed

lemma quan_calm_kept:
  "quan_frame.kept q time_Now" "quan_frame.kept q (metric c)" "quan_frame.kept q (db_exec (query_row f))"
  by (rule quan_frame.keptI, auto intro!: wp_time_Now wp_db_exec quan_step_calm simp: query_row_def split: option.split)+

lemma quan_ops_kept:
  "quan_frame.kept q (Claim (coupon_NewService (coupon_NewRepository True True n) cache) ctx rnd1 rnd2 cid uid idem)"
  "quan_frame.kept q (CreateTask (NewServiceWithQueue queue n) req)"
  "queue \<in> {RedisQueue q, NilQueue} \<Longrightarrow> quan_frame.kept q (ReplayDLQTask (NewServiceWithQueue queue n) taskID)"
  by (auto intro!: quan_frame.keptI quan_step.intros r_into_rtranclp simp: wp_iff)


lemma report_kept: "quan_frame.kept q (WriteHTTPWithContext (metrics_reporter m) c err)"
  unfolding WriteHTTPWithContext_def report_def metrics_reporter_def Let_def
  by (auto intro!: quan_frame.kept_rules quan_calm_kept split: option.split goerr.split)

lemma observe_kept: "quan_frame.kept q (observeClaim h a b)"
  unfolding observeClaim_def by (intro quan_frame.kept_rules quan_calm_kept)

lemma coupon_handlers_kept:
  assumes "Handler_svc h = coupon_NewService (coupon_NewRepository True True n) cache"
  shows "quan_frame.kept q (claimCoupon pr (metrics_reporter m) h rnd1 rnd2 r)" "quan_frame.kept q (getMyClaim (metrics_reporter m) r)"
  unfolding claimCoupon_def refuse_claim_def getMyClaim_def GetMyClaim_def FindClaimByUser_def assms Let_def
  by (intro quan_frame.kept_rules quan_ops_kept quan_calm_kept report_kept observe_kept)+

lemma task_handlers_kept:
  assumes "queue \<in> {RedisQueue q, NilQueue}"
  shows "quan_frame.kept q (createTask (metrics_reporter m) (NewServiceWithQueue queue n) r)"
    "quan_frame.kept q (getTask pr (metrics_reporter m) r)"
    "quan_frame.kept q (replayTask (metrics_reporter m) (NewServiceWithQueue queue n) r)"
proof -
  show "quan_frame.kept q (createTask (metrics_reporter m) (NewServiceWithQueue queue n) r)"
    unfolding createTask_def refuse_task_def by (intro quan_frame.kept_rules quan_ops_kept report_kept)
  show "quan_frame.kept q (getTask pr (metrics_reporter m) r)"
    unfolding getTask_def refuse_task_def GetTask_def task_GetByID_def
    by (intro quan_frame.kept_rules quan_calm_kept report_kept)
  have "quan_frame.kept q (case out of
         Panicked p \<Rightarrow> ret (Panicked p)
       | Returned (Inl err) \<Rightarrow> do {
           resp \<leftarrow> WriteHTTPWithContext (metrics_reporter m) (Req_Context r) (Some err); ret (Returned (Inr resp)) }
       | Returned (Inr _) \<Rightarrow> ret (Returned (Inr x)))" for out :: "unit outcome" and x
    by (auto intro!: quan_frame.kept_rules report_kept split: outcome.split sum.split)
  then show "quan_frame.kept q (replayTask (metrics_reporter m) (NewServiceWithQueue queue n) r)"
    unfolding replayTask_def refuse_task_def
    by (intro quan_frame.kept_rules report_kept quan_ops_kept assms)
qed

lemma http_calm:
  assumes "\<And>x. Ex_state (f x) = Ex_state x" shows "http_frame.kept q (State_Monad.update f)"
  by (rule http_frame.keptI) (simp add: assms)

lemma http_prims_kept:
  "http_frame.kept q (on_writer f)" "http_frame.kept q (http_metric m)" "http_frame.kept q State_Monad.get"
  "http_frame.kept q (path_label r)" "http_frame.kept q (WriteHeader code)" "http_frame.kept q (Write c)"
  "http_frame.kept q (SetHeader k v)" "http_frame.kept q (http_Error msg code)"
  by (auto intro!: http_frame.keptI simp: WriteHeader_def Write_def SetHeader_def http_Error_def)

lemma in_state_kept: "quan_frame.kept q m \<Longrightarrow> http_frame.kept q (in_state m)"
  by (rule http_frame.keptI) (simp add: quan_frame.kept_wp)

lemma as_handler_kept: "(\<And>r. quan_frame.kept q (h r)) \<Longrightarrow> http_frame.kept q (as_handler h r)"
  unfolding as_handler_def write_response_def
  by (intro http_frame.kept_bind in_state_kept)
    (auto intro!: http_frame.kept_rules http_prims_kept split: outcome.split sum.split)

section \<open>The middlewares and the router\<close>

definition handler_kept_by :: "QueueConfig \<Rightarrow> world Handler \<Rightarrow> bool" where
  "handler_kept_by q h \<longleftrightarrow> (\<forall>r. http_frame.kept q (h r))"

lemma middlewares_kept:
  assumes "handler_kept_by q h" "mw \<in> set (quan_middlewares cfg ms en)"
  shows "handler_kept_by q (mw h)"
proof -
  have nxt: "http_frame.kept q (h r)" for r using assms(1) by (simp add: handler_kept_by_def)
  have "http_frame.kept q (Recovery h r)" for r
    unfolding Recovery_def
    by (auto intro!: http_frame.kept_rules http_prims_kept nxt split: outcome.split)
  moreover have "http_frame.kept q (TraceID rnd h r)" for rnd r
    unfolding TraceID_def Let_def by (intro http_frame.kept_rules http_prims_kept nxt)
  moreover have "http_frame.kept q (Logging m h r)" for m r
    unfolding Logging_def IncInFlight_def DecInFlight_def Metrics_Observe_def with_labels_def Let_def
    by (auto intro!: http_frame.kept_rules http_prims_kept http_calm nxt split: outcome.split option.split)
  ultimately show ?thesis using assms(2) by (auto simp: handler_kept_by_def quan_middlewares_def split: if_splits)
qed

lemma Chain_kept: "handler_kept_by q h \<Longrightarrow> handler_kept_by q (Chain (quan_middlewares cfg m en) h)"
proof -
  have "handler_kept_by q h \<Longrightarrow> set ms \<subseteq> set (quan_middlewares cfg m en) \<Longrightarrow> handler_kept_by q (Chain ms h)" for ms
    by (induction ms) (auto intro: middlewares_kept)
  then show "handler_kept_by q h \<Longrightarrow> handler_kept_by q (Chain (quan_middlewares cfg m en) h)" by simp
qed

lemma mux_kept:
  assumes "\<And>p h. (p, h) \<in> set m \<Longrightarrow> handler_kept_by q h"
  shows "handler_kept_by q (mux_ServeHTTP m)"
  unfolding handler_kept_by_def mux_ServeHTTP_def
  using assms best_match_member [of m]
  by (auto intro!: http_frame.kept_rules http_prims_kept http_calm simp: handler_kept_by_def split: option.split)
    (meson handler_kept_by_def)


section \<open>What main wires\<close>

lemma or_fatal_Inr: "or_fatal msg r k = Inr x \<longleftrightarrow> (\<exists>a. r = Inr a \<and> k a = Inr x)"
  by (cases r) (simp_all add: or_fatal_def)

lemma quan_wire_cases:
  assumes "quan_wire parse_dsn gr pr en cfg = Inr srv"
  obtains (redis) pool mig async where "Redis_Enabled (Cfg_Redis cfg)" "wire_async cfg = Inr async"
      "quan_assemble cfg pr en pool mig True (Some async) = Inr srv"
    | (plain) pool mig where "\<not> Redis_Enabled (Cfg_Redis cfg)" "quan_assemble cfg pr en pool mig False None = Inr srv"
proof (cases "Redis_Enabled (Cfg_Redis cfg)")
  case True
  with assms obtain pool mig where "(case wire_async cfg of Inl e \<Rightarrow> Inl e
      | Inr async \<Rightarrow> quan_assemble cfg pr en pool mig True (Some async)) = Inr srv"
    unfolding quan_wire_def by (auto simp: or_fatal_Inr)
  with True show ?thesis using that(1) by (cases "wire_async cfg") auto
next
  case False
  with assms show ?thesis using that(2) unfolding quan_wire_def by (auto simp: or_fatal_Inr)
qed

lemma quan_main_wired:
  "quan_main env load log_init parse_dsn gr pr en = Inr srv \<Longrightarrow>
    \<exists>cfg. load (quan_config_path env) = Inr cfg \<and> quan_wire parse_dsn gr pr en cfg = Inr srv"
  by (auto simp: quan_main_def split: sum.splits)

lemma quan_assemble_parts:
  assumes "quan_assemble cfg pr en pool mig redis async = Inr srv"
  shows "Srv_cfg srv = cfg"
    "Srv_service srv = coupon_NewService (coupon_NewRepository True True (Consume_DefaultMaxRetry (Cfg_Consume cfg))) redis"
    "Srv_tasks srv = NewServiceWithQueue (case async of None \<Rightarrow> NilQueue | Some a \<Rightarrow> RedisQueue (Async_queue a))
       (Consume_DefaultMaxRetry (Cfg_Consume cfg))"
    "Srv_parts srv = [MySQLPart, MigrationPart] @ (if redis then [RedisPart] else []) @
       (if async \<noteq> None then [RelayPart, ConsumerPart, CompensatorPart] else []) @ [HttpPart]"
    "mux_routes (quan_routes cfg pr en (Srv_service srv) (Srv_tasks srv)) [] \<noteq> None"
    "Srv_relay srv = Relay_SetMetrics (map_option Async_relay async) (if Cfg_MetricEnabled cfg then Some outbox_metrics else None)"
    "Srv_consumer srv = Consumer_SetMetrics (map_option Async_consumer async) (if Cfg_MetricEnabled cfg then Some consumer_counters else None)"
    "Srv_compensator srv = Compensator_SetMetrics (map_option Async_compensator async)
       (if Cfg_MetricEnabled cfg then Some recovery_metrics else None)"
    "\<exists>ms. quan_metrics (Pr_prom pr) cfg = Inr ms \<and> Srv_httpMetrics srv = map_option fst ms"
  using assms unfolding quan_assemble_def Let_def by (auto split: option.splits sum.splits simp del: Option.option.map_sel)


lemma wire_async_parts:
  assumes "wire_async cfg = Inr a"
  defines "q \<equiv> QueueConfig_withDefaults (Cfg_Queue cfg)"
  shows "Async_queue a = q"
    "NewRelay (Some outbox_repository) (Some (queue_publisher q)) (Cfg_Relay cfg) = Inr (Async_relay a)"
    "NewConsumer (Some task_repository) (Some (task_queue q)) (Some quan_registry) (Cfg_Consume cfg) = Inr (Async_consumer a)"
    "NewCompensator (Some compensation_repository) (Some (compensation_queue q)) (Cfg_Compensation cfg) = Inr (Async_compensator a)"
  using assms by (auto simp: wire_async_def or_fatal_Inr NewQueue_def quan_registry_def Let_def)

text \<open>From \<^verbatim>\<open>Start\<close> to \<^verbatim>\<open>Stop\<close> a wired component runs its loop on the wired ports, or nothing when it is disabled.\<close>

lemma wired_relay:
  assumes "NewRelay (Some outbox_repository) (Some (queue_publisher q)) c = Inr r"
  shows "Relay_StartStop time_Now (Relay_SetMetrics (Some r) (if m then Some outbox_metrics else None)) n = ret () \<or>
    (\<exists>cfg. Relay_StartStop time_Now (Relay_SetMetrics (Some r) (if m then Some outbox_metrics else None)) n =
       relay_run time_Now cfg (relay_wiring m q) n)"
  using assms by (auto simp: NewRelay_def Relay_SetMetrics_def Relay_StartStop_def relay_wiring_def Let_def split: if_splits)

lemma wired_consumer:
  assumes "NewConsumer (Some task_repository) (Some (task_queue q)) (Some quan_registry) c = Inr r"
  shows "Consumer_StartStop (Consumer_SetMetrics (Some r) (if m then Some consumer_counters else None)) ctx bs = ret () \<or>
    (\<exists>cfg. Consumer_StartStop (Consumer_SetMetrics (Some r) (if m then Some consumer_counters else None)) ctx bs =
       consumer_schedule (consumer_wiring m q) cfg ctx bs)"
  using assms by (auto simp: NewConsumer_def Consumer_SetMetrics_def Consumer_StartStop_def consumer_wiring_def Let_def split: if_splits)

lemma wired_compensator:
  assumes "NewCompensator (Some compensation_repository) (Some (compensation_queue q)) c = Inr r"
  shows "Compensator_StartStop time_Now (Compensator_SetMetrics (Some r) (if m then Some recovery_metrics else None)) n = ret () \<or>
    (\<exists>cfg. Compensator_StartStop time_Now (Compensator_SetMetrics (Some r) (if m then Some recovery_metrics else None)) n =
       compensator_run time_Now cfg (compensator_wiring m q) n)"
  using assms
  by (auto simp: NewCompensator_def Compensator_SetMetrics_def Compensator_StartStop_def compensator_wiring_def Let_def split: if_splits)

lemma quan_routes_kept:
  assumes "queue \<in> {RedisQueue q, NilQueue}"
    and "(t, h) \<in> set (quan_routes cfg pr en (coupon_NewService (coupon_NewRepository True True n) cache) (NewServiceWithQueue queue k))"
  shows "handler_kept_by q h"
proof -
  let ?h = "Handler_SetMetrics (Cfg_MetricEnabled cfg) (coupon_NewHandler (coupon_NewService (coupon_NewRepository True True n) cache))"
  have svc: "Handler_svc ?h = coupon_NewService (coupon_NewRepository True True n) cache"
    by (simp add: Handler_SetMetrics_def coupon_NewHandler_def)
  have "handler_kept_by q ping" "handler_kept_by q (metrics_handler pr)"
    by (auto simp: handler_kept_by_def ping_def metrics_handler_def intro!: http_frame.kept_rules http_prims_kept)
  moreover have "handler_kept_by q h" if "(t, h) \<in> set (coupon_Register pr en (metrics_reporter m) ?h)" for t h m
    using that by (auto simp: coupon_Register_def coupon_routes_def handler_kept_by_def returning_def
        intro!: as_handler_kept quan_frame.kept_rules coupon_handlers_kept [OF svc])
  moreover have "handler_kept_by q h" if "(t, h) \<in> set (task_Register pr (metrics_reporter m) (NewServiceWithQueue queue k))" for t h m
    using that by (auto simp: task_Register_def task_routes_def handler_kept_by_def intro!: as_handler_kept task_handlers_kept assms(1))
  ultimately show ?thesis using assms(2) by (auto simp: quan_routes_def Let_def split: if_splits)
qed


lemma quan_routes_patterns: "map fst (quan_routes cfg pr en s t) = map fst (quan_routes cfg pr' en' s t)"
  by (simp add: quan_routes_def coupon_Register_def task_Register_def coupon_routes_def task_routes_def Let_def)

lemma quan_handler_kept:
  assumes "Srv_cfg srv = cfg" "mux_routes (quan_routes cfg pr0 en0 (Srv_service srv) (Srv_tasks srv)) [] \<noteq> None"
    and "Srv_service srv = coupon_NewService (coupon_NewRepository True True n) cache"
      "Srv_tasks srv = NewServiceWithQueue queue k" "queue \<in> {RedisQueue q, NilQueue}"
  shows "handler_kept_by q (quan_handler pr en srv)"
proof -
  let ?rs = "quan_routes cfg pr en (Srv_service srv) (Srv_tasks srv)"
  obtain mux where mux: "mux_routes ?rs [] = Some mux"
    using mux_registers [OF quan_routes_patterns assms(2)] by blast
  have "handler_kept_by q h" if member: "(p, h) \<in> set mux" for p h
  proof -
    obtain t where "(t, h) \<in> set ?rs" using mux_routes_handlers [OF mux member] by auto
    then show ?thesis unfolding assms(3,4) by (rule quan_routes_kept [OF assms(5)])
  qed
  then show ?thesis unfolding quan_handler_def quan_router_def assms(1) mux option.sel by (intro Chain_kept mux_kept)
qed

lemma async_steps:
  assumes "wire_async cfg = Inr a" "q = QueueConfig_withDefaults (Cfg_Queue cfg)"
  shows "quan_run q w (final (Relay_StartStop time_Now (Relay_SetMetrics (Some (Async_relay a)) (if m then Some outbox_metrics else None)) n) w)"
    "quan_run q w (final (Consumer_StartStop (Consumer_SetMetrics (Some (Async_consumer a)) (if m then Some consumer_counters else None)) ctx bs) w)"
    "quan_run q w (final (Compensator_StartStop time_Now
       (Compensator_SetMetrics (Some (Async_compensator a)) (if m then Some recovery_metrics else None)) n) w)"
proof -
  have idle: "quan_run q w (final (ret ()) w)" by (simp add: final_def)
  have "quan_run q w (final (relay_run time_Now c (relay_wiring m q) n) w)"
    "quan_run q w (final (consumer_schedule (consumer_wiring m q) c' ctx bs) w)"
    "quan_run q w (final (compensator_run time_Now c'' (compensator_wiring m q) n) w)" for c c' c''
    by (intro r_into_rtranclp quan_step.intros)+
  then show "quan_run q w (final (Relay_StartStop time_Now (Relay_SetMetrics (Some (Async_relay a)) (if m then Some outbox_metrics else None)) n) w)"
    "quan_run q w (final (Consumer_StartStop (Consumer_SetMetrics (Some (Async_consumer a)) (if m then Some consumer_counters else None)) ctx bs) w)"
    "quan_run q w (final (Compensator_StartStop time_Now
       (Compensator_SetMetrics (Some (Async_compensator a)) (if m then Some recovery_metrics else None)) n) w)"
    using idle wired_relay wired_consumer wired_compensator wire_async_parts [OF assms(1), folded assms(2)] by metis+
qed

lemma quan_redis_loss: "\<forall>k. m k = w_kv w k \<or> m k = None \<Longrightarrow> quan_run q w (w\<lparr>w_kv := m\<rparr>)"
  by (intro r_into_rtranclp step_redis_loss) simp

text \<open>Every step of a wired server is a run of the system.\<close>

lemma server_step_refines:
  assumes "quan_wire parse_dsn gr pr0 en0 cfg = Inr srv" and q: "q = QueueConfig_withDefaults (Cfg_Queue cfg)"
    and "server_step pr srv w w'"
  shows "quan_run q w w'"
  using assms(1)
proof (cases rule: quan_wire_cases)
  case (redis pool mig async)
  note P = quan_assemble_parts [OF redis(3)]
  note A = async_steps [OF redis(2) q, of w]
  have "handler_kept_by q (quan_handler pr en srv)" for en
    using quan_handler_kept [OF P(1,5,2,3)] wire_async_parts(1) [OF redis(2), folded q] by simp
  then have request: "quan_run q w (Ex_state (final (quan_handler pr en srv r) (new_exchange w)))" for en r
    using http_frame.kept_final [of q "quan_handler pr en srv r" "new_exchange w"] by (simp add: handler_kept_by_def new_exchange_def)
  have rounds: "quan_run q w (final (Relay_StartStop time_Now (Srv_relay srv) n) w)"
    "quan_run q w (final (Consumer_StartStop (Srv_consumer srv) ctx bs) w)"
    "quan_run q w (final (Compensator_StartStop time_Now (Srv_compensator srv) n) w)" for n ctx bs
    unfolding P(6-8) option.map by (rule A)+
  from assms(3) show ?thesis
    by cases (use request rounds in \<open>auto intro: quan_step_calm quan_redis_loss\<close>)
next
  case (plain pool mig)
  note P = quan_assemble_parts [OF plain(2)]
  have "handler_kept_by q (quan_handler pr en srv)" for en
    using quan_handler_kept [OF P(1,5,2,3)] by simp
  then have request: "quan_run q w (Ex_state (final (quan_handler pr en srv r) (new_exchange w)))" for en r
    using http_frame.kept_final [of q "quan_handler pr en srv r" "new_exchange w"] by (simp add: handler_kept_by_def new_exchange_def)
  from assms(3) show ?thesis
    by cases (use request in \<open>auto simp: P(4) intro: quan_step_calm quan_redis_loss\<close>)
qed

lemma server_run_refines:
  assumes "quan_wire parse_dsn gr pr0 en0 cfg = Inr srv" "q = QueueConfig_withDefaults (Cfg_Queue cfg)" "server_run pr srv w w'"
  shows "quan_run q w w'"
  using assms(3)
proof (induction rule: rtranclp_induct)
  case (step u v)
  then show ?case using server_step_refines [OF assms(1,2) step.hyps(2)] by (meson rtranclp_trans)
qed simp


section \<open>Refinement\<close>

text \<open>A sample configuration: everything enabled, all settings at their defaults.\<close>

definition demo_config :: QuanConfig where
  "demo_config = \<lparr>Cfg_Addr = '':8080'',
     Cfg_Log = \<lparr>Log_Level = '''', Log_Encoding = '''', Log_OutputPaths = [], Log_ErrorOutputPaths = []\<rparr>,
     Cfg_Metric = demo_metric\<lparr>Metric_Path := ''''\<rparr>,
     Cfg_Redis = \<lparr>Redis_Enabled = True, Redis_Addr = '''', Redis_Password = '''', Redis_DB = 0, Redis_DialTimeout = 0\<rparr>,
     Cfg_MySQL = \<lparr>MySQL_Enabled = True, MySQL_DSN = ''dsn'', MySQL_MaxOpenConns = 0, MySQL_MaxIdleConns = 10,
       MySQL_ConnMaxLifetime = 0, MySQL_ConnTimeout = 0\<rparr>,
     Cfg_Migration = \<lparr>Migration_Enabled = False, Migration_Dir = '''', Migration_TableName = ''''\<rparr>,
     Cfg_Queue = \<lparr>ReadyKey = '''', RetryKey = '''', DLQKey = ''''\<rparr>,
     Cfg_Consume = demo_consume, Cfg_Compensation = demo_compensation, Cfg_Relay = demo_relay,
     Cfg_Recovery = True, Cfg_TraceID = True, Cfg_Logging = True\<rparr>"

definition demo_goredis :: "unit goredis" where
  "demo_goredis = \<lparr>gr_NewClient = \<lambda>_. (), gr_Ping = \<lambda>_. returnE (), gr_Close = returnE ()\<rparr>"

definition demo_printers :: printers where
  "demo_printers = \<lparr>Pr_rfc3339 = FormatInt, Pr_rfc3339milli = FormatInt, Pr_exposition = \<lambda>_. '''', Pr_prom = demo_prometheus\<rparr>"

definition demo_entropy :: entropy where
  "demo_entropy = \<lparr>En_trace = Some [1, 2], En_rnd1 = 5, En_rnd2 = 6\<rparr>"

definition quan_patterns :: "string list" where
  "quan_patterns = [''GET /ping'', ''/metrics''] @ coupon_routes @ task_routes"

lemma quan_patterns_register: "mux_routes (map (\<lambda>t. (t, ping :: world Handler)) quan_patterns) [] \<noteq> None"
  by code_simp


lemma demo_wired: "\<exists>srv. quan_wire (\<lambda>_. Inr ()) demo_goredis demo_printers demo_entropy demo_config = Inr srv"
proof -
  have "map fst (map (\<lambda>t. (t, ping :: world Handler)) quan_patterns) = map fst (quan_routes demo_config demo_printers demo_entropy s t)" for s t
    by (simp add: quan_routes_def demo_config_def demo_metric_def coupon_Register_def task_Register_def coupon_routes_def task_routes_def quan_patterns_def Let_def)
  from mux_registers [OF this quan_patterns_register]
  have mux: "\<exists>m. mux_routes (quan_routes demo_config demo_printers demo_entropy s t) [] = Some m" for s t by blast
  have "\<exists>a. wire_async demo_config = Inr a"
    by (simp add: wire_async_def or_fatal_def NewQueue_def NewRelay_def NewConsumer_def NewCompensator_def Let_def)
  then obtain a where a: "wire_async demo_config = Inr a" ..
  have "valid_namespace (Metric_Namespace (Cfg_Metric demo_config))" using demo_metric_namespace by (simp add: demo_config_def)
  note made = metrics_created [OF demo_prometheus_documented(1) this]
  have "\<exists>ms. quan_metrics (Pr_prom demo_printers) demo_config = Inr ms"
    by (simp add: quan_metrics_def demo_printers_def made)
  then obtain ms where ms: "quan_metrics (Pr_prom demo_printers) demo_config = Inr ms" ..
  have built: "\<exists>srv. quan_assemble demo_config demo_printers demo_entropy pool mig True (Some a) = Inr srv" for pool mig
    unfolding quan_assemble_def Let_def ms sum.case using mux by (metis (no_types, lifting) option.simps(5))
  obtain sql where sql: "mysql_NewComponent (\<lambda>_. Inr ()) (Cfg_MySQL demo_config) = Inr sql"
    by (simp add: mysql_NewComponent_def mysql_NewClient_def sql_Open_def MySQL_defaults(1) Let_def demo_config_def)
  obtain mig where mig: "NewMigrationComponent True (Cfg_Migration demo_config) = Inr mig"
    by (simp add: NewMigrationComponent_def demo_config_def)
  obtain red where red: "redis_NewComponent demo_goredis (Cfg_Redis demo_config) = Inr red" and on: "Redis_Enabled (Cfg_Redis demo_config)"
    by (simp add: redis_NewComponent_def redis_NewClient_def RedisConfig_withDefaults_def demo_config_def demo_goredis_def Let_def)
  show ?thesis using built by (simp add: quan_wire_def or_fatal_def NewTxManager_def sql mig red on a)
qed

text \<open>
  C5. What main starts is the system. Whatever the configuration, if \<^verbatim>\<open>main\<close> gets as far as starting the server, then
  every sequence of requests that its router and middlewares serve, of rounds of the components it starts, of
  passing time, lost round trips and lost Redis keys is a run of the transition system of relay, workers, compensator
  and requests, on the queue keys of the configuration. The components are started in the order MySQL, migrations, Redis, relay,
  consumer, compensator, HTTP, and the background ones only when Redis is enabled.
\<close>

theorem main_refines_system:
  assumes "quan_wire parse_dsn gr pr0 en0 cfg = Inr srv" "server_run pr srv w w'"
  shows "quan_run (QueueConfig_withDefaults (Cfg_Queue cfg)) w w' \<and>
    Srv_parts srv = [MySQLPart, MigrationPart] @
      (if Redis_Enabled (Cfg_Redis cfg) then [RedisPart, RelayPart, ConsumerPart, CompensatorPart] else []) @ [HttpPart]"
  using assms(1)
proof (cases rule: quan_wire_cases)
  case (redis pool mig async)
  then show ?thesis using server_run_refines [OF assms(1) refl assms(2)] quan_assemble_parts(4) [OF redis(3)] by simp
next
  case (plain pool mig)
  then show ?thesis using server_run_refines [OF assms(1) refl assms(2)] quan_assemble_parts(4) [OF plain(2)] by simp
qed

definition demo_claim_request :: Request where
  "demo_claim_request = \<lparr>Rq_Method = ''POST'', Rq_Path = ''/api/v1/coupons/1001/claim'', Rq_Query = (\<lambda>_. ''''),
     Rq_Header = (\<lambda>k. if k = headerUserID then ''7'' else if k = headerIdempotencyKey then ''k1'' else ''''),
     Rq_PathValue = (\<lambda>_. ''''), Rq_Body = None, Rq_Ctx = Ctx None\<rparr>"

definition demo_served :: "quan_server \<Rightarrow> world" where
  "demo_served srv = Ex_state (final (quan_handler demo_printers demo_entropy srv demo_claim_request) (new_exchange demo_dawn))"

lemma demo_server_run: "server_run demo_printers srv demo_dawn (demo_served srv)"
  unfolding demo_served_def by (intro r_into_rtranclp srv_request)

theorem main_refines_system_witness:
  "\<exists>srv. quan_wire (\<lambda>_. Inr ()) demo_goredis demo_printers demo_entropy demo_config = Inr srv \<and>
     quan_run (QueueConfig_withDefaults (Cfg_Queue demo_config)) demo_dawn (demo_served srv)"
  using demo_wired main_refines_system [OF _ demo_server_run] by blast

section \<open>The middlewares around the routes of the server\<close>

interpretation exchange_frame: step_frame "handler_step :: 's exchange \<Rightarrow> 's exchange \<Rightarrow> bool"
  by unfold_locales (auto intro: handler_step_trans)

lemma trace_header_apart [simp]:
  "''Content-Type'' \<noteq> traceHeader" "''X-Content-Type-Options'' \<noteq> traceHeader"
  by (simp_all add: traceHeader_def)

lemma exchange_kept:
  "exchange_frame.kept (WriteHeader code)" "exchange_frame.kept (Write c)" "k \<noteq> traceHeader \<Longrightarrow> exchange_frame.kept (SetHeader k v)"
  "exchange_frame.kept (in_state m)" "exchange_frame.kept State_Monad.get"
  by (auto intro!: exchange_frame.keptI wp_handler_steps)

lemma wp_any: "wp m (\<lambda>_ _. True) = (\<lambda>_. True)"
  by (simp add: wp_iff fun_eq_iff)

lemma write_response_well:
  "wp (write_response out) (\<lambda>out' x'. handler_step x x' \<and>
     (case out' of Panicked p \<Rightarrow> Ex_writer x' = Ex_writer x | Returned v \<Rightarrow> True)) x"
proof -
  have "exchange_frame.kept (write_response out)"
    unfolding write_response_def
    by (auto intro!: exchange_frame.kept_rules exchange_kept split: outcome.split sum.split option.split)
  then have "wp (write_response out) (\<lambda>_ x'. handler_step x x') x" by (rule exchange_frame.kept_wp)
  moreover have "wp (write_response out) (\<lambda>out' x'. case out' of Panicked p \<Rightarrow> Ex_writer x' = Ex_writer x | Returned v \<Rightarrow> True) x"
    by (auto simp: write_response_def wp_any split: outcome.split sum.split)
  ultimately show ?thesis by (simp add: wp_iff)
qed

lemma as_handler_well: "well_behaved (as_handler h)"
  unfolding well_behaved_def
proof (intro allI)
  fix r :: Request and x :: "world exchange"
  have "wp (write_response out) (\<lambda>out x'. handler_step x x' \<and> (case out of Panicked p \<Rightarrow> Ex_writer x' = Ex_writer x | Returned v \<Rightarrow> True))
      (x\<lparr>Ex_state := s\<rparr>)" for out s
    by (rule wp_mono [OF write_response_well]) (auto simp: handler_step_def split: outcome.splits)
  then show "wp (as_handler h r) (\<lambda>out x'. handler_step x x' \<and> (case out of Panicked p \<Rightarrow> Ex_writer x' = Ex_writer x | Returned v \<Rightarrow> True)) x"
    unfolding as_handler_def wp_bind wp_in_state by (simp add: wp_iff)
qed

lemma well_behavedI:
  assumes "\<And>r. exchange_frame.kept (h r)" "\<And>r x. wp (h r) (\<lambda>out _. out = finished) x"
  shows "well_behaved h"
  unfolding well_behaved_def using exchange_frame.kept_wp [OF assms(1)] assms(2) by (simp add: wp_iff)

lemma quan_routes_well:
  assumes "(t, h) \<in> set (quan_routes cfg pr en svc tasks)"
  shows "well_behaved h"
proof -
  have "well_behaved (ping :: world Handler)" "well_behaved (metrics_handler pr)"
    by (intro well_behavedI; simp add: ping_def metrics_handler_def exchange_frame.kept_rules exchange_kept wp_iff)+
  then show ?thesis using assms
    by (auto simp: quan_routes_def coupon_Register_def task_Register_def coupon_routes_def task_routes_def as_handler_well Let_def split: if_splits)
qed

lemma mux_well:
  assumes "\<And>p h. (p, h) \<in> set m \<Longrightarrow> well_behaved h \<and> Pat_text p \<in> ps"
  shows "routes_well ps (mux_ServeHTTP m)"
  unfolding routes_well_def
proof (intro allI)
  fix r x
  show "wp (mux_ServeHTTP m r) (\<lambda>out x'. Ex_pattern x' \<in> insert (Ex_pattern x) ps \<and>
     handler_step (x\<lparr>Ex_pattern := Ex_pattern x'\<rparr>) x' \<and> (case out of Panicked p \<Rightarrow> Ex_writer x' = Ex_writer x | Returned v \<Rightarrow> True)) x"
  proof (cases "best_match m r")
    case None
    have "exchange_frame.kept (http_Error msg code)" for msg code
      unfolding http_Error_def by (intro exchange_frame.kept_rules exchange_kept trace_header_apart)
    note kept = this
    have same: "Ex_pattern y = Ex_pattern x" if "handler_step x y" for y using that unfolding handler_step_def by (elim conjE)
    have unset: "x\<lparr>Ex_pattern := Ex_pattern x\<rparr> = x" by simp
    have refused: "wp (http_Error msg code) (\<lambda>_ x'. Ex_pattern x' \<in> insert (Ex_pattern x) ps \<and>
        handler_step (x\<lparr>Ex_pattern := Ex_pattern x'\<rparr>) x') x" for msg code
    proof (rule wp_mono [OF exchange_frame.kept_wp [OF kept]])
      fix a and x' assume step: "handler_step x x'"
      then show "Ex_pattern x' \<in> insert (Ex_pattern x) ps \<and> handler_step (x\<lparr>Ex_pattern := Ex_pattern x'\<rparr>) x'"
        by (simp only: same [OF step] unset insertI1 simp_thms)
    qed
    show ?thesis
      by (cases "list_ex (\<lambda>(p, _). seg_match (Pat_segs p) (path_segs r) \<noteq> None) m")
        (simp_all only: mux_ServeHTTP_def None option.case if_True if_False wp_bind wp_ret outcome.case simp_thms refused)
  next
    case (Some ph)
    obtain p h where ph: "ph = (p, h)" by (cases ph)
    have h: "well_behaved h" "Pat_text p \<in> ps" using assms best_match_member [of m r p h] Some ph by blast+
    let ?r = "r\<lparr>Rq_PathValue := (\<lambda>n. case map_of (the (pattern_match p r)) n of None \<Rightarrow> '''' | Some s \<Rightarrow> s)\<rparr>"
    have same: "Ex_writer (x\<lparr>Ex_pattern := Pat_text p\<rparr>) = Ex_writer x" by simp
    have "wp (h ?r) (\<lambda>out x'. handler_step (x\<lparr>Ex_pattern := Pat_text p\<rparr>) x' \<and>
        (case out of Panicked p \<Rightarrow> Ex_writer x' = Ex_writer x | Returned v \<Rightarrow> True)) (x\<lparr>Ex_pattern := Pat_text p\<rparr>)"
      using h(1) [unfolded well_behaved_def, rule_format, of ?r "x\<lparr>Ex_pattern := Pat_text p\<rparr>"]
      by (simp only: same)
    then show ?thesis unfolding mux_ServeHTTP_def Some ph option.case prod.case wp_bind wp_update
    proof (rule wp_mono, elim conjE, intro conjI)
      fix out and x' assume step: "handler_step (x\<lparr>Ex_pattern := Pat_text p\<rparr>) x'"
      then have "Ex_pattern x' = Pat_text p" by (simp add: handler_step_def)
      then show "Ex_pattern x' \<in> insert (Ex_pattern x) ps" "handler_step (x\<lparr>Ex_pattern := Ex_pattern x'\<rparr>) x'"
        using step h(2) by simp_all
    qed
  qed
qed

lemma quan_texts_valid:
  assumes "ValidString (Cfg_MetricPath cfg)" "t \<in> fst ` set (quan_routes cfg pr en svc tasks)"
  shows "ValidString t"
proof -
  have "\<forall>t \<in> set quan_patterns. ValidString t" by code_simp
  moreover have "t \<in> set (map fst (quan_routes cfg pr en svc tasks))" using assms(2) by simp
  ultimately show ?thesis using assms(1)
    by (auto simp: quan_routes_def coupon_Register_def task_Register_def coupon_routes_def task_routes_def quan_patterns_def Let_def
        split: if_splits)
qed

lemma quan_router_well:
  assumes "mux_routes (quan_routes (Srv_cfg srv) pr0 en0 (Srv_service srv) (Srv_tasks srv)) [] \<noteq> None"
  shows "routes_well (fst ` set (quan_routes (Srv_cfg srv) pr en (Srv_service srv) (Srv_tasks srv))) (quan_router pr en srv)"
proof -
  obtain m where m: "mux_routes (quan_routes (Srv_cfg srv) pr en (Srv_service srv) (Srv_tasks srv)) [] = Some m"
    using mux_registers [OF quan_routes_patterns assms] by blast
  show ?thesis unfolding quan_router_def m option.sel
    by (intro mux_well) (use mux_routes_handlers [OF m] quan_routes_well in force)
qed

lemma quan_metrics_documented:
  assumes "labels_documented prom" "quan_metrics prom cfg = Inr ms"
  shows "documented_metrics (map_option fst ms)"
  using assms metric_New_is
  by (fastforce simp: quan_metrics_def documented_metrics_def split: if_splits sum.splits prod.splits)

text \<open>The router of a wired server, with the random numbers of any request, and the metrics that main made.\<close>

lemma quan_wired_parts:
  assumes "quan_wire parse_dsn gr pr0 en0 cfg = Inr srv"
  shows "Srv_cfg srv = cfg" "routes_well (fst ` set (quan_routes cfg pr en (Srv_service srv) (Srv_tasks srv))) (quan_router pr en srv)"
    "labels_documented (Pr_prom pr0) \<Longrightarrow> documented_metrics (Srv_httpMetrics srv)"
    "Srv_httpMetrics srv = None \<longleftrightarrow> \<not> Cfg_MetricEnabled cfg"
proof -
  obtain pool mig redis async where built: "quan_assemble cfg pr0 en0 pool mig redis async = Inr srv"
    using assms by (cases rule: quan_wire_cases) blast+
  note P = quan_assemble_parts [OF built]
  show cfg: "Srv_cfg srv = cfg" by (rule P(1))
  show "routes_well (fst ` set (quan_routes cfg pr en (Srv_service srv) (Srv_tasks srv))) (quan_router pr en srv)"
    using quan_router_well [of srv pr0 en0 pr en] P(5) unfolding cfg by blast
  obtain ms where ms: "quan_metrics (Pr_prom pr0) cfg = Inr ms" "Srv_httpMetrics srv = map_option fst ms" using P(9) by blast
  show "labels_documented (Pr_prom pr0) \<Longrightarrow> documented_metrics (Srv_httpMetrics srv)"
    unfolding ms(2) by (rule quan_metrics_documented [OF _ ms(1)])
  show "Srv_httpMetrics srv = None \<longleftrightarrow> \<not> Cfg_MetricEnabled cfg"
    unfolding ms(2) using ms(1) by (auto simp: quan_metrics_def split: if_splits sum.splits)
qed

text \<open>
  C33. Around every route of the coupon server the middlewares do their work. Take a server that main wires with recovery, trace ids
  and logging switched on, a metric path that is UTF-8 and a Prometheus client that treats labels as documented, whatever the rest of
  the configuration. Every request is answered without a panic. Exactly one trace id is sent, the one of the request or a new one,
  and the router sees it in the context of the request. Afterwards no request is counted as in flight. With metrics on, a request whose method or path is not UTF-8 gets a
  500, and the router never sees it: the state stays and nothing is observed. Any other request reaches the router
  once, and the state is what the router made of it. When the router panics, the answer is 500 and nothing is observed; when it returns, its
  answer is sent as it is, and with metrics on the request is observed exactly once.
\<close>

theorem middleware_chain:
  fixes r :: Request and w :: world and pr :: printers and en :: entropy
  assumes "quan_wire parse_dsn gr pr0 en0 cfg = Inr srv" "labels_documented (Pr_prom pr0)" "ValidString (Cfg_MetricPath cfg)"
    "Cfg_Recovery cfg" "Cfg_TraceID cfg" "Cfg_Logging cfg"
  defines "trace \<equiv> trace_of (En_trace en) r"
    and "routed \<equiv> quan_router pr en srv (r\<lparr>Rq_Ctx := Ctx (Some (trace_of (En_trace en) r))\<rparr>)"
    and "y \<equiv> handed (Srv_httpMetrics srv) (En_trace en) r (new_exchange w)"
    and "x' \<equiv> final (quan_handler pr en srv r) (new_exchange w)"
  shows "(\<exists>v. answer (quan_handler pr en srv r) (new_exchange w) = Returned v) \<and>
    (\<forall>v. (traceHeader, v) \<in> set (Wr_headers (Ex_writer x')) \<longleftrightarrow> v = trace) \<and>
    (\<forall>me p. in_flight_gauge me p (Ex_metrics x') = 0) \<and>
    (if Cfg_MetricEnabled cfg \<and> \<not> (ValidString (Rq_Method r) \<and> ValidString (Rq_Path r))
     then Wr_status (Ex_writer x') = Some 500 \<and> Ex_state x' = w \<and> observations (Ex_metrics x') = 0
     else Ex_state x' = Ex_state (final routed y) \<and> (case answer routed y of
        Panicked p \<Rightarrow> Wr_status (Ex_writer x') = Some 500 \<and> observations (Ex_metrics x') = 0
      | Returned v \<Rightarrow> Ex_writer x' = Ex_writer (final routed y) \<and>
          observations (Ex_metrics x') = (if Cfg_MetricEnabled cfg then 1 else 0)))"
proof -
  note S = quan_wired_parts [OF assms(1)]
  have chain: "quan_handler pr en srv = Chain [Recovery, TraceID (En_trace en), Logging (Srv_httpMetrics srv)] (quan_router pr en srv)"
    by (simp add: quan_handler_def quan_middlewares_def S(1) assms(4-6))
  have new: "label_of r (new_exchange w) = Rq_Path r" "ValidString (Ex_pattern (new_exchange w))" "Wr_status (Ex_writer (new_exchange w)) = None"
    "Ex_metrics (new_exchange w) = []" "Ex_state (new_exchange w) = w" by (simp_all add: label_of_def new_exchange_def ValidString_def)
  have texts: "\<forall>p \<in> fst ` set (quan_routes cfg pr en (Srv_service srv) (Srv_tasks srv)). ValidString p"
    using quan_texts_valid [OF assms(3)] by blast
  show ?thesis
    using chain_around [OF S(2) [of pr en] texts new(2,3) S(3) [OF assms(2)], where r = r and rnd = "En_trace en"]
    unfolding wp_iff chain [symmetric] routed_def [symmetric] y_def [symmetric] x'_def [symmetric]
    unfolding trace_def [symmetric] new S(4)
    by (simp split: outcome.split_asm if_splits)
qed

text \<open>The sample server answers a ping; with its metrics on, it refuses a path that is not UTF-8.\<close>

lemma demo_patterns:
  "\<exists>p ps. map_option (map fst) (mux_routes (map (\<lambda>t. (t, ping :: world Handler)) quan_patterns) []) = Some (p # ps) \<and>
     Pat_text p = ''GET /ping'' \<and> pattern_match p ping_request \<noteq> None \<and> list_all (\<lambda>q. pattern_match q ping_request = None) ps"
proof -
  let ?ps = "the (map_option (map fst) (mux_routes (map (\<lambda>t. (t, ping :: world Handler)) quan_patterns) []))"
  have "?ps \<noteq> [] \<and> Pat_text (hd ?ps) = ''GET /ping'' \<and> pattern_match (hd ?ps) ping_request \<noteq> None \<and>
      list_all (\<lambda>q. pattern_match q ping_request = None) (tl ?ps)" by code_simp
  then show ?thesis using quan_patterns_register by (intro exI [of _ "hd ?ps"] exI [of _ "tl ?ps"]) auto
qed

lemma demo_texts: "map fst (map (\<lambda>t. (t, ping :: world Handler)) quan_patterns) = map fst (quan_routes demo_config pr en s t)"
  by (simp add: quan_routes_def demo_config_def demo_metric_def coupon_Register_def task_Register_def coupon_routes_def task_routes_def
      quan_patterns_def Let_def)

lemma demo_ping:
  assumes "Srv_cfg srv = demo_config"
  shows "quan_router pr en srv (ping_request\<lparr>Rq_Ctx := c\<rparr>) =
    do { _ \<leftarrow> State_Monad.update (\<lambda>x. x\<lparr>Ex_pattern := ''GET /ping''\<rparr>); ping ping_request }"
proof -
  let ?rs = "quan_routes demo_config pr en (Srv_service srv) (Srv_tasks srv)"
  obtain p ps where p: "map_option (map fst) (mux_routes (map (\<lambda>t. (t, ping :: world Handler)) quan_patterns) []) = Some (p # ps)"
    "Pat_text p = ''GET /ping''" "pattern_match p ping_request \<noteq> None" "list_all (\<lambda>q. pattern_match q ping_request = None) ps"
    using demo_patterns by (elim exE conjE) (rule that)
  obtain m where m: "mux_routes ?rs [] = Some m" "map fst m = p # ps"
    using mux_routes_patterns [OF demo_texts, of "[]" "[]" pr en "Srv_service srv" "Srv_tasks srv"] p(1) by auto
  have "pattern_match q (ping_request\<lparr>Rq_Ctx := c\<rparr>) = pattern_match q ping_request" for q by (simp add: pattern_match_def path_segs_def)
  then obtain h where best: "best_match m (ping_request\<lparr>Rq_Ctx := c\<rparr>) = Some (p, h)" using first_route [OF m(2)] p(3,4) by fastforce
  have "(''GET /ping'', h) \<in> set ?rs" using mux_routes_handlers [OF m(1) best_match_member [OF best]] p(2) by simp
  then have h: "h = ping"
    by (auto simp: quan_routes_def demo_config_def demo_metric_def coupon_Register_def task_Register_def coupon_routes_def task_routes_def Let_def)
  show ?thesis unfolding quan_router_def assms m(1) option.sel mux_ServeHTTP_def best h option.case prod.case p(2) by (simp add: ping_def)
qed

definition demo_bad_path :: Request where
  "demo_bad_path = ping_request\<lparr>Rq_Path := [CHR ''/'', CHR 0xFF]\<rparr>"

theorem middleware_chain_witness:
  "\<exists>srv x y. quan_wire (\<lambda>_. Inr ()) demo_goredis demo_printers demo_entropy demo_config = Inr srv \<and>
     x = final (quan_handler demo_printers demo_entropy srv ping_request) (new_exchange demo_dawn) \<and>
     Wr_status (Ex_writer x) = Some 200 \<and> Wr_body (Ex_writer x) = [Text ''pong''] \<and> Wr_headers (Ex_writer x) = [(traceHeader, ''0102'')] \<and>
     observations (Ex_metrics x) = 1 \<and> in_flight_gauge ''GET'' ''/ping'' (Ex_metrics x) = 0 \<and>
     y = final (quan_handler demo_printers demo_entropy srv demo_bad_path) (new_exchange demo_dawn) \<and>
     Wr_status (Ex_writer y) = Some 500 \<and> Ex_state y = demo_dawn \<and> observations (Ex_metrics y) = 0"
proof -
  obtain srv where srv: "quan_wire (\<lambda>_. Inr ()) demo_goredis demo_printers demo_entropy demo_config = Inr srv" using demo_wired ..
  have cfg: "Cfg_Recovery demo_config" "Cfg_TraceID demo_config" "Cfg_Logging demo_config" "Cfg_MetricEnabled demo_config"
    "ValidString (Cfg_MetricPath demo_config)" by (simp_all add: demo_config_def demo_metric_def ValidString_def)
  have prom: "labels_documented (Pr_prom demo_printers)" by (simp add: demo_printers_def demo_prometheus_documented)
  note chain = middleware_chain [OF srv prom cfg(5,1-3), where pr = demo_printers and en = demo_entropy and w = demo_dawn]
  have texts: "ValidString (Rq_Method ping_request) \<and> ValidString (Rq_Path ping_request)"
    "\<not> (ValidString (Rq_Method demo_bad_path) \<and> ValidString (Rq_Path demo_bad_path))" by code_simp+
  have trace: "trace_of (En_trace demo_entropy) ping_request = ''0102''" by code_simp
  have srv_cfg: "Srv_cfg srv = demo_config" by (rule quan_wired_parts(1) [OF srv])
  have "wp (quan_router demo_printers demo_entropy srv (ping_request\<lparr>Rq_Ctx := c\<rparr>)) (\<lambda>out z'. out = finished \<and>
      Ex_writer z' = (Ex_writer z)\<lparr>Wr_status := Some 200, Wr_body := Wr_body (Ex_writer z) @ [Text ''pong'']\<rparr>) z"
    if "Wr_status (Ex_writer z) = None" for c and z :: "world exchange"
    using that by (simp add: demo_ping [OF srv_cfg] ping_def WriteHeader_def Write_def)
  note ping = this [unfolded wp_iff]
  show ?thesis
    using srv chain [of ping_request] chain [of demo_bad_path] texts cfg(4)
    by (auto simp: trace ping handed_def entered_def new_exchange_def)
qed

end
