(* ===== verification/TableFrames.thy ===== *)
theory TableFrames
  imports QuanSystem
begin

text \<open>
  The tables under any configuration. \<open>QuanSystem\<close> proves its invariant for queue keys that are distinct and apart from
  the keys of the claim decisions. What it says about the tables needs neither: every statement keeps \<open>tables_ok\<close>
  whatever the keyspace holds, because no answer of Redis makes a process write what it should not. The frames here are the ones of
  \<open>StepFrame\<close> without a condition on the keyspace, so every command of Redis is kept.
\<close>

section \<open>Frames on the tables alone\<close>

definition tables_step :: "world \<Rightarrow> world \<Rightarrow> bool" where
  "tables_step w w' \<longleftrightarrow> (w_tx w = None \<and> tables_ok (w_db w) \<longrightarrow> w_tx w' = None \<and> tables_ok (w_db w'))"

interpretation tables_frame: step_frame tables_step
  by unfold_locales (auto simp: tables_step_def)

lemma tables_step_same: "w_tx w' = w_tx w \<Longrightarrow> w_db w' = w_db w \<Longrightarrow> tables_step w w'"
  by (simp add: tables_step_def)

lemma tables_step_idle: "idle w w' \<Longrightarrow> tables_step w w'"
  by (simp add: idle_def tables_step_same)

text \<open>A row of an outbox event keeps its id and its payload, and stays on its way unless its payload names no task.\<close>

definition on_way :: "string set" where
  "on_way = {outbox_StatusPending, outbox_StatusDispatching, outbox_StatusPublished}"

definition event_kept :: "event_row \<Rightarrow> event_row \<Rightarrow> bool" where
  "event_kept e e' \<longleftrightarrow> ev_event_id e' = ev_event_id e \<and> ev_payload_json e' = ev_payload_json e \<and>
     (ev_status e \<in> on_way \<and> task_of_payload (Some (ev_payload_json e)) \<noteq> None \<longrightarrow> ev_status e' \<in> on_way)"

definition outbox_step :: "world \<Rightarrow> world \<Rightarrow> bool" where
  "outbox_step w w' \<longleftrightarrow> w_tx w' = w_tx w \<and> (w_db w')\<lparr>db_events := []\<rparr> = (w_db w)\<lparr>db_events := []\<rparr> \<and>
     list_all2 event_kept (db_events (w_db w)) (db_events (w_db w'))"

lemma event_kept_trans: "event_kept a b \<Longrightarrow> event_kept b c \<Longrightarrow> event_kept a c"
  by (simp add: event_kept_def)

lemma outbox_step_trans: "outbox_step u v \<Longrightarrow> outbox_step v w \<Longrightarrow> outbox_step u w"
  unfolding outbox_step_def by (elim conjE, intro conjI) (auto intro: list_all2_trans [OF event_kept_trans])

lemma outbox_step_same: "w_tx w' = w_tx w \<Longrightarrow> w_db w' = w_db w \<Longrightarrow> outbox_step w w'"
  by (auto simp: outbox_step_def event_kept_def intro: list.rel_refl)

interpretation outbox_frame: step_frame outbox_step
  by unfold_locales (auto intro: outbox_step_trans outbox_step_same)

lemma outbox_step_idle: "idle w w' \<Longrightarrow> outbox_step w w'"
  by (simp add: idle_def outbox_step_same)

lemma outbox_step_upd:
  assumes "events_upd p upd w w'"
    and "\<And>e. e \<in> set (db_events (w_db w)) \<Longrightarrow> p e \<Longrightarrow> event_kept e (upd e)"
  shows "outbox_step w w'"
  using assms by (auto simp: outbox_step_def events_upd_def list_all2_conv_all_nth event_kept_def)

lemma kept_rows:
  assumes "list_all2 P xs ys"
  shows "x \<in> set xs \<Longrightarrow> \<exists>y \<in> set ys. P x y" "y \<in> set ys \<Longrightarrow> \<exists>x \<in> set xs. P x y"
  using assms by (induction rule: list_all2_induct) auto

lemma tables_step_outbox:
  assumes "outbox_step w w'" shows "tables_step w w'"
  unfolding tables_step_def
proof (intro impI conjI)
  let ?d = "w_db w" and ?d' = "w_db w'"
  assume ok: "w_tx w = None \<and> tables_ok ?d"
  then show "w_tx w' = None" using assms by (simp add: outbox_step_def)
  have others: "?d'\<lparr>db_events := []\<rparr> = ?d\<lparr>db_events := []\<rparr>" using assms by (simp add: outbox_step_def)
  have rows: "list_all2 event_kept (db_events ?d) (db_events ?d')" using assms by (simp add: outbox_step_def)
  note same = events_only_same [OF others]
  have ids: "map ev_event_id (db_events ?d') = map ev_event_id (db_events ?d)"
    using rows by (auto simp: list_all2_conv_all_nth event_kept_def intro: nth_equalityI)
  have tk: "task_ids_ok ?d" using ok by (simp add: tables_ok_def ids_ok_def)
  have ann: "announced ?d' i" if i: "announced ?d i" "0 < i" for i
  proof -
    obtain e where e: "e \<in> set (db_events ?d)" "ev_payload_json e = MarshalTaskCreatedPayload i" "in_int64 i \<longrightarrow> ev_status e \<in> on_way"
      using i(1) by (auto simp: announced_def on_way_def)
    obtain e' where e': "e' \<in> set (db_events ?d')" "event_kept e e'"
      using kept_rows(1) [OF rows e(1)] by blast
    have "in_int64 i \<longrightarrow> ev_status e' \<in> on_way" using e(2,3) e'(2) i(2) by (auto simp: event_kept_def task_of_payload_def)
    then show ?thesis using e(2) e' unfolding announced_def on_way_def event_kept_def by metis
  qed
  have task: "announced ?d' (tk_task_id t)" if "t \<in> set (db_tasks ?d)" "announced ?d (tk_task_id t)" for t
    using ann [OF that(2)] tk that(1) by (simp add: task_ids_ok_def)
  have "event_ids_ok ?d'"
  proof -
    have alt: "event_ids_ok e = (distinct (map ev_event_id (db_events e)) \<and>
        (\<forall>i \<in> set (map ev_event_id (db_events e)). i < db_next_event_id e))" for e :: db by (simp add: event_ids_ok_def)
    show ?thesis using ok unfolding tables_ok_def ids_ok_def alt ids same by blast
  qed
  moreover have "task_ids_ok ?d'" "task_keys ?d' = task_keys ?d" using tk by (simp_all add: task_ids_ok_def task_keys_def same)
  moreover have "books_ok ?d'"
    by (rule books_ok_cong [of _ ?d]) (use ok in \<open>simp_all add: same tables_ok_def\<close>)
  moreover have "noticed ?d' x" if "noticed ?d x" for x
    using that task by (auto simp: noticed_def same_task_key_def same)
  ultimately show "tables_ok ?d'" using ok task by (auto simp: tables_ok_def ids_ok_def same)
qed

section \<open>The relay\<close>

lemma redis_frames [intro]:
  "tables_frame.kept (redis_exec cmd)" "outbox_frame.kept (redis_exec cmd)"
proof -
  show "tables_frame.kept (redis_exec cmd)"
    by (rule tables_frame.keptI, rule wp_redis_exec) (simp_all add: tables_step_same)
  show "outbox_frame.kept (redis_exec cmd)"
    by (rule outbox_frame.keptI, rule wp_redis_exec) (simp_all add: outbox_step_same)
qed

lemma basic_frames:
  "tables_frame.kept time_Now" "tables_frame.kept (metric c)" "outbox_frame.kept time_Now" "outbox_frame.kept (metric c)"
proof -
  show "tables_frame.kept time_Now" by (rule tables_frame.keptI, rule wp_idle_clock) (rule tables_step_idle)
  show "outbox_frame.kept time_Now" by (rule outbox_frame.keptI, rule wp_idle_clock) (rule outbox_step_idle)
  show "tables_frame.kept (metric c)" by (rule tables_frame.keptI) (simp add: tables_step_same)
  show "outbox_frame.kept (metric c)" by (rule outbox_frame.keptI) (simp add: outbox_step_same)
qed

lemma outbox_ops_frame:
  "outbox_frame.kept (TryMarkDispatching i)" "outbox_frame.kept (MarkPublished i)" "outbox_frame.kept (MarkRetry i d m)"
  "outbox_frame.kept (RecoverStaleDispatching t n)" "outbox_frame.kept CountPending" "outbox_frame.kept (ListDispatchable n)"
  "outbox_frame.kept (PublishReady q i)"
proof -
  note upd = outbox_step_upd outbox_step_idle
  show "outbox_frame.kept (TryMarkDispatching i)"
    by (rule outbox_frame.keptI, rule wp_TryMarkDispatching) (auto intro: upd simp: event_kept_def on_way_def)
  show "outbox_frame.kept (MarkPublished i)"
    by (rule outbox_frame.keptI, rule wp_MarkPublished) (auto intro: upd simp: event_kept_def on_way_def)
  show "outbox_frame.kept (MarkRetry i d m)"
    by (rule outbox_frame.keptI, rule wp_MarkRetry) (auto intro: upd simp: event_kept_def on_way_def)
  show "outbox_frame.kept (RecoverStaleDispatching t n)"
    by (rule outbox_frame.keptI, rule wp_RecoverStaleDispatching) (auto intro: upd simp: event_kept_def on_way_def)
  show "outbox_frame.kept CountPending"
    by (rule outbox_frame.keptI, rule wp_CountPending) (rule outbox_step_idle)
  show "outbox_frame.kept (ListDispatchable n)"
    by (rule outbox_frame.keptI, rule wp_ListDispatchable) (rule outbox_step_idle, assumption)+
  show "outbox_frame.kept (PublishReady q i)"
    unfolding PublishReady_def by (intro outbox_frame.kept_rules redis_frames)
qed

text \<open>The rows with the id of an event that was listed have its payload, so that suspending it is kept as well.\<close>

definition listed :: "outbox_Event \<Rightarrow> world \<Rightarrow> bool" where
  "listed evt w \<longleftrightarrow> (\<forall>e \<in> set (db_events (w_db w)). ev_event_id e = Event_ID evt \<longrightarrow> ev_payload_json e = Event_PayloadJSON evt)"

lemma listed_step: "outbox_step w w' \<Longrightarrow> listed evt w \<Longrightarrow> listed evt w'"
  unfolding listed_def outbox_step_def by (metis event_kept_def kept_rows(2))

lemma wp_suspend_outbox:
  assumes "listed evt w" "task_of_payload (Some (Event_PayloadJSON evt)) = None"
  shows "wp (do { _ \<leftarrow> outbox_MarkSuspended (Event_ID evt) m; returnE () }) (\<lambda>_. outbox_step w) w"
  unfolding wp_bind wp_returnE
  by (rule wp_outbox_MarkSuspended)
    (use assms in \<open>auto intro: outbox_step_upd outbox_step_idle simp: listed_def event_kept_def\<close>)

lemma outbox_then:
  assumes "outbox_frame.kept m" "\<And>a t. outbox_step s t \<Longrightarrow> wp (f a) (\<lambda>_. outbox_step t) t"
  shows "wp (State_Monad.bind m f) (\<lambda>_. outbox_step s) s"
  unfolding wp_bind
proof (rule wp_mono [OF outbox_frame.kept_wp [OF assms(1)]])
  fix a t assume t: "outbox_step s t"
  show "wp (f a) (\<lambda>_. outbox_step s) t"
    by (rule wp_mono [OF assms(2) [OF t]]) (rule outbox_step_trans [OF t])
qed

lemma dispatch_event_outbox:
  assumes "listed evt w"
  shows "wp (dispatch_event outbox_repository (queue_publisher q) cfg evt) (\<lambda>_. outbox_step w) w"
  unfolding dispatch_event_def bindE_def outbox_ports
proof (rule outbox_then [OF outbox_ops_frame(1)])
  fix ok t assume t: "outbox_step w t"
  have evt: "listed evt t" by (rule listed_step [OF t assms])
  have deliver: "outbox_frame.kept (do {
             pub \<leftarrow> PublishReady q i;
             case pub of
               Inl pubErr \<Rightarrow> do { _ \<leftarrow> MarkRetry (Event_ID evt) d (errstr pubErr); returnE () }
             | Inr _ \<Rightarrow> do { _ \<leftarrow> MarkPublished (Event_ID evt); returnE () } })" for i d
    by (intro outbox_frame.kept_rules outbox_ops_frame)
  show "wp (case ok of Inl e \<Rightarrow> throwE e | Inr ok \<Rightarrow>
       if \<not> ok then returnE ()
       else case ParseTaskCreatedPayload (Event_PayloadJSON evt) of
         Inl parseErr \<Rightarrow> do {
           _ \<leftarrow> outbox_MarkSuspended (Event_ID evt) (''invalid outbox payload: '' @ errstr parseErr);
           returnE () }
       | Inr taskID \<Rightarrow>
           if taskID \<le> 0 then do {
             _ \<leftarrow> outbox_MarkSuspended (Event_ID evt) ''invalid task_id in outbox payload'';
             returnE () }
           else do {
             pub \<leftarrow> PublishReady q taskID;
             case pub of
               Inl pubErr \<Rightarrow> do {
                 _ \<leftarrow> MarkRetry (Event_ID evt)
                        (relayBackoff (Event_RetryCount evt) (Relay_BackoffBase cfg)) (errstr pubErr);
                 returnE () }
             | Inr _ \<Rightarrow> do { _ \<leftarrow> MarkPublished (Event_ID evt); returnE () } }) (\<lambda>_. outbox_step t) t"
    using wp_suspend_outbox [OF evt] outbox_frame.kept_wp [OF deliver] outbox_step_same [of t t]
    by (auto simp: task_of_payload_def simp del: wp_bind split: sum.split)
qed

lemma listed_member:
  "distinct (map ev_event_id (db_events (w_db w))) \<Longrightarrow> e \<in> set (db_events (w_db w)) \<Longrightarrow> listed (event_of_row e) w"
  by (auto simp: listed_def event_of_row_def distinct_map inj_on_def)

definition distinct_events :: "world \<Rightarrow> bool" where
  "distinct_events w \<longleftrightarrow> distinct (map ev_event_id (db_events (w_db w)))"

lemma distinct_events_step: "outbox_step w w' \<Longrightarrow> distinct_events w' = distinct_events w"
proof -
  assume "outbox_step w w'"
  then have "map ev_event_id (db_events (w_db w')) = map ev_event_id (db_events (w_db w))"
    by (auto simp: outbox_step_def list_all2_conv_all_nth event_kept_def intro: nth_equalityI)
  then show ?thesis by (simp add: distinct_events_def)
qed

lemma dispatchOnce_outbox:
  assumes "distinct_events w"
  shows "wp (dispatchOnce outbox_repository (queue_publisher q) cfg) (\<lambda>_. outbox_step w) w"
proof -
  have rest: "wp (forE (map event_of_row rows) (dispatch_event outbox_repository (queue_publisher q) cfg)) (\<lambda>_. outbox_step w) t"
    if t: "outbox_step w t" and rows: "set rows \<subseteq> set (db_events (w_db w))" for rows t
  proof (rule wp_forE_invariant [where I = "outbox_step w", OF t])
    fix evt u assume "evt \<in> set (map event_of_row rows)" and u: "outbox_step w u"
    then have "listed evt w" using rows assms listed_member unfolding distinct_events_def by auto
    then show "wp (dispatch_event outbox_repository (queue_publisher q) cfg evt) (\<lambda>_. outbox_step w) u"
      by (rule wp_mono [OF dispatch_event_outbox [OF listed_step [OF u]]]) (rule outbox_step_trans [OF u])
  qed
  have "set (dispatchable_events now n (w_db w)) \<subseteq> set (db_events (w_db w))" for now n
    by (auto simp: dispatchable_events_def dest!: sql_limit_orderD)
  then show ?thesis
    unfolding dispatchOnce_def wp_bindE outbox_ports
    by (intro wp_ListDispatchable) (simp_all add: rest outbox_step_idle)
qed

text \<open>The state after a step satisfies what the step needed, so steps follow each other.\<close>

definition dispatch_step :: "world \<Rightarrow> world \<Rightarrow> bool" where
  "dispatch_step w w' \<longleftrightarrow> (distinct_events w \<longrightarrow> outbox_step w w')"

interpretation dispatch_frame: step_frame dispatch_step
  by unfold_locales (auto simp: dispatch_step_def distinct_events_step outbox_step_same intro: outbox_step_trans)

lemma dispatch_kept_outbox: "outbox_frame.kept m \<Longrightarrow> dispatch_frame.kept m"
  unfolding outbox_frame.kept_def dispatch_frame.kept_def dispatch_step_def wp_iff by blast

lemma relay_outbox: "dispatch_frame.kept (relay_run time_Now cfg (relay_wiring m q) n)"
proof -
  have once: "dispatch_frame.kept (dispatchOnce outbox_repository (queue_publisher q) cfg)"
    using dispatchOnce_outbox unfolding dispatch_frame.kept_def dispatch_step_def wp_iff by blast
  have gauge: "dispatch_frame.kept (rm_SetOutboxPending (if m then outbox_metrics else noopRelayMetrics) c)" for c
    by (simp add: noopRelayMetrics_def dispatch_frame.kept_ret dispatch_kept_outbox basic_frames)
  have "dispatch_frame.kept (relay_round time_Now cfg (relay_wiring m q))"
    unfolding relay_round_def relay_wiring_def relay_ports.simps outbox_ports
    by (intro dispatch_frame.kept_rules once gauge dispatch_kept_outbox [OF outbox_ops_frame(5)]
        dispatch_kept_outbox [OF outbox_ops_frame(4)] dispatch_kept_outbox [OF basic_frames(3)])
  then show ?thesis by (induction n) (simp_all add: dispatch_frame.kept_rules)
qed

lemma relay_tables: "tables_frame.kept (relay_run time_Now cfg (relay_wiring m q) n)"
proof (rule tables_frame.keptI)
  fix w
  have "tables_step w (final (relay_run time_Now cfg (relay_wiring m q) n) w)"
  proof (cases "distinct_events w")
    case True
    then show ?thesis using dispatch_frame.kept_final [OF relay_outbox] tables_step_outbox by (simp add: dispatch_step_def)
  next
    case False
    then show ?thesis by (auto simp: tables_step_def tables_ok_def ids_ok_def event_ids_ok_def distinct_events_def)
  qed
  then show "wp (relay_run time_Now cfg (relay_wiring m q) n) (\<lambda>_. tables_step w) w" by (simp add: wp_iff)
qed

section \<open>Workers, compensator and replays\<close>

text \<open>What one statement does to a task row does not depend on the keyspace, so the invariant of QuanSystem can be used on an empty one.\<close>

definition no_keys :: "world \<Rightarrow> world" where
  "no_keys w = w\<lparr>w_kv := \<lambda>_. None\<rparr>"

lemma no_keys_simps [simp]:
  "w_db (no_keys w) = w_db w" "w_tx (no_keys w) = w_tx w" "w_now (no_keys w) = w_now w" "task_at (no_keys w) = task_at w"
  "tasks_ok (no_keys w) = tasks_ok w" "same_env w w' \<Longrightarrow> same_env (no_keys w) (no_keys w')"
  by (simp_all add: no_keys_def same_env_def)

lemma tables_step_tasks:
  assumes "tasks_step demo_keys (no_keys w) (no_keys w')"
  shows "tables_step w w'"
  unfolding tables_step_def
proof
  assume ok: "w_tx w = None \<and> tables_ok (w_db w)"
  then have inv: "task_inv demo_keys (no_keys w)"
    using demo_keys_free(1)
    by (simp add: task_inv_def tasks_ok_def tables_ok_def ids_ok_def task_ids_ok_def queue_ok_def list_key_def zset_key_def no_keys_def)
  have "task_inv demo_keys (no_keys w')" using assms inv by (simp add: tasks_step_def)
  then show "w_tx w' = None \<and> tables_ok (w_db w')"
    using tables_ok_tasks_step [OF assms inv] ok by (simp add: task_inv_def)
qed

lemma tables_step_moved:
  assumes "task_moved i S f w w'" "\<And>r now. tk_status r \<in> S \<Longrightarrow> task_trans r (f now r)"
  shows "tables_step w w'"
proof -
  have "task_moved i S f (no_keys w) (no_keys w')"
    using assms(1) by (auto simp: task_moved_def task_put_def)
  then show ?thesis by (intro tables_step_tasks tasks_step_moved) (use assms(2) in auto)
qed

lemma tables_step_failed: "task_failed i m base a w w' \<Longrightarrow> tables_step w w'"
proof -
  assume "task_failed i m base a w w'"
  then have "task_failed i m base a (no_keys w) (no_keys w')"
    by (auto simp: task_failed_def task_put_def idle_def split: if_splits)
  then show ?thesis by (intro tables_step_tasks tasks_step_failed)
qed

lemma tables_keptI:
  assumes "\<And>w. tasks_ok w \<Longrightarrow> w_tx w = None \<Longrightarrow> wp m (\<lambda>_. tables_step w) w"
  shows "tables_frame.kept m"
proof (rule tables_frame.keptI)
  fix w
  show "wp m (\<lambda>_. tables_step w) w"
  proof (cases "tasks_ok w \<and> w_tx w = None")
    case True
    then show ?thesis using assms by simp
  qed (auto simp: wp_iff tables_step_def tables_ok_def ids_ok_def task_ids_ok_def tasks_ok_def)
qed

lemma task_ops_tables:
  "tables_frame.kept (TryMarkRunning i)" "tables_frame.kept (MarkSuccess i)" "tables_frame.kept (task_MarkSuspended i m)"
  "tables_frame.kept (MarkRecoveredForRetry i m)" "tables_frame.kept (MarkReplayReady i)"
  "tables_frame.kept (RestoreDeadAfterReplayFailure i)" "tables_frame.kept (MarkFailed i m b)"
proof -
  note moved = tables_step_moved tables_step_idle
  show "tables_frame.kept (TryMarkRunning i)"
    by (rule tables_keptI, rule wp_TryMarkRunning, assumption) (auto intro: moved task_trans.intros)
  show "tables_frame.kept (MarkSuccess i)"
    by (rule tables_keptI, rule wp_MarkSuccess, assumption) (auto intro: moved task_trans.intros)
  show "tables_frame.kept (task_MarkSuspended i m)"
    by (rule tables_keptI, rule wp_task_MarkSuspended, assumption) (auto intro: moved task_trans.intros)
  show "tables_frame.kept (MarkRecoveredForRetry i m)"
    by (rule tables_keptI, rule wp_MarkRecovered, assumption) (auto intro: moved task_trans.intros)
  show "tables_frame.kept (MarkReplayReady i)"
    by (rule tables_keptI, rule wp_MarkReplayReady, assumption) (auto intro: moved task_trans.intros)
  show "tables_frame.kept (RestoreDeadAfterReplayFailure i)"
    by (rule tables_keptI, rule wp_RestoreDead, assumption) (auto intro: moved task_trans.intros)
  show "tables_frame.kept (MarkFailed i m b)"
    by (rule tables_keptI, rule wp_MarkFailed, assumption+) (auto intro: tables_step_failed tables_step_idle)
qed

lemma move_ids_tables: "tables_frame.kept (move_ids q ids n)"
proof (induction ids arbitrary: n)
  case (Cons i ids)
  show ?case unfolding move_ids.simps by (intro tables_frame.kept_rules redis_frames basic_frames Cons)
qed (simp add: tables_frame.kept_ret)

lemma queue_ops_tables:
  "tables_frame.kept (PopReady q)" "tables_frame.kept (PushDLQ q i)" "tables_frame.kept (ScheduleRetry q i t)"
  "tables_frame.kept (MoveDueRetryToReady q n)" "tables_frame.kept (ReplayFromDLQ q i)"
  unfolding PopReady_def PushDLQ_def ScheduleRetry_def MoveDueRetryToReady_def ReplayFromDLQ_def Let_def
  by (auto simp: basic_frames intro!: tables_frame.kept_rules redis_frames move_ids_tables split: list.split)

lemma candidate_lists_tables:
  "tables_frame.kept (ListDueFailedForCompensation n)" "tables_frame.kept (ListSuspendedForCompensation t n)"
  "tables_frame.kept (ListStaleRunningForCompensation t n)"
proof -
  have query: "tables_frame.kept (wrapE pre (db_exec (query_rows f)))" for pre and f :: "db \<Rightarrow> RecoveryCandidate list"
    by (rule tables_frame.keptI, rule wp_query) (rule tables_step_idle, assumption)+
  show "tables_frame.kept (ListDueFailedForCompensation n)" "tables_frame.kept (ListSuspendedForCompensation t n)"
    "tables_frame.kept (ListStaleRunningForCompensation t n)"
    unfolding ListDueFailedForCompensation_def ListSuspendedForCompensation_def ListStaleRunningForCompensation_def
    by (intro tables_frame.kept_rules basic_frames query)+
qed

lemma handler_tables: "tables_frame.kept (Registry_Handle quan_registry c t)"
  unfolding Registry_Handle_def
  by (auto simp: quan_registry_def Registry_Register_def NewHandlerRegistry_def SendCouponNoticeHandler_def
      intro: tables_frame.kept_rules)

lemma consumer_tables: "tables_frame.kept (consumer_schedule (consumer_wiring m q) cfg ctx bs)"
  unfolding consumer_wiring_def
  by (rule tables_frame.kept_consumer_schedule)
    (simp_all add: consumer_counters_def noopConsumerMetrics_def tables_frame.kept_ret task_ops_tables queue_ops_tables
      basic_frames handler_tables)

lemma compensator_tables: "tables_frame.kept (compensator_run time_Now cfg (compensator_wiring m q) n)"
  unfolding compensator_wiring_def
  by (rule tables_frame.kept_compensator_run)
    (simp_all add: noopCompensationMetrics_def tables_frame.kept_ret task_ops_tables queue_ops_tables basic_frames candidate_lists_tables)

lemma replay_tables: "tables_frame.kept (ReplayDLQTask s i)"
proof -
  have "tables_frame.kept (replay_queue queue i)" for queue
    by (cases queue) (auto simp: replay_queue_def intro!: tables_frame.kept_rules queue_ops_tables)
  then show ?thesis
    unfolding ReplayDLQTask_def
    by (auto intro!: tables_frame.kept_rules task_ops_tables split: outcome.split sum.split bool.split)
qed

section \<open>Requests\<close>

lemma create_tables: "tables_step w (final (CreateTask s req) w)"
  unfolding tables_step_def
proof
  let ?w' = "final (CreateTask s req) w"
  assume ok: "w_tx w = None \<and> tables_ok (w_db w)"
  show "w_tx ?w' = None \<and> tables_ok (w_db ?w')"
  proof (cases "create_params s req")
    case None
    then show ?thesis using ok by (simp add: CreateTask_def final_def)
  next
    case (Some p)
    have fin: "?w' = final (within_tx (createTask_tx p)) w"
      by (simp add: CreateTask_def Some final_def split: prod.split sum.split)
    have e: "w_tx ?w' = None" "task_create_effect p (answer (within_tx (createTask_tx p)) w) (w_db w) (w_db ?w')"
      using wp_create_within_tx [of w p] ok by (simp_all add: wp_iff fin)
    have known: "\<exists>d1. counters_le (w_db w) d1 \<and> w_db ?w' = rolled_back (w_db w) d1" if "task_known p (w_db w) t (w_db ?w')" for t
      using task_known_rolled_back [OF that] by blast
    from e(2) consider d1 where "counters_le (w_db w) d1" "w_db ?w' = rolled_back (w_db w) d1" | t where "task_added p (w_db w) t (w_db ?w')"
      using known by (auto simp: task_create_effect_def split: sum.splits)
    then show ?thesis using e(1) ok by cases (auto simp: tables_ok_counters tables_ok_task_added)
  qed
qed

lemma claim_tables:
  "tables_step w (final (Claim (coupon_NewService (coupon_NewRepository True True n) cache) ctx rnd1 rnd2 cid uid idem) w)"
  unfolding tables_step_def
proof
  let ?s = "coupon_NewService (coupon_NewRepository True True n) cache" and ?r = "coupon_NewRepository True True n"
  let ?w' = "final (Claim ?s ctx rnd1 rnd2 cid uid idem) w"
  assume ok: "w_tx w = None \<and> tables_ok (w_db w)"
  have repo: "Svc_repo ?s = ?r" "Repo_async ?r" by (simp_all add: coupon_NewService_def coupon_NewRepository_def)
  have old: "w_tx w = None" "tables_ok (w_db w)" "campaigns_ok (w_db w)" using ok by (simp_all add: tables_ok_def books_ok_def)
  have e: "claim_effect ?s ctx cid uid idem w (answer (Claim ?s ctx rnd1 rnd2 cid uid idem) w) ?w'"
    using wp_Claim [OF old(3,1) refl, of ?r cache ctx rnd1 rnd2 cid uid idem] by (simp add: wp_iff)
  have "claims_step demo_keys w ?w'" by (rule claims_frame.kept_final [OF claim_kept [OF demo_keys_free(2)]])
  moreover have "tables_ok (w_db ?w')"
    using e old(2) tables_ok_claimed [OF old(2) _ repo(2)] unfolding claim_effect_def quiet_def repo(1) by auto
  ultimately show "w_tx ?w' = None \<and> tables_ok (w_db ?w')" using old by (simp add: claims_step_def)
qed

section \<open>Runs\<close>

lemma quan_step_tables: "quan_step q w w' \<Longrightarrow> tables_step w w'"
proof (induction rule: quan_step.induct)
  case step_claim
  show ?case by (rule claim_tables)
next
  case step_create
  show ?case by (rule create_tables)
next
  case step_replay
  show ?case by (rule tables_frame.kept_final [OF replay_tables])
next
  case step_relay
  show ?case by (rule tables_frame.kept_final [OF relay_tables])
next
  case step_consume
  show ?case by (rule tables_frame.kept_final [OF consumer_tables])
next
  case step_compensate
  show ?case by (rule tables_frame.kept_final [OF compensator_tables])
qed (simp_all add: tables_step_same)

lemma quan_run_tables: "quan_run q w w' \<Longrightarrow> tables_step w w'"
  by (induction rule: rtranclp_induct) (auto intro: tables_frame.frame_refl tables_frame.frame_trans quan_step_tables)

theorem quan_never_oversells:
  assumes "w_tx w = None" "tables_fresh (w_db w)" "quan_run q w w'"
  shows "(\<forall>c \<in> set (db_campaigns (w_db w')). 0 \<le> cp_available_stock c \<and>
            cp_available_stock c + int (length (claims_of (cp_coupon_id c) (w_db w'))) = cp_total_stock c \<and>
            (\<forall>u. int (length (user_claims (cp_coupon_id c) u (w_db w'))) \<le> effective_limit (cp_per_user_limit c))) \<and>
         (\<forall>x \<in> set (db_claims (w_db w')). \<exists>t. notice_tasks (w_db w') x = [t] \<and> announced (w_db w') (tk_task_id t))"
  using quan_run_tables [OF assms(3)] tables_fresh_ok [OF assms(2)] assms(1)
  by (intro tables_ok_books) (simp add: tables_step_def)

end
