(* ===== verification/QuanDelivery.thy ===== *)
theory QuanDelivery
  imports QuanSystem
begin

text \<open>
  From the outbox to the handler. Without faults a pass of the relay followed by rounds of a worker
  brings a pending notice to SUCCESS, wherever it stands in the queue. That a component leaves a calm
  world calm is another frame in the sense of \<open>step_frame\<close>.
\<close>

section \<open>Calm worlds stay calm\<close>

definition stays_calm :: "world \<Rightarrow> world \<Rightarrow> bool" where
  "stays_calm w w' \<longleftrightarrow> (calm w \<longrightarrow> calm w')"

interpretation calm_frame: step_frame stays_calm
  by unfold_locales (auto simp: stays_calm_def)

lemma calm_keptI: "(\<And>w. calm w \<Longrightarrow> calm (final m w)) \<Longrightarrow> calm_frame.kept m"
  by (simp add: calm_frame.kept_def stays_calm_def wp_iff)

lemma calm_primitives:
  "calm_frame.kept next_fault" "calm_frame.kept time_Now" "calm_frame.kept (metric c)" "calm_frame.kept (db_exec st)"
  "calm_frame.kept (redis_exec cmd)" "calm_frame.kept (tx_exec st)" "calm_frame.kept tx_Rollback"
proof -
  show "calm_frame.kept next_fault" "calm_frame.kept time_Now" "calm_frame.kept (metric c)" "calm_frame.kept (db_exec st)"
    "calm_frame.kept (redis_exec cmd)"
    by (auto intro!: calm_keptI simp: final_def)
  show "calm_frame.kept (tx_exec st)"
    by (auto intro!: calm_keptI simp: final_def tx_exec_def split: option.split prod.split)
  show "calm_frame.kept tx_Rollback"
    by (auto intro!: calm_keptI simp: final_def tx_Rollback_def State_Monad.update_def split: option.split)
qed

lemma calm_within_tx: "calm_frame.kept f \<Longrightarrow> calm_frame.kept (within_tx f)"
proof -
  assume f: "calm_frame.kept f"
  have upd: "calm_frame.kept (State_Monad.update (\<lambda>w. case w_tx w of None \<Rightarrow> w | Some d \<Rightarrow> w\<lparr>w_db := d, w_tx := None\<rparr>))"
    "calm_frame.kept (State_Monad.update (\<lambda>w. w\<lparr>w_tx := Some (w_db w)\<rparr>))"
    by (auto intro!: calm_keptI simp: final_def State_Monad.update_def split: option.split)
  have commit: "calm_frame.kept tx_Commit" "calm_frame.kept db_BeginTx"
    unfolding tx_Commit_def db_BeginTx_def
    by (rule calm_frame.kept_bind [OF calm_primitives(1)],
        auto intro!: calm_frame.kept_rules calm_primitives upd split: fault.split)+
  have "calm_frame.kept (case out of
             Panicked p \<Rightarrow> do { _ \<leftarrow> tx_Rollback; ret (Panicked p) }
           | Returned (Inl err) \<Rightarrow> do { _ \<leftarrow> tx_Rollback; ret (Returned (Inl err)) }
           | Returned (Inr a) \<Rightarrow> do {
               c \<leftarrow> tx_Commit;
               case c of
                 Inl err \<Rightarrow> ret (Returned (Inl (ErrWrap ''commit tx: '' err '''')))
               | Inr _ \<Rightarrow> ret (Returned (Inr a)) })" for out
    by (auto intro!: calm_frame.kept_rules calm_primitives commit split: outcome.split sum.split)
  then show ?thesis
    unfolding within_tx_def WithinTx_def option.case
    by (intro calm_frame.kept_rules commit f)
qed

lemma task_ops_calm:
  "calm_frame.kept (TryMarkRunning i)" "calm_frame.kept (MarkSuccess i)" "calm_frame.kept (task_MarkSuspended i m)"
  "calm_frame.kept (MarkFailed i m b)"
  unfolding TryMarkRunning_def MarkSuccess_def task_MarkSuspended_def MarkFailed_def markFailed_tx_def wrapE_def
    task_GetByID_def Let_def
  by (intro calm_frame.kept_rules calm_primitives calm_within_tx)+

lemma move_ids_calm: "calm_frame.kept (move_ids q ids n)"
proof (induction ids arbitrary: n)
  case (Cons i ids)
  show ?case unfolding move_ids.simps by (intro calm_frame.kept_rules calm_primitives Cons)
qed (simp add: calm_frame.kept_ret)

lemma queue_ops_calm:
  "calm_frame.kept (PopReady q)" "calm_frame.kept (PushDLQ q i)" "calm_frame.kept (ScheduleRetry q i t)"
  "calm_frame.kept (MoveDueRetryToReady q n)" "calm_frame.kept (PublishReady q i)"
  unfolding PopReady_def PushDLQ_def ScheduleRetry_def MoveDueRetryToReady_def PublishReady_def Let_def
  by (auto intro!: calm_frame.kept_rules calm_primitives move_ids_calm split: list.split)

lemma handler_calm: "calm_frame.kept (Registry_Handle quan_registry c t)"
  unfolding Registry_Handle_def
  by (auto simp: quan_registry_def Registry_Register_def NewHandlerRegistry_def SendCouponNoticeHandler_def
      intro: calm_frame.kept_rules)

lemma worker_calm: "calm_frame.kept (worker_round (quan_ports q) cfg ctx)"
  unfolding worker_round_def consumeTask_def consume_failed_def consume_done_def quan_ports_def consumer_ports.simps
    consumer_world_simps consumer_counters_def consumerMetrics.simps
  by (intro calm_frame.kept_rules calm_primitives task_ops_calm queue_ops_calm handler_calm)


lemma outbox_ops_calm:
  "calm_frame.kept (TryMarkDispatching i)" "calm_frame.kept (MarkPublished i)" "calm_frame.kept (MarkRetry i d m)"
  "calm_frame.kept (outbox_MarkSuspended i m)" "calm_frame.kept (ListDispatchable n)"
  unfolding TryMarkDispatching_def MarkPublished_def MarkRetry_def outbox_MarkSuspended_def ListDispatchable_def wrapE_def Let_def
  by (intro calm_frame.kept_rules calm_primitives)+

lemma dispatch_calm: "calm_frame.kept (dispatchOnce outbox_repository (queue_publisher q) cfg)"
  unfolding dispatchOnce_def
  by (intro calm_frame.kept_rules calm_frame.kept_dispatch_event)
    (simp_all add: outbox_repository_def queue_publisher_def outbox_ops_calm queue_ops_calm)

section \<open>Rounds of a worker\<close>

text \<open>The task can still be completed by a worker, or is completed.\<close>

definition completable :: "world \<Rightarrow> int \<Rightarrow> bool" where
  "completable w i \<longleftrightarrow> (\<exists>r. task_at w i = Some r \<and> handler_accepts r \<and>
     tk_status r \<in> {task_StatusPending, task_StatusFailed, task_StatusSuccess})"

definition completed :: "world \<Rightarrow> int \<Rightarrow> bool" where
  "completed w i \<longleftrightarrow> (\<exists>r. task_at w i = Some r \<and> tk_status r = task_StatusSuccess)"

lemma settled_ready: "settled i good err r r' v v' \<Longrightarrow> qv_ready v' = qv_ready v"
  by (auto simp: settled_def split: if_splits)

lemma completable_put: "task_at w' = (task_at w)(j \<mapsto> r') \<Longrightarrow> j \<noteq> i \<Longrightarrow> completable w i \<Longrightarrow> completable w' i"
  by (simp add: completable_def)

lemma consume_calm:
  assumes "calm w" "task_inv q w"
    and w'_def: "w' = final (consumeTask (quan_ports q) cfg ctx j) w"
  shows "task_inv q w' \<and> qv_ready (qview q w') = qv_ready (qview q w)"
    and "completable w i \<Longrightarrow> completable w' i \<and> (completed w i \<longrightarrow> completed w' i) \<and> (i = j \<longrightarrow> completed w' i)"
proof -
  have ok: "tasks_ok w" using assms(2) by (simp add: task_inv_def)
  let ?m = "consumeTask (quan_ports q) cfg ctx j"
  have c: "task_consumer.consumed q ctx j w (answer ?m w) w'"
    using task_consumer.wp_consumeTask [OF assms(2), of cfg ctx j] by (simp add: wp_iff quan_ports_def w'_def)
  then show "task_inv q w' \<and> qv_ready (qview q w') = qv_ready (qview q w)"
    unfolding task_consumer.consumed_def using settled_ready by metis
  assume i: "completable w i"
  then obtain r where r: "task_at w i = Some r" "handler_accepts r"
      "tk_status r \<in> {task_StatusPending, task_StatusFailed, task_StatusSuccess}" by (auto simp: completable_def)
  show "completable w' i \<and> (completed w i \<longrightarrow> completed w' i) \<and> (i = j \<longrightarrow> completed w' i)"
  proof (cases "i = j \<and> tk_status r \<noteq> task_StatusSuccess")
    case True
    then have r': "task_at w j = Some r" "tk_status r \<in> {task_StatusPending, task_StatusFailed}" using r by auto
    note run = run_consumeTask_accepted [OF assms(1) ok r' r(2)]
    let ?x = "success_task (w_now w) (running_task (w_now w) r)"
    have "w' = (put_task j ?x w)\<lparr>w_metrics := w_metrics w @ [IncConsumeSuccess]\<rparr>"
      unfolding w'_def final_def run(1) by simp
    then have "task_at w' i = Some ?x"
      using put_task_rows(3) [OF run(2), of w] r'(1) True by (simp add: task_at_def fun_eq_iff)
    moreover have "handler_accepts ?x" using r(2) by (simp add: handler_accepts_def running_task_def success_task_def)
    ultimately show ?thesis using run(3) by (auto simp: completable_def completed_def)
  next
    case False
    have "task_at w' i = task_at w i"
      using c False r(1) unfolding task_consumer.consumed_def by (auto simp: task_status_defs)
    with r False show ?thesis by (auto simp: completable_def completed_def)
  qed
qed

lemma worker_pops:
  assumes "calm w" "task_inv q w" "qv_ready (qview q w) = v # vs"
    and w'_def: "w' = final (worker_round (quan_ports q) cfg ctx) w"
  shows "calm w'" "task_inv q w'" "qv_ready (qview q w') = vs"
    and "completable w i \<Longrightarrow> completable w' i \<and> (completed w i \<longrightarrow> completed w' i) \<and> (ParseInt v = Inr i \<longrightarrow> completed w' i)"
proof -
  have ok: "queue_ok q w" using assms(2) by (simp add: task_inv_def)
  let ?w1 = "w\<lparr>w_kv := put_list (ReadyKey q) vs None (w_kv w)\<rparr>"
  have pop: "run_state (PopReady q) w = ((case ParseInt v of Inl e \<Rightarrow> Inl (ErrWrap ''invalid task id in ready queue: '' e '''')
      | Inr j \<Rightarrow> Inr (Some j)), ?w1)"
    using queue_scripts(1) [OF ok] assms(1,3) by (simp add: PopReady_def split: sum.split)
  have upd: "queue_upd q (\<lambda>x. x\<lparr>qv_ready := vs\<rparr>) w ?w1"
    using queue_put_ready [OF ok, of vs "w_faults w"] by simp
  note w1 = task_inv_queue [OF upd assms(2)]
  have calm1: "calm ?w1" using assms(1) by simp
  show "calm w'" using calm_frame.kept_final [OF worker_calm] assms(1) by (simp add: stays_calm_def w'_def)
  have same: "completable ?w1 i = completable w i" "completed ?w1 i = completed w i" for i
    using w1 by (simp_all add: completable_def completed_def)
  have "task_inv q w' \<and> qv_ready (qview q w') = vs \<and>
    (completable w i \<longrightarrow> completable w' i \<and> (completed w i \<longrightarrow> completed w' i) \<and> (ParseInt v = Inr i \<longrightarrow> completed w' i))" for i
  proof (cases "ParseInt v")
    case (Inl e)
    then have "w' = ?w1" using pop by (simp add: w'_def final_def worker_round_def quan_ports_def)
    then show ?thesis using w1 Inl same by simp
  next
    case (Inr j)
    then have w': "w' = final (consumeTask (quan_ports q) cfg ctx j) ?w1"
      using pop by (simp add: w'_def final_def worker_round_def quan_ports_def)
    have inv1: "task_inv q ?w1" using w1 by blast
    show ?thesis using consume_calm [OF calm1 inv1 w'] w1 Inr same by auto
  qed
  then show "task_inv q w'" "qv_ready (qview q w') = vs"
    "completable w i \<Longrightarrow> completable w' i \<and> (completed w i \<longrightarrow> completed w' i) \<and> (ParseInt v = Inr i \<longrightarrow> completed w' i)"
    by blast+
qed

lemma worker_drains:
  assumes "calm w" "task_inv q w" "completable w i" "FormatInt i \<in> set (qv_ready (qview q w)) \<or> completed w i" "in_int64 i"
  shows "completed (final (runWorker (quan_ports q) cfg ctx (length (qv_ready (qview q w)))) w) i"
  using assms
proof (induction "qv_ready (qview q w)" arbitrary: w)
  case Nil
  then show ?case using Nil.hyps [symmetric] by (simp add: final_def)
next
  case (Cons v vs)
  let ?w1 = "final (worker_round (quan_ports q) cfg ctx) w"
  note ready = Cons.hyps(2) [symmetric]
  note p = worker_pops [OF Cons.prems(1,2) ready refl, where cfg = cfg and ctx = ctx]
  note p4 = p(4) [OF Cons.prems(3)]
  have "FormatInt i \<in> set (qv_ready (qview q ?w1)) \<or> completed ?w1 i"
  proof (cases "v = FormatInt i")
    case True
    then show ?thesis using p4 Cons.prems(5) by (simp add: in_int64_def)
  next
    case False
    then show ?thesis using p4 p(3) Cons.prems(4) ready by auto
  qed
  from Cons.hyps(1) [OF p(3) [symmetric] p(1,2) _ this Cons.prems(5)] p4 p(3)
  have "completed (final (runWorker (quan_ports q) cfg ctx (length vs)) ?w1) i" by simp
  moreover have "final (runWorker (quan_ports q) cfg ctx (length (v # vs))) w = final (runWorker (quan_ports q) cfg ctx (length vs)) ?w1"
    by (simp add: final_def split: prod.split)
  ultimately show ?case by (simp only: ready)
qed


section \<open>Properties\<close>

lemma dispatch_kept: "events_frame.kept q (dispatchOnce outbox_repository (queue_publisher q) cfg)"
  unfolding dispatchOnce_def
  by (intro events_frame.kept_rules events_frame.kept_dispatch_event)
    (simp_all add: outbox_repository_def queue_publisher_def outbox_ops_kept outbox_reads_kept)

text \<open>
  C4. A notice that waits in the outbox is delivered. Take any state of the server that satisfies its invariant, and a
  PENDING or FAILED task whose id is an \<open>int64\<close>, that its handler accepts and that a due event within the relay's batch
  names. If from now on no round trip fails and the clock stands still, one pass of the relay publishes the event, and as many
  rounds of a worker as the ready list then has entries leave the task SUCCESS, whatever stands before it in the list:
  other tasks, ids that are not numbers, or ids of tasks that fail.
\<close>

theorem notice_delivered:
  assumes "calm w" "quan_inv q w" and t: "t \<in> set (db_tasks (w_db w))"
      "tk_status t \<in> {task_StatusPending, task_StatusFailed}" "handler_accepts t" "in_int64 (tk_task_id t)"
    and e: "e \<in> set (db_events (w_db w))" "ev_payload_json e = MarshalTaskCreatedPayload (tk_task_id t)"
      "ev_event_id e \<in> set (due_events w (Relay_BatchSize rcfg))"
  shows "let w1 = final (dispatchOnce outbox_repository (queue_publisher q) rcfg) w;
             w2 = final (runWorker (quan_ports q) ccfg ctx (length (ready_list q w1))) w1
         in event_status w1 (ev_event_id e) = Some outbox_StatusPublished \<and>
            (\<exists>r. task_at w2 (tk_task_id t) = Some r \<and> tk_status r = task_StatusSuccess)"
proof -
  let ?m = "dispatchOnce outbox_repository (queue_publisher q) rcfg" and ?i = "tk_task_id t"
  let ?w1 = "final ?m w"
  have old: "queue_ok q w" "task_ids_ok (w_db w)" "event_ids_ok (w_db w)" "tasks_ok w" "w_tx w = None"
    using assms(2) by (simp_all add: quan_inv_def tables_ok_def ids_ok_def task_ids_ok_def tasks_ok_def)
  have rinv: "relay_inv q w" using old by (simp add: relay_inv_def event_ids_ok_def)
  have pos: "0 < ?i" using old(2) t(1) by (simp add: task_ids_ok_def)
  have "outbox_row w (ev_event_id e) = Some e" using outbox_row_member e(1) old(3) by (simp add: event_ids_ok_def)
  then have "task_of_payload (event_payload w (ev_event_id e)) = Some ?i"
    using t(4) pos e(2) by (simp add: event_payload_def task_of_payload_def)
  with outbox_relay_calm.wp_dispatchOnce_quiet [OF rinv assms(1), of rcfg] e(3)
  have pub: "event_status ?w1 (ev_event_id e) = Some outbox_StatusPublished" "FormatInt ?i \<in> set (ready_list q ?w1)"
    by (auto simp: wp_iff outbox_relay_calm.delivered_def)
  have step: "events_step q w ?w1" by (rule events_frame.kept_final [OF dispatch_kept])
  note S = step [unfolded events_step_def, rule_format, OF old(1)]
  have tasks: "db_tasks (w_db ?w1) = db_tasks (w_db w)" using S by (intro events_only_same(3)) blast
  have "task_inv q ?w1" using S old by (simp add: task_inv_def tasks_ok_def tasks)
  moreover have "calm ?w1" using calm_frame.kept_final [OF dispatch_calm] assms(1) by (simp add: stays_calm_def)
  moreover have "task_at ?w1 ?i = Some t" using task_at_member [OF old(4) t(1)] by (simp add: task_at_def tasks)
  then have "completable ?w1 ?i" using t by (auto simp: completable_def)
  ultimately have "completed (final (runWorker (quan_ports q) ccfg ctx (length (ready_list q ?w1))) ?w1) ?i"
    using worker_drains [of ?w1 q ?i ccfg ctx] pub(2) t(4) by (simp add: ready_list_def)
  with pub(1) show ?thesis by (simp add: Let_def completed_def)
qed

definition demo_office :: world where
  "demo_office = (demo_board [])\<lparr>w_kv := (\<lambda>_. None)(''queue:task:ready'' \<mapsto> (RList [''junk''], None)),
     w_db := (w_db (demo_board []))\<lparr>db_events := [demo_event 1 (MarshalTaskCreatedPayload 1) outbox_StatusPending],
       db_next_event_id := 2\<rparr>\<rparr>"

lemma demo_office_inv: "quan_inv demo_keys demo_office"
  by (simp add: quan_inv_def demo_office_def demo_board_def queue_ok_def demo_keys_def QueueConfig_withDefaults_def
      list_key_def zset_key_def tables_ok_def books_defs ids_ok_def task_ids_ok_def event_ids_ok_def task_keys_def
      announced_def demo_event_def demo_task_def answers_ok_def key_defs)

theorem notice_delivered_witness:
  "let w = demo_office; q = demo_keys; w1 = final (dispatchOnce outbox_repository (queue_publisher q) demo_relay) w;
       w2 = final (runWorker (quan_ports q) demo_consume (Ctx None) (length (ready_list q w1))) w1
   in event_status w1 1 = Some outbox_StatusPublished \<and> (\<exists>r. task_at w2 1 = Some r \<and> tk_status r = task_StatusSuccess)"
proof -
  let ?p = "\<lparr>Notice_ClaimID = 1, Notice_CouponID = 1001, Notice_UserID = 7, Notice_TraceID = []\<rparr>"
  let ?e = "demo_event 1 (MarshalTaskCreatedPayload 1) outbox_StatusPending"
  have acc: "handler_accepts (demo_task 1)"
    using UnmarshalNoticePayload_Marshal [of ?p] by (simp add: handler_accepts_def demo_task_def in_int64_def)
  have due: "ev_event_id ?e \<in> set (due_events demo_office (Relay_BatchSize demo_relay))"
    by (simp add: due_events_def dispatchable_events_def demo_office_def demo_board_def demo_event_def sql_select_def
        sql_order_by_def sql_limit_def demo_relay_def duration_defs RelayConfig_withDefaults_def default_limit_def Let_def)
  have t: "demo_task 1 \<in> set (db_tasks (w_db demo_office))" "?e \<in> set (db_events (w_db demo_office))" "calm demo_office"
    by (simp_all add: demo_office_def demo_board_def calm_def)
  have s: "tk_status (demo_task 1) \<in> {task_StatusPending, task_StatusFailed}" "in_int64 (tk_task_id (demo_task 1))"
      "ev_payload_json ?e = MarshalTaskCreatedPayload (tk_task_id (demo_task 1))" "tk_task_id (demo_task 1) = 1" "ev_event_id ?e = 1"
    by (simp_all add: demo_task_def demo_event_def in_int64_def)
  from notice_delivered [OF t(3) demo_office_inv t(1) s(1) acc s(2) t(2) s(3) due] show ?thesis
    unfolding s(4,5) by (simp only: Let_def)
qed

end
