(* ===== verification/Threads.thy ===== *)
theory Threads
  imports Prelude
begin

text \<open>
  Goroutines that share a state. A thread is a program cut at the points where other threads may come in between:
  \<open>Act m\<close> does the state change \<open>m\<close> in one step and goes on with the thread that it answers. \<open>solo\<close> is the thread run
  without interruption, which connects a thread to the sequential code it cuts. A pool interleaves any
  number of threads, new ones included, with steps of the environment.

  The locale \<open>rely\<close> is the proof method: an invariant and a transitive relation that every step of every thread
  keeps, so that what a thread learned from the state and is stable under the relation is still true when it
  goes on.
\<close>

section \<open>Threads\<close>

datatype ('s, 'a) thread = Done 'a | Act "('s, ('s, 'a) thread) state"

primrec solo :: "('s, 'a) thread \<Rightarrow> ('s, 'a) state" where
  "solo (Done a) = ret a"
| "solo (Act m) = State_Monad.bind (map_state solo m) (\<lambda>x. x)"

primrec bindT :: "('s, 'a) thread \<Rightarrow> ('a \<Rightarrow> ('s, 'b) thread) \<Rightarrow> ('s, 'b) thread" where
  "bindT (Done a) f = f a"
| "bindT (Act m) f = Act (map_state (\<lambda>p. bindT p f) m)"

definition act :: "('s, 'a) state \<Rightarrow> ('s, 'a) thread" where
  "act m = Act (map_state Done m)"

text \<open>The idioms of the sequential code.\<close>

definition bindTE :: "('s, 'e + 'a) thread \<Rightarrow> ('a \<Rightarrow> ('s, 'e + 'b) thread) \<Rightarrow> ('s, 'e + 'b) thread" where
  "bindTE p f = bindT p (\<lambda>r. case r of Inl e \<Rightarrow> Done (Inl e) | Inr a \<Rightarrow> f a)"

primrec forT :: "'x list \<Rightarrow> ('x \<Rightarrow> ('s, 'e + unit) thread) \<Rightarrow> ('s, 'e + unit) thread" where
  "forT [] f = Done (Inr ())"
| "forT (x # xs) f = bindTE (f x) (\<lambda>_. forT xs f)"

definition mapT :: "('a \<Rightarrow> 'b) \<Rightarrow> ('s, 'a) thread \<Rightarrow> ('s, 'b) thread" where
  "mapT f p = bindT p (\<lambda>a. Done (f a))"

lemma run_map_state [simp]: "run_state (map_state f m) s = (case run_state m s of (a, t) \<Rightarrow> (f a, t))"
  by (cases m) (simp add: map_prod_def split_beta)

lemma state_eqI: "(\<And>s. run_state m s = run_state n s) \<Longrightarrow> m = n"
  by (cases m; cases n) (simp add: fun_eq_iff)

lemma solo_Act: "solo (Act m) = State_Monad.bind m solo"
  by (rule state_eqI) (simp split: prod.split)

lemma solo_act [simp]: "solo (act m) = m"
  by (rule state_eqI) (simp add: act_def split: prod.split)

lemma run_in_set: "run_state m s = (p, t) \<Longrightarrow> p \<in> set_state m"
  by (cases m) (auto intro!: exI [of _ s] simp: fsts.simps)

lemma solo_bindT [simp]: "solo (bindT p f) = State_Monad.bind (solo p) (\<lambda>a. solo (f a))"
proof (induction p)
  case (Act m)
  show ?case
  proof (rule state_eqI)
    fix s
    obtain p t where m: "run_state m s = (p, t)" by fastforce
    show "run_state (solo (bindT (Act m) f)) s = run_state (State_Monad.bind (solo (Act m)) (\<lambda>a. solo (f a))) s"
      using Act [OF run_in_set [OF m]] m by simp
  qed
qed (rule state_eqI, simp)

lemma solo_bindTE [simp]: "solo (bindTE p f) = bindE (solo p) (\<lambda>a. solo (f a))"
  unfolding bindTE_def bindE_def solo_bindT
  by (intro arg_cong2 [where f = State_Monad.bind] ext) (auto simp: throwE_def split: sum.split)

lemma solo_forT [simp]: "solo (forT xs f) = forE xs (\<lambda>x. solo (f x))"
  by (induction xs) (simp_all add: returnE_def)

lemma solo_mapT [simp]: "solo (mapT f p) = State_Monad.bind (solo p) (\<lambda>a. ret (f a))"
  by (simp add: mapT_def)

lemma solo_cases [simp]:
  "solo (case r of Inl e \<Rightarrow> f e | Inr a \<Rightarrow> g a) = (case r of Inl e \<Rightarrow> solo (f e) | Inr a \<Rightarrow> solo (g a))"
  "solo (case x of None \<Rightarrow> p | Some b \<Rightarrow> h b) = (case x of None \<Rightarrow> solo p | Some b \<Rightarrow> solo (h b))"
  "solo (if c then p else p') = (if c then solo p else solo p')"
  by (simp_all split: sum.split option.split)

section \<open>Pools\<close>

text \<open>
  A pool is the shared state and its threads. \<open>spawns\<close> says which threads may start, \<open>env\<close> what the outside may do to
  the state. A thread that is not scheduled any more is one whose process has died.
\<close>

inductive pool_step ::
  "(('s, 'a) thread \<Rightarrow> bool) \<Rightarrow> ('s \<Rightarrow> 's \<Rightarrow> bool) \<Rightarrow> 's \<times> ('s, 'a) thread list \<Rightarrow> 's \<times> ('s, 'a) thread list \<Rightarrow> bool"
  for spawns env
where
  spawn: "spawns p \<Longrightarrow> pool_step spawns env (s, T) (s, T @ [p])"
| sched: "i < length T \<Longrightarrow> T ! i = Act m \<Longrightarrow> run_state m s = (p, t) \<Longrightarrow> pool_step spawns env (s, T) (t, T[i := p])"
| outside: "env s t \<Longrightarrow> pool_step spawns env (s, T) (t, T)"

abbreviation pool_run where
  "pool_run spawns env \<equiv> (pool_step spawns env)\<^sup>*\<^sup>*"

text \<open>Executing a schedule: the indices of the threads in the order of their steps.\<close>

definition exec_thread :: "nat \<Rightarrow> 's \<times> ('s, 'a) thread list \<Rightarrow> 's \<times> ('s, 'a) thread list" where
  "exec_thread i pool = (case pool of (s, T) \<Rightarrow>
     if i < length T then (case T ! i of Done _ \<Rightarrow> (s, T) | Act m \<Rightarrow> (case run_state m s of (p, t) \<Rightarrow> (t, T[i := p])))
     else (s, T))"

definition exec_schedule :: "nat list \<Rightarrow> 's \<times> ('s, 'a) thread list \<Rightarrow> 's \<times> ('s, 'a) thread list" where
  "exec_schedule = fold exec_thread"

lemma exec_thread_run: "pool_run spawns env pool (exec_thread i pool)"
  by (cases pool) (auto simp: exec_thread_def intro: sched split: thread.split prod.split)

lemma exec_schedule_run: "pool_run spawns env pool (exec_schedule is pool)"
  unfolding exec_schedule_def
proof (induction "is" arbitrary: pool)
  case (Cons i "is")
  show ?case using exec_thread_run [of spawns env pool i] Cons [of "exec_thread i pool"] by simp
qed simp

lemma pool_spawn_all: "list_all spawns ps \<Longrightarrow> pool_run spawns env (s, T) (s, T @ ps)"
proof (induction ps arbitrary: T)
  case (Cons p ps)
  have "pool_step spawns env (s, T) (s, T @ [p])" using Cons.prems by (intro spawn) simp
  moreover have "pool_run spawns env (s, T @ [p]) (s, (T @ [p]) @ ps)" using Cons by (intro Cons.IH) simp
  ultimately show ?case by (simp add: converse_rtranclp_into_rtranclp)
qed simp

text \<open>A thread that runs alone to its end.\<close>

lemma pool_solo:
  assumes "run_state (solo p) s = (a, t)"
  shows "pool_run spawns env (s, T @ [p]) (t, T @ [Done a])"
  using assms
proof (induction p arbitrary: s)
  case (Done b)
  then show ?case by simp
next
  case (Act m)
  obtain p u where m: "run_state m s = (p, u)" by fastforce
  have "pool_step spawns env (s, T @ [Act m]) (u, (T @ [Act m])[length T := p])"
    by (rule sched [OF _ _ m]) simp_all
  moreover have "pool_run spawns env (u, T @ [p]) (t, T @ [Done a])"
    using Act.prems m by (intro Act.IH [OF run_in_set [OF m]]) (simp add: solo_Act)
  ultimately show ?case by (simp add: converse_rtranclp_into_rtranclp)
qed

section \<open>Rely and guarantee\<close>

locale rely =
  fixes inv :: "'s \<Rightarrow> bool" and grows :: "'s \<Rightarrow> 's \<Rightarrow> bool"
  assumes grows_refl: "grows s s" and grows_trans: "grows s t \<Longrightarrow> grows t u \<Longrightarrow> grows s u"
begin

text \<open>What may have happened between two steps of a thread, and what a step has to do.\<close>

definition later :: "'s \<Rightarrow> 's \<Rightarrow> bool" where
  "later s t \<longleftrightarrow> inv t \<and> grows s t"

lemma later_trans: "later s t \<Longrightarrow> later t u \<Longrightarrow> later s u"
  using grows_trans by (auto simp: later_def)

lemma later_refl: "inv s \<Longrightarrow> later s s"
  by (simp add: later_def grows_refl)

inductive safe :: "('a \<Rightarrow> 's \<Rightarrow> bool) \<Rightarrow> 's \<Rightarrow> ('s, 'a) thread \<Rightarrow> bool" for Q where
  safe_Done: "(\<And>t. later s t \<Longrightarrow> Q a t) \<Longrightarrow> safe Q s (Done a)"
| safe_Act: "(\<And>t p u. later s t \<Longrightarrow> run_state m t = (p, u) \<Longrightarrow> later t u \<and> safe Q u p) \<Longrightarrow> safe Q s (Act m)"

inductive_cases safe_DoneE: "safe Q s (Done a)"
inductive_cases safe_ActE: "safe Q s (Act m)"

lemma safe_later: "safe Q s p \<Longrightarrow> later s t \<Longrightarrow> safe Q t p"
proof (cases p)
  case (Done a)
  assume "safe Q s p" "later s t"
  with Done show ?thesis by (auto intro!: safe_Done elim!: safe_DoneE dest: later_trans)
next
  case (Act m)
  assume "safe Q s p" "later s t"
  with Act show ?thesis by (auto intro!: safe_Act elim!: safe_ActE dest: later_trans)
qed

lemma safe_mono: "safe Q s p \<Longrightarrow> (\<And>a t. Q a t \<Longrightarrow> Q' a t) \<Longrightarrow> safe Q' s p"
proof (induction rule: safe.induct)
  case (safe_Done s a)
  then show ?case by (intro safe.safe_Done) blast
next
  case (safe_Act s m)
  then show ?case by (intro safe.safe_Act) blast
qed

lemma safe_bindT: "safe (\<lambda>a s. safe Q s (f a)) s p \<Longrightarrow> inv s \<Longrightarrow> safe Q s (bindT p f)"
proof (induction rule: safe.induct)
  case (safe_Done s a)
  then show ?case using later_refl by simp
next
  case (safe_Act s m)
  show ?case
    unfolding bindT.simps
  proof (rule safe.safe_Act)
    fix t p u
    assume t: "later s t" "run_state (map_state (\<lambda>p. bindT p f) m) t = (p, u)"
    then obtain p' where p': "run_state m t = (p', u)" "p = bindT p' f" by (auto split: prod.splits)
    from safe_Act.IH [OF t(1) p'(1)] p'(2) show "later t u \<and> safe Q u p" by (auto simp: later_def)
  qed
qed

text \<open>The rule for a step, then what follows it.\<close>

lemma safe_act:
  assumes "\<And>t. later s t \<Longrightarrow> wp m (\<lambda>a u. later t u \<and> safe Q u (f a)) t"
  shows "safe Q s (bindT (act m) f)"
  unfolding act_def bindT.simps
proof (rule safe.safe_Act)
  fix t p u
  assume t: "later s t" and run: "run_state (map_state (\<lambda>p. bindT p f) (map_state Done m)) t = (p, u)"
  then obtain a where "run_state m t = (a, u)" "p = f a" by (auto split: prod.splits)
  with wpD [OF assms [OF t]] show "later t u \<and> safe Q u p" by simp
qed

lemma safe_act_last:
  assumes "\<And>t. later s t \<Longrightarrow> wp m (\<lambda>a u. later t u \<and> (\<forall>v. later u v \<longrightarrow> Q a v)) t"
  shows "safe Q s (act m)"
proof -
  have "safe Q s (bindT (act m) Done)"
    by (rule safe_act, rule wp_mono [OF assms]) (auto intro: safe_Done)
  then show ?thesis by (simp add: act_def state.map_comp comp_def)
qed

text \<open>Most steps keep the invariant from wherever they start, and most threads need no knowledge.\<close>

definition steady :: "('s, 'a) state \<Rightarrow> bool" where
  "steady m \<longleftrightarrow> (\<forall>s. inv s \<longrightarrow> wp m (\<lambda>_. later s) s)"

definition always :: "('a \<Rightarrow> 's \<Rightarrow> bool) \<Rightarrow> ('s, 'a) thread \<Rightarrow> bool" where
  "always Q p \<longleftrightarrow> (\<forall>s. inv s \<longrightarrow> safe Q s p)"

lemma steady_ret: "steady (ret a)"
  by (simp add: steady_def later_refl)

lemma steady_wp: "steady m \<Longrightarrow> later s t \<Longrightarrow> wp m (\<lambda>_. later t) t"
  by (simp add: steady_def later_def)

lemma steady_bind:
  assumes "steady m" "\<And>a. steady (f a)" shows "steady (State_Monad.bind m f)"
  unfolding steady_def wp_bind
proof (intro allI impI)
  fix s assume s: "inv s"
  have "wp (f a) (\<lambda>_. later s) t" if t: "later s t" for a t
    by (rule wp_mono [OF steady_wp [OF assms(2) t]]) (rule later_trans [OF t])
  then show "wp m (\<lambda>a. wp (f a) (\<lambda>_. later s)) s" using assms(1) s by (auto simp: steady_def elim!: wp_mono)
qed

lemma steady_mapErr: "steady m \<Longrightarrow> steady (mapErr f m)"
  unfolding mapErr_def by (intro steady_bind steady_ret)

lemma always_safe: "always Q p \<Longrightarrow> later s t \<Longrightarrow> safe Q t p"
  by (simp add: always_def later_def)

lemma always_Done: "(\<And>s. inv s \<Longrightarrow> Q a s) \<Longrightarrow> always Q (Done a)"
  by (auto simp: always_def later_def intro: safe_Done)

lemma later_inv: "later s t \<Longrightarrow> inv t"
  by (simp add: later_def)

lemma safe_end: "safe (\<lambda>_ _. True) s (Done a)"
  by (rule safe_Done) simp

lemma safe_if_later:
  assumes "\<And>t. later s t \<Longrightarrow> wp m (\<lambda>_. later t) t" "\<And>a t. later s t \<Longrightarrow> safe Q t (f a)"
  shows "safe Q s (bindT (act m) f)"
  by (rule safe_act, rule wp_mono [OF assms(1)]) (auto intro: assms(2) later_trans)

lemma safe_then:
  assumes "steady m" "\<And>a t. later s t \<Longrightarrow> safe Q t (f a)"
  shows "safe Q s (bindT (act m) f)"
  by (rule safe_if_later [OF steady_wp [OF assms(1)] assms(2)])

lemma always_then:
  assumes "steady m" "\<And>a. always Q (f a)" shows "always Q (bindT (act m) f)"
  unfolding always_def by (intro allI impI safe_then [OF assms(1)] always_safe [OF assms(2)])

lemma always_act: "steady m \<Longrightarrow> always (\<lambda>_ _. True) (act m)"
  unfolding always_def by (intro allI impI safe_act_last, rule wp_mono [OF steady_wp]) auto

lemma always_bindT:
  assumes "always (\<lambda>_ _. True) p" "\<And>a. always Q (f a)"
  shows "always Q (bindT p f)"
  unfolding always_def
proof (intro allI impI)
  fix s assume s: "inv s"
  have "safe (\<lambda>a t. inv t \<longrightarrow> safe Q t (f a)) s p"
    using assms s by (auto simp: always_def elim!: safe_mono)
  then have "safe (\<lambda>a t. safe Q t (f a)) s p"
  proof (induction rule: safe.induct)
    case (safe_Done s a)
    then show ?case by (intro safe.safe_Done) (auto simp: later_def)
  next
    case (safe_Act s m)
    then show ?case by (intro safe.safe_Act) blast
  qed
  then show "safe Q s (bindT p f)" using s by (rule safe_bindT)
qed

lemma always_cases:
  "(\<And>e. always Q (f e)) \<Longrightarrow> (\<And>a. always Q (g a)) \<Longrightarrow> always Q (case r of Inl e \<Rightarrow> f e | Inr a \<Rightarrow> g a)"
  "always Q p \<Longrightarrow> (\<And>b. always Q (h b)) \<Longrightarrow> always Q (case x of None \<Rightarrow> p | Some b \<Rightarrow> h b)"
  "(\<And>a b. always Q (k a b)) \<Longrightarrow> always Q (case z of (a, b) \<Rightarrow> k a b)"
  "always Q p \<Longrightarrow> always Q p' \<Longrightarrow> always Q (if c then p else p')"
  by (simp_all split: sum.split option.split prod.split)

lemma always_bindTE:
  "always (\<lambda>_ _. True) p \<Longrightarrow> (\<And>e s. inv s \<Longrightarrow> Q (Inl e) s) \<Longrightarrow> (\<And>a. always Q (f a)) \<Longrightarrow> always Q (bindTE p f)"
  unfolding bindTE_def by (intro always_bindT always_cases always_Done)

lemma always_forT: "(\<And>x. always (\<lambda>_ _. True) (f x)) \<Longrightarrow> always (\<lambda>_ _. True) (forT xs f)"
  by (induction xs) (simp_all add: always_Done always_bindTE)

lemma safe_mapT: "safe (\<lambda>a. Q (f a)) s p \<Longrightarrow> safe Q s (mapT f p)"
proof (induction rule: safe.induct)
  case (safe_Done s a)
  then show ?case by (simp add: mapT_def safe.safe_Done)
next
  case (safe_Act s m)
  then show ?case unfolding mapT_def bindT.simps by (intro safe.safe_Act) (fastforce split: prod.splits)
qed

lemma always_mapT: "always (\<lambda>a. Q (f a)) p \<Longrightarrow> always Q (mapT f p)"
  by (simp add: always_def safe_mapT)

lemmas always_rules = always_then always_act always_bindT always_bindTE always_cases

text \<open>The end of a thread is later than its start; so is every round of a loop.\<close>

lemma safe_tracks: "safe Q s p \<Longrightarrow> (\<And>t. later s t \<Longrightarrow> later s0 t) \<Longrightarrow> safe (\<lambda>a t. Q a t \<and> later s0 t) s p"
proof (induction rule: safe.induct)
  case (safe_Done s a)
  then show ?case by (auto intro: safe.safe_Done)
next
  case (safe_Act s m)
  then show ?case by (intro safe.safe_Act) (meson later_trans)
qed

lemma safe_seq:
  assumes "safe P s p" "inv s" "\<And>a t. P a t \<Longrightarrow> later s t \<Longrightarrow> safe Q t (f a)"
  shows "safe Q s (bindT p f)"
  by (rule safe_bindT [OF safe_mono [OF safe_tracks [OF assms(1)]]]) (use assms(2,3) in auto)

lemma always_seq:
  assumes "always P p" "\<And>a t. inv t \<Longrightarrow> P a t \<Longrightarrow> safe Q t (f a)"
  shows "always Q (bindT p f)"
  unfolding always_def
proof (intro allI impI)
  fix s assume "inv s"
  with assms(1) have "safe P s p" by (simp add: always_def)
  then show "safe Q s (bindT p f)" using \<open>inv s\<close> by (rule safe_seq) (use assms(2) later_inv in blast)
qed

lemma safe_forT:
  assumes "inv s" "\<And>x t. x \<in> set xs \<Longrightarrow> later s t \<Longrightarrow> safe (\<lambda>_ _. True) t (f x)"
  shows "safe (\<lambda>_ _. True) s (forT xs f)"
  using assms
proof (induction xs arbitrary: s)
  case Nil
  show ?case by (simp add: safe_end)
next
  case (Cons x xs)
  have "safe (\<lambda>_ _. True) t (forT xs f)" if t: "later s t" for t
  proof (rule Cons.IH [OF later_inv [OF t]])
    show "safe (\<lambda>_ _. True) u (f y)" if "y \<in> set xs" "later t u" for y u
      using Cons.prems(2) [OF _ later_trans [OF t that(2)]] that(1) by simp
  qed
  then have "safe (\<lambda>_ _. True) t (case r of Inl e \<Rightarrow> Done (Inl e) | Inr _ \<Rightarrow> forT xs f)" if "later s t" for r t
    using that by (auto intro: safe_end split: sum.split)
  moreover have "safe (\<lambda>_ _. True) s (f x)" using Cons.prems by (simp add: later_refl)
  ultimately show ?case
    unfolding forT.simps bindTE_def by (rule_tac safe_seq [OF _ Cons.prems(1)])
qed

text \<open>A pool of safe threads in a safe environment keeps the invariant, and every thread that ended has its result.\<close>

lemma pool_run_safe:
  assumes run: "pool_run spawns env (s, T) (s', T')"
    and start: "inv s" "list_all (safe Q s) T"
    and spawns: "\<And>p t. spawns p \<Longrightarrow> inv t \<Longrightarrow> safe Q t p"
    and env: "\<And>t u. env t u \<Longrightarrow> inv t \<Longrightarrow> later t u"
  shows "later s s' \<and> list_all (safe Q s') T'"
  using run
proof (induction rule: rtranclp_induct2)
  case refl
  show ?case using start later_refl by simp
next
  case (step t T1 u T2)
  from step.hyps(2) show ?case
  proof cases
    case (spawn p)
    then show ?thesis using step.IH spawns by (auto simp: later_def)
  next
    case (sched i m p)
    have t: "later s t" "list_all (safe Q t) T1" using step.IH by simp_all
    then have "safe Q t (Act m)" using sched by (auto simp: list_all_length)
    moreover have "later t t" using t(1) later_refl by (simp add: later_def)
    ultimately have u: "later t u \<and> safe Q u p" using sched(4) by (blast elim: safe_ActE)
    then have "list_all (safe Q u) T1" using t(2) by (auto simp: list_all_iff intro: safe_later)
    with u t(1) sched show ?thesis by (auto simp: list_all_length nth_list_update dest: later_trans)
  next
    case outside
    then show ?thesis using step.IH env [of t u] by (auto simp: list_all_iff later_def intro: grows_trans safe_later)
  qed
qed

lemma pool_run_done:
  assumes "later s s' \<and> list_all (safe Q s') T'" "Done a \<in> set T'"
  shows "Q a s'"
  using assms by (auto simp: list_all_iff later_refl later_def grows_refl dest!: bspec elim: safe_DoneE)

end

end
