(* ===== verification/QuanThreads.thy ===== *)
theory QuanThreads
  imports QuanSystem Threads
begin

text \<open>
  The goroutines of the coupon server, interleaved. Each request and each round of a background process is a thread
  that is cut at every round trip: between two statements, scripts or commands, and between two transactions, any other thread
  may come in. A clock reading that only stamps a statement belongs to the step of that statement. Run alone,
  a thread is the sequential code of the other theories, which one equation per thread states. The properties of the
  whole server are then shown for every interleaving: of any number of requests, workers, relays and compensators, as
  several servers on the same MySQL and Redis have them, with threads that die at any point.
\<close>

section \<open>The threads\<close>

type_synonym 'a go = "(world, 'a) thread"
type_synonym relay_wires = "world relay_ports"
type_synonym consumer_wires = "world consumer_ports"
type_synonym compensator_wires = "world compensator_ports"

subsection \<open>Operations with more than one round trip\<close>

definition TryMarkRunning_go :: "int \<Rightarrow> AsyncTask option result go" where
  "TryMarkRunning_go taskID =
     bindTE (act (do {
       now \<leftarrow> time_Now;
       wrapE ''mark task running: '' (db_exec (update_tasks
         (\<lambda>r. tk_task_id r = taskID \<and> tk_status r \<in> {task_StatusPending, task_StatusFailed}) (running_task now))) }))
       (\<lambda>affected.
          if affected = 0 then Done (Inr None)
          else bindTE (act (mapErr (\<lambda>err. if errors_Is err sql_ErrNoRows then ErrTaskNotFound else err) (task_GetByID taskID)))
                 (\<lambda>task. Done (Inr (Some task))))"

definition MarkReplayReady_go :: "int \<Rightarrow> unit result go" where
  "MarkReplayReady_go taskID =
     bindTE (act (do {
       now \<leftarrow> time_Now;
       wrapE ''mark task replay ready: '' (db_exec (update_tasks
         (\<lambda>r. tk_task_id r = taskID \<and> tk_status r \<in> {task_StatusDead, task_StatusFailed}) (replay_task now))) }))
       (\<lambda>affected.
          if affected > 0 then Done (Inr ())
          else bindTE (act (mapErr (\<lambda>err. if errors_Is err sql_ErrNoRows then ErrTaskNotFound
                                          else ErrWrap ''query task replay status: '' err '''')
                 (db_exec (query_row (\<lambda>d. map_option tk_status
                    (sql_row (\<lambda>r. tk_task_id r = taskID) (db_tasks d)))))))
               (\<lambda>status. Done (Inl (ErrWrap '''' ErrTaskNotReplayable ('': status='' @ status)))))"

primrec move_ids_go :: "QueueConfig \<Rightarrow> string list \<Rightarrow> int \<Rightarrow> (int \<times> goerr option) go" where
  "move_ids_go q [] moved = Done (moved, None)"
| "move_ids_go q (v # ids) moved =
     bindT (act (redis_exec (\<lambda>now. redis_ZREM now (RetryKey q) v))) (\<lambda>removed. case removed of
       Inl err \<Rightarrow> Done (moved, Some err)
     | Inr n \<Rightarrow>
         if n = 0 then move_ids_go q ids moved
         else bindT (act (redis_exec (\<lambda>now. redis_RPUSH now (ReadyKey q) v))) (\<lambda>pushed. case pushed of
           Inl err \<Rightarrow>
             bindT (act (do { t \<leftarrow> time_Now; redis_exec (\<lambda>now. redis_ZADD now (RetryKey q) (UnixMilli t) v) })) (\<lambda>_.
               Done (moved, Some err))
         | Inr _ \<Rightarrow> move_ids_go q ids (moved + 1)))"

definition MoveDueRetryToReady_go :: "QueueConfig \<Rightarrow> int \<Rightarrow> (int \<times> goerr option) go" where
  "MoveDueRetryToReady_go q batch =
     bindT (act (do {
       t \<leftarrow> time_Now;
       redis_exec (\<lambda>now. redis_ZRANGEBYSCORE now (RetryKey q) (UnixMilli t) (default_limit batch)) }))
       (\<lambda>ids. case ids of Inl err \<Rightarrow> Done (0, Some err) | Inr xs \<Rightarrow> move_ids_go q xs 0)"

primrec wait_loop_go :: "nat \<Rightarrow> int \<Rightarrow> int \<Rightarrow> string \<Rightarrow> int option result option go" where
  "wait_loop_go 0 deadline poll key = Done None"
| "wait_loop_go (Suc n) deadline poll key =
     bindT (act time_Now) (\<lambda>t.
       if \<not> t < deadline then Done (Some (Inr None))
       else bindT (act (redis_exec (\<lambda>now. redis_GET now key))) (\<lambda>val. case val of
         Inl err \<Rightarrow> Done (Some (Inl err))
       | Inr x \<Rightarrow> (case x of
           None \<Rightarrow> Done (Some (Inr None))
         | Some v \<Rightarrow>
             if HasPrefix v ''SUCCESS:'' then
               (case ParseInt (TrimPrefix v ''SUCCESS:'') of
                  Inl convErr \<Rightarrow> Done (Some (Inl (ErrWrap ''invalid success claim id: '' convErr '''')))
                | Inr claimID \<Rightarrow> Done (Some (Inr (Some claimID))))
             else if \<not> HasPrefix v ''PENDING:'' then Done (Some (Inr None))
             else bindT (act (time_Sleep poll)) (\<lambda>_. wait_loop_go n deadline poll key))))"

definition WaitResult_go :: "Adjudicator option \<Rightarrow> int \<Rightarrow> int \<Rightarrow> string \<Rightarrow> int option result go" where
  "WaitResult_go a couponID userID idemKey = (case a of
     None \<Rightarrow> Done (Inr None)
   | Some adj \<Rightarrow>
       bindT (act time_Now) (\<lambda>t.
       bindT (wait_loop_go (wait_fuel adj) (t + Adj_pendingWait adj) (Adj_pendingPoll adj)
                (idemDecisionKey couponID userID idemKey)) (\<lambda>r.
         case r of None \<Rightarrow> Done (Inr None) | Some x \<Rightarrow> Done x)))"

subsection \<open>A claim\<close>

definition waitPendingClaim_go :: "coupon_Service \<Rightarrow> int \<Rightarrow> int \<Rightarrow> string \<Rightarrow> ClaimRecord option result go" where
  "waitPendingClaim_go s couponID userID idemKey =
     bindT (WaitResult_go (Svc_adjudicator s) couponID userID idemKey) (\<lambda>waited. case waited of
       Inl err \<Rightarrow> Done (Inl (apperr_Wrap CodeInternalError ''wait pending claim result failed'' err))
     | Inr x \<Rightarrow> (case x of
         None \<Rightarrow> Done (Inr None)
       | Some claimID \<Rightarrow> bindT (act (FindClaimByID claimID)) (\<lambda>found. case found of
             Inl err \<Rightarrow>
               if errors_Is err sql_ErrNoRows then Done (Inr None)
               else Done (Inl (apperr_Wrap CodeInternalError ''load pending claim result failed'' err))
           | Inr rec \<Rightarrow> Done (Inr (Some rec)))))"

definition miss_campaign_go :: "coupon_Service \<Rightarrow> int \<Rightarrow> ClaimRecord option result go" where
  "miss_campaign_go s couponID =
     bindT (act (LoadCampaign couponID)) (\<lambda>loaded. case loaded of
       Inl err \<Rightarrow> Done (Inl (mapClaimErr err))
     | Inr campaign \<Rightarrow> bindT (act (EnsureCampaign (Svc_adjudicator s) campaign)) (\<lambda>ensured. case ensured of
           Inl err \<Rightarrow> Done (Inl (apperr_Wrap CodeInternalError ''hydrate redis campaign failed'' err))
         | Inr _ \<Rightarrow> Done (Inr None)))"

definition replay_claim_go :: "int \<Rightarrow> ClaimRecord option result go" where
  "replay_claim_go claimID =
     bindT (act (FindClaimByID claimID)) (\<lambda>found. case found of
       Inl err \<Rightarrow> Done (Inl (apperr_Wrap CodeInternalError ''query replay claim failed'' err))
     | Inr rec \<Rightarrow> Done (Inr (Some rec)))"

definition persist_admitted_go ::
  "coupon_Service \<Rightarrow> ctx \<Rightarrow> int \<Rightarrow> int \<Rightarrow> string \<Rightarrow> string \<Rightarrow> ClaimRecord option result go"
where
  "persist_admitted_go s ctx couponID userID idemKey reservationID =
     bindT (act (PersistClaimAfterAdjudication (Svc_repo s) ctx couponID userID idemKey)) (\<lambda>persisted. case persisted of
       Inl err \<Rightarrow> bindT (act (claim_Rollback (Svc_adjudicator s) couponID userID idemKey reservationID)) (\<lambda>_.
         Done (Inl (mapClaimErr err)))
     | Inr rec \<Rightarrow> bindT (act (Finalize (Svc_adjudicator s) couponID userID idemKey reservationID (Claim_ID rec))) (\<lambda>_.
         Done (Inr (Some rec))))"

definition claimWithRedis_go ::
  "coupon_Service \<Rightarrow> ctx \<Rightarrow> int \<Rightarrow> int \<Rightarrow> int \<Rightarrow> string \<Rightarrow> ClaimRecord option result go"
where
  "claimWithRedis_go s ctx rnd couponID userID idemKey =
     bindT (act (claimReservationID rnd)) (\<lambda>reservationID.
     bindT (act time_Now) (\<lambda>now.
     bindT (act (Decide (Svc_adjudicator s)
       \<lparr>Snap_CouponID = couponID, Snap_Status = '''', Snap_AvailableStock = 0, Snap_PerUserLimit = 0,
        Snap_StartAt = 0, Snap_EndAt = 0\<rparr> userID idemKey now reservationID)) (\<lambda>decided. case decided of
       Inl err \<Rightarrow> Done (Inl (apperr_Wrap CodeInternalError ''redis adjudication failed'' err))
     | Inr decision \<Rightarrow>
         let code = Decision_Code decision in
         if code = decisionCodeCampaignMiss then miss_campaign_go s couponID
         else if code = decisionCodeIdemHit then replay_claim_go (Decision_ClaimID decision)
         else if code = decisionCodePending then waitPendingClaim_go s couponID userID idemKey
         else if code = decisionCodeAlready then Done (Inl (apperr_New CodeConflict ''already claimed''))
         else if code = decisionCodeLimit then Done (Inl (apperr_New CodeConflict ''claim limit reached''))
         else if code = decisionCodeSoldOut then Done (Inl (apperr_New CodeConflict ''coupon sold out''))
         else if code = decisionCodeInactive then Done (Inl (apperr_New CodeBadRequest ''campaign not active''))
         else if code = decisionCodeAdmitted
         then persist_admitted_go s ctx couponID userID idemKey (Decision_ReservationID decision)
         else Done (Inl (apperr_Wrap CodeInternalError ''unknown redis adjudication result''
                (ErrNew (''code='' @ code)))))))"

primrec claim_attempts_go ::
  "coupon_Service \<Rightarrow> ctx \<Rightarrow> int list \<Rightarrow> int \<Rightarrow> int \<Rightarrow> string \<Rightarrow> ClaimRecord result go"
where
  "claim_attempts_go s ctx [] couponID userID idemKey =
     Done (Inl (apperr_New CodeTooManyRequests ''request is still being processed''))"
| "claim_attempts_go s ctx (rnd # rnds) couponID userID idemKey =
     bindTE (claimWithRedis_go s ctx rnd couponID userID idemKey) (\<lambda>rec. case rec of
       None \<Rightarrow> claim_attempts_go s ctx rnds couponID userID idemKey
     | Some r \<Rightarrow> Done (Inr r))"

definition Claim_go ::
  "coupon_Service \<Rightarrow> ctx \<Rightarrow> int \<Rightarrow> int \<Rightarrow> int \<Rightarrow> int \<Rightarrow> string \<Rightarrow> ClaimRecord result go"
where
  "Claim_go s ctx rnd1 rnd2 couponID userID idemKey =
     (if Svc_adjudicator s = None then act (claimWithoutRedis s ctx couponID userID idemKey)
      else claim_attempts_go s ctx [rnd1, rnd2] couponID userID idemKey)"

subsection \<open>Replay of a dead letter\<close>

definition ReplayDLQTask_go :: "task_Service \<Rightarrow> int \<Rightarrow> unit outcome go" where
  "ReplayDLQTask_go s taskID =
     (if taskID \<le> 0 then Done (Returned (Inl (apperr_New CodeBadRequest ''invalid task_id'')))
      else if TaskSvc_queue s = NoQueue then
        Done (Returned (Inl (apperr_New CodeInternalError ''dlq replay queue not configured'')))
      else bindT (MarkReplayReady_go taskID) (\<lambda>marked. case marked of
          Inl err \<Rightarrow> Done (Returned (Inl (
            if errors_Is err ErrTaskNotFound then apperr_New CodeNotFound ''task not found''
            else if errors_Is err ErrTaskNotReplayable then apperr_New CodeConflict ''task is not replayable''
            else apperr_Wrap CodeInternalError ''mark replay task status failed'' err)))
        | Inr _ \<Rightarrow> bindT (act (replay_queue (TaskSvc_queue s) taskID)) (\<lambda>moved. case moved of
              Panicked p \<Rightarrow> Done (Panicked p)
            | Returned r \<Rightarrow> (case r of
                Inl err \<Rightarrow> bindT (act (RestoreDeadAfterReplayFailure taskID)) (\<lambda>_.
                  Done (Returned (Inl (apperr_Wrap CodeInternalError ''replay task from dlq failed'' err))))
              | Inr ok \<Rightarrow>
                  if ok then Done (Returned (Inr ()))
                  else bindT (act (RestoreDeadAfterReplayFailure taskID)) (\<lambda>_.
                    Done (Returned (Inl (apperr_New CodeNotFound ''task not found in dlq''))))))))"

subsection \<open>The relay\<close>

definition dispatch_event_go :: "relay_wires \<Rightarrow> RelayConfig \<Rightarrow> outbox_Event \<Rightarrow> unit result go" where
  "dispatch_event_go p cfg evt =
     bindTE (act (rr_TryMarkDispatching (Relay_repo p) (Event_ID evt))) (\<lambda>ok.
       if \<not> ok then Done (Inr ())
       else case ParseTaskCreatedPayload (Event_PayloadJSON evt) of
         Inl parseErr \<Rightarrow>
           bindT (act (rr_MarkSuspended (Relay_repo p) (Event_ID evt) (''invalid outbox payload: '' @ errstr parseErr)))
             (\<lambda>_. Done (Inr ()))
       | Inr taskID \<Rightarrow>
           if taskID \<le> 0 then
             bindT (act (rr_MarkSuspended (Relay_repo p) (Event_ID evt) ''invalid task_id in outbox payload''))
               (\<lambda>_. Done (Inr ()))
           else bindT (act (rp_PublishReady (Relay_publisher p) taskID)) (\<lambda>pub. case pub of
               Inl pubErr \<Rightarrow> bindT (act (rr_MarkRetry (Relay_repo p) (Event_ID evt)
                   (relayBackoff (Event_RetryCount evt) (Relay_BackoffBase cfg)) (errstr pubErr))) (\<lambda>_. Done (Inr ()))
             | Inr _ \<Rightarrow> bindT (act (rr_MarkPublished (Relay_repo p) (Event_ID evt))) (\<lambda>_. Done (Inr ()))))"

definition relay_round_go :: "relay_wires \<Rightarrow> RelayConfig \<Rightarrow> unit result go" where
  "relay_round_go p cfg =
     bindT (act (rr_CountPending (Relay_repo p))) (\<lambda>c.
     bindT (act (case c of Inr cnt \<Rightarrow> rm_SetOutboxPending (Relay_metrics p) cnt | Inl _ \<Rightarrow> ret ())) (\<lambda>_.
     bindT (act time_Now) (\<lambda>now.
     bindT (act (rr_RecoverStaleDispatching (Relay_repo p) (now - Relay_DispatchTimeout cfg) (Relay_BatchSize cfg))) (\<lambda>_.
     bindTE (act (rr_ListDispatchable (Relay_repo p) (Relay_BatchSize cfg))) (\<lambda>events.
       forT events (dispatch_event_go p cfg))))))"

subsection \<open>Workers and the retry scheduler\<close>

definition consume_failed_go :: "consumer_wires \<Rightarrow> ConsumeConfig \<Rightarrow> AsyncTask \<Rightarrow> goerr \<Rightarrow> unit result go" where
  "consume_failed_go p cfg task err =
     bindT (act (cm_IncConsumeFailure (Consumer_metrics p))) (\<lambda>_.
     bindTE (act (cr_MarkFailed (Consumer_repo p) (Task_ID task) (errstr err) (Consume_RetryBackoff cfg))) (\<lambda>(dead, nextRetry).
       if dead then
         bindT (act (cm_IncTaskDLQ (Consumer_metrics p))) (\<lambda>_.
           act (mapErr (\<lambda>pushErr. ErrWrap ''push task to dlq failed: '' pushErr '''')
             (cq_PushDLQ (Consumer_queue p) (Task_ID task))))
       else case nextRetry of
         None \<Rightarrow> Done (Inr ())
       | Some next \<Rightarrow>
           bindT (act (cm_IncTaskRetry (Consumer_metrics p))) (\<lambda>_.
             act (mapErr (\<lambda>scheduleErr. ErrWrap ''schedule task retry failed: '' scheduleErr '''')
               (cq_ScheduleRetry (Consumer_queue p) (Task_ID task) next)))))"

definition consume_done_go :: "consumer_wires \<Rightarrow> AsyncTask \<Rightarrow> unit result go" where
  "consume_done_go p task =
     bindT (act (cr_MarkSuccess (Consumer_repo p) (Task_ID task))) (\<lambda>marked. case marked of
       Inl err \<Rightarrow>
         bindT (act (cr_MarkSuspended (Consumer_repo p) (Task_ID task)
           (''handler succeeded but mark success failed: '' @ errstr err))) (\<lambda>suspended. case suspended of
             Inl suspendErr \<Rightarrow> Done (Inl (ErrWrap ''mark task success failed: '' err
               (''; suspend fallback failed: '' @ errstr suspendErr)))
           | Inr _ \<Rightarrow> Done (Inl err))
     | Inr _ \<Rightarrow> bindT (act (cm_IncConsumeSuccess (Consumer_metrics p))) (\<lambda>_. Done (Inr ())))"

definition worker_round_go :: "consumer_wires \<Rightarrow> ConsumeConfig \<Rightarrow> ctx \<Rightarrow> unit result go" where
  "worker_round_go p cfg ctx =
     bindTE (act (cq_PopReady (Consumer_queue p))) (\<lambda>popped. case popped of
       None \<Rightarrow> Done (Inr ())
     | Some taskID \<Rightarrow>
         bindTE (TryMarkRunning_go taskID) (\<lambda>claim. case claim of
           None \<Rightarrow> Done (Inr ())
         | Some task \<Rightarrow>
             bindT (act (Registry_Handle (Consumer_registry p) ctx task)) (\<lambda>handled. case handled of
               Inl err \<Rightarrow> consume_failed_go p cfg task err
             | Inr _ \<Rightarrow> consume_done_go p task)))"

subsection \<open>The compensator\<close>

primrec recover_candidates_go ::
  "world compensationRepository \<Rightarrow> string \<Rightarrow> RecoveryCandidate list \<Rightarrow> RecoveryCandidate list \<Rightarrow> RecoveryCandidate list go"
where
  "recover_candidates_go repo msg [] acc = Done acc"
| "recover_candidates_go repo msg (c # cs) acc =
     bindT (act (pr_MarkRecovered repo (Candidate_TaskID c) msg)) (\<lambda>ok.
       recover_candidates_go repo msg cs (if ok = Inr True then acc @ [c] else acc))"

primrec schedule_candidates_go :: "compensator_wires \<Rightarrow> int \<Rightarrow> RecoveryCandidate list \<Rightarrow> int \<Rightarrow> int go" where
  "schedule_candidates_go p now [] recovered = Done recovered"
| "schedule_candidates_go p now (c # cs) recovered =
     bindT (act (pq_ScheduleRetry (Comp_queue p) (Candidate_TaskID c) now)) (\<lambda>r. case r of
       Inl err \<Rightarrow> schedule_candidates_go p now cs recovered
     | Inr _ \<Rightarrow>
         bindT (act (pm_ObserveTaskRecovery (Comp_metrics p) (Candidate_Source c) (now - Candidate_RecoverAt c))) (\<lambda>_.
           schedule_candidates_go p now cs (recovered + 1)))"

definition compensateOnce_go :: "compensator_wires \<Rightarrow> CompensationConfig \<Rightarrow> int result go" where
  "compensateOnce_go p cfg =
     bindTE (act (pr_ListDueFailed (Comp_repo p) (Comp_BatchSize cfg))) (\<lambda>candidates.
     bindT (act time_Now) (\<lambda>t.
     let staleBefore = t - Comp_StaleTimeout cfg in
     bindTE (act (pr_ListSuspended (Comp_repo p) staleBefore (Comp_BatchSize cfg))) (\<lambda>suspendedCandidates.
     bindTE (act (pr_ListStaleRunning (Comp_repo p) staleBefore (Comp_BatchSize cfg))) (\<lambda>staleRunningCandidates.
       if candidates = [] \<and> suspendedCandidates = [] \<and> staleRunningCandidates = [] then Done (Inr 0)
       else
         bindT (recover_candidates_go (Comp_repo p) ''stale RUNNING recovered for retry'' staleRunningCandidates candidates) (\<lambda>candidates.
         bindT (recover_candidates_go (Comp_repo p) ''suspended task recovered for retry'' suspendedCandidates candidates) (\<lambda>candidates.
         bindT (act time_Now) (\<lambda>now.
         bindT (schedule_candidates_go p now candidates 0) (\<lambda>recovered. Done (Inr recovered)))))))))"

section \<open>Run alone, a thread is the code\<close>

lemma bindE_bind: "bindE (State_Monad.bind m f) g = State_Monad.bind m (\<lambda>a. bindE (f a) g)"
  by (rule state_eqI) (auto split: prod.split)

lemma ret_resultE: "ret (Inl e) = throwE e" "ret (Inr a) = returnE a"
  by (simp_all add: throwE_def returnE_def)

lemmas solo_rules = bindE_bind ret_resultE
lemmas solo_congs = if_cong sum.case_cong option.case_cong outcome.case_cong

lemma solo_TryMarkRunning: "solo (TryMarkRunning_go i) = TryMarkRunning i"
  by (simp add: TryMarkRunning_go_def TryMarkRunning_def solo_rules cong: solo_congs)

lemma solo_MarkReplayReady: "solo (MarkReplayReady_go i) = MarkReplayReady i"
  by (simp add: MarkReplayReady_go_def MarkReplayReady_def solo_rules cong: solo_congs)

lemma solo_MoveDueRetryToReady: "solo (MoveDueRetryToReady_go q n) = MoveDueRetryToReady q n"
proof -
  have "solo (move_ids_go q ids k) = move_ids q ids k" for ids k
    by (induction ids arbitrary: k) (simp_all cong: solo_congs)
  then show ?thesis by (simp add: MoveDueRetryToReady_go_def MoveDueRetryToReady_def solo_rules cong: solo_congs)
qed

lemma solo_WaitResult: "solo (WaitResult_go a cid uid k) = WaitResult a cid uid k"
proof -
  have "solo (wait_loop_go n deadline poll key) = wait_loop n deadline poll key" for n deadline poll key
    by (induction n) (simp_all cong: solo_congs)
  then show ?thesis by (simp add: WaitResult_go_def WaitResult_def solo_rules cong: solo_congs)
qed

lemma solo_Claim: "solo (Claim_go s ctx rnd1 rnd2 cid uid k) = Claim s ctx rnd1 rnd2 cid uid k"
proof -
  have wait: "solo (waitPendingClaim_go s cid uid k) = waitPendingClaim s cid uid k"
    by (simp add: waitPendingClaim_go_def waitPendingClaim_def solo_WaitResult solo_rules cong: solo_congs)
  have miss: "solo (miss_campaign_go s cid) = miss_campaign s cid"
    by (simp add: miss_campaign_go_def miss_campaign_def solo_rules cong: solo_congs)
  have replay: "solo (replay_claim_go i) = replay_claim i" for i
    by (simp add: replay_claim_go_def replay_claim_def solo_rules cong: solo_congs)
  have persist: "solo (persist_admitted_go s ctx cid uid k r) = persist_admitted s ctx cid uid k r" for r
    by (simp add: persist_admitted_go_def persist_admitted_def solo_rules cong: solo_congs)
  have "solo (claimWithRedis_go s ctx rnd cid uid k) = claimWithRedis s ctx rnd cid uid k" for rnd
    by (simp add: claimWithRedis_go_def claimWithRedis_def wait miss replay persist Let_def solo_rules cong: solo_congs)
  then show ?thesis by (simp add: Claim_go_def Claim_def solo_rules cong: solo_congs)
qed

lemma solo_ReplayDLQTask: "solo (ReplayDLQTask_go s i) = ReplayDLQTask s i"
  unfolding ReplayDLQTask_go_def ReplayDLQTask_def
  by (auto simp: solo_MarkReplayReady intro!: arg_cong2 [where f = State_Monad.bind] ext split: sum.split outcome.split bool.split)

lemma solo_relay_round: "solo (relay_round_go p cfg) = relay_round time_Now cfg p"
proof -
  have "solo (dispatch_event_go p cfg e) = dispatch_event (Relay_repo p) (Relay_publisher p) cfg e" for e
    by (simp add: dispatch_event_go_def dispatch_event_def solo_rules cong: solo_congs)
  then have "(\<lambda>e. solo (dispatch_event_go p cfg e)) = dispatch_event (Relay_repo p) (Relay_publisher p) cfg" by (rule ext)
  then show ?thesis by (simp add: relay_round_go_def relay_round_def dispatchOnce_def solo_rules)
qed

lemma solo_worker_round:
  assumes "cr_TryMarkRunning (Consumer_repo p) = TryMarkRunning"
  shows "solo (worker_round_go p cfg ctx) = worker_round p cfg ctx"
proof -
  have failed: "solo (consume_failed_go p cfg task err) = consume_failed p cfg task err" for task err
    unfolding consume_failed_go_def consume_failed_def
    by (auto simp: solo_rules intro!: arg_cong2 [where f = State_Monad.bind] arg_cong2 [where f = bindE] ext split: option.split)
  have "solo (consume_done_go p task) = consume_done p task" for task
    by (simp add: consume_done_go_def consume_done_def solo_rules cong: solo_congs)
  with failed assms show ?thesis
    by (simp add: worker_round_go_def worker_round_def consumeTask_def solo_TryMarkRunning solo_rules cong: solo_congs)
qed

lemma solo_compensateOnce: "solo (compensateOnce_go p cfg) = compensateOnce time_Now cfg p"
proof -
  have recover: "solo (recover_candidates_go repo msg cs acc) = recover_candidates repo msg cs acc" for repo msg cs acc
    by (induction cs arbitrary: acc) simp_all
  have schedule: "solo (schedule_candidates_go p now cs n) = schedule_candidates p now cs n" for now cs n
    by (induction cs arbitrary: n) (simp_all cong: solo_congs)
  show ?thesis
    by (simp add: compensateOnce_go_def compensateOnce_def recover schedule Let_def solo_rules cong: solo_congs)
qed

section \<open>What every step keeps\<close>

text \<open>Claims and tasks as in \<open>quan_grows\<close>; and an event keeps its payload, on which the relay relies between its round trips.\<close>

definition quan_guar :: "world \<Rightarrow> world \<Rightarrow> bool" where
  "quan_guar w w' \<longleftrightarrow> quan_grows w w' \<and> event_payload w \<subseteq>\<^sub>m event_payload w'"

interpretation quan_rely: rely "quan_inv q" quan_guar for q
  by unfold_locales (auto simp: quan_guar_def quan_grows_refl intro: quan_grows_trans map_le_trans)

lemma laterI:
  "quan_inv q w' \<and> quan_grows w w' \<Longrightarrow> event_payload w \<subseteq>\<^sub>m event_payload w' \<Longrightarrow> quan_rely.later q w w'"
  by (simp add: quan_rely.later_def quan_guar_def)

lemma event_payload_same: "db_events (w_db w') = db_events (w_db w) \<Longrightarrow> event_payload w' = event_payload w"
  by (simp add: event_payload_def outbox_row_def fun_eq_iff)

lemma later_tasks:
  assumes "claim_free (queue_keys q)" "quan_inv q w" "tasks_step q w w'"
  shows "quan_rely.later q w w'"
proof (rule laterI [OF quan_tasks_step [OF assms]])
  have "(w_db w')\<lparr>db_tasks := []\<rparr> = (w_db w)\<lparr>db_tasks := []\<rparr>"
    using assms(3) quan_inv_task_inv [OF assms(2)] by (simp add: tasks_step_def)
  from event_payload_same [OF tasks_only_same(3) [OF this]] show "event_payload w \<subseteq>\<^sub>m event_payload w'" by simp
qed

lemma steady_tasks: "claim_free (queue_keys q) \<Longrightarrow> tasks_frame.kept q m \<Longrightarrow> quan_rely.steady q m"
  unfolding quan_rely.steady_def
  by (intro allI impI, rule wp_mono [OF tasks_frame.kept_wp]) (auto intro: later_tasks)

lemma later_events:
  assumes "claim_free (queue_keys q)" "quan_inv q w" "events_step q w w'" "event_payload w' = event_payload w"
    "\<forall>j. relay_event ys (event_payload w j) (event_status w j) (event_status w' j)"
  shows "quan_rely.later q w w'"
  by (rule laterI [OF quan_events_step [OF assms]]) (simp add: assms(4))

text \<open>The operations of the relay. To publish or to suspend an event takes knowledge of its payload.\<close>

lemma later_move:
  assumes "claim_free (queue_keys q)" "quan_inv q w" "events_step q w w'" "event_payload w' = event_payload w"
    and move: "status_move S T i (event_status w) (event_status w')" "S \<subseteq> {outbox_StatusPending, outbox_StatusDispatching}"
    and T: "T \<in> {outbox_StatusPending, outbox_StatusDispatching} \<or>
      T = outbox_StatusPublished \<and> task_of_payload (event_payload w i) = Some t \<or>
      T = outbox_StatusSuspended \<and> task_of_payload (event_payload w i) = None"
  shows "quan_rely.later q w w'"
proof (rule later_events [OF assms(1-4)], rule allI)
  fix j
  show "relay_event [FormatInt t] (event_payload w j) (event_status w j) (event_status w' j)"
    using move T by (cases "j = i") (auto simp: status_move_def relay_event_def)
qed

lemma wp_events:
  assumes "quan_inv q w" "events_frame.kept q m"
    and "relay_inv q w \<Longrightarrow> wp m (\<lambda>r w'. P r w') w"
    and "\<And>r w'. events_step q w w' \<Longrightarrow> P r w' \<Longrightarrow> Q r w'"
  shows "wp m Q w"
proof -
  have "wp m (\<lambda>r w'. events_step q w w' \<and> P r w') w"
    by (rule wp_conj [OF events_frame.kept_wp [OF assms(2)] assms(3) [OF quan_inv_relay_inv [OF assms(1)]]])
  then show ?thesis by (rule wp_mono) (rule assms(4); simp)
qed

lemma relay_marks:
  assumes free: "claim_free (queue_keys q)" and inv: "quan_inv q w"
  shows "wp (TryMarkDispatching i) (\<lambda>_. quan_rely.later q w) w"
    and "wp (MarkRetry i d m) (\<lambda>_. quan_rely.later q w) w"
    and "task_of_payload (event_payload w i) = Some t \<Longrightarrow> wp (MarkPublished i) (\<lambda>_. quan_rely.later q w) w"
    and "task_of_payload (event_payload w i) = None \<Longrightarrow> wp (outbox_MarkSuspended i m) (\<lambda>_. quan_rely.later q w) w"
proof -
  note move = later_move [OF free inv]
  show "wp (TryMarkDispatching i) (\<lambda>_. quan_rely.later q w) w"
    by (rule wp_events [OF inv outbox_ops_kept(1) outbox_relay.dispatching_law [simplified]]) (auto intro: move)
  show "wp (MarkRetry i d m) (\<lambda>_. quan_rely.later q w) w"
    by (rule wp_events [OF inv outbox_ops_kept(3) outbox_relay.retry_law [simplified]]) (auto intro: move)
  show "wp (MarkPublished i) (\<lambda>_. quan_rely.later q w) w" if "task_of_payload (event_payload w i) = Some t"
    by (rule wp_events [OF inv outbox_ops_kept(2) outbox_relay.published_law [simplified]]) (auto intro: move that)
  show "wp (outbox_MarkSuspended i m) (\<lambda>_. quan_rely.later q w) w" if "task_of_payload (event_payload w i) = None"
    by (rule wp_events [OF inv outbox_ops_kept(4) outbox_relay.suspended_law [simplified]]) (auto intro: move that)
qed

lemma relay_reads:
  assumes free: "claim_free (queue_keys q)" and inv: "quan_inv q w"
  shows "wp CountPending (\<lambda>_. quan_rely.later q w) w"
    and "wp (RecoverStaleDispatching t n) (\<lambda>_. quan_rely.later q w) w"
    and "wp (PublishReady q i) (\<lambda>_. quan_rely.later q w) w"
    and "wp (ListDispatchable n) (\<lambda>r w'. quan_rely.later q w w' \<and>
      (\<forall>es e. r = Inr es \<longrightarrow> e \<in> set es \<longrightarrow> event_payload w' (Event_ID e) = Some (Event_PayloadJSON e))) w"
proof -
  note events = later_events [OF free inv, where ys = "[]"]
  show "wp CountPending (\<lambda>_. quan_rely.later q w) w"
    by (rule wp_events [OF inv outbox_reads_kept(3) outbox_relay.count_law [simplified]]) (auto intro: events)
  show "wp (PublishReady q i) (\<lambda>_. quan_rely.later q w) w"
    by (rule wp_events [OF inv outbox_reads_kept(5) outbox_relay.publish_law [simplified]]) (auto intro: events)
  show "wp (ListDispatchable n) (\<lambda>r w'. quan_rely.later q w w' \<and>
      (\<forall>es e. r = Inr es \<longrightarrow> e \<in> set es \<longrightarrow> event_payload w' (Event_ID e) = Some (Event_PayloadJSON e))) w"
    by (rule wp_events [OF inv outbox_reads_kept(4) outbox_relay.list_law [simplified]]) (auto intro: events)
  have "relay_event [] p a b" if "b = a \<or> a = Some outbox_StatusDispatching \<and> b = Some outbox_StatusPending" for p a b
    using that by (auto simp: relay_event_def)
  then show "wp (RecoverStaleDispatching t n) (\<lambda>_. quan_rely.later q w) w"
    by (intro wp_events [OF inv outbox_ops_kept(5) outbox_relay.recover_law [simplified]]) (auto intro!: events)
qed

lemma steady_ops:
  assumes "claim_free (queue_keys q)"
  shows "quan_rely.steady q time_Now" "quan_rely.steady q (metric c)" "quan_rely.steady q CountPending"
    "quan_rely.steady q (RecoverStaleDispatching t n)" "quan_rely.steady q (PublishReady q i)"
    "quan_rely.steady q (TryMarkDispatching i)" "quan_rely.steady q (MarkRetry i d m)"
  using steady_tasks [OF assms task_reads_kept(1)] steady_tasks [OF assms task_reads_kept(2)]
    relay_reads [OF assms] relay_marks(1,2) [OF assms]
  by (auto simp: quan_rely.steady_def)

section \<open>The relay, interleaved\<close>

lemma task_of_payload_later:
  assumes "quan_rely.later q w w'" "event_payload w i = Some p"
  shows "event_payload w' i = Some p"
  using assms by (auto simp: quan_rely.later_def quan_guar_def map_le_def dom_def)

lemma safe_dispatch_event:
  assumes free: "claim_free (queue_keys q)" and payload: "event_payload w (Event_ID evt) = Some (Event_PayloadJSON evt)"
  shows "quan_rely.safe q (\<lambda>_ _. True) w (dispatch_event_go (relay_wiring m q) cfg evt)"
proof -
  let ?Q = "\<lambda>(_ :: unit result) (_ :: world). True" and ?i = "Event_ID evt" and ?t = "task_of_payload (Some (Event_PayloadJSON evt))"
  have known: "task_of_payload (event_payload v ?i) = ?t" if "quan_rely.later q w u" "quan_rely.later q u v" for u v
    using task_of_payload_later [OF quan_rely.later_trans [OF that] payload] by simp
  have suspend: "quan_rely.safe q ?Q u (bindT (act (outbox_MarkSuspended ?i msg)) (\<lambda>_. Done (Inr ())))"
    if "quan_rely.later q w u" "?t = None" for u msg
    by (rule quan_rely.safe_if_later [OF relay_marks(4) [OF free quan_rely.later_inv] quan_rely.safe_end])
      (simp_all add: known [OF that(1)] that(2))
  have publish: "quan_rely.safe q ?Q u (bindT (act (MarkPublished ?i)) (\<lambda>_. Done (Inr ())))"
    if "quan_rely.later q w u" "?t = Some t" for u t
    by (rule quan_rely.safe_if_later [OF relay_marks(3) [OF free quan_rely.later_inv, of _ _ _ t] quan_rely.safe_end])
      (simp_all add: known [OF that(1)] that(2))
  have retry: "quan_rely.safe q ?Q u (bindT (act (MarkRetry ?i d msg)) (\<lambda>_. Done (Inr ())))" for u d msg
    by (rule quan_rely.safe_then [OF steady_ops(7) [OF free] quan_rely.safe_end])
  have push: "quan_rely.safe q ?Q u (bindT (act (PublishReady q t)) (\<lambda>pub. case pub of
      Inl pubErr \<Rightarrow> bindT (act (MarkRetry ?i d (errstr pubErr))) (\<lambda>_. Done (Inr ()))
    | Inr _ \<Rightarrow> bindT (act (MarkPublished ?i)) (\<lambda>_. Done (Inr ()))))"
    if "quan_rely.later q w u" "?t = Some t" for u t d
    by (rule quan_rely.safe_then [OF steady_ops(5) [OF free]])
      (use that quan_rely.later_trans [OF that(1)] in \<open>auto intro: retry publish split: sum.split\<close>)
  show ?thesis
    unfolding dispatch_event_go_def bindTE_def relay_wiring_def relay_ports.simps outbox_ports
    by (rule quan_rely.safe_then [OF steady_ops(6) [OF free]])
      (auto split: sum.split intro!: quan_rely.safe_end suspend push simp: task_of_payload_def)
qed

lemma relay_round_safe:
  assumes free: "claim_free (queue_keys q)"
  shows "quan_rely.always q (\<lambda>_ _. True) (relay_round_go (relay_wiring m q) cfg)"
proof -
  let ?p = "relay_wiring m q" and ?Q = "\<lambda>(_ :: unit result) (_ :: world). True"
  have batch: "quan_rely.always q ?Q (bindTE (act (ListDispatchable n)) (\<lambda>es. forT es (dispatch_event_go ?p cfg)))" for n
    unfolding quan_rely.always_def bindTE_def
  proof (intro allI impI quan_rely.safe_act)
    fix w u assume u: "quan_rely.later q w u"
    have "quan_rely.safe q ?Q v (forT es (dispatch_event_go ?p cfg))"
      if v: "quan_rely.later q u v" "\<forall>e \<in> set es. event_payload v (Event_ID e) = Some (Event_PayloadJSON e)" for es v
      by (rule quan_rely.safe_forT [OF quan_rely.later_inv [OF v(1)]], rule safe_dispatch_event [OF free])
        (use v(2) task_of_payload_later in blast)
    then show "wp (ListDispatchable n) (\<lambda>r v. quan_rely.later q u v \<and>
        quan_rely.safe q ?Q v (case r of Inl e \<Rightarrow> Done (Inl e) | Inr es \<Rightarrow> forT es (dispatch_event_go ?p cfg))) u"
      by (intro wp_mono [OF relay_reads(4) [OF free quan_rely.later_inv [OF u]]])
        (auto intro: quan_rely.safe_end split: sum.split)
  qed
  have gauge: "quan_rely.steady q (case c of Inl _ \<Rightarrow> ret () | Inr n \<Rightarrow> rm_SetOutboxPending (Relay_metrics ?p) n)" for c :: "int result"
    using steady_ops(2) [OF free] quan_rely.steady_ret
    by (auto simp: relay_wiring_def outbox_metrics_def noopRelayMetrics_def split: sum.split)
  have repo: "Relay_repo ?p = outbox_repository" by (simp add: relay_wiring_def)
  show ?thesis
    unfolding relay_round_go_def repo outbox_ports
    by (intro quan_rely.always_then gauge batch steady_ops [OF free])
qed

section \<open>Workers, compensator and replay, interleaved\<close>

lemma TryMarkRunning_steady:
  assumes free: "claim_free (queue_keys q)"
  shows "quan_rely.always q (\<lambda>_ _. True) (TryMarkRunning_go i)"
    and "quan_rely.always q (\<lambda>_ _. True) (MarkReplayReady_go i)"
proof -
  have update: "quan_rely.steady q (do { now \<leftarrow> time_Now; wrapE pre (db_exec (update_tasks
      (\<lambda>r. tk_task_id r = i \<and> tk_status r \<in> S) (f now))) })"
    if f: "\<And>now r. tk_task_id (f now r) = tk_task_id r" "\<And>r now. tk_status r \<in> S \<Longrightarrow> task_trans r (f now r)" for S f pre
  proof (rule steady_tasks [OF free], rule tasks_keptI)
    fix w assume w: "tasks_ok w"
    have "wp (do { now \<leftarrow> time_Now; bindE (wrapE pre (db_exec (update_tasks
        (\<lambda>r. tk_task_id r = i \<and> tk_status r \<in> S) (f now)))) returnE }) (\<lambda>_. tasks_step q w) w"
      by (rule wp_task_update [OF w f(1)])
        (use f(2) in \<open>auto intro: tasks_step_moved tasks_step_idle tasks_step_put\<close>)
    then show "wp (do { now \<leftarrow> time_Now; wrapE pre (db_exec (update_tasks
        (\<lambda>r. tk_task_id r = i \<and> tk_status r \<in> S) (f now))) }) (\<lambda>_. tasks_step q w) w"
      by (simp add: wp_def split_beta split: sum.splits)
  qed
  have read: "quan_rely.steady q (mapErr g (db_exec (query_row f)))" for g and f :: "db \<Rightarrow> 'x option"
    by (rule quan_rely.steady_mapErr, rule steady_tasks [OF free], rule tasks_frame.keptI, rule wp_db_read)
      (auto intro!: tasks_step_idle simp: idle_def)
  have get: "quan_rely.steady q (mapErr g (task_GetByID i))" for g
    unfolding task_GetByID_def by (rule read)
  show "quan_rely.always q (\<lambda>_ _. True) (TryMarkRunning_go i)"
    unfolding TryMarkRunning_go_def
    by (intro quan_rely.always_rules quan_rely.always_Done update get) (auto intro: task_trans.intros)
  show "quan_rely.always q (\<lambda>_ _. True) (MarkReplayReady_go i)"
    unfolding MarkReplayReady_go_def
    by (intro quan_rely.always_rules quan_rely.always_Done update read) (auto intro: task_trans.intros)
qed

lemma redis_queue_kept:
  assumes run: "\<And>now w. queue_ok q w \<Longrightarrow> \<exists>a f. run_state (cmd now) (w_kv w) = (Inr a, f) \<and>
      (\<forall>fs. \<exists>g. queue_upd q g w (w\<lparr>w_faults := fs, w_kv := f\<rparr>))"
  shows "tasks_frame.kept q (redis_exec cmd)"
proof (rule tasks_keptI)
  fix w assume ok: "queue_ok q w"
  obtain a m where m: "run_state (cmd (UnixMilli (w_now w))) (w_kv w) = (Inr a, m)"
      "\<forall>fs. \<exists>g. queue_upd q g w (w\<lparr>w_faults := fs, w_kv := m\<rparr>)"
    using run [OF ok] by blast
  have "tasks_step q w (w\<lparr>w_faults := fs, w_kv := m\<rparr>)" for fs using m(2) tasks_step_upd by blast
  moreover have "tasks_step q w (w\<lparr>w_faults := fs\<rparr>)" for fs by (rule tasks_step_upd [OF queue_upd_id [OF ok]])
  ultimately show "wp (redis_exec cmd) (\<lambda>_. tasks_step q w) w" by (intro wp_redis_known [where cmd = cmd and w = w, OF m(1)])
qed

lemma move_steps_kept:
  shows "tasks_frame.kept q (redis_exec (\<lambda>now. redis_ZREM now (RetryKey q) v))"
    and "tasks_frame.kept q (redis_exec (\<lambda>now. redis_RPUSH now (ReadyKey q) v))"
    and "tasks_frame.kept q (redis_exec (\<lambda>now. redis_ZADD now (RetryKey q) score v))"
    and "tasks_frame.kept q (redis_exec (\<lambda>now. redis_ZRANGEBYSCORE now (RetryKey q) score n))"
proof -
  note put = queue_put_ready queue_put_retry
  show "tasks_frame.kept q (redis_exec (\<lambda>now. redis_ZREM now (RetryKey q) v))"
    and "tasks_frame.kept q (redis_exec (\<lambda>now. redis_RPUSH now (ReadyKey q) v))"
    and "tasks_frame.kept q (redis_exec (\<lambda>now. redis_ZADD now (RetryKey q) score v))"
    by (rule redis_queue_kept; auto simp: queue_runs intro: put)+
  show "tasks_frame.kept q (redis_exec (\<lambda>now. redis_ZRANGEBYSCORE now (RetryKey q) score n))"
  proof (rule redis_queue_kept)
    fix now w assume ok: "queue_ok q w"
    show "\<exists>a f. run_state (redis_ZRANGEBYSCORE now (RetryKey q) score n) (w_kv w) = (Inr a, f) \<and>
      (\<forall>fs. \<exists>g. queue_upd q g w (w\<lparr>w_faults := fs, w_kv := f\<rparr>))"
      using ok put(2) [OF ok] by (auto simp: redis_ZRANGEBYSCORE_def redis_on_zset_spec queue_ok_def)
  qed
qed

lemmas kept_ops = task_ops_kept MarkFailed_kept queue_ops_kept task_reads_kept handler_kept move_steps_kept tasks_frame.kept_rules

lemma retry_scheduler_safe:
  assumes free: "claim_free (queue_keys q)"
  shows "quan_rely.always q (\<lambda>_ _. True) (MoveDueRetryToReady_go q n)"
proof -
  note steady = steady_tasks [OF free]
  have "quan_rely.always q (\<lambda>_ _. True) (move_ids_go q ids k)" for ids k
  proof (induction ids arbitrary: k)
    case (Cons v ids)
    show ?case unfolding move_ids_go.simps
      by (intro quan_rely.always_then quan_rely.always_cases quan_rely.always_Done steady kept_ops Cons) simp_all
  qed (simp add: quan_rely.always_Done)
  then show ?thesis
    unfolding MoveDueRetryToReady_go_def
    by (intro quan_rely.always_then quan_rely.always_cases quan_rely.always_Done steady kept_ops) simp_all
qed

lemma consumer_ports_kept:
  "tasks_frame.kept q (cm_IncTaskRetry (Consumer_metrics (consumer_wiring m q)))"
  "tasks_frame.kept q (cm_IncTaskDLQ (Consumer_metrics (consumer_wiring m q)))"
  "tasks_frame.kept q (cm_IncConsumeSuccess (Consumer_metrics (consumer_wiring m q)))"
  "tasks_frame.kept q (cm_IncConsumeFailure (Consumer_metrics (consumer_wiring m q)))"
  "tasks_frame.kept q (pm_ObserveTaskRecovery (Comp_metrics (compensator_wiring m q)) src d)"
  by (simp_all add: consumer_wiring_def consumer_counters_def noopConsumerMetrics_def compensator_wiring_def
      noopCompensationMetrics_def kept_ops)

lemma consumer_wiring_simps [simp]:
  "Consumer_repo (consumer_wiring m q) = task_repository" "Consumer_queue (consumer_wiring m q) = task_queue q"
  "Consumer_registry (consumer_wiring m q) = quan_registry"
  "Comp_repo (compensator_wiring m q) = compensation_repository" "Comp_queue (compensator_wiring m q) = compensation_queue q"
  by (simp_all add: consumer_wiring_def compensator_wiring_def)

lemma worker_round_safe:
  assumes free: "claim_free (queue_keys q)"
  shows "quan_rely.always q (\<lambda>_ _. True) (worker_round_go (consumer_wiring m q) cfg ctx)"
proof -
  note rules = quan_rely.always_rules quan_rely.always_Done steady_tasks [OF free] consumer_ports_kept kept_ops
    TryMarkRunning_steady(1) [OF free]
  have failed: "quan_rely.always q (\<lambda>_ _. True) (consume_failed_go (consumer_wiring m q) cfg task err)" for task err
    unfolding consume_failed_go_def consumer_wiring_simps consumer_world_simps by (intro rules) simp_all
  have success: "quan_rely.always q (\<lambda>_ _. True) (consume_done_go (consumer_wiring m q) task)" for task
    unfolding consume_done_go_def consumer_wiring_simps consumer_world_simps by (intro rules) simp_all
  show ?thesis
    unfolding worker_round_go_def consumer_wiring_simps consumer_world_simps by (intro rules failed success) simp_all
qed

lemma compensateOnce_safe:
  assumes free: "claim_free (queue_keys q)"
  shows "quan_rely.always q (\<lambda>_ _. True) (compensateOnce_go (compensator_wiring m q) cfg)"
proof -
  let ?p = "compensator_wiring m q"
  note rules = quan_rely.always_rules quan_rely.always_Done steady_tasks [OF free] consumer_ports_kept kept_ops
  have recover: "quan_rely.always q (\<lambda>_ _. True) (recover_candidates_go (Comp_repo ?p) msg cs acc)" for msg cs acc
  proof (induction cs arbitrary: acc)
    case (Cons c cs)
    show ?case unfolding recover_candidates_go.simps consumer_wiring_simps compensation_world_simps
      by (intro quan_rely.always_then steady_tasks [OF free] kept_ops Cons [unfolded consumer_wiring_simps])
  qed (simp add: rules)
  have schedule: "quan_rely.always q (\<lambda>_ _. True) (schedule_candidates_go ?p now cs n)" for now cs n
  proof (induction cs arbitrary: n)
    case (Cons c cs)
    show ?case unfolding schedule_candidates_go.simps consumer_wiring_simps compensation_world_simps
      by (intro quan_rely.always_then quan_rely.always_cases steady_tasks [OF free] consumer_ports_kept kept_ops Cons)
  qed (simp add: rules)
  show ?thesis
    unfolding compensateOnce_go_def Let_def consumer_wiring_simps compensation_world_simps
    by (intro rules recover [unfolded consumer_wiring_simps] schedule) simp_all
qed

lemma replay_safe_go:
  assumes free: "claim_free (queue_keys q)" and queue: "queue \<in> {RedisQueue q, NilQueue}"
  shows "quan_rely.always q (\<lambda>_ _. True) (ReplayDLQTask_go (NewServiceWithQueue queue n) i)"
proof -
  note rules = quan_rely.always_rules quan_rely.always_Done steady_tasks [OF free] kept_ops
  have moved: "tasks_frame.kept q (replay_queue (TaskSvc_queue (NewServiceWithQueue queue n)) i)"
    using queue by (auto simp: NewServiceWithQueue_def replay_queue_def intro!: kept_ops)
  have restore: "quan_rely.always q (\<lambda>_ _. True) (bindT (act (RestoreDeadAfterReplayFailure i)) (\<lambda>_. Done x))" for x :: "unit outcome"
    by (intro rules) simp
  show ?thesis
    unfolding ReplayDLQTask_go_def
    by (intro quan_rely.always_cases quan_rely.always_bindT TryMarkRunning_steady(2) [OF free] quan_rely.always_then
        steady_tasks [OF free] moved quan_rely.always_Done)
      (auto intro!: restore quan_rely.always_Done split: outcome.split sum.split)
qed

section \<open>Claims, interleaved\<close>

lemma claim_ops_kept:
  assumes free: "claim_free (queue_keys q)"
  shows "claims_frame.kept q (Decide a snap uid k now r)" "claims_frame.kept q (EnsureCampaign a snap)"
    "claims_frame.kept q (Finalize a cid uid k r claim)" "claims_frame.kept q (claim_Rollback a cid uid k r)"
    "claims_frame.kept q (FindClaimByID i)" "claims_frame.kept q (LoadCampaign cid)"
    "claims_frame.kept q (redis_exec (\<lambda>now. redis_GET now (idemDecisionKey cid uid k)))"
  unfolding Decide_def EnsureCampaign_def Finalize_def claim_Rollback_def FindClaimByID_def LoadCampaign_def Let_def
  by (intro claims_frame.kept_rules claims_basic_kept claims_redis_kept [OF scripts_kept(1) [OF free]]
      claims_redis_kept [OF scripts_kept(2) [OF free]] claims_redis_kept [OF scripts_kept(3) [OF free]]
      claims_redis_kept [OF scripts_kept(4) [OF free]] claims_redis_kept [OF scripts_kept(5) [OF free]])+

lemma later_request:
  assumes "quan_inv q w" "claims_step q w w'" "tables_ok (w_db w')" "answers_ok (w_db w') (w_kv w')"
    "set (db_claims (w_db w)) \<subseteq> set (db_claims (w_db w'))" "tasks_appended (w_db w) (w_db w')"
    "\<exists>es. db_events (w_db w') = db_events (w_db w) @ es"
  shows "quan_rely.later q w w'"
proof (rule laterI)
  have "campaigns_ok (w_db w)" "w_tx w = None" using assms(1) by (simp_all add: quan_inv_def tables_ok_def books_ok_def)
  with assms(2) have "same_on (queue_keys q) (w_kv w) (w_kv w')" "w_tx w' = None" by (simp_all add: claims_step_def)
  then show "quan_inv q w' \<and> quan_grows w w'" using assms by (intro quan_request_step) simp_all
  show "event_payload w \<subseteq>\<^sub>m event_payload w'"
    using assms(7) by (auto simp: map_le_def event_payload_def outbox_row_def sql_row_append)
qed

lemma later_quiet:
  assumes "quan_inv q w" "claims_step q w w'" "quiet w w'"
  shows "quan_rely.later q w w'"
  using assms(1,3) by (intro later_request [OF assms(1,2)])
    (auto simp: quan_inv_def quiet_def tasks_appended_def intro: answers_ok_kv)

lemma later_claimed:
  assumes inv: "quan_inv q w" and env: "same_env w w'" "w_tx w' = None"
    and c: "claimed (coupon_NewRepository True True n) ctx cid uid idem res (w_db w) (w_db w')"
  shows "quan_rely.later q w w'"
proof (rule later_request [OF inv])
  let ?r = "coupon_NewRepository True True n" and ?d = "w_db w" and ?d' = "w_db w'"
  have async: "Repo_async ?r" by (simp add: coupon_NewRepository_def)
  have ok: "tables_ok ?d" "answers_ok ?d (w_kv w)" using inv by (simp_all add: quan_inv_def)
  show "claims_step q w w'" by (rule claims_step_claimed [OF env c])
  show "tables_ok ?d'" by (rule tables_ok_claimed [OF ok(1) c async])
  show sub: "set (db_claims ?d) \<subseteq> set (db_claims ?d')" by (rule claims_grow_subset [OF claimed_grows [OF c]])
  show "answers_ok ?d' (w_kv w')" using answers_ok_db [OF ok(2) sub] env(1) by (simp add: same_env_def)
  show "tasks_appended ?d ?d'"
    using c appended_cases by (auto simp: claimed_def replayed_def tasks_appended_def rolled_back_def split: sum.splits)
  have "\<exists>es. db_events d' = db_events d @ es" if "granted ?r ctx cid uid idem d rec d'" for rec d d'
    using that by (auto simp: granted_def notice_added_def with_task_def with_claim_def deducted_def with_event_def insert_event_def Let_def split: if_splits)
  then show "\<exists>es. db_events ?d' = db_events ?d @ es"
    using c by (auto simp: claimed_def replayed_def rolled_back_def split: sum.splits)
qed

lemma claim_in_later: "quan_rely.later q w w' \<Longrightarrow> claim_in (w_db w) cid uid i \<Longrightarrow> claim_in (w_db w') cid uid i"
  by (auto simp: quan_rely.later_def quan_guar_def quan_grows_def claim_in_def)

lemma record_of_later: "quan_rely.later q w w' \<Longrightarrow> record_of cid uid rec (w_db w) \<Longrightarrow> record_of cid uid rec (w_db w')"
  using claim_in_later by (simp add: record_of_def)

lemma record_claim_in: "record_of cid uid rec d \<Longrightarrow> claim_in d cid uid (Claim_ID rec)"
  by (simp add: record_of_def)

lemma wp_quiet_later:
  assumes "quan_inv q w" "claims_frame.kept q m" "wp m (\<lambda>r w'. quiet w w' \<and> P r w') w"
  shows "wp m (\<lambda>r w'. quan_rely.later q w w' \<and> P r w') w"
  by (rule wp_mono [OF wp_conj [OF claims_frame.kept_wp [OF assms(2)] assms(3)]]) (auto intro: later_quiet [OF assms(1)])

lemma steady_quiet:
  assumes "claims_frame.kept q m" "\<And>w. wp m (\<lambda>_ w'. quiet w w') w"
  shows "quan_rely.steady q m"
  unfolding quan_rely.steady_def
  using wp_quiet_later [OF _ assms(1), where P = "\<lambda>_ _. True"] assms(2) by simp

lemma steady_claim_ops:
  assumes free: "claim_free (queue_keys q)"
  shows "quan_rely.steady q (claimReservationID rnd)" "quan_rely.steady q (EnsureCampaign a snap)"
    "quan_rely.steady q (claim_Rollback a cid uid k r)" "quan_rely.steady q (LoadCampaign cid)" "quan_rely.steady q (time_Sleep d)"
proof -
  show "quan_rely.steady q (claimReservationID rnd)"
    unfolding claimReservationID_def by (intro quan_rely.steady_bind quan_rely.steady_ret steady_ops [OF free])
  show "quan_rely.steady q (EnsureCampaign a snap)"
    by (rule steady_quiet [OF claim_ops_kept(2) [OF free]], rule wp_EnsureCampaign)
  show "quan_rely.steady q (claim_Rollback a cid uid k r)"
    by (rule steady_quiet [OF claim_ops_kept(4) [OF free]], rule wp_claim_Rollback)
  show "quan_rely.steady q (LoadCampaign cid)"
    by (rule steady_quiet [OF claim_ops_kept(6) [OF free]])
      (auto simp: LoadCampaign_def mapErr_def intro!: wp_db_read split: sum.split)
  show "quan_rely.steady q (time_Sleep d)"
    by (rule steady_quiet [OF claims_basic_kept(2)]) (simp add: time_Sleep_def)
qed

lemma wp_claim_steps:
  assumes free: "claim_free (queue_keys q)" and inv: "quan_inv q w"
  shows "wp (Decide a snap uid k now r) (\<lambda>res w'. quan_rely.later q w w' \<and> (\<forall>dcs. res = Inr dcs \<longrightarrow>
      Decision_Code dcs = decisionCodeIdemHit \<longrightarrow> claim_in (w_db w') (Snap_CouponID snap) uid (Decision_ClaimID dcs))) w"
    and "wp (redis_exec (\<lambda>now. redis_GET now (idemDecisionKey cid uid k))) (\<lambda>res w'. quan_rely.later q w w' \<and>
      (\<forall>v i. res = Inr (Some v) \<longrightarrow> HasPrefix v ''SUCCESS:'' \<longrightarrow> ParseInt (TrimPrefix v ''SUCCESS:'') = Inr i \<longrightarrow>
        claim_in (w_db w') cid uid i)) w"
    and "claim_in (w_db w) cid uid i \<Longrightarrow> wp (FindClaimByID i) (\<lambda>res w'. quan_rely.later q w w' \<and>
      (\<forall>rec. res = Inr rec \<longrightarrow> record_of cid uid rec (w_db w'))) w"
proof -
  have ok: "answers_ok (w_db w) (w_kv w)" "claim_keys_ok (w_db w)"
    using inv by (simp_all add: quan_inv_def tables_ok_def books_ok_def)
  show "wp (Decide a snap uid k now r) (\<lambda>res w'. quan_rely.later q w w' \<and> (\<forall>dcs. res = Inr dcs \<longrightarrow>
      Decision_Code dcs = decisionCodeIdemHit \<longrightarrow> claim_in (w_db w') (Snap_CouponID snap) uid (Decision_ClaimID dcs))) w"
    by (rule wp_quiet_later [OF inv claim_ops_kept(1) [OF free]], rule wp_Decide)
      (auto simp: quiet_def intro: told_claim [OF ok(1)])
  have "claim_in (w_db w) cid uid i" if "get_answer (UnixMilli (w_now w)) (w_kv w) (idemDecisionKey cid uid k) = Inr (Some v)"
      "HasPrefix v ''SUCCESS:''" "ParseInt (TrimPrefix v ''SUCCESS:'') = Inr i" for v i
  proof -
    have "answered (w_kv w) (idemDecisionKey cid uid k) (w_now w) (w_now w) i" by (rule answeredI [OF order_refl that])
    then have "told (w_kv w) (idemDecisionKey cid uid k) i" unfolding answered_def told_def by blast
    then show ?thesis by (rule told_claim [OF ok(1)])
  qed
  then show "wp (redis_exec (\<lambda>now. redis_GET now (idemDecisionKey cid uid k))) (\<lambda>res w'. quan_rely.later q w w' \<and>
      (\<forall>v i. res = Inr (Some v) \<longrightarrow> HasPrefix v ''SUCCESS:'' \<longrightarrow> ParseInt (TrimPrefix v ''SUCCESS:'') = Inr i \<longrightarrow>
        claim_in (w_db w') cid uid i)) w"
    by (intro wp_quiet_later [OF inv claim_ops_kept(7) [OF free]] wp_redis_GET) auto
  show "wp (FindClaimByID i) (\<lambda>res w'. quan_rely.later q w w' \<and> (\<forall>rec. res = Inr rec \<longrightarrow> record_of cid uid rec (w_db w'))) w"
    if "claim_in (w_db w) cid uid i"
    by (rule wp_quiet_later [OF inv claim_ops_kept(5) [OF free]])
      (auto simp: FindClaimByID_def query_row_def intro!: wp_db_read claim_in_record [OF ok(2) that] split: option.splits)
qed

lemma wp_claim_writes:
  assumes free: "claim_free (queue_keys q)" and inv: "quan_inv q w"
  shows "wp (PersistClaimAfterAdjudication (coupon_NewRepository True True n) ctx cid uid k)
      (\<lambda>res w'. quan_rely.later q w w' \<and> (\<forall>rec. res = Inr rec \<longrightarrow> record_of cid uid rec (w_db w'))) w"
    and "wp (ClaimCoupon (coupon_NewRepository True True n) ctx cid uid k)
      (\<lambda>res w'. quan_rely.later q w w' \<and> (\<forall>rec. res = Inr rec \<longrightarrow> record_of cid uid rec (w_db w'))) w"
    and "claim_in (w_db w) cid uid i \<Longrightarrow> wp (Finalize a cid uid k r i) (\<lambda>_. quan_rely.later q w) w"
proof -
  have ok: "campaigns_ok (w_db w)" "w_tx w = None" "answers_ok (w_db w) (w_kv w)" "tables_ok (w_db w)"
    using inv by (simp_all add: quan_inv_def tables_ok_def books_ok_def)
  show "wp (PersistClaimAfterAdjudication (coupon_NewRepository True True n) ctx cid uid k)
      (\<lambda>res w'. quan_rely.later q w w' \<and> (\<forall>rec. res = Inr rec \<longrightarrow> record_of cid uid rec (w_db w'))) w"
    by (rule wp_mono [OF wp_PersistClaim [OF ok(1,2)]]) (auto intro: later_claimed [OF inv] claimed_record)
  show "wp (ClaimCoupon (coupon_NewRepository True True n) ctx cid uid k)
      (\<lambda>res w'. quan_rely.later q w w' \<and> (\<forall>rec. res = Inr rec \<longrightarrow> record_of cid uid rec (w_db w'))) w"
    by (rule wp_mono [OF wp_ClaimCoupon [OF ok(1,2)]]) (auto intro: later_claimed [OF inv] claimed_record)
  show "wp (Finalize a cid uid k r i) (\<lambda>_. quan_rely.later q w) w" if "claim_in (w_db w) cid uid i"
  proof -
    have "wp (Finalize a cid uid k r i) (\<lambda>_ w'. w_db w' = w_db w \<and> answers_ok (w_db w') (w_kv w')) w"
      by (rule wp_Finalize) (use answers_ok_finalize [OF ok(3) _ that] in auto)
    from wp_conj [OF claims_frame.kept_wp [OF claim_ops_kept(3) [OF free]] this] show ?thesis
      by (rule wp_mono) (use ok(4) in \<open>auto intro!: later_request [OF inv] simp: tasks_appended_def\<close>)
  qed
qed

text \<open>A record that a thread answers with is a claim of its caller, whatever the other threads do.\<close>

definition own_record :: "int \<Rightarrow> int \<Rightarrow> ClaimRecord option result \<Rightarrow> world \<Rightarrow> bool" where
  "own_record cid uid res w \<longleftrightarrow> (\<forall>rec. res = Inr (Some rec) \<longrightarrow> record_of cid uid rec (w_db w))"

lemma own_record_none: "quan_rely.always q (own_record cid uid) (Done (Inl e))" "quan_rely.always q (own_record cid uid) (Done (Inr None))"
  by (rule quan_rely.always_Done; simp add: own_record_def)+

lemma own_record_some:
  "record_of cid uid rec (w_db w) \<Longrightarrow> quan_rely.safe q (own_record cid uid) w (Done (Inr (Some rec)))"
  by (rule quan_rely.safe_Done) (auto simp: own_record_def intro: record_of_later)

lemma safe_found:
  assumes free: "claim_free (queue_keys q)" and "claim_in (w_db w) cid uid i"
    and err: "\<And>e. quan_rely.always q (own_record cid uid) (f (Inl e))" and rec: "\<And>rec. f (Inr rec) = Done (Inr (Some rec))"
  shows "quan_rely.safe q (own_record cid uid) w (bindT (act (FindClaimByID i)) f)"
proof (rule quan_rely.safe_act)
  fix u assume u: "quan_rely.later q w u"
  have "quan_rely.safe q (own_record cid uid) v (f r)"
    if "quan_rely.later q u v" "\<forall>rec. r = Inr rec \<longrightarrow> record_of cid uid rec (w_db v)" for r v
    using that rec own_record_some quan_rely.always_safe [OF err that(1)] by (cases r) auto
  then show "wp (FindClaimByID i) (\<lambda>r v. quan_rely.later q u v \<and> quan_rely.safe q (own_record cid uid) v (f r)) u"
    by (intro wp_mono [OF wp_claim_steps(3) [OF free quan_rely.later_inv [OF u] claim_in_later [OF u assms(2)]]]) auto
qed

lemma persist_admitted_safe:
  assumes free: "claim_free (queue_keys q)" and s: "Svc_repo s = coupon_NewRepository True True n"
  shows "quan_rely.always q (own_record cid uid) (persist_admitted_go s ctx cid uid k r)"
  unfolding quan_rely.always_def persist_admitted_go_def s
proof (intro allI impI quan_rely.safe_act)
  fix w u assume u: "quan_rely.later q w u"
  let ?f = "\<lambda>persisted. case persisted of
       Inl err \<Rightarrow> bindT (act (claim_Rollback (Svc_adjudicator s) cid uid k r)) (\<lambda>_. Done (Inl (mapClaimErr err)))
     | Inr rec \<Rightarrow> bindT (act (Finalize (Svc_adjudicator s) cid uid k r (Claim_ID rec))) (\<lambda>_. Done (Inr (Some rec)))"
  have "quan_rely.safe q (own_record cid uid) v (bindT (act (Finalize (Svc_adjudicator s) cid uid k r (Claim_ID rec))) (\<lambda>_. Done (Inr (Some rec))))"
    if "record_of cid uid rec (w_db v)" for rec v
    by (rule quan_rely.safe_if_later [OF wp_claim_writes(3) [OF free quan_rely.later_inv]])
      (use that in \<open>auto intro: own_record_some claim_in_later record_of_later record_claim_in\<close>)
  moreover have "quan_rely.always q (own_record cid uid) (bindT (act (claim_Rollback (Svc_adjudicator s) cid uid k r)) (\<lambda>_. Done (Inl e)))" for e
    by (intro quan_rely.always_then steady_claim_ops [OF free] own_record_none)
  ultimately show "wp (PersistClaimAfterAdjudication (coupon_NewRepository True True n) ctx cid uid k)
      (\<lambda>p v. quan_rely.later q u v \<and> quan_rely.safe q (own_record cid uid) v (?f p)) u"
    by (intro wp_mono [OF wp_claim_writes(1) [OF free quan_rely.later_inv [OF u]]])
      (auto split: sum.split intro: quan_rely.always_safe)
qed

lemma wait_safe:
  assumes free: "claim_free (queue_keys q)"
  shows "quan_rely.always q (own_record cid uid) (waitPendingClaim_go s cid uid k)"
proof -
  let ?key = "idemDecisionKey cid uid k"
  define P where "P = (\<lambda>(r :: int option result option) (w :: world). \<forall>i. r = Some (Inr (Some i)) \<longrightarrow> claim_in (w_db w) cid uid i)"
  have none: "quan_rely.always q P (Done r)" if "\<And>i. r \<noteq> Some (Inr (Some i))" for r
    using that by (intro quan_rely.always_Done) (auto simp: P_def)
  have some: "quan_rely.safe q P w (Done (Some (Inr (Some i))))" if "claim_in (w_db w) cid uid i" for w i
    using that by (intro quan_rely.safe_Done) (auto simp: P_def intro: claim_in_later)
  have loop: "quan_rely.always q P (wait_loop_go n deadline poll ?key)" for n deadline poll
  proof (induction n)
    case (Suc n)
    define f where "f = (\<lambda>val :: string option result. case val of
         Inl err \<Rightarrow> Done (Some (Inl err))
       | Inr x \<Rightarrow> (case x of
           None \<Rightarrow> Done (Some (Inr None))
         | Some v \<Rightarrow>
             if HasPrefix v ''SUCCESS:'' then
               (case ParseInt (TrimPrefix v ''SUCCESS:'') of
                  Inl convErr \<Rightarrow> Done (Some (Inl (ErrWrap ''invalid success claim id: '' convErr '''')))
                | Inr claimID \<Rightarrow> Done (Some (Inr (Some claimID))))
             else if \<not> HasPrefix v ''PENDING:'' then Done (Some (Inr None))
             else bindT (act (time_Sleep poll)) (\<lambda>_. wait_loop_go n deadline poll ?key)))"
    have sleep: "quan_rely.always q P (bindT (act (time_Sleep poll)) (\<lambda>_. wait_loop_go n deadline poll ?key))"
      by (intro quan_rely.always_then steady_claim_ops [OF free] Suc)
    have "quan_rely.safe q P v (f res)" if "quan_rely.later q u v" "\<forall>x i. res = Inr (Some x) \<longrightarrow> HasPrefix x ''SUCCESS:'' \<longrightarrow>
        ParseInt (TrimPrefix x ''SUCCESS:'') = Inr i \<longrightarrow> claim_in (w_db v) cid uid i" for res u v
      unfolding f_def using that(2) quan_rely.always_safe [OF sleep that(1)]
      by (auto split: sum.split option.split intro: some quan_rely.always_safe [OF none that(1)])
    then have get: "quan_rely.always q P (bindT (act (redis_exec (\<lambda>now. redis_GET now ?key))) f)"
      unfolding quan_rely.always_def
      by (intro allI impI quan_rely.safe_act) (rule wp_mono [OF wp_claim_steps(2) [OF free quan_rely.later_inv]]; auto)
    show ?case
      unfolding wait_loop_go.simps f_def [symmetric]
      by (rule quan_rely.always_then [OF steady_ops(1) [OF free]]) (simp add: get none)
  qed (simp add: none)
  have find: "quan_rely.safe q (own_record cid uid) w (bindT (act (FindClaimByID i)) (\<lambda>found. case found of
             Inl err \<Rightarrow>
               if errors_Is err sql_ErrNoRows then Done (Inr None)
               else Done (Inl (apperr_Wrap CodeInternalError ''load pending claim result failed'' err))
           | Inr rec \<Rightarrow> Done (Inr (Some rec))))" if "claim_in (w_db w) cid uid i" for w i
    by (rule safe_found [OF free that]) (auto intro: own_record_none)
  show ?thesis
    unfolding waitPendingClaim_go_def
  proof (rule quan_rely.always_seq)
    show "quan_rely.always q (\<lambda>r. P (Some r)) (WaitResult_go (Svc_adjudicator s) cid uid k)"
      unfolding WaitResult_go_def
      by (intro quan_rely.always_cases quan_rely.always_then quan_rely.always_seq [OF loop] steady_ops [OF free] quan_rely.always_Done)
        (auto simp: P_def split: option.split intro!: quan_rely.safe_Done intro: claim_in_later)
    show "quan_rely.safe q (own_record cid uid) w (case r of
        Inl err \<Rightarrow> Done (Inl (apperr_Wrap CodeInternalError ''wait pending claim result failed'' err))
      | Inr x \<Rightarrow> (case x of None \<Rightarrow> Done (Inr None)
        | Some claimID \<Rightarrow> bindT (act (FindClaimByID claimID)) (\<lambda>found. case found of
             Inl err \<Rightarrow>
               if errors_Is err sql_ErrNoRows then Done (Inr None)
               else Done (Inl (apperr_Wrap CodeInternalError ''load pending claim result failed'' err))
           | Inr rec \<Rightarrow> Done (Inr (Some rec)))))" if "quan_inv q w" "P (Some r) w" for r w
      using that find own_record_none [of q cid uid] by (auto simp: P_def quan_rely.always_def split: sum.split option.split)
  qed
qed

lemma claimWithRedis_safe:
  assumes free: "claim_free (queue_keys q)" and s: "Svc_repo s = coupon_NewRepository True True n"
  shows "quan_rely.always q (own_record cid uid) (claimWithRedis_go s ctx rnd cid uid k)"
proof -
  let ?snap = "\<lparr>Snap_CouponID = cid, Snap_Status = '''', Snap_AvailableStock = 0, Snap_PerUserLimit = 0, Snap_StartAt = 0, Snap_EndAt = 0\<rparr>"
  have miss: "quan_rely.always q (own_record cid uid) (miss_campaign_go s cid)"
    unfolding miss_campaign_go_def
    by (intro quan_rely.always_then quan_rely.always_cases steady_claim_ops [OF free] own_record_none)
  have replay: "quan_rely.safe q (own_record cid uid) w (replay_claim_go i)" if "claim_in (w_db w) cid uid i" for w i
    unfolding replay_claim_go_def by (rule safe_found [OF free that]) (auto intro: own_record_none)
  define f where "f = (\<lambda>decided :: claimDecision result. case decided of
       Inl err \<Rightarrow> Done (Inl (apperr_Wrap CodeInternalError ''redis adjudication failed'' err))
     | Inr decision \<Rightarrow>
         let code = Decision_Code decision in
         if code = decisionCodeCampaignMiss then miss_campaign_go s cid
         else if code = decisionCodeIdemHit then replay_claim_go (Decision_ClaimID decision)
         else if code = decisionCodePending then waitPendingClaim_go s cid uid k
         else if code = decisionCodeAlready then Done (Inl (apperr_New CodeConflict ''already claimed''))
         else if code = decisionCodeLimit then Done (Inl (apperr_New CodeConflict ''claim limit reached''))
         else if code = decisionCodeSoldOut then Done (Inl (apperr_New CodeConflict ''coupon sold out''))
         else if code = decisionCodeInactive then Done (Inl (apperr_New CodeBadRequest ''campaign not active''))
         else if code = decisionCodeAdmitted then persist_admitted_go s ctx cid uid k (Decision_ReservationID decision)
         else Done (Inl (apperr_Wrap CodeInternalError ''unknown redis adjudication result'' (ErrNew (''code='' @ code)))))"
  have "quan_rely.safe q (own_record cid uid) v (f res)" if v: "quan_rely.later q u v"
      "\<forall>dcs. res = Inr dcs \<longrightarrow> Decision_Code dcs = decisionCodeIdemHit \<longrightarrow> claim_in (w_db v) cid uid (Decision_ClaimID dcs)" for res u v
    unfolding f_def Let_def
    using v(2) replay quan_rely.always_safe [OF miss v(1)] quan_rely.always_safe [OF wait_safe [OF free] v(1)]
      quan_rely.always_safe [OF persist_admitted_safe [OF free s] v(1)] quan_rely.always_safe [OF own_record_none(1) v(1)]
    by (auto split: sum.split)
  then have decide: "quan_rely.always q (own_record cid uid) (bindT (act (Decide (Svc_adjudicator s) ?snap uid k now r)) f)" for now r
    unfolding quan_rely.always_def
    by (intro allI impI quan_rely.safe_act) (rule wp_mono [OF wp_claim_steps(1) [OF free quan_rely.later_inv]]; auto)
  show ?thesis
    unfolding claimWithRedis_go_def f_def [symmetric]
    by (rule quan_rely.always_then [OF steady_claim_ops(1) [OF free]], rule quan_rely.always_then [OF steady_ops(1) [OF free]])
      (rule decide)
qed

lemma Claim_safe:
  assumes free: "claim_free (queue_keys q)"
  shows "quan_rely.always q (\<lambda>res w. \<forall>rec. res = Inr rec \<longrightarrow> record_of cid uid rec (w_db w))
    (Claim_go (coupon_NewService (coupon_NewRepository True True n) cache) ctx rnd1 rnd2 cid uid k)" (is "quan_rely.always q ?Q _")
proof -
  let ?s = "coupon_NewService (coupon_NewRepository True True n) cache"
  have s: "Svc_repo ?s = coupon_NewRepository True True n" by (simp add: coupon_NewService_def)
  have attempts: "quan_rely.always q ?Q (claim_attempts_go ?s ctx rnds cid uid k)" for rnds
  proof (induction rnds)
    case (Cons rnd rnds)
    show ?case
      unfolding claim_attempts_go.simps bindTE_def
      by (rule quan_rely.always_seq [OF claimWithRedis_safe [OF free s]])
        (use Cons in \<open>auto simp: own_record_def quan_rely.always_def intro!: quan_rely.safe_Done intro: record_of_later
            split: sum.split option.split\<close>)
  qed (simp add: quan_rely.always_Done)
  have without: "quan_rely.always q ?Q (act (claimWithoutRedis ?s ctx cid uid k))"
    unfolding quan_rely.always_def claimWithoutRedis_def s
    by (intro allI impI quan_rely.safe_act_last, simp only: wp_mapErr,
        rule wp_mono [OF wp_claim_writes(2) [OF free quan_rely.later_inv]])
      (auto intro: record_of_later split: sum.splits)
  show ?thesis unfolding Claim_go_def by (rule quan_rely.always_cases(4) [OF without attempts])
qed

section \<open>A new task\<close>

lemma CreateTask_safe:
  assumes free: "claim_free (queue_keys q)"
  shows "quan_rely.always q (\<lambda>res w. \<forall>t. res = Inr t \<longrightarrow> task_at w (Task_ID t) \<noteq> None) (act (CreateTask s req))"
  unfolding quan_rely.always_def
proof (intro allI impI quan_rely.safe_act_last)
  fix w u assume u: "quan_rely.later q w u"
  note inv = quan_rely.later_inv [OF u]
  have keep: "task_at v i \<noteq> None \<Longrightarrow> quan_rely.later q v x \<Longrightarrow> task_at x i \<noteq> None" for v x i
    by (fastforce simp: quan_rely.later_def quan_guar_def quan_grows_def)
  define u' where "u' = final (CreateTask s req) u"
  have tx: "w_tx u = None" using inv by (simp add: quan_inv_def)
  have step: "quan_inv q u' \<and> quan_grows u u'" by (rule quan_create_step [OF inv u'_def])
  have effect: "(\<exists>es. db_events (w_db u') = db_events (w_db u) @ es) \<and>
      (\<forall>t. answer (CreateTask s req) u = Inr t \<longrightarrow> task_at u' (Task_ID t) \<noteq> None)"
  proof (cases "create_params s req")
    case None
    then show ?thesis by (simp add: u'_def CreateTask_def final_def answer_def)
  next
    case (Some p)
    have run: "u' = final (within_tx (createTask_tx p)) u"
        "answer (CreateTask s req) u = Inr t \<Longrightarrow> answer (within_tx (createTask_tx p)) u = Inr t" for t
      by (auto simp: u'_def CreateTask_def Some final_def answer_def split: prod.splits sum.splits)
    have e: "task_create_effect p (answer (within_tx (createTask_tx p)) u) (w_db u) (w_db u')"
      using wp_create_within_tx [OF tx, of p] by (simp add: wp_iff run)
    have known: "\<exists>r \<in> set (db_tasks (w_db u')). tk_task_id r = Task_ID t" if "answer (CreateTask s req) u = Inr t" for t
      using e unfolding run(2) [OF that]
      by (auto simp: task_create_effect_def task_added_def task_known_def with_event_def insert_event_def with_task_def scanTask_def)
    then have "task_at u' (Task_ID t) \<noteq> None" if "answer (CreateTask s req) u = Inr t" for t
      using that unfolding task_at_def by (auto simp: sql_row_None_iff)
    moreover have "\<exists>es. db_events (w_db u') = db_events (w_db u) @ es"
    proof (cases "answer (within_tx (createTask_tx p)) u")
      case (Inl x)
      then show ?thesis using e
        by (auto simp: task_create_effect_def task_added_def rolled_back_def with_event_def insert_event_def with_task_def)
    next
      case (Inr t)
      then show ?thesis using e
        by (auto simp: task_create_effect_def task_added_def task_known_def with_event_def insert_event_def with_task_def)
    qed
    ultimately show ?thesis by blast
  qed
  have "quan_rely.later q u u'"
    using effect by (intro laterI [OF step]) (auto simp: map_le_def event_payload_def outbox_row_def sql_row_append)
  with effect keep show "wp (CreateTask s req) (\<lambda>a x. quan_rely.later q u x \<and>
      (\<forall>v. quan_rely.later q x v \<longrightarrow> (\<forall>t. a = Inr t \<longrightarrow> task_at v (Task_ID t) \<noteq> None))) u"
    unfolding wp_iff u'_def by blast
qed

section \<open>The interleaved server\<close>

text \<open>What a thread answers with, and what the answer promises.\<close>

datatype reply = ClaimReply int int "ClaimRecord result" | CreateReply "AsyncTask result" | ReplayReply "unit outcome" | RoundOver

definition reply_ok :: "reply \<Rightarrow> world \<Rightarrow> bool" where
  "reply_ok r w \<longleftrightarrow> (case r of
     ClaimReply cid uid (Inr rec) \<Rightarrow> record_of cid uid rec (w_db w)
   | CreateReply (Inr t) \<Rightarrow> task_at w (Task_ID t) \<noteq> None
   | _ \<Rightarrow> True)"

text \<open>The goroutines: requests with any arguments, and rounds of the background processes.\<close>

inductive quan_goroutine :: "QueueConfig \<Rightarrow> reply go \<Rightarrow> bool" for q :: QueueConfig where
  go_claim: "quan_goroutine q (mapT (ClaimReply couponID userID)
     (Claim_go (coupon_NewService (coupon_NewRepository True True retries) cache) ctx rnd1 rnd2 couponID userID idemKey))"
| go_create: "quan_goroutine q (mapT CreateReply (act (CreateTask (NewServiceWithQueue queue retries) req)))"
| go_replay: "queue \<in> {RedisQueue q, NilQueue} \<Longrightarrow>
    quan_goroutine q (mapT ReplayReply (ReplayDLQTask_go (NewServiceWithQueue queue retries) taskID))"
| go_relay: "quan_goroutine q (mapT (\<lambda>_. RoundOver) (relay_round_go (relay_wiring m q) rcfg))"
| go_worker: "quan_goroutine q (mapT (\<lambda>_. RoundOver) (worker_round_go (consumer_wiring m q) ccfg ctx))"
| go_scheduler: "quan_goroutine q (mapT (\<lambda>_. RoundOver) (MoveDueRetryToReady_go q batch))"
| go_compensator: "quan_goroutine q (mapT (\<lambda>_. RoundOver) (compensateOnce_go (compensator_wiring m q) pcfg))"

text \<open>Between the steps time passes, the faults to come change, and Redis may lose keys.\<close>

inductive quan_outside :: "world \<Rightarrow> world \<Rightarrow> bool" where
  out_world: "w_now w \<le> t \<Longrightarrow> quan_outside w (w\<lparr>w_now := t, w_ticks := ticks, w_faults := faults, w_metrics := metrics\<rparr>)"
| out_redis_loss: "(\<And>k. m k = w_kv w k \<or> m k = None) \<Longrightarrow> quan_outside w (w\<lparr>w_kv := m\<rparr>)"

abbreviation quan_pool :: "QueueConfig \<Rightarrow> world \<times> reply go list \<Rightarrow> world \<times> reply go list \<Rightarrow> bool" where
  "quan_pool q \<equiv> pool_run (quan_goroutine q) quan_outside"

lemma goroutine_safe:
  assumes free: "claim_free (queue_keys q)" and "quan_goroutine q p" "quan_inv q w"
  shows "quan_rely.safe q reply_ok w p"
proof -
  have quiet: "quan_rely.always q (\<lambda>a. reply_ok (f a)) t"
    if "quan_rely.always q (\<lambda>_ _. True) t" "\<And>a w. reply_ok (f a) w" for f :: "'b \<Rightarrow> reply" and t
    using that(1) unfolding quan_rely.always_def by (auto elim!: quan_rely.safe_mono simp: that(2))
  have "quan_rely.always q reply_ok p"
    using assms(2)
  proof cases
    case (go_claim couponID userID retries cache ctx rnd1 rnd2 idemKey)
    have "reply_ok (ClaimReply couponID userID r) = (\<lambda>w. \<forall>rec. r = Inr rec \<longrightarrow> record_of couponID userID rec (w_db w))" for r
      by (auto simp: reply_ok_def fun_eq_iff split: sum.split)
    with Claim_safe [OF free] show ?thesis unfolding go_claim by (intro quan_rely.always_mapT) simp
  next
    case (go_create queue retries req)
    have "reply_ok (CreateReply r) = (\<lambda>w. \<forall>t. r = Inr t \<longrightarrow> task_at w (Task_ID t) \<noteq> None)" for r
      by (auto simp: reply_ok_def fun_eq_iff split: sum.split)
    with CreateTask_safe [OF free] show ?thesis unfolding go_create by (intro quan_rely.always_mapT) simp
  next
    case (go_replay queue retries taskID)
    show ?thesis unfolding go_replay(1)
      by (intro quan_rely.always_mapT quiet replay_safe_go [OF free go_replay(2)]) (simp add: reply_ok_def)
  next
    case (go_relay m rcfg)
    show ?thesis unfolding go_relay by (intro quan_rely.always_mapT quiet relay_round_safe [OF free]) (simp add: reply_ok_def)
  next
    case (go_worker m ccfg ctx)
    show ?thesis unfolding go_worker by (intro quan_rely.always_mapT quiet worker_round_safe [OF free]) (simp add: reply_ok_def)
  next
    case (go_scheduler batch)
    show ?thesis unfolding go_scheduler by (intro quan_rely.always_mapT quiet retry_scheduler_safe [OF free]) (simp add: reply_ok_def)
  next
    case (go_compensator m pcfg)
    show ?thesis unfolding go_compensator by (intro quan_rely.always_mapT quiet compensateOnce_safe [OF free]) (simp add: reply_ok_def)
  qed
  with assms(3) show ?thesis by (simp add: quan_rely.always_def)
qed

lemma outside_later:
  assumes "claim_free (queue_keys q)" "quan_outside w w'" "quan_inv q w"
  shows "quan_rely.later q w w'"
proof (rule laterI)
  have "quan_step q w w'" using assms(2) by cases (simp_all add: quan_step.step_world quan_step.step_redis_loss)
  from quan_step_ok [OF assms(1) this assms(3)] show "quan_inv q w' \<and> quan_grows w w'" .
  have "db_events (w_db w') = db_events (w_db w)" using assms(2) by cases simp_all
  from event_payload_same [OF this] show "event_payload w \<subseteq>\<^sub>m event_payload w'" by simp
qed

lemma quan_pool_ok:
  assumes "claim_free (queue_keys q)" "quan_pool q (w, []) (w', T)" "quan_inv q w"
  shows "quan_inv q w'" "quan_guar w w'" "Done r \<in> set T \<Longrightarrow> reply_ok r w'"
proof -
  have run: "quan_rely.later q w w' \<and> list_all (quan_rely.safe q reply_ok w') T"
    by (rule quan_rely.pool_run_safe [OF assms(2,3)])
      (auto intro: goroutine_safe [OF assms(1)] outside_later [OF assms(1)])
  then show "quan_inv q w'" "quan_guar w w'" by (simp_all add: quan_rely.later_def)
  show "reply_ok r w'" if "Done r \<in> set T" by (rule quan_rely.pool_run_done [OF run that])
qed

section \<open>Whole rounds are one of the schedules\<close>

lemma pool_alone:
  assumes "quan_goroutine q (mapT f p)" "w' = final (solo p) w"
  shows "\<exists>r. quan_pool q (w, T) (w', T @ [Done r])"
proof -
  obtain a where a: "run_state (solo p) w = (a, w')" using assms(2) by (metis final_def prod.collapse)
  then have "run_state (solo (mapT f p)) w = (f a, w')" by simp
  from pool_solo [OF this] have "quan_pool q (w, T @ [mapT f p]) (w', T @ [Done (f a)])" .
  with spawn [where spawns = "quan_goroutine q", OF assms(1)] show ?thesis
    by (blast intro: converse_rtranclp_into_rtranclp)
qed

lemma pool_ended:
  assumes "quan_goroutine q (mapT f p)" "w' = final (solo p) w"
  shows "\<exists>rs'. quan_pool q (w, map Done rs) (w', map Done (rs @ rs'))"
proof -
  obtain r where "quan_pool q (w, map Done rs) (w', map Done rs @ [Done r])" using pool_alone [OF assms] by blast
  then have "quan_pool q (w, map Done rs) (w', map Done (rs @ [r]))" by simp
  then show ?thesis by blast
qed

lemma pool_then:
  assumes "\<exists>rs'. quan_pool q (u, map Done rs) (v, map Done (rs @ rs'))"
    and "\<And>rs. \<exists>rs'. quan_pool q (v, map Done rs) (w, map Done (rs @ rs'))"
  shows "\<exists>rs'. quan_pool q (u, map Done rs) (w, map Done (rs @ rs'))"
proof -
  obtain r1 where r1: "quan_pool q (u, map Done rs) (v, map Done (rs @ r1))" using assms(1) by blast
  obtain r2 where "quan_pool q (v, map Done (rs @ r1)) (w, map Done ((rs @ r1) @ r2))" using assms(2) by blast
  with r1 have "quan_pool q (u, map Done rs) (w, map Done (rs @ (r1 @ r2)))" by (simp add: rtranclp_trans)
  then show ?thesis by blast
qed

lemma final_bind: "final (State_Monad.bind m f) w = final (f (answer m w)) (final m w)"
  by (simp add: final_def answer_def split_beta)

lemma final_ret [simp]: "final (ret a) w = w"
  by (simp add: final_def)

lemma pool_relay: "\<exists>rs'. quan_pool q (w, map Done rs) (final (relay_run time_Now cfg (relay_wiring m q) n) w, map Done (rs @ rs'))"
proof (induction n arbitrary: w rs)
  case 0
  show ?case by (rule pool_ended [OF go_relay]) (simp add: solo_relay_round final_bind)
next
  case (Suc n)
  show ?case unfolding relay_run.simps final_bind
    by (rule pool_then [OF pool_ended [OF go_relay] Suc]) (simp add: solo_relay_round)
qed

lemma pool_compensator:
  "\<exists>rs'. quan_pool q (w, map Done rs) (final (compensator_run time_Now cfg (compensator_wiring m q) n) w, map Done (rs @ rs'))"
proof (induction n arbitrary: w rs)
  case 0
  show ?case by (rule pool_ended [OF go_compensator]) (simp add: solo_compensateOnce final_bind)
next
  case (Suc n)
  show ?case unfolding compensator_run.simps final_bind
    by (rule pool_then [OF pool_ended [OF go_compensator] Suc]) (simp add: solo_compensateOnce)
qed

lemma pool_consumer:
  "\<exists>rs'. quan_pool q (w, map Done rs) (final (consumer_schedule (consumer_wiring m q) cfg ctx bs) w, map Done (rs @ rs'))"
proof (induction bs arbitrary: w rs)
  case Nil
  show ?case by (auto intro: exI [of _ "[]"])
next
  case (Cons b bs)
  have work: "solo (worker_round_go (consumer_wiring m q) cfg ctx) = worker_round (consumer_wiring m q) cfg ctx"
    by (rule solo_worker_round) simp
  have move: "cq_MoveDueRetryToReady (Consumer_queue (consumer_wiring m q)) = MoveDueRetryToReady q" by simp
  have "\<exists>rs'. quan_pool q (w, map Done rs)
      (final (if b then runWorker (consumer_wiring m q) cfg ctx 1 else runRetryScheduler (consumer_wiring m q) cfg 0) w, map Done (rs @ rs'))" for rs
  proof (cases b)
    case True
    show ?thesis by (rule pool_ended [OF go_worker [where m = m and ccfg = cfg and ctx = ctx]]) (simp add: True work final_bind)
  next
    case False
    show ?thesis
      by (rule pool_ended [OF go_scheduler [where batch = "Consume_RetryMoveBatch cfg"]])
        (simp add: False move solo_MoveDueRetryToReady final_bind)
  qed
  from pool_then [OF this Cons] show ?case unfolding consumer_schedule.simps final_bind .
qed

lemma quan_step_pool: "quan_step q w w' \<Longrightarrow> \<exists>rs'. quan_pool q (w, map Done rs) (w', map Done (rs @ rs'))"
proof (induction rule: quan_step.induct)
  case (step_world w t ticks faults metrics)
  from outside [where env = quan_outside and spawns = "quan_goroutine q", OF out_world [OF this]] show ?case by (intro exI [of _ "[]"]) auto
next
  case (step_redis_loss m w)
  from outside [where env = quan_outside and spawns = "quan_goroutine q", OF out_redis_loss [OF this]] show ?case by (intro exI [of _ "[]"]) auto
next
  case (step_claim w retries cache ctx rnd1 rnd2 couponID userID idemKey)
  show ?case by (rule pool_ended [OF go_claim]) (simp add: solo_Claim)
next
  case (step_create w queue retries req)
  show ?case by (rule pool_ended [OF go_create]) simp
next
  case (step_replay queue w retries taskID)
  show ?case by (rule pool_ended [OF go_replay [OF step_replay]]) (simp add: solo_ReplayDLQTask)
qed (rule pool_relay pool_consumer pool_compensator)+

section \<open>Properties\<close>

text \<open>
  C2. No oversell and no lost notice under any interleaving. From a fresh server, whose queue keys are distinct and no keys of the claim decisions, let any number of claim, task and replay requests
  and rounds of relays, workers, retry schedulers and compensators run at the same time, interrupted by each
  other at every round trip, with any round trips lost, any threads dying where they are and Redis losing any
  keys. Then no stock is negative, stock left and claims granted add up to the total, no user is above the
  limit, and every claim has exactly one notice task with an event that announces it. Every claim request that was answered with a record
  was answered with a claim of that campaign and user that is in the table, and every created task exists.
\<close>

theorem interleaved_never_oversells:
  assumes "quan_fresh w" "distinct [ReadyKey q, RetryKey q, DLQKey q]" "claim_free (queue_keys q)" "quan_pool q (w, []) (w', T)"
  shows "(\<forall>c \<in> set (db_campaigns (w_db w')). 0 \<le> cp_available_stock c \<and>
            cp_available_stock c + int (length (claims_of (cp_coupon_id c) (w_db w'))) = cp_total_stock c \<and>
            (\<forall>u. int (length (user_claims (cp_coupon_id c) u (w_db w'))) \<le> effective_limit (cp_per_user_limit c))) \<and>
         (\<forall>x \<in> set (db_claims (w_db w')). \<exists>t. notice_tasks (w_db w') x = [t] \<and> announced (w_db w') (tk_task_id t)) \<and>
         list_all (\<lambda>p. case p of Done r \<Rightarrow> reply_ok r w' | Act _ \<Rightarrow> True) T"
proof -
  note pool = quan_pool_ok [OF assms(3,4) quan_fresh_inv [OF assms(1,2)]]
  have "list_all (\<lambda>p. case p of Done r \<Rightarrow> reply_ok r w' | Act _ \<Rightarrow> True) T"
    using pool(3) by (auto simp: list_all_iff split: thread.split)
  then show ?thesis using tables_ok_books [OF quan_inv_books [OF pool(1)]] by blast
qed

text \<open>
  C3. What is granted stays granted under any interleaving. Take any state of the server that satisfies its invariant, with
  queue keys that are no keys of the claim decisions. While any threads run, claims are never lost or changed, and a task
  is never lost: it keeps its type, business id and payload, moves only along the life cycle, stays well-formed
  (a known status, a last error of at most 255 bytes), and once it is SUCCESS it does not change any more, even when a worker, a compensator and a replay work on it at the same time.
\<close>

theorem interleaved_keeps_history:
  assumes "claim_free (queue_keys q)" "quan_inv q w" "quan_pool q (w, []) (w', T)"
  shows "set (db_claims (w_db w)) \<subseteq> set (db_claims (w_db w')) \<and>
    (\<forall>i. case task_at w i of None \<Rightarrow> True
       | Some r \<Rightarrow> \<exists>r'. task_at w' i = Some r' \<and> task_reaches r r' \<and> task_identity r' = task_identity r \<and>
           (task_wf r \<longrightarrow> task_wf r') \<and> (tk_status r = task_StatusSuccess \<longrightarrow> r' = r))"
  using quan_pool_ok(2) [OF assms(1,3,2)] quan_grows_history by (simp add: quan_guar_def)

text \<open>
  C6. The threads are the code: a run in which every request and every round is done as a whole is one of the interleavings,
  with each thread run to its end before the next one starts.
\<close>

theorem whole_rounds_interleave:
  assumes "quan_run q w w'"
  shows "\<exists>rs. quan_pool q (w, []) (w', map Done rs)"
  using assms
proof (induction rule: rtranclp_induct)
  case base
  show ?case by (rule exI [of _ "[]"]) simp
next
  case (step u v)
  then obtain rs where rs: "quan_pool q (w, []) (u, map Done rs)" by blast
  obtain rs' where "quan_pool q (u, map Done rs) (v, map Done (rs @ rs'))" using quan_step_pool [OF step.hyps(2)] by blast
  with rs show ?case by (blast intro: rtranclp_trans)
qed

text \<open>Two users race for one unit: their requests take turns, one round trip each.\<close>

definition demo_race :: "reply go list" where
  "demo_race = map (\<lambda>uid. mapT (ClaimReply 1001 uid) (Claim_go (coupon_NewService (coupon_NewRepository True True 0) True) (Ctx None) 5 6 1001 uid ''k1''))
     [7, 8]"

definition demo_finish :: "world \<times> reply go list" where
  "demo_finish = exec_schedule [0, 1, 0, 1, 0, 1, 0, 1, 0, 1, 0, 1, 0, 1, 0, 1, 0, 1, 0, 1] (demo_dawn, demo_race)"

lemma demo_race_pool: "quan_pool q (demo_dawn, []) demo_finish"
proof -
  have "list_all (quan_goroutine q) demo_race" by (simp add: demo_race_def go_claim)
  from pool_spawn_all [OF this, where T = "[]"] have "quan_pool q (demo_dawn, []) (demo_dawn, demo_race)" by simp
  then show ?thesis unfolding demo_finish_def using exec_schedule_run by (rule rtranclp_trans)
qed

theorem interleaved_never_oversells_witness:
  "list_all (\<lambda>c. 0 \<le> cp_available_stock c \<and>
       cp_available_stock c + int (length (claims_of (cp_coupon_id c) (w_db (fst demo_finish)))) = cp_total_stock c)
     (db_campaigns (w_db (fst demo_finish))) \<and>
   list_all (\<lambda>p. case p of Done r \<Rightarrow> reply_ok r (fst demo_finish) | Act _ \<Rightarrow> True) (snd demo_finish)"
proof -
  have "quan_pool demo_keys (demo_dawn, []) (fst demo_finish, snd demo_finish)" using demo_race_pool by simp
  from interleaved_never_oversells [OF demo_dawn_fresh demo_keys_free this] show ?thesis by (simp add: list_all_iff)
qed

text \<open>
  An evening: the unit is sold to user 7, task 1 is the pending notice of that claim and stands twice in the ready list, task 2 is done. Two
  workers take the same id, another user asks for the coupon, an operator replays task 2 and a compensator passes by, all at the same time.
\<close>

definition demo_done :: task_row where
  "demo_done = (demo_task 2)\<lparr>tk_biz_id := ''claim:9'', tk_status := task_StatusSuccess\<rparr>"

definition demo_evening :: world where
  "demo_evening = (demo_shop [(demo_campaign 1)\<lparr>cp_available_stock := 0\<rparr>] [demo_claim 1 7 ''k1''] [])\<lparr>
     w_db := \<lparr>db_campaigns = [(demo_campaign 1)\<lparr>cp_available_stock := 0\<rparr>], db_claims = [demo_claim 1 7 ''k1''],
       db_tasks = [demo_task 1, demo_done],
       db_events = [demo_event 1 (MarshalTaskCreatedPayload 1) outbox_StatusPublished,
         demo_event 2 (MarshalTaskCreatedPayload 2) outbox_StatusPublished],
       db_next_claim_id = 2, db_next_task_id = 3, db_next_event_id = 3, db_collate = (\<lambda>s. s)\<rparr>,
     w_kv := (\<lambda>_. None)(''queue:task:ready'' \<mapsto> (RList [FormatInt 1, FormatInt 1], None))\<rparr>"

lemma FormatInt_one: "FormatInt 1 = ''1''"
  by code_simp

lemma demo_evening_inv: "quan_inv demo_keys demo_evening"
  by (simp add: FormatInt_one quan_inv_def demo_evening_def demo_shop_def queue_ok_def demo_keys_def QueueConfig_withDefaults_def
      list_key_def zset_key_def tables_ok_def books_defs ids_ok_def task_ids_ok_def event_ids_ok_def task_keys_def noticed_def notice_key_def
      same_task_key_def announced_def demo_event_def demo_task_def demo_done_def demo_claim_def demo_campaign_def answers_ok_def key_defs
      claims_of_def user_claims_def sql_select_def effective_limit_def campaigns_ok_def)

definition demo_crowd :: "reply go list" where
  "demo_crowd =
     [mapT (\<lambda>_. RoundOver) (worker_round_go (consumer_wiring True demo_keys) demo_consume (Ctx None)),
      mapT (\<lambda>_. RoundOver) (worker_round_go (consumer_wiring True demo_keys) demo_consume (Ctx None)),
      mapT (ClaimReply 1001 8) (Claim_go (coupon_NewService (coupon_NewRepository True True 0) True) (Ctx None) 5 6 1001 8 ''k2''),
      mapT ReplayReply (ReplayDLQTask_go (NewServiceWithQueue (RedisQueue demo_keys) 0) 2),
      mapT (\<lambda>_. RoundOver) (compensateOnce_go (compensator_wiring True demo_keys) demo_compensation)]"

definition demo_night :: "world \<times> reply go list" where
  "demo_night = exec_schedule (concat (replicate 12 [0, 1, 2, 3, 4])) (demo_evening, demo_crowd)"

lemma demo_crowd_pool: "quan_pool demo_keys (demo_evening, []) demo_night"
proof -
  have "list_all (quan_goroutine demo_keys) demo_crowd"
    by (simp add: demo_crowd_def go_claim go_replay go_worker go_compensator)
  from pool_spawn_all [OF this, where T = "[]"] have "quan_pool demo_keys (demo_evening, []) (demo_evening, demo_crowd)" by simp
  then show ?thesis unfolding demo_night_def using exec_schedule_run by (rule rtranclp_trans)
qed

lemma demo_evening_rows:
  "demo_claim 1 7 ''k1'' \<in> set (db_claims (w_db demo_evening))" "task_at demo_evening 1 = Some (demo_task 1)"
  "task_at demo_evening 2 = Some demo_done"
  by (simp_all add: demo_evening_def task_at_def sql_row_def demo_task_def demo_done_def)

theorem interleaved_keeps_history_witness:
  "demo_claim 1 7 ''k1'' \<in> set (db_claims (w_db (fst demo_night))) \<and>
   (\<exists>r. task_at (fst demo_night) 1 = Some r \<and> task_reaches (demo_task 1) r \<and> task_identity r = task_identity (demo_task 1)) \<and>
   task_at (fst demo_night) 2 = Some demo_done"
proof -
  have "quan_pool demo_keys (demo_evening, []) (fst demo_night, snd demo_night)" using demo_crowd_pool by simp
  note history = interleaved_keeps_history [OF demo_keys_free(2) demo_evening_inv this]
  have claim: "set (db_claims (w_db demo_evening)) \<subseteq> set (db_claims (w_db (fst demo_night)))" using history by blast
  have "tk_status demo_done = task_StatusSuccess" by (simp add: demo_done_def)
  then have "task_at (fst demo_night) 2 = Some demo_done"
    using history [THEN conjunct2, rule_format, of 2] by (auto simp: demo_evening_rows)
  moreover have "\<exists>r. task_at (fst demo_night) 1 = Some r \<and> task_reaches (demo_task 1) r \<and> task_identity r = task_identity (demo_task 1)"
    using history [THEN conjunct2, rule_format, of 1] by (auto simp: demo_evening_rows)
  ultimately show ?thesis using claim demo_evening_rows(1) by blast
qed

theorem whole_rounds_interleave_witness: "\<exists>rs. quan_pool demo_keys (demo_dawn, []) (demo_noon, map Done rs)"
  by (rule whole_rounds_interleave [OF demo_runs])

end
