(* ===== verification/RateLimiter.thy ===== *)
theory RateLimiter
  imports Prelude "HOL-Library.Log_Nat"
begin

text \<open>
  pkg/ratelimiter/limiter.go: a token bucket. Its amounts are \<^verbatim>\<open>float64\<close> values; a finite one is
  modelled by the rational number it denotes, and every operation of the source rounds its exact
  result with \<open>rnd64\<close>: to nearest, ties to even, with 53 significant bits and no exponent below -1074. The largest
  exponent is not modelled: an amount that overflows in the source exceeds every burst and is cut
  down to it at once, as it is here. The configured rate is finite. \<open>rounding\<close> is the interface between the
  arithmetic and the limiter; the limiter's lemmas are proved from its laws alone.
\<close>

section \<open>Rounding to 53 bits\<close>

definition two_powi :: "int \<Rightarrow> rat" where
  "two_powi e = (if 0 \<le> e then 2 ^ nat e else 1 / 2 ^ nat (- e))"

text \<open>\<open>binade x\<close> is the exponent E with \<open>2^E \<le> |x| < 2^(E+1)\<close>, for x not 0.\<close>

definition binade :: "rat \<Rightarrow> int" where
  "binade x = (let (p, q) = quotient_of \<bar>x\<bar>;
                   k = bitlen p - bitlen q
               in if two_powi k \<le> \<bar>x\<bar> then k else k - 1)"

definition round_even :: "rat \<Rightarrow> int" where
  "round_even y = (let f = \<lfloor>y\<rfloor>; d = y - of_int f in
     if d < 1 / 2 then f else if d > 1 / 2 then f + 1 else if even f then f else f + 1)"

definition ulp_exp :: "rat \<Rightarrow> int" where
  "ulp_exp x = max (binade x - 52) (- 1074)"

definition rnd64 :: "rat \<Rightarrow> rat" where
  "rnd64 x = (if x = 0 then 0 else of_int (round_even (x / two_powi (ulp_exp x))) * two_powi (ulp_exp x))"

section \<open>The limiter\<close>

record Limiter =
  L_rate :: rat
  L_burst :: rat
  L_tokens :: rat
  L_last :: int

text \<open>\<^verbatim>\<open>Time.Sub\<close> saturates, and \<^verbatim>\<open>Duration.Seconds\<close> adds the whole seconds to the fraction (both truncated
  toward zero).\<close>

definition time_Sub :: "int \<Rightarrow> int \<Rightarrow> int" where
  "time_Sub t u = max (- (2 ^ 63)) (min (2 ^ 63 - 1) (t - u))"

definition dur_Seconds :: "(rat \<Rightarrow> rat) \<Rightarrow> int \<Rightarrow> rat" where
  "dur_Seconds rnd d =
     (let sec = sgn d * (\<bar>d\<bar> div 1000000000); nsec = sgn d * (\<bar>d\<bar> mod 1000000000)
      in rnd (rnd (of_int sec) + rnd (of_int nsec / 1000000000)))"

text \<open>The bucket over an arbitrary rounding; the program's is the one with \<open>rnd64\<close>.\<close>

definition bucket_Allow :: "(rat \<Rightarrow> rat) \<Rightarrow> int \<Rightarrow> Limiter \<Rightarrow> bool \<times> Limiter" where
  "bucket_Allow rnd now l =
     (let elapsed = dur_Seconds rnd (time_Sub now (L_last l));
          l1 = l\<lparr>L_last := now\<rparr>;
          tokens1 = rnd (L_tokens l1 + rnd (elapsed * L_rate l1));
          tokens2 = (if tokens1 > L_burst l1 then L_burst l1 else tokens1)
      in if tokens2 < 1 then (False, l1\<lparr>L_tokens := tokens2\<rparr>)
         else (True, l1\<lparr>L_tokens := rnd (tokens2 - 1)\<rparr>))"

definition limiter_New :: "rat \<Rightarrow> int \<Rightarrow> int \<Rightarrow> Limiter" where
  "limiter_New rate burst now =
     (let rate' = (if rate \<le> 0 then 1 else rate); burst' = (if burst \<le> 0 then 1 else burst)
      in \<lparr>L_rate = rate', L_burst = rnd64 (of_int burst'), L_tokens = rnd64 (of_int burst'), L_last = now\<rparr>)"

definition Limiter_Allow :: "int \<Rightarrow> Limiter \<Rightarrow> bool \<times> Limiter" where
  "Limiter_Allow = bucket_Allow rnd64"

text \<open>A run: the answers to the calls at the given times, and the limiter after them.\<close>

fun run_calls :: "(int \<Rightarrow> 'l \<Rightarrow> bool \<times> 'l) \<Rightarrow> int list \<Rightarrow> 'l \<Rightarrow> bool list \<times> 'l" where
  "run_calls allow [] l = ([], l)"
| "run_calls allow (t # ts) l =
     (let (b, l1) = allow t l; (bs, l2) = run_calls allow ts l1 in (b # bs, l2))"

section \<open>The laws of rounding\<close>

locale rounding =
  fixes rnd :: "rat \<Rightarrow> rat" and u :: rat and eta :: rat
  assumes u_range: "0 \<le> u" "u \<le> 1 / 8" and eta_range: "0 \<le> eta" "eta \<le> 1 / 1000000000000"
    and rnd_nonneg: "0 \<le> x \<Longrightarrow> 0 \<le> rnd x"
    and rnd_error: "\<bar>rnd x - x\<bar> \<le> u * \<bar>x\<bar> + eta"
begin

lemma rnd_upper: "0 \<le> x \<Longrightarrow> rnd x \<le> (1 + u) * x + eta"
  using rnd_error [of x] by (simp add: algebra_simps abs_le_iff)

lemma rnd_lower: "0 \<le> x \<Longrightarrow> (1 - u) * x - eta \<le> rnd x"
  using rnd_error [of x] by (simp add: algebra_simps abs_le_iff)

lemma Seconds_bounds:
  assumes "0 \<le> d"
  shows "0 \<le> dur_Seconds rnd d"
    and "dur_Seconds rnd d \<le> (1 + u) ^ 2 * (of_int d / 10 ^ 9) + 4 * eta"
    and "(1 - u) ^ 2 * (of_int d / 10 ^ 9) - 4 * eta \<le> dur_Seconds rnd d"
proof -
  let ?s = "of_int (d div 1000000000) :: rat" and ?n = "of_int (d mod 1000000000) / 1000000000 :: rat"
  have d: "dur_Seconds rnd d = rnd (rnd ?s + rnd ?n)"
    using assms by (cases "d = 0") (simp_all add: dur_Seconds_def Let_def)
  have s: "0 \<le> ?s" and n: "0 \<le> ?n" using assms by (auto simp: pos_imp_zdiv_nonneg_iff)
  have sum: "?s + ?n = of_int d / 10 ^ 9"
  proof -
    have "of_int d = (of_int (1000000000 * (d div 1000000000) + d mod 1000000000) :: rat)" by (simp only: mult_div_mod_eq)
    also have "\<dots> = 1000000000 * of_int (d div 1000000000) + of_int (d mod 1000000000)" by (simp only: of_int_add of_int_mult of_int_numeral)
    finally show ?thesis by simp
  qed
  show "0 \<le> dur_Seconds rnd d" unfolding d using rnd_nonneg [OF s] rnd_nonneg [OF n] by (intro rnd_nonneg) simp
  have "rnd ?s + rnd ?n \<le> (1 + u) * (?s + ?n) + 2 * eta"
    using rnd_upper [OF s] rnd_upper [OF n] by (simp add: distrib_left)
  then have "(1 + u) * (rnd ?s + rnd ?n) \<le> (1 + u) * ((1 + u) * (?s + ?n) + 2 * eta)"
    using u_range by (intro mult_left_mono) auto
  moreover have "(1 + u) * (2 * eta) + eta \<le> 4 * eta"
    using mult_right_mono [of u "1 / 2" eta] u_range eta_range by (simp add: algebra_simps)
  moreover have "rnd (rnd ?s + rnd ?n) \<le> (1 + u) * (rnd ?s + rnd ?n) + eta"
    using rnd_upper rnd_nonneg [OF s] rnd_nonneg [OF n] by simp
  ultimately show "dur_Seconds rnd d \<le> (1 + u) ^ 2 * (of_int d / 10 ^ 9) + 4 * eta"
    unfolding d sum [symmetric] power2_eq_square by (simp add: algebra_simps)
  have "(1 - u) * (?s + ?n) - 2 * eta \<le> rnd ?s + rnd ?n"
    using rnd_lower [OF s] rnd_lower [OF n] by (simp add: distrib_left)
  then have "(1 - u) * ((1 - u) * (?s + ?n) - 2 * eta) \<le> (1 - u) * (rnd ?s + rnd ?n)"
    using u_range by (intro mult_left_mono) auto
  moreover have "(1 - u) * (2 * eta) + eta \<le> 4 * eta"
    using mult_right_mono [of 0 u eta] u_range eta_range by (simp add: algebra_simps)
  moreover have "(1 - u) * (rnd ?s + rnd ?n) - eta \<le> rnd (rnd ?s + rnd ?n)"
    using rnd_lower rnd_nonneg [OF s] rnd_nonneg [OF n] by simp
  ultimately show "(1 - u) ^ 2 * (of_int d / 10 ^ 9) - 4 * eta \<le> dur_Seconds rnd d"
    unfolding d sum [symmetric] power2_eq_square by (simp add: algebra_simps)
qed

definition bucket_ok :: "Limiter \<Rightarrow> bool" where
  "bucket_ok l \<longleftrightarrow> 0 \<le> L_tokens l \<and> L_tokens l \<le> L_burst l \<and> 1 \<le> L_burst l \<and> u * L_burst l \<le> 1 / 2 \<and> 0 < L_rate l"

text \<open>What one call may add to the tokens beyond the exact refill.\<close>

definition slack :: "rat \<Rightarrow> rat \<Rightarrow> rat" where
  "slack rate burst = 2 * (u * burst + eta) + eta + 4 * ((1 + u) * rate * eta)"

lemma refill_bounds:
  assumes "0 \<le> d" "0 < r"
  shows "0 \<le> rnd (dur_Seconds rnd d * r)"
    and "rnd (dur_Seconds rnd d * r) \<le> (1 + u) ^ 3 * r * (of_int d / 10 ^ 9) + 4 * ((1 + u) * r * eta) + eta"
proof -
  note S = Seconds_bounds [OF assms(1)]
  have nn: "0 \<le> dur_Seconds rnd d * r" using S(1) assms(2) by simp
  then show "0 \<le> rnd (dur_Seconds rnd d * r)" by (rule rnd_nonneg)
  have "(1 + u) * (dur_Seconds rnd d * r) \<le> (1 + u) * (((1 + u) ^ 2 * (of_int d / 10 ^ 9) + 4 * eta) * r)"
    using S(2) assms(2) u_range by (intro mult_left_mono mult_right_mono) auto
  then show "rnd (dur_Seconds rnd d * r) \<le> (1 + u) ^ 3 * r * (of_int d / 10 ^ 9) + 4 * ((1 + u) * r * eta) + eta"
    using rnd_upper [OF nn] by (simp add: power3_eq_cube power2_eq_square algebra_simps)
qed

lemma rnd_within_burst:
  assumes "0 \<le> x" "x \<le> b" shows "rnd x \<le> x + (u * b + eta)"
  using rnd_upper [OF assms(1)] mult_left_mono [OF assms(2), of u] u_range by (simp add: algebra_simps)

lemma bucket_config:
  "run_calls (bucket_Allow rnd) ts l = (bs, l') \<Longrightarrow> L_rate l' = L_rate l \<and> L_burst l' = L_burst l"
proof (induction ts arbitrary: l bs)
  case (Cons t ts)
  obtain b l1 where s: "bucket_Allow rnd t l = (b, l1)" by fastforce
  then have "L_rate l1 = L_rate l \<and> L_burst l1 = L_burst l" by (auto simp: bucket_Allow_def Let_def split: if_splits)
  with Cons s show ?case by (auto split: prod.splits)
qed simp

lemma order_trans_add:
  fixes t :: rat
  assumes "t \<le> x + w" "y \<le> t + w" shows "y \<le> x + 2 * w"
  using assms by linarith

lemma refill_sum:
  fixes a :: rat
  assumes "a \<le> g + e + n" shows "t + a + w \<le> t + g + (w + n + e)"
  using assms by linarith

lemma bucket_step:
  assumes ok: "bucket_ok l" and mono: "L_last l \<le> now" and r: "bucket_Allow rnd now l = (b, l')"
  shows "bucket_ok l'" "L_rate l' = L_rate l" "L_burst l' = L_burst l" "L_last l' = now"
    and "L_tokens l' + of_bool b \<le> L_tokens l + (1 + u) ^ 3 * L_rate l * (of_int (now - L_last l) / 10 ^ 9) +
           slack (L_rate l) (L_burst l)"
proof -
  let ?d = "time_Sub now (L_last l)" and ?B = "L_burst l"
  define a where "a = rnd (dur_Seconds rnd ?d * L_rate l)"
  define t where "t = (if rnd (L_tokens l + a) > ?B then ?B else rnd (L_tokens l + a))"
  have d: "0 \<le> ?d" "?d \<le> now - L_last l" using mono by (auto simp: time_Sub_def)
  have inv: "0 \<le> L_tokens l" "L_tokens l \<le> ?B" "1 \<le> ?B" "u * ?B \<le> 1 / 2" "0 < L_rate l"
    using ok by (auto simp: bucket_ok_def)
  have a0: "0 \<le> a" unfolding a_def by (rule refill_bounds [OF d(1) inv(5)])
  have "(1 + u) ^ 3 * L_rate l * (of_int ?d / 10 ^ 9) \<le> (1 + u) ^ 3 * L_rate l * (of_int (now - L_last l) / 10 ^ 9)"
    using d inv(5) u_range by (intro mult_left_mono divide_right_mono) auto
  with refill_bounds(2) [OF d(1) inv(5)]
  have a1: "a \<le> (1 + u) ^ 3 * L_rate l * (of_int (now - L_last l) / 10 ^ 9) + 4 * ((1 + u) * L_rate l * eta) + eta"
    unfolding a_def by linarith
  have t: "0 \<le> t" "t \<le> ?B" using rnd_nonneg [of "L_tokens l + a"] a0 inv by (auto simp: t_def)
  have tu: "t \<le> L_tokens l + a + (u * ?B + eta)"
  proof (cases "L_tokens l + a \<le> ?B")
    case True
    then show ?thesis using rnd_within_burst [of "L_tokens l + a" ?B] a0 inv by (auto simp: t_def)
  next
    case False
    moreover have "0 \<le> u * ?B + eta" using u_range eta_range inv(3) by simp
    ultimately show ?thesis using t(2) by linarith
  qed
  have res: "b = (\<not> t < 1)" "l' = l\<lparr>L_last := now, L_tokens := (if t < 1 then t else rnd (t - 1))\<rparr>"
    using r by (auto simp: bucket_Allow_def Let_def a_def t_def split: if_splits)
  show "L_rate l' = L_rate l" "L_burst l' = L_burst l" "L_last l' = now" by (simp_all add: res)
  have spend: "0 \<le> rnd (t - 1) \<and> rnd (t - 1) + 1 \<le> t + (u * ?B + eta)" if "\<not> t < 1"
    using that rnd_nonneg [of "t - 1"] rnd_within_burst [of "t - 1" ?B] t by auto
  have small: "u * ?B + eta \<le> 1" using inv(4) eta_range by linarith
  show "bucket_ok l'" using spend small t inv by (auto simp: res bucket_ok_def)
  have "0 \<le> u * ?B + eta" using u_range eta_range inv(3) by simp
  with spend have "L_tokens l' + of_bool b \<le> t + (u * ?B + eta)" by (auto simp: res)
  with tu have "L_tokens l' + of_bool b \<le> L_tokens l + a + 2 * (u * ?B + eta)" by (rule order_trans_add)
  then show "L_tokens l' + of_bool b \<le> L_tokens l + (1 + u) ^ 3 * L_rate l * (of_int (now - L_last l) / 10 ^ 9) +
           slack (L_rate l) (L_burst l)"
    unfolding slack_def using order_trans [OF _ refill_sum [OF a1]] by blast
qed

lemma run_sum:
  fixes t :: rat
  assumes "t' + n \<le> t1 + g1 + s1" "t1 + b \<le> t + g + s"
  shows "t' + (b + n) \<le> t + (g1 + g) + (s1 + s)"
  using assms by linarith

lemma bucket_run:
  assumes "bucket_ok l" "sorted (L_last l # ts)" "run_calls (bucket_Allow rnd) ts l = (bs, l')"
  shows "bucket_ok l' \<and>
     L_tokens l' + of_nat (length (filter id bs)) \<le>
       L_tokens l + (1 + u) ^ 3 * L_rate l * (of_int (last (L_last l # ts) - L_last l) / 10 ^ 9) +
       of_nat (length ts) * slack (L_rate l) (L_burst l)"
  using assms
proof (induction ts arbitrary: l bs)
  case (Cons now ts)
  obtain b l1 where s: "bucket_Allow rnd now l = (b, l1)" by fastforce
  obtain bs' where bs: "run_calls (bucket_Allow rnd) ts l1 = (bs', l')" "bs = b # bs'"
    using Cons.prems(3) s by (auto split: prod.splits)
  have mono: "L_last l \<le> now" using Cons.prems(2) by simp
  note st = bucket_step [OF Cons.prems(1) mono s]
  have so: "sorted (L_last l1 # ts)" using Cons.prems(2) st(4) by simp
  let ?T = "last (now # ts)"
  have IH: "bucket_ok l' \<and> L_tokens l' + of_nat (length (filter id bs')) \<le>
       L_tokens l1 + (1 + u) ^ 3 * L_rate l * (of_int (?T - now) / 10 ^ 9) + of_nat (length ts) * slack (L_rate l) (L_burst l)"
    using Cons.IH [OF st(1) so bs(1)] by (simp only: st)
  have "(of_int (last (L_last l # now # ts) - L_last l) :: rat) / 10 ^ 9 =
          of_int (?T - now) / 10 ^ 9 + of_int (now - L_last l) / 10 ^ 9"
    by (simp add: add_divide_distrib [symmetric])
  moreover have "of_nat (length (filter id bs)) = (of_bool b + of_nat (length (filter id bs')) :: rat)" by (simp add: bs(2))
  moreover have "of_nat (length (now # ts)) * slack (L_rate l) (L_burst l) =
      of_nat (length ts) * slack (L_rate l) (L_burst l) + slack (L_rate l) (L_burst l)" by (simp add: distrib_right)
  ultimately show ?case
    using conjunct1 [OF IH] run_sum [OF conjunct2 [OF IH] st(5)] by (simp only: distrib_left simp_thms)
qed simp

text \<open>A caller who waits for two tokens is served.\<close>

lemma bucket_serves:
  assumes ok: "bucket_ok l" and d: "0 \<le> now - L_last l" "now - L_last l < 2 ^ 63"
    and enough: "2 * 10 ^ 9 \<le> L_rate l * of_int (now - L_last l)"
  shows "fst (bucket_Allow rnd now l)"
proof -
  let ?d = "now - L_last l" and ?r = "L_rate l" and ?S = "dur_Seconds rnd (now - L_last l)"
  have sub: "time_Sub now (L_last l) = ?d" using d by (simp add: time_Sub_def)
  have inv: "0 \<le> L_tokens l" "1 \<le> L_burst l" "0 < ?r" using ok by (auto simp: bucket_ok_def)
  have d1: "1 \<le> ?d"
  proof (rule ccontr)
    assume "\<not> 1 \<le> ?d"
    then have "?d = 0" using d(1) by linarith
    then show False using enough by simp
  qed
  define x where "x = ?r * (of_int ?d / 10 ^ 9)"
  have x: "2 \<le> x" using enough by (simp add: field_simps x_def)
  have q: "49 / 64 \<le> (1 - u) ^ 2"
  proof -
    have "(7 / 8) ^ 2 \<le> (1 - u) ^ 2" using u_range by (intro power_mono) auto
    then show ?thesis by (simp add: power2_eq_square)
  qed
  have "4 * eta * ?r \<le> x / 100"
  proof -
    have "4 * eta \<le> 1 / 10 ^ 11" using eta_range by simp
    also have "\<dots> \<le> of_int ?d / 10 ^ 9 / 100" using d1 by simp
    finally have "4 * eta * ?r \<le> of_int ?d / 10 ^ 9 / 100 * ?r" using inv(3) by (intro mult_right_mono) auto
    then show ?thesis by (simp add: algebra_simps x_def)
  qed
  moreover have "49 / 64 * x \<le> (1 - u) ^ 2 * x" using q x by (intro mult_right_mono) auto
  moreover have "(1 - u) ^ 2 * x - 4 * eta * ?r \<le> ?S * ?r"
    using mult_right_mono [OF Seconds_bounds(3) [OF d(1)], of ?r] inv(3) by (simp add: algebra_simps x_def)
  ultimately have y: "3 / 2 \<le> ?S * ?r" using x by linarith
  have low: "7 / 8 * z - eta \<le> rnd z" if "0 \<le> z" for z
    using rnd_lower [OF that] mult_right_mono [of "7 / 8" "1 - u" z] u_range that by linarith
  define a where "a = rnd (?S * ?r)"
  have a: "5 / 4 \<le> a" using low [of "?S * ?r"] y eta_range by (simp add: a_def)
  have "1 \<le> rnd (L_tokens l + a)" using low [of "L_tokens l + a"] a inv(1) eta_range by (simp add: field_simps)
  then show ?thesis using inv(2) by (auto simp: bucket_Allow_def Let_def sub a_def)
qed

text \<open>The bound of \<open>bucket_run\<close>, rounded up.\<close>

lemma slack_le: "0 < r \<Longrightarrow> slack r b \<le> 2 * u * b + 8 * eta * (r + 1)"
proof -
  assume r: "0 < r"
  have "4 * ((1 + u) * (r * eta)) \<le> 8 * (r * eta)"
    using mult_right_mono [of "4 * (1 + u)" 8 "r * eta"] u_range eta_range r unfolding mult.assoc by auto
  then show ?thesis using eta_range by (simp add: slack_def algebra_simps)
qed

lemma cube_le: "(1 + u) ^ 3 \<le> 1 + 4 * u"
proof -
  have "u * u \<le> 1 / 8 * u" using u_range by (intro mult_right_mono) auto
  moreover have "u * u * u \<le> 1 / 8 * u"
    using mult_mono [of "u * u" "1 / 8" u u] mult_mono [of u 1 u "1 / 8"] u_range by auto
  ultimately show ?thesis using u_range by (simp add: power3_eq_cube algebra_simps)
qed

lemma bucket_grants:
  assumes ok: "bucket_ok l" and so: "sorted (L_last l # ts)" and run: "run_calls (bucket_Allow rnd) ts l = (bs, l')"
  shows "of_nat (length (filter id bs)) \<le>
     L_burst l + (1 + 4 * u) * (L_rate l * (of_int (last (L_last l # ts) - L_last l) / 10 ^ 9)) +
     of_nat (length ts) * (2 * u * L_burst l + 8 * eta * (L_rate l + 1))"
proof -
  let ?T = "last (L_last l # ts) - L_last l"
  have T: "0 \<le> ?T" using so by (cases ts rule: rev_cases) (auto simp: sorted_append)
  have inv: "L_tokens l \<le> L_burst l" "0 < L_rate l" using ok by (auto simp: bucket_ok_def)
  note B = bucket_run [OF ok so run]
  have "0 \<le> L_tokens l'" using conjunct1 [OF B] by (simp add: bucket_ok_def)
  moreover have "(1 + u) ^ 3 * L_rate l * (of_int ?T / 10 ^ 9) \<le> (1 + 4 * u) * (L_rate l * (of_int ?T / 10 ^ 9))"
    unfolding mult.assoc using cube_le T inv(2) by (intro mult_right_mono) auto
  moreover have "of_nat (length ts) * slack (L_rate l) (L_burst l) \<le>
      of_nat (length ts) * (2 * u * L_burst l + 8 * eta * (L_rate l + 1))"
    using slack_le [OF inv(2)] by (intro mult_left_mono) auto
  ultimately show ?thesis using conjunct2 [OF B] inv(1) by linarith
qed

end

section \<open>Rounding to 53 bits satisfies the laws\<close>

lemma two_powi_pos [simp]: "0 < two_powi e"
  by (simp add: two_powi_def)

lemma two_powi_power_int: "two_powi e = 2 powi e"
  by (simp add: two_powi_def power_int_def power_one_over)

lemma two_powi_nz [simp]: "two_powi e \<noteq> 0"
  using two_powi_pos [of e] by linarith

lemma binade_le:
  assumes "x \<noteq> 0" shows "two_powi (binade x) \<le> \<bar>x\<bar>"
proof -
  obtain p q where pq: "quotient_of \<bar>x\<bar> = (p, q)" by fastforce
  have q: "0 < q" and x: "\<bar>x\<bar> = of_int p / of_int q"
    using quotient_of_denom_pos [OF pq] quotient_of_div [OF pq] by auto
  have p: "0 < p"
  proof -
    have "0 < (of_int p :: rat) / of_int q" using assms x by (metis zero_less_abs_iff)
    with q show ?thesis by (simp add: zero_less_divide_iff)
  qed
  let ?k = "bitlen p - bitlen q"
  have bp: "0 < bitlen p" and bq: "0 < bitlen q"
    using p q bitlen_nonneg [of p] bitlen_nonneg [of q] bitlen_eq_zero_iff [of p] bitlen_eq_zero_iff [of q] by linarith+
  have "two_powi (?k - 1) \<le> \<bar>x\<bar>"
  proof -
    have "(2 :: rat) powi (bitlen p - 1) = of_int (2 ^ nat (bitlen p - 1))" using bp by (simp add: power_int_def)
    also have "\<dots> \<le> of_int p" using bitlen_bounds [OF p] by (simp only: of_int_le_iff)
    finally have lo: "(2 :: rat) powi (bitlen p - 1) \<le> of_int p" .
    have "of_int q \<le> (of_int (2 ^ nat (bitlen q)) :: rat)" using bitlen_bounds [OF q] by (simp only: of_int_le_iff less_imp_le)
    also have "\<dots> = 2 powi bitlen q" using bq by (simp add: power_int_def)
    finally have hi: "of_int q \<le> (2 :: rat) powi bitlen q" .
    have "(2 :: rat) powi (?k - 1) = 2 powi (bitlen p - 1) / 2 powi bitlen q"
      by (simp add: power_int_diff [symmetric] algebra_simps)
    also have "\<dots> \<le> of_int p / of_int q" using lo hi p q by (intro frac_le) auto
    finally show ?thesis using x by (simp add: two_powi_power_int)
  qed
  then show ?thesis by (simp add: binade_def pq Let_def)
qed

lemma round_even_error: "\<bar>of_int (round_even y) - y\<bar> \<le> 1 / 2"
proof -
  have "of_int \<lfloor>y\<rfloor> \<le> y" "y < of_int \<lfloor>y\<rfloor> + 1" by linarith+
  then show ?thesis by (auto simp: round_even_def Let_def abs_le_iff not_less field_simps)
qed

lemma round_even_nonneg: "0 \<le> y \<Longrightarrow> 0 \<le> round_even y"
  by (simp add: round_even_def Let_def)

lemma round_even_int [simp]: "round_even (of_int i) = i"
  by (simp add: round_even_def)

lemma rnd64_nonneg: "0 \<le> x \<Longrightarrow> 0 \<le> rnd64 x"
  by (simp add: rnd64_def round_even_nonneg less_imp_le)

lemma rnd64_error: "\<bar>rnd64 x - x\<bar> \<le> 1 / 2 ^ 53 * \<bar>x\<bar> + 1 / 2 ^ 1075"
proof (cases "x = 0")
  case False
  let ?e = "ulp_exp x" and ?P = "two_powi (ulp_exp x)"
  have "\<bar>rnd64 x - x\<bar> = \<bar>(of_int (round_even (x / ?P)) - x / ?P) * ?P\<bar>"
    using False two_powi_pos [of ?e] by (simp add: rnd64_def left_diff_distrib)
  also have "\<dots> \<le> ?P / 2"
    using mult_right_mono [OF round_even_error [of "x / ?P"], of ?P] less_imp_le [OF two_powi_pos [of ?e]]
    by (simp only: abs_mult abs_of_nonneg mult_1 times_divide_eq_left)
  also have "\<dots> \<le> 1 / 2 ^ 53 * \<bar>x\<bar> + 1 / 2 ^ 1075"
  proof (cases "binade x - 52 \<ge> - 1074")
    case True
    then have "?P / 2 = two_powi (binade x) / 2 ^ 53"
      by (simp add: ulp_exp_def two_powi_power_int power_int_diff)
    then show ?thesis using binade_le [OF False] by simp
  next
    case False
    then have "?P / 2 = 1 / 2 ^ 1075" by (simp add: ulp_exp_def two_powi_def)
    then show ?thesis by simp
  qed
  finally show ?thesis .
qed (simp add: rnd64_def)

lemma rnd64_int:
  assumes "0 \<le> i" "i < 2 ^ 53" shows "rnd64 (of_int i) = of_int i"
proof (cases "i = 0")
  case False
  have "(2 :: rat) powi (binade (of_int i)) \<le> of_int i"
    using binade_le [of "of_int i"] assms False by (simp add: two_powi_power_int)
  also have "\<dots> < of_int (2 ^ 53)" using assms(2) by (simp only: of_int_less_iff)
  also have "\<dots> = 2 powi 53" by simp
  finally have "binade (of_int i) < 53"
    using power_int_increasing [of 53 "binade (of_int i)" "2 :: rat"] by (auto simp: not_less [symmetric])
  then have "ulp_exp (of_int i) \<le> 0" by (simp add: ulp_exp_def)
  then obtain n where n: "ulp_exp (of_int i) = - int n" using nonpos_int_cases by blast
  have "two_powi (- int n) = 1 / 2 ^ n" by (simp add: two_powi_def)
  moreover have "round_even (of_int i * 2 ^ n) = i * 2 ^ n"
    using round_even_int [of "i * 2 ^ n"] by simp
  ultimately show ?thesis using False by (simp add: rnd64_def n)
qed (simp add: rnd64_def)

definition eps64 :: rat where "eps64 = 1 / 2 ^ 53"
definition tiny64 :: rat where "tiny64 = 1 / 2 ^ 1075"

interpretation float64: rounding rnd64 eps64 tiny64
proof
  show "tiny64 \<le> 1 / 1000000000000" "0 \<le> tiny64" "0 \<le> eps64" "eps64 \<le> 1 / 8" by (simp_all add: tiny64_def eps64_def)
  show "\<bar>rnd64 x - x\<bar> \<le> eps64 * \<bar>x\<bar> + tiny64" for x using rnd64_error unfolding eps64_def tiny64_def .
qed (rule rnd64_nonneg)

section \<open>Properties\<close>

lemma new_limiter_ok:
  assumes "burst \<le> 2 ^ 52"
  shows "float64.bucket_ok (limiter_New rate burst now)"
    and "L_burst (limiter_New rate burst now) = of_int (max 1 burst)"
    and "L_tokens (limiter_New rate burst now) = of_int (max 1 burst)"
    and "L_rate (limiter_New rate burst now) = (if rate \<le> 0 then 1 else rate)"
    and "L_last (limiter_New rate burst now) = now"
proof -
  let ?b = "if burst \<le> 0 then 1 else burst"
  have m: "?b = max 1 burst" by simp
  have b: "0 \<le> ?b" "?b < 2 ^ 53" using assms by auto
  note r = rnd64_int [OF b, unfolded m]
  show B: "L_burst (limiter_New rate burst now) = of_int (max 1 burst)"
    and T: "L_tokens (limiter_New rate burst now) = of_int (max 1 burst)"
    and R: "L_rate (limiter_New rate burst now) = (if rate \<le> 0 then 1 else rate)"
    and "L_last (limiter_New rate burst now) = now"
    unfolding limiter_New_def Let_def m r by simp_all
  have "(of_int (max 1 burst) :: rat) \<le> of_int (2 ^ 52)" unfolding of_int_le_iff using assms by simp
  then show "float64.bucket_ok (limiter_New rate burst now)"
    unfolding float64.bucket_ok_def B T R by (simp add: eps64_def)
qed

text \<open>
  C36. The limiter keeps the configured rate. A new limiter with burst \<open>b\<close> (1 if not positive, at most \<open>2^52\<close>) and rate \<open>r\<close> (1 if
  not positive) grants over any sequence of calls at non-decreasing times at most \<open>b + r \<times> T\<close> of them, where \<open>T\<close>
  is the time from its creation to the last call in seconds; rounding to \<^verbatim>\<open>float64\<close> adds at most 4 units of the last
  place to the refill and less than \<open>2^-52 \<times> b\<close> and a denormal amount per call. A call that comes at least \<open>2 / r\<close>
  seconds after the previous one is granted.
\<close>

theorem limiter_rate:
  assumes "burst \<le> 2 ^ 52" and "sorted (t0 # ts)" and "run_calls Limiter_Allow ts (limiter_New rate burst t0) = (bs, l)"
  shows "let b = of_int (max 1 burst); r = (if rate \<le> 0 then 1 else rate); T = of_int (last (t0 # ts) - t0) / 10 ^ 9 in
    of_nat (length (filter id bs)) \<le> b + (1 + 4 * eps64) * (r * T) +
      of_nat (length ts) * (2 * eps64 * b + 8 * tiny64 * (r + 1)) \<and>
    0 \<le> L_tokens l \<and> L_tokens l \<le> b \<and>
    (\<forall>now. L_last l \<le> now \<and> now - L_last l < 2 ^ 63 \<and> 2 \<le> r * (of_int (now - L_last l) / 10 ^ 9) \<longrightarrow>
       fst (Limiter_Allow now l))"
proof -
  let ?l = "limiter_New rate burst t0"
  note n = new_limiter_ok [OF assms(1), of rate t0]
  have run: "run_calls (bucket_Allow rnd64) ts ?l = (bs, l)" using assms(3) by (simp only: Limiter_Allow_def)
  have so: "sorted (L_last ?l # ts)" using assms(2) by (simp only: n(5))
  have ok: "float64.bucket_ok l" using float64.bucket_run [OF n(1) so run] by (rule conjunct1)
  have cfg: "L_rate l = (if rate \<le> 0 then 1 else rate)" "L_burst l = of_int (max 1 burst)"
    using float64.bucket_config [OF run] n by simp_all
  have serve: "fst (Limiter_Allow now l)"
    if "L_last l \<le> now" "now - L_last l < 2 ^ 63" "2 \<le> L_rate l * (of_int (now - L_last l) / 10 ^ 9)" for now
    unfolding Limiter_Allow_def using that by (intro float64.bucket_serves [OF ok]) (simp_all add: field_simps)
  have "0 \<le> L_tokens l" "L_tokens l \<le> L_burst l" using ok by (simp_all add: float64.bucket_ok_def)
  then show ?thesis
    unfolding Let_def using float64.bucket_grants [OF n(1) so run] serve unfolding n cfg by blast
qed

theorem limiter_rate_witness:
  "\<exists>bs l. run_calls Limiter_Allow [0, 0, 0, 10 ^ 9] (limiter_New 10 2 0) = (bs, l) \<and>
     of_nat (length (filter id bs)) \<le> (2 :: rat) + (1 + 4 * eps64) * 10 + 4 * (2 * eps64 * 2 + 8 * tiny64 * 11)"
proof -
  obtain bs l where r: "run_calls Limiter_Allow [0, 0, 0, 10 ^ 9] (limiter_New 10 2 0) = (bs, l)" by fastforce
  show ?thesis using limiter_rate [OF _ _ r] r by (simp add: Let_def)
qed

end
