(* ===== verification/WorkerPool.thy ===== *)
theory WorkerPool
  imports IsolationLimiter
begin

text \<open>
  pkg/pool/pool.go: a pool of workers that take tasks from a buffered channel. \<^verbatim>\<open>Submit\<close> and \<^verbatim>\<open>Close\<close>
  are called from any number of goroutines; \<open>submit_step\<close>, \<open>close_step\<close> and \<open>worker_step\<close> are their
  code, one atomic action at a time, and \<open>pool_step\<close> interleaves them. A task is its number; running
  it is one action that appends it to \<open>Pool_done\<close> (its error is discarded by the code). Sending on a
  closed channel panics, which ends the process.
\<close>

section \<open>The pool\<close>

record pool_options =
  Pool_workers :: int
  Pool_buffer :: int
  Pool_taskTimeout :: int

datatype pool_Option = WithBuffer int | WithTaskTimeout int

fun apply_option :: "pool_options \<Rightarrow> pool_Option \<Rightarrow> pool_options" where
  "apply_option p (WithBuffer n) = (if n > 0 then p\<lparr>Pool_buffer := n\<rparr> else p)"
| "apply_option p (WithTaskTimeout d) = (if d > 0 then p\<lparr>Pool_taskTimeout := d\<rparr> else p)"

definition pool_New :: "int \<Rightarrow> pool_Option list \<Rightarrow> pool_options" where
  "pool_New workers opts = foldl apply_option
     \<lparr>Pool_workers = workers, Pool_buffer = 1024, Pool_taskTimeout = 10 * Second\<rparr> opts"

lemma pool_New_bounds:
  "0 < Pool_buffer (pool_New w opts) \<and> 0 < Pool_taskTimeout (pool_New w opts) \<and> Pool_workers (pool_New w opts) = w"
proof -
  have "0 < Pool_buffer (foldl apply_option p opts) \<and> 0 < Pool_taskTimeout (foldl apply_option p opts) \<and>
      Pool_workers (foldl apply_option p opts) = Pool_workers p" if "0 < Pool_buffer p" "0 < Pool_taskTimeout p" for p
    using that
  proof (induction opts arbitrary: p)
    case (Cons x opts)
    then show ?case by (cases x) auto
  qed simp
  then show ?thesis by (simp add: pool_New_def Second_def Millisecond_def)
qed

record pool_shared =
  Pool_tasks :: "nat list"
  Pool_chan_closed :: bool
  Pool_closed :: bool
  Pool_accepted :: "nat list"
  Pool_done :: "nat list"

definition pool_ErrClosed :: goerr where "pool_ErrClosed = ErrNew ''worker pool closed''"

datatype pool_pc =
    SubmitCheck nat
  | SubmitSend nat
  | SubmitDone "unit result"
  | SubmitPanic
  | CloseStart
  | CloseWait
  | CloseReturned bool
  | WorkerIdle
  | WorkerBusy nat
  | WorkerExit

text \<open>
  A nil task is refused before anything else and is not modelled. \<open>cancel\<close> is the error of a
  cancelled context, which the select may choose even when there is room.
\<close>

fun submit_step :: "pool_options \<Rightarrow> goerr option \<Rightarrow> pool_pc \<Rightarrow> pool_shared \<Rightarrow> (pool_pc \<times> pool_shared) option" where
  "submit_step p cancel (SubmitCheck t) sh =
     Some (if Pool_closed sh then SubmitDone (Inl pool_ErrClosed) else SubmitSend t, sh)"
| "submit_step p cancel (SubmitSend t) sh =
     (case cancel of
        Some e \<Rightarrow> Some (SubmitDone (Inl e), sh)
      | None \<Rightarrow>
          if Pool_chan_closed sh then Some (SubmitPanic, sh)
          else if int (length (Pool_tasks sh)) < Pool_buffer p then
            Some (SubmitDone (Inr ()), sh\<lparr>Pool_tasks := Pool_tasks sh @ [t], Pool_accepted := Pool_accepted sh @ [t]\<rparr>)
          else None)"
| "submit_step p cancel _ sh = None"

text \<open>
  \<^verbatim>\<open>wg.Wait\<close> returns when no worker is left; \<open>alive\<close> says whether one is. A second call of \<^verbatim>\<open>Close\<close>
  returns at once; \<open>CloseReturned\<close> says whether the call has waited.
\<close>

fun close_step :: "bool \<Rightarrow> pool_pc \<Rightarrow> pool_shared \<Rightarrow> (pool_pc \<times> pool_shared) option" where
  "close_step alive CloseStart sh =
     (if Pool_closed sh then Some (CloseReturned False, sh)
      else Some (CloseWait, sh\<lparr>Pool_closed := True, Pool_chan_closed := True\<rparr>))"
| "close_step alive CloseWait sh = (if alive then None else Some (CloseReturned True, sh))"
| "close_step alive _ sh = None"

fun worker_step :: "pool_pc \<Rightarrow> pool_shared \<Rightarrow> (pool_pc \<times> pool_shared) option" where
  "worker_step WorkerIdle sh = (case Pool_tasks sh of
       t # ts \<Rightarrow> Some (WorkerBusy t, sh\<lparr>Pool_tasks := ts\<rparr>)
     | [] \<Rightarrow> if Pool_chan_closed sh then Some (WorkerExit, sh) else None)"
| "worker_step (WorkerBusy t) sh = Some (WorkerIdle, sh\<lparr>Pool_done := Pool_done sh @ [t]\<rparr>)"
| "worker_step _ sh = None"

type_synonym pool_state = "pool_shared \<times> pool_pc multiset"

definition worker_alive :: "pool_pc multiset \<Rightarrow> bool" where
  "worker_alive M \<longleftrightarrow> (\<exists>pc \<in># M. pc = WorkerIdle \<or> (\<exists>t. pc = WorkerBusy t))"

inductive pool_step :: "pool_options \<Rightarrow> pool_state \<Rightarrow> pool_state \<Rightarrow> bool" for p where
  call_submit: "pool_step p (sh, M) (sh, add_mset (SubmitCheck t) M)"
| call_close: "pool_step p (sh, M) (sh, add_mset CloseStart M)"
| submit: "submit_step p cancel pc sh = Some (pc', sh') \<Longrightarrow> pool_step p (sh, add_mset pc M) (sh', add_mset pc' M)"
| close: "close_step (worker_alive (add_mset pc M)) pc sh = Some (pc', sh') \<Longrightarrow>
    pool_step p (sh, add_mset pc M) (sh', add_mset pc' M)"
| work: "worker_step pc sh = Some (pc', sh') \<Longrightarrow> pool_step p (sh, add_mset pc M) (sh', add_mset pc' M)"

inductive_cases pool_stepE: "pool_step p s s'"

definition pool_init :: "pool_options \<Rightarrow> pool_state" where
  "pool_init p = (\<lparr>Pool_tasks = [], Pool_chan_closed = False, Pool_closed = False, Pool_accepted = [], Pool_done = []\<rparr>,
     replicate_mset (nat (Pool_workers p)) WorkerIdle)"

section \<open>Invariant\<close>

text \<open>The tasks a worker is running.\<close>

fun running_of :: "pool_pc \<Rightarrow> nat multiset" where
  "running_of (WorkerBusy t) = {#t#}" | "running_of _ = {#}"

definition in_progress :: "pool_pc multiset \<Rightarrow> nat multiset" where
  "in_progress M = sum_mset (image_mset running_of M)"

lemma in_progress_simps [simp]:
  "in_progress {#} = {#}" "in_progress (add_mset pc M) = running_of pc + in_progress M"
  by (simp_all add: in_progress_def)

definition pool_inv :: "pool_options \<Rightarrow> pool_state \<Rightarrow> bool" where
  "pool_inv p s \<longleftrightarrow> (case s of (sh, M) \<Rightarrow>
     mset (Pool_accepted sh) = mset (Pool_tasks sh) + in_progress M + mset (Pool_done sh) \<and>
     int (length (Pool_tasks sh)) \<le> Pool_buffer p \<and> Pool_chan_closed sh = Pool_closed sh \<and>
     (WorkerExit \<in># M \<longrightarrow> Pool_closed sh \<and> Pool_tasks sh = []) \<and>
     (if 0 < Pool_workers p then worker_alive M \<or> WorkerExit \<in># M
      else \<not> worker_alive M \<and> WorkerExit \<notin># M \<and> Pool_done sh = []) \<and>
     (CloseReturned True \<in># M \<longrightarrow> \<not> worker_alive M))"

lemma worker_alive_simps [simp]:
  "worker_alive (add_mset pc M) \<longleftrightarrow> pc = WorkerIdle \<or> (\<exists>t. pc = WorkerBusy t) \<or> worker_alive M"
  by (auto simp: worker_alive_def)

lemma pool_inv_step:
  assumes "pool_step p s s'" "pool_inv p s"
  shows "pool_inv p s'"
  using assms(1)
proof cases
  case (call_submit sh M t)
  then show ?thesis using assms(2) by (simp add: pool_inv_def)
next
  case (call_close sh M)
  then show ?thesis using assms(2) by (simp add: pool_inv_def)
next
  case (submit cancel pc sh pc' sh' M)
  then show ?thesis using assms(2)
    by (cases pc) (auto simp: pool_inv_def split: if_splits option.splits)
next
  case (close pc M sh pc' sh')
  then show ?thesis using assms(2) by (cases pc) (auto simp: pool_inv_def split: if_splits)
next
  case (work pc sh pc' sh' M)
  then show ?thesis using assms(2)
    by (cases pc) (auto simp: pool_inv_def split: list.splits if_splits)
qed

lemma idle_in_progress: "\<not> worker_alive M \<Longrightarrow> in_progress M = {#}"
proof (induction M)
  case (add pc M)
  then show ?case by (cases pc) auto
qed simp

lemma pool_inv_reachable:
  assumes "(pool_step p)\<^sup>*\<^sup>* (pool_init p) s" "0 \<le> Pool_buffer p"
  shows "pool_inv p s"
  using assms(1)
proof (induction rule: rtranclp_induct)
  case base
  have "in_progress (replicate_mset k WorkerIdle) = {#}" for k by (induction k) simp_all
  moreover have "worker_alive (replicate_mset k WorkerIdle) \<longleftrightarrow> 0 < k" for k by (induction k) (simp_all add: worker_alive_def)
  moreover have "\<not> worker_alive {#}" by (simp add: worker_alive_def)
  ultimately show ?case using assms(2) by (simp add: pool_inv_def pool_init_def)
next
  case (step s s')
  then show ?case by (simp add: pool_inv_step)
qed

section \<open>Properties\<close>

text \<open>
  C26. Close drains the pool. Under every interleaving of submitters, closers and workers, every
  accepted task is in the buffer, being run, or has been run, exactly once, and the buffer never
  exceeds its size. When a call of \<^verbatim>\<open>Close\<close> that waited returns from a pool with workers, every accepted task has been
  run. A pool made with no workers, which \<^verbatim>\<open>New\<close> does not refuse, accepts tasks all the same and never runs any: all of them are left
  in the buffer, also when \<^verbatim>\<open>Close\<close> has returned.
\<close>

theorem pool_close_drains:
  assumes "(pool_step (pool_New n opts))\<^sup>*\<^sup>* (pool_init (pool_New n opts)) (sh, M)"
  shows "mset (Pool_accepted sh) = mset (Pool_tasks sh) + in_progress M + mset (Pool_done sh) \<and>
    int (length (Pool_tasks sh)) \<le> Pool_buffer (pool_New n opts) \<and>
    (0 < n \<longrightarrow> CloseReturned True \<in># M \<longrightarrow> mset (Pool_done sh) = mset (Pool_accepted sh)) \<and>
    (n \<le> 0 \<longrightarrow> Pool_done sh = [] \<and> mset (Pool_tasks sh) = mset (Pool_accepted sh))"
proof -
  note bounds = pool_New_bounds [of n opts]
  then have inv: "pool_inv (pool_New n opts) (sh, M)" by (intro pool_inv_reachable [OF assms]) simp
  then show ?thesis using idle_in_progress [of M] bounds by (auto simp: pool_inv_def split: if_splits)
qed

text \<open>A run in which one task is submitted and run and the pool is closed.\<close>

lemma pool_go: "(pool_step p)\<^sup>*\<^sup>* a b \<Longrightarrow> pool_step p b c \<Longrightarrow> (pool_step p)\<^sup>*\<^sup>* a c"
  by (rule rtranclp.rtrancl_into_rtrancl)

abbreviation demo_pool :: "nat list \<Rightarrow> bool \<Rightarrow> nat list \<Rightarrow> nat list \<Rightarrow> pool_shared" where
  "demo_pool ts c acc fin \<equiv>
     \<lparr>Pool_tasks = ts, Pool_chan_closed = c, Pool_closed = c, Pool_accepted = acc, Pool_done = fin\<rparr>"

lemma pool_demo_run:
  fixes p defines "p \<equiv> pool_New 1 []"
  shows "(pool_step p)\<^sup>*\<^sup>* (pool_init p) (demo_pool [] True [7] [7], {#CloseReturned True, WorkerExit, SubmitDone (Inr ())#})"
proof -
  have p: "Pool_workers p = 1" "Pool_buffer p = 1024" by (simp_all add: p_def pool_New_def)
  have 0: "pool_init p = (demo_pool [] False [] [], {#WorkerIdle#})" by (simp add: pool_init_def p)
  have "pool_step p (pool_init p) (demo_pool [] False [] [], {#SubmitCheck 7, WorkerIdle#})" unfolding 0 by (rule call_submit)
  moreover have "pool_step p (demo_pool [] False [] [], {#SubmitCheck 7, WorkerIdle#})
      (demo_pool [] False [] [], {#SubmitSend 7, WorkerIdle#})" by (rule submit [where cancel = None]) simp
  moreover have "pool_step p (demo_pool [] False [] [], {#SubmitSend 7, WorkerIdle#})
      (demo_pool [7] False [7] [], {#WorkerIdle, SubmitDone (Inr ())#})"
    unfolding add_mset_commute [of WorkerIdle] by (rule submit [where cancel = None]) (simp add: p)
  moreover have "pool_step p (demo_pool [7] False [7] [], {#WorkerIdle, SubmitDone (Inr ())#})
      (demo_pool [] False [7] [], {#WorkerBusy 7, SubmitDone (Inr ())#})" by (rule work) simp
  moreover have "pool_step p (demo_pool [] False [7] [], {#WorkerBusy 7, SubmitDone (Inr ())#})
      (demo_pool [] False [7] [7], {#WorkerIdle, SubmitDone (Inr ())#})" by (rule work) simp
  moreover have "pool_step p (demo_pool [] False [7] [7], {#WorkerIdle, SubmitDone (Inr ())#})
      (demo_pool [] False [7] [7], {#CloseStart, WorkerIdle, SubmitDone (Inr ())#})" by (rule call_close)
  moreover have "pool_step p (demo_pool [] False [7] [7], {#CloseStart, WorkerIdle, SubmitDone (Inr ())#})
      (demo_pool [] True [7] [7], {#WorkerIdle, CloseWait, SubmitDone (Inr ())#})"
    unfolding add_mset_commute [of WorkerIdle] by (rule close) simp
  moreover have "pool_step p (demo_pool [] True [7] [7], {#WorkerIdle, CloseWait, SubmitDone (Inr ())#})
      (demo_pool [] True [7] [7], {#CloseWait, WorkerExit, SubmitDone (Inr ())#})"
    unfolding add_mset_commute [of CloseWait] by (rule work) simp
  moreover have "pool_step p (demo_pool [] True [7] [7], {#CloseWait, WorkerExit, SubmitDone (Inr ())#})
      (demo_pool [] True [7] [7], {#CloseReturned True, WorkerExit, SubmitDone (Inr ())#})"
    by (rule close) (simp add: worker_alive_def)
  ultimately show ?thesis by (meson pool_go rtranclp.rtrancl_refl)
qed

theorem pool_close_drains_witness:
  "let M = {#CloseReturned True, WorkerExit, SubmitDone (Inr ())#}; sh = demo_pool [] True [7] [7] in
    mset (Pool_accepted sh) = mset (Pool_tasks sh) + in_progress M + mset (Pool_done sh) \<and>
    int (length (Pool_tasks sh)) \<le> Pool_buffer (pool_New 1 []) \<and>
    mset (Pool_done sh) = mset (Pool_accepted sh)"
  using pool_close_drains [OF pool_demo_run] unfolding Let_def by simp

text \<open>
  C27. Submitting can panic. A goroutine that has passed the check of \<^verbatim>\<open>closed\<close> in \<^verbatim>\<open>Submit\<close> when another
  one closes the pool sends on the closed channel: for every pool this state is reachable, because the check and the send are not one critical section.
\<close>

theorem pool_submit_panics:
  "\<exists>sh M. (pool_step (pool_New n opts))\<^sup>*\<^sup>* (pool_init (pool_New n opts)) (sh, M) \<and> SubmitPanic \<in># M"
proof -
  let ?p = "pool_New n opts"
  let ?W = "replicate_mset (nat (Pool_workers ?p)) WorkerIdle"
  let ?sh = "\<lambda>c. demo_pool [] c [] []"
  have 0: "pool_init ?p = (?sh False, ?W)" by (simp add: pool_init_def)
  have "pool_step ?p (?sh False, ?W) (?sh False, add_mset (SubmitCheck 0) ?W)" by (rule call_submit)
  moreover have "pool_step ?p (?sh False, add_mset (SubmitCheck 0) ?W) (?sh False, add_mset (SubmitSend 0) ?W)"
    by (rule submit [where cancel = None]) simp
  moreover have "pool_step ?p (?sh False, add_mset (SubmitSend 0) ?W) (?sh False, add_mset CloseStart (add_mset (SubmitSend 0) ?W))"
    by (rule call_close)
  moreover have "pool_step ?p (?sh False, add_mset CloseStart (add_mset (SubmitSend 0) ?W))
      (?sh True, add_mset CloseWait (add_mset (SubmitSend 0) ?W))" by (rule close) simp
  moreover have "pool_step ?p (?sh True, add_mset CloseWait (add_mset (SubmitSend 0) ?W))
      (?sh True, add_mset SubmitPanic (add_mset CloseWait ?W))"
    unfolding add_mset_commute [of CloseWait] by (rule submit [where cancel = None]) simp
  ultimately have "(pool_step ?p)\<^sup>*\<^sup>* (pool_init ?p) (?sh True, add_mset SubmitPanic (add_mset CloseWait ?W))"
    unfolding 0 by (meson pool_go rtranclp.rtrancl_refl)
  moreover have "SubmitPanic \<in># add_mset SubmitPanic X" for X by simp
  ultimately show ?thesis by blast
qed

end
