(* ===== verification/ExampleServer.thy ===== *)
theory ExampleServer
  imports HttpMux PkgClients RateLimiter WorkerPool CouponAdjudicator
begin

text \<open>
  examples/http-server/main.go: the example server of the framework. Its handlers run on a state with the Redis
  keyspace and the clock (a \<open>world\<close>) and the token bucket. Isolation limiters and the worker pool are shared with concurrent requests, so
  what they answer to one request is given by ports: \<open>Port_Limiter\<close> acts for the limiter of a route and \<open>Port_Submit\<close> for
  \<^verbatim>\<open>wp.Submit\<close>, whose own interleavings are the subject of the theories of the limiter and of the pool.
\<close>

section \<open>State and configuration\<close>

record http_state =
  Hs_world :: world
  Hs_bucket :: Limiter

record http_ports =
  Port_Submit :: "ctx \<Rightarrow> (http_state, unit outcome) state"
  Port_Limiter :: "string \<Rightarrow> iso_Limiter \<Rightarrow> http_state limiter_port"
  Port_exposition :: "http_metric list \<Rightarrow> string"
  Port_prom :: prometheus

record HttpConfig =
  Hc_Addr :: string
  Hc_Log :: LogConfig
  Hc_Metric :: MetricConfig
  Hc_Redis :: RedisConfig
  Hc_RateLimitEnabled :: bool
  Hc_Rate :: rat
  Hc_Burst :: int
  Hc_Isolation :: IsolationConfig
  Hc_Recovery :: bool
  Hc_TraceID :: bool
  Hc_Logging :: bool

abbreviation Hc_MetricEnabled :: "HttpConfig \<Rightarrow> bool" where
  "Hc_MetricEnabled cfg \<equiv> Metric_Enabled (Hc_Metric cfg)"

abbreviation Hc_MetricPath :: "HttpConfig \<Rightarrow> string" where
  "Hc_MetricPath cfg \<equiv> Metric_Path (Hc_Metric cfg)"

definition in_world :: "'a io \<Rightarrow> (http_state, 'a) state" where
  "in_world m = State (\<lambda>s. case run_state m (Hs_world s) of (a, w) \<Rightarrow> (a, s\<lparr>Hs_world := w\<rparr>))"

section \<open>Handlers\<close>

definition answer_text :: "int \<Rightarrow> string \<Rightarrow> (http_state exchange, unit outcome) state" where
  "answer_text code text = do { _ \<leftarrow> WriteHeader code; _ \<leftarrow> Write (Text text); ret finished }"

definition answer_error :: "Request \<Rightarrow> int \<Rightarrow> string \<Rightarrow> (http_state exchange, unit outcome) state" where
  "answer_error r code msg = do { _ \<leftarrow> write_error (Rq_Ctx r) code msg; ret finished }"

definition slow_handler :: "http_state Handler" where
  "slow_handler r = do { _ \<leftarrow> in_state (in_world (time_Sleep (500 * Millisecond))); answer_text 200 ''slow ok'' }"

definition panic_handler :: "http_state Handler" where
  "panic_handler r = ret (Panicked ''panic from /panic'')"

definition users_handler :: "http_state Handler" where
  "users_handler r =
     (if Rq_Method r \<noteq> ''GET'' then answer_error r CodeBadRequest ''method not allowed''
      else answer_error r CodeNotFound ''user not found'')"

text \<open>\<^verbatim>\<open>SET\<close> without expiry.\<close>

definition redis_SET :: "int \<Rightarrow> string \<Rightarrow> string \<Rightarrow> unit rcmd" where
  "redis_SET now k v = do { _ \<leftarrow> State_Monad.update (\<lambda>m. m(k \<mapsto> (RString v, None))); returnE () }"

definition cache_set_handler :: "http_state Handler" where
  "cache_set_handler r =
     (if Rq_Method r \<noteq> ''POST'' then answer_error r CodeBadRequest ''method not allowed''
      else let key = Rq_Query r ''key''; val = Rq_Query r ''val'' in
        if key = '''' then answer_error r CodeBadRequest ''missing key''
        else do {
          err \<leftarrow> in_state (in_world (redis_exec (\<lambda>now. redis_SET now key val)));
          case err of
            Inl _ \<Rightarrow> answer_error r CodeInternalError ''redis set failed''
          | Inr _ \<Rightarrow> answer_text 200 ''ok'' })"

definition cache_get_handler :: "http_state Handler" where
  "cache_get_handler r =
     (if Rq_Method r \<noteq> ''GET'' then answer_error r CodeBadRequest ''method not allowed''
      else let key = Rq_Query r ''key'' in
        if key = '''' then answer_error r CodeBadRequest ''missing key''
        else do {
          v \<leftarrow> in_state (in_world (redis_exec (\<lambda>now. redis_GET now key)));
          case v of
            Inr (Some val) \<Rightarrow> answer_text 200 val
          | _ \<Rightarrow> answer_error r CodeNotFound ''not found'' })"

definition jobs_handler :: "http_ports \<Rightarrow> http_state Handler" where
  "jobs_handler ports r =
     (if Rq_Method r \<noteq> ''POST'' then answer_error r CodeBadRequest ''method not allowed''
      else do {
        out \<leftarrow> in_state (Port_Submit ports (Rq_Ctx r));
        case out of
          Panicked p \<Rightarrow> ret (Panicked p)
        | Returned (Inl _) \<Rightarrow> answer_error r CodeInternalError ''submit failed''
        | Returned (Inr _) \<Rightarrow> answer_text 202 ''job accepted'' })"

text \<open>The job itself: 200 milliseconds of work, cut short when its context ends first with \<open>cancelled\<close>.\<close>

definition example_job :: "(int \<times> goerr) option \<Rightarrow> int \<times> unit result" where
  "example_job cancelled = (case cancelled of
     Some (t, err) \<Rightarrow> if t < 200 * Millisecond then (t, Inl err) else (200 * Millisecond, Inr ())
   | None \<Rightarrow> (200 * Millisecond, Inr ()))"

definition example_pool :: pool_options where
  "example_pool = pool_New 4 [WithBuffer 128, WithTaskTimeout (3 * Second)]"

definition exposition_handler :: "http_ports \<Rightarrow> http_state Handler" where
  "exposition_handler ports r = do {
     x \<leftarrow> State_Monad.get;
     answer_text 200 (Port_exposition ports (Ex_metrics x)) }"

section \<open>Wiring\<close>

definition http_routes :: "HttpConfig \<Rightarrow> http_ports \<Rightarrow> (string \<times> http_state Handler) list" where
  "http_routes cfg ports =
     [(''/ping'', ping), (''/slow'', slow_handler), (''/panic'', panic_handler), (''/api/users'', users_handler)] @
     (if Redis_Enabled (Hc_Redis cfg) then [(''/cache/set'', cache_set_handler), (''/cache/get'', cache_get_handler)] else []) @
     [(''/jobs'', jobs_handler ports)] @
     (if Hc_MetricEnabled cfg then [(Hc_MetricPath cfg, exposition_handler ports)] else [])"

text \<open>\<^verbatim>\<open>limiter.Allow()\<close> reads the clock.\<close>

definition allow_now :: "(http_state, bool) state" where
  "allow_now = do {
     now \<leftarrow> in_world time_Now;
     State (\<lambda>s. case Limiter_Allow now (Hs_bucket s) of (ok, l) \<Rightarrow> (ok, s\<lparr>Hs_bucket := l\<rparr>)) }"

definition http_middlewares ::
  "HttpConfig \<Rightarrow> http_ports \<Rightarrow> http_metrics option \<Rightarrow> nat list option \<Rightarrow> http_state Middleware list"
where
  "http_middlewares cfg ports metrics rnd =
     (if Hc_Recovery cfg then [Recovery] else []) @
     (if Hc_TraceID cfg then [TraceID rnd] else []) @
     (if Isolation_Enabled (Hc_Isolation cfg)
      then [Isolation (Some (\<lambda>route. map_option (Port_Limiter ports route) (NewManager (Hc_Isolation cfg) route)))] else []) @
     (if Hc_RateLimitEnabled cfg then [RateLimit (Some allow_now)] else []) @
     (if Hc_Logging cfg then [Logging metrics] else [])"

datatype http_part = ServerPart | PoolPart | CachePart

datatype http_failure = HttpFatal string goerr | HttpPanics string

record http_server =
  Web_mux :: "http_state mux"
  Web_metrics :: "http_metrics option"
  Web_bucket :: "Limiter option"
  Web_parts :: "http_part list"

text \<open>The metrics are registered before the route of their exposition; the routes before that are fixed and do not conflict.\<close>

definition example_metrics :: "http_ports \<Rightarrow> HttpConfig \<Rightarrow> string + http_metrics option" where
  "example_metrics ports cfg =
     (if Hc_MetricEnabled cfg then map_sum id (\<lambda>(m, _). Some m) (metric_New (Port_prom ports) (Hc_Metric cfg) (\<lambda>_. []))
      else Inr None)"

definition http_build :: "int \<Rightarrow> http_ports \<Rightarrow> HttpConfig \<Rightarrow> http_failure + http_server" where
  "http_build now ports cfg = (case example_metrics ports cfg of
     Inl p \<Rightarrow> Inl (HttpPanics p)
   | Inr metrics \<Rightarrow> (case mux_routes (http_routes cfg ports) [] of
       None \<Rightarrow> Inl (HttpPanics ''http: invalid or conflicting pattern'')
     | Some mux \<Rightarrow> Inr \<lparr>Web_mux = mux, Web_metrics = metrics,
         Web_bucket = (if Hc_RateLimitEnabled cfg then Some (limiter_New (Hc_Rate cfg) (Hc_Burst cfg) now) else None),
         Web_parts = [ServerPart, PoolPart] @ (if Redis_Enabled (Hc_Redis cfg) then [CachePart] else [])\<rparr>))"

definition http_wire :: "'c goredis \<Rightarrow> int \<Rightarrow> http_ports \<Rightarrow> HttpConfig \<Rightarrow> http_failure + http_server" where
  "http_wire gr now ports cfg =
     (if Redis_Enabled (Hc_Redis cfg) then
        (case redis_NewComponent gr (Hc_Redis cfg) of
           Inl e \<Rightarrow> Inl (HttpFatal ''redis init failed'' e)
         | Inr _ \<Rightarrow> http_build now ports cfg)
      else http_build now ports cfg)"

text \<open>\<^verbatim>\<open>main\<close> before that: loading the configuration, with a watcher that only logs, and the logger.\<close>

definition http_config_path :: "string \<Rightarrow> string" where
  "http_config_path env = (if env = '''' then ''examples/http-server/config.yaml'' else env)"

definition http_main ::
  "string \<Rightarrow> (string \<Rightarrow> config_option list \<Rightarrow> HttpConfig result) \<Rightarrow> (LogConfig \<Rightarrow> unit result) \<Rightarrow> 'c goredis \<Rightarrow> int \<Rightarrow> http_ports \<Rightarrow>
     http_failure + HttpConfig \<times> http_server"
where
  "http_main env load log_init gr now ports = (case load (http_config_path env) [WithWatch, WithOnChange (Some 0)] of
     Inl err \<Rightarrow> Inl (HttpPanics (errstr err))
   | Inr cfg \<Rightarrow> (case log_init (Hc_Log cfg) of
       Inl err \<Rightarrow> Inl (HttpPanics (errstr err))
     | Inr _ \<Rightarrow> map_sum id (Pair cfg) (http_wire gr now ports cfg)))"

definition http_handler :: "HttpConfig \<Rightarrow> http_ports \<Rightarrow> nat list option \<Rightarrow> http_server \<Rightarrow> http_state Handler" where
  "http_handler cfg ports rnd srv = Chain (http_middlewares cfg ports (Web_metrics srv) rnd) (mux_ServeHTTP (Web_mux srv))"

text \<open>The components: the HTTP server reports no error of its listener, the pool is closed on \<^verbatim>\<open>Stop\<close>.\<close>

definition web_httpComponent :: "(deadline \<Rightarrow> unit result) \<Rightarrow> 's Component" where
  "web_httpComponent shutdown = \<lparr>Component_Start = (\<lambda>_. returnE ()), Component_Stop = (\<lambda>ctx. ret (shutdown ctx))\<rparr>"

definition poolComponent :: "('s, unit) state \<Rightarrow> 's Component" where
  "poolComponent Close = \<lparr>Component_Start = (\<lambda>_. returnE ()), Component_Stop = (\<lambda>_. do { _ \<leftarrow> Close; returnE () })\<rparr>"

definition http_app :: "(http_part \<Rightarrow> 's Component) \<Rightarrow> http_server \<Rightarrow> 's App" where
  "http_app component srv = App_Use (map component (Web_parts srv)) (NewWithOptions [WithStopTimeout (8 * Second)])"


text \<open>One request: \<^verbatim>\<open>apperr.SetReporter\<close> was called when the metrics are enabled.\<close>

definition http_serve :: "HttpConfig \<Rightarrow> http_ports \<Rightarrow> nat list option \<Rightarrow> http_server \<Rightarrow> Request \<Rightarrow> http_state \<Rightarrow> Writer \<times> http_state" where
  "http_serve cfg ports rnd srv r s =
     (let x = final (http_handler cfg ports rnd srv r) ((new_exchange s)\<lparr>Ex_reporter := Hc_MetricEnabled cfg\<rparr>)
      in (Ex_writer x, Ex_state x))"

section \<open>Serving through the middlewares\<close>

text \<open>What the requests to the cache are about: the keyspace, and the faults that are still to come.\<close>

type_synonym store = "kv \<times> fault list"

definition store_of :: "http_state \<Rightarrow> store" where
  "store_of s = (w_kv (Hs_world s), w_faults (Hs_world s))"

text \<open>The handler answers the request, whatever its context, so that status, body and the store then satisfy \<open>Q\<close>.\<close>

definition unanswered :: "store \<Rightarrow> http_state exchange \<Rightarrow> bool" where
  "unanswered st x \<longleftrightarrow> store_of (Ex_state x) = st \<and> Wr_status (Ex_writer x) = None \<and> Wr_body (Ex_writer x) = [] \<and>
     ValidString (Ex_pattern x)"

type_synonym expectation = "int \<Rightarrow> content list \<Rightarrow> store \<Rightarrow> bool"

definition replied :: "expectation \<Rightarrow> unit outcome \<Rightarrow> http_state exchange \<Rightarrow> bool" where
  "replied Q out y \<longleftrightarrow> out = finished \<and> ValidString (Ex_pattern y) \<and>
     (\<exists>code. Wr_status (Ex_writer y) = Some code \<and> Q code (Wr_body (Ex_writer y)) (store_of (Ex_state y)))"

definition serves :: "http_state Handler \<Rightarrow> Request \<Rightarrow> store \<Rightarrow> expectation \<Rightarrow> bool" where
  "serves h r st Q \<longleftrightarrow> (\<forall>c x. unanswered st x \<longrightarrow> wp (h (r\<lparr>Rq_Ctx := c\<rparr>)) (replied Q) x)"

lemma servesD: "serves h r st Q \<Longrightarrow> unanswered st x \<Longrightarrow> wp (h (r\<lparr>Rq_Ctx := c\<rparr>)) (replied Q) x"
  by (simp add: serves_def)

lemma servesI: "(\<And>c x. unanswered st x \<Longrightarrow> wp (h (r\<lparr>Rq_Ctx := c\<rparr>)) (replied Q) x) \<Longrightarrow> serves h r st Q"
  by (simp add: serves_def)

lemma serves_mono: "serves h r st Q \<Longrightarrow> (\<And>c b st'. Q c b st' \<Longrightarrow> R c b st') \<Longrightarrow> serves h r st R"
  unfolding serves_def replied_def by (blast intro: wp_mono)

text \<open>Continuing after a handler that answers.\<close>

lemma serves_bind:
  assumes "serves h r st Q" "unanswered st x" "\<And>y. replied Q finished y \<Longrightarrow> wp (f finished) P y"
  shows "wp (State_Monad.bind (h (r\<lparr>Rq_Ctx := c\<rparr>)) f) P x"
  unfolding wp_bind using assms(3) by (intro wp_mono [OF servesD [OF assms(1,2)]]) (auto simp: replied_def)

lemma serves_Recovery:
  assumes "serves h r st Q" shows "serves (Recovery h) r st Q"
  unfolding Recovery_def by (rule servesI, rule serves_bind [OF assms]) simp_all

lemma serves_TraceID:
  assumes "serves h r st Q" shows "serves (TraceID rnd h) r st Q"
proof (rule servesI)
  fix c :: ctx and x :: "http_state exchange"
  assume "unanswered st x"
  then show "wp (TraceID rnd h (r\<lparr>Rq_Ctx := c\<rparr>)) (replied Q) x"
    unfolding TraceID_def Let_def wp_bind
    by (auto simp: SetHeader_def unanswered_def intro!: servesD [OF assms])
qed

lemma serves_Logging:
  assumes "serves h r st Q" "documented_metrics m" "ValidString (Rq_Method r)" "ValidString (Rq_Path r)"
  shows "serves (Logging m h) r st Q"
proof (rule servesI)
  fix c :: ctx and x :: "http_state exchange"
  assume x: "unanswered st x"
  let ?r = "r\<lparr>Rq_Ctx := c\<rparr>" and ?label = "label_of r x"
  have label: "ValidString ?label" using x assms(4) by (auto simp: label_of_def unanswered_def)
  then have takes: "gauge_takes m (Rq_Method r) ?label" by (simp add: documented_takes [OF assms(2)] assms(3))
  have observe: "wp (observe_call m (Rq_Method r) ?label out) (replied Q) y" if y: "replied Q out y" for out y
  proof -
    have "counters_take m (Rq_Method r) (label_after ?label y) n" for n
      using label y by (simp add: documented_takes [OF assms(2)] assms(3) label_after_def replied_def)
    then show ?thesis using y by (intro wp_mono [OF wp_observe_call]) (auto simp: replied_def)
  qed
  have same: "label_of ?r x = ?label" "Rq_Method ?r = Rq_Method r" by (simp_all add: label_of_def)
  have "unanswered st (entered m (Rq_Method r) ?label x)" using x by (simp add: unanswered_def)
  note called = servesD [OF assms(1) this]
  have "replied Q out (left m (Rq_Method r) ?label z) = replied Q out z" for out z
    by (simp add: replied_def)
  then show "wp (Logging m h ?r) (replied Q) x"
    unfolding wp_Logging_run [of m ?r x, unfolded same, OF takes] by (simp add: wp_mono [OF called observe])
qed

text \<open>A limiter answers 429 and leaves the store alone, or lets the request through.\<close>

definition or_refused :: "bool \<Rightarrow> store \<Rightarrow> expectation \<Rightarrow> expectation" where
  "or_refused limited st Q = (\<lambda>code body st'. Q code body st' \<or> limited \<and> code = 429 \<and> st' = st)"

lemma wp_write_error:
  assumes "unanswered st x" "\<And>body. Q (HTTPStatus (Some (apperr_New code msg))) body st"
  shows "wp (do { _ \<leftarrow> write_error c code msg; ret finished }) (replied Q) x"
  using assms
  by (auto simp: write_error_def ObserveError_def SetHeader_def WriteHeader_def Write_def unanswered_def replied_def split: if_splits)

lemma wp_in_world [simp]: "wp (in_world m) Q = (\<lambda>s. wp m (\<lambda>a w. Q a (s\<lparr>Hs_world := w\<rparr>)) (Hs_world s))"
  by (auto simp: in_world_def fun_eq_iff wp_def split: prod.split)

lemma allow_now_store: "wp allow_now (\<lambda>_ s'. store_of s' = store_of s) s"
  by (auto simp: allow_now_def store_of_def split_beta intro!: wp_time_Now)

lemma serves_RateLimit:
  assumes "serves h r st Q" shows "serves (RateLimit (Some allow_now) h) r st (or_refused True st Q)"
proof (rule servesI)
  fix c :: ctx and x :: "http_state exchange"
  assume x: "unanswered st x"
  have inner: "wp (h (r\<lparr>Rq_Ctx := c\<rparr>)) (replied (or_refused True st Q)) y" if "unanswered st y" for y
    using serves_mono [OF assms, of "or_refused True st Q"] that by (auto simp: or_refused_def serves_def)
  have "wp allow_now (\<lambda>ok s. wp (if \<not> ok
       then do { _ \<leftarrow> write_error (Rq_Ctx (r\<lparr>Rq_Ctx := c\<rparr>)) CodeTooManyRequests ''too many requests''; ret finished }
       else h (r\<lparr>Rq_Ctx := c\<rparr>)) (replied (or_refused True st Q)) (x\<lparr>Ex_state := s\<rparr>)) (Ex_state x)"
  proof (rule wp_mono [OF allow_now_store])
    fix ok s assume "store_of s = store_of (Ex_state x)"
    then have y: "unanswered st (x\<lparr>Ex_state := s\<rparr>)" using x by (simp add: unanswered_def)
    show "wp (if \<not> ok then do { _ \<leftarrow> write_error (Rq_Ctx (r\<lparr>Rq_Ctx := c\<rparr>)) CodeTooManyRequests ''too many requests''; ret finished }
       else h (r\<lparr>Rq_Ctx := c\<rparr>)) (replied (or_refused True st Q)) (x\<lparr>Ex_state := s\<rparr>)"
      using inner [OF y] wp_write_error [OF y] by (simp add: or_refused_def del: wp_bind)
  qed
  then show "wp (RateLimit (Some allow_now) h (r\<lparr>Rq_Ctx := c\<rparr>)) (replied (or_refused True st Q)) x"
    by (simp add: RateLimit_def)
qed

text \<open>The isolation limiters count requests; their operations do not touch the store.\<close>

definition limiters_apart :: "http_ports \<Rightarrow> bool" where
  "limiters_apart ports \<longleftrightarrow> (\<forall>route l s. wp (lp_Acquire (Port_Limiter ports route l)) (\<lambda>_ s'. store_of s' = store_of s) s \<and>
     wp (lp_release (Port_Limiter ports route l)) (\<lambda>_ s'. store_of s' = store_of s) s)"

lemma serves_Isolation:
  assumes "serves h r st Q" "limiters_apart ports"
  shows "serves (Isolation (Some (\<lambda>route. map_option (Port_Limiter ports route) (mgr route))) h) r st (or_refused True st Q)"
proof (rule servesI)
  fix c :: ctx and x :: "http_state exchange"
  assume x: "unanswered st x"
  let ?P = "replied (or_refused True st Q)"
  have inner: "wp (h (r\<lparr>Rq_Ctx := c\<rparr>)) ?P y" if "unanswered st y" for y
    using serves_mono [OF assms(1), of "or_refused True st Q"] that by (auto simp: or_refused_def serves_def)
  show "wp (Isolation (Some (\<lambda>route. map_option (Port_Limiter ports route) (mgr route))) h (r\<lparr>Rq_Ctx := c\<rparr>)) ?P x"
  proof (cases "mgr (Rq_Path r)")
    case None
    then show ?thesis using inner [OF x] by (simp add: Isolation_def)
  next
    case (Some l)
    let ?l = "Port_Limiter ports (Rq_Path r) l"
    have release: "wp (do { _ \<leftarrow> in_state (lp_release ?l); ret out }) ?P y" if "?P out y" for out y
    proof -
      have "wp (lp_release ?l) (\<lambda>_ s. store_of s = store_of (Ex_state y)) (Ex_state y)" using assms(2) by (simp add: limiters_apart_def)
      then show ?thesis using that by (auto simp: replied_def elim!: wp_mono)
    qed
    have "wp (lp_Acquire ?l) (\<lambda>err s. wp (case err of
          Some e \<Rightarrow> do { _ \<leftarrow> write_error c CodeTooManyRequests ''request rejected''; ret finished }
        | None \<Rightarrow> do { out \<leftarrow> h (r\<lparr>Rq_Ctx := c\<rparr>); _ \<leftarrow> in_state (lp_release ?l); ret out }) ?P (x\<lparr>Ex_state := s\<rparr>)) (Ex_state x)"
    proof (rule wp_mono [where Q = "\<lambda>_ s. store_of s = store_of (Ex_state x)"])
      show "wp (lp_Acquire ?l) (\<lambda>_ s. store_of s = store_of (Ex_state x)) (Ex_state x)" using assms(2) by (simp add: limiters_apart_def)
      fix err s assume "store_of s = store_of (Ex_state x)"
      then have y: "unanswered st (x\<lparr>Ex_state := s\<rparr>)" using x by (simp add: unanswered_def)
      have "wp (do { out \<leftarrow> h (r\<lparr>Rq_Ctx := c\<rparr>); _ \<leftarrow> in_state (lp_release ?l); ret out }) ?P (x\<lparr>Ex_state := s\<rparr>)"
        unfolding wp_bind [of "h (r\<lparr>Rq_Ctx := c\<rparr>)"] by (rule wp_mono [OF inner [OF y] release])
      then show "wp (case err of
          Some e \<Rightarrow> do { _ \<leftarrow> write_error c CodeTooManyRequests ''request rejected''; ret finished }
        | None \<Rightarrow> do { out \<leftarrow> h (r\<lparr>Rq_Ctx := c\<rparr>); _ \<leftarrow> in_state (lp_release ?l); ret out }) ?P (x\<lparr>Ex_state := s\<rparr>)"
        using wp_write_error [OF y] by (cases err) (simp_all add: or_refused_def del: wp_bind)
    qed
    then show ?thesis by (simp add: Isolation_def Some del: wp_bind) (simp only: wp_bind [of "in_state _"] wp_in_state)
  qed
qed

definition limited :: "HttpConfig \<Rightarrow> bool" where
  "limited cfg \<longleftrightarrow> Hc_RateLimitEnabled cfg \<or> Isolation_Enabled (Hc_Isolation cfg)"

lemma serves_Chain:
  assumes "serves h r st Q" "limiters_apart ports" "documented_metrics m" "ValidString (Rq_Method r)" "ValidString (Rq_Path r)"
  shows "serves (Chain (http_middlewares cfg ports m rnd) h) r st (or_refused (limited cfg) st Q)"
proof -
  let ?Q = "or_refused (limited cfg) st Q"
  have start: "serves h r st ?Q" by (rule serves_mono [OF assms(1)]) (simp add: or_refused_def)
  have rate: "serves (RateLimit (Some allow_now) g) r st ?Q" if "serves g r st ?Q" "Hc_RateLimitEnabled cfg" for g
    using that(2) by (intro serves_mono [OF serves_RateLimit [OF that(1)]]) (auto simp: or_refused_def limited_def)
  have iso: "serves (Isolation (Some (\<lambda>route. map_option (Port_Limiter ports route) (mgr route))) g) r st ?Q"
    if "serves g r st ?Q" "Isolation_Enabled (Hc_Isolation cfg)" for g mgr
    using that(2) by (intro serves_mono [OF serves_Isolation [OF that(1) assms(2)]]) (auto simp: or_refused_def limited_def)
  show ?thesis
    using start by (auto simp: http_middlewares_def intro!: serves_Recovery serves_TraceID iso rate serves_Logging [OF _ assms(3-5)])
qed

lemma serves_mux:
  assumes "\<And>c. best_match m (r\<lparr>Rq_Ctx := c\<rparr>) = Some (p, h)" "ValidString (Pat_text p)"
    and "\<And>f. serves h (r\<lparr>Rq_PathValue := f\<rparr>) st Q"
  shows "serves (mux_ServeHTTP m) r st Q"
proof (rule servesI)
  fix c :: ctx and x :: "http_state exchange"
  let ?f = "\<lambda>n. case map_of (the (pattern_match p (r\<lparr>Rq_Ctx := c\<rparr>))) n of None \<Rightarrow> '''' | Some s \<Rightarrow> s"
  assume x: "unanswered st x"
  have swap: "r\<lparr>Rq_Ctx := c, Rq_PathValue := f\<rparr> = r\<lparr>Rq_PathValue := f, Rq_Ctx := c\<rparr>" for f by simp
  have "unanswered st (x\<lparr>Ex_pattern := Pat_text p\<rparr>)" using x assms(2) by (simp add: unanswered_def)
  then show "wp (mux_ServeHTTP m (r\<lparr>Rq_Ctx := c\<rparr>)) (replied Q) x"
    using servesD [OF assms(3) [of ?f], of "x\<lparr>Ex_pattern := Pat_text p\<rparr>" c] by (simp add: mux_ServeHTTP_def assms(1) swap)
qed

lemma serves_serve:
  assumes "serves (http_handler cfg ports rnd srv) r (store_of s) Q" "http_serve cfg ports rnd srv r s = (resp, s')"
  shows "\<exists>code. Wr_status resp = Some code \<and> Q code (Wr_body resp) (store_of s')"
proof -
  have "unanswered (store_of s) ((new_exchange s)\<lparr>Ex_reporter := Hc_MetricEnabled cfg\<rparr>)"
    by (simp add: unanswered_def new_exchange_def ValidString_def)
  from servesD [OF assms(1) this, of "Rq_Ctx r"] assms(2) show ?thesis
    by (auto simp: http_serve_def replied_def wp_iff Let_def)
qed

section \<open>The cache\<close>

text \<open>The keyspace after \<^verbatim>\<open>SET k v\<close>, and what the two handlers answer.\<close>

definition stored :: "string \<Rightarrow> string \<Rightarrow> kv \<Rightarrow> kv" where
  "stored k v m = m(k \<mapsto> (RString v, None))"

definition cache_write :: "string \<Rightarrow> string \<Rightarrow> store \<Rightarrow> expectation" where
  "cache_write k v st code body st' \<longleftrightarrow>
     code = 200 \<and> fst st' = stored k v (fst st) \<and> (snd st = [] \<longrightarrow> snd st' = []) \<or>
     code = 500 \<and> fst st' \<in> {fst st, stored k v (fst st)} \<and> snd st \<noteq> []"

definition cache_read :: "string \<Rightarrow> store \<Rightarrow> expectation" where
  "cache_read k st code body st' \<longleftrightarrow> fst st' = fst st \<and>
     (code = 200 \<and> (\<forall>v. fst st k = Some (RString v, None) \<longrightarrow> body = [Text v]) \<or>
      code = 404 \<and> (snd st = [] \<longrightarrow> (\<forall>v. fst st k \<noteq> Some (RString v, None))))"

lemma cache_set_serves:
  assumes "Rq_Method r = ''POST''" "Rq_Query r ''key'' = k" "Rq_Query r ''val'' = v" "k \<noteq> ''''"
  shows "serves cache_set_handler r st (cache_write k v st)"
proof (rule servesI)
  fix c :: ctx and x :: "http_state exchange"
  assume x: "unanswered st x"
  let ?w = "Hs_world (Ex_state x)"
  let ?cmd = "redis_exec (\<lambda>now. redis_SET now k v)"
  define ended where "ended = (\<lambda>(err :: unit result) w. wp (case err of
        Inl _ \<Rightarrow> do { _ \<leftarrow> write_error c CodeInternalError ''redis set failed''; ret finished }
      | Inr _ \<Rightarrow> answer_text 200 ''ok'') (replied (cache_write k v st)) (x\<lparr>Ex_state := (Ex_state x)\<lparr>Hs_world := w\<rparr>\<rparr>))"
  have st: "st = (w_kv ?w, w_faults ?w)" using x by (simp add: unanswered_def store_of_def)
  have fine: "ended (Inr ()) w" if "w_kv w = stored k v (w_kv ?w)" "w_faults ?w = [] \<longrightarrow> w_faults w = []" for w
    using x that by (simp add: ended_def answer_text_def WriteHeader_def Write_def unanswered_def replied_def cache_write_def store_of_def st)
  have failed: "ended (Inl e) w" if "w_kv w \<in> {w_kv ?w, stored k v (w_kv ?w)}" "w_faults ?w \<noteq> []" for w e
    using x that by (auto simp: ended_def write_error_def ObserveError_def SetHeader_def WriteHeader_def Write_def unanswered_def
        replied_def cache_write_def store_of_def st HTTPStatus_def apperr_New_def code_defs split: if_splits)
  have "wp ?cmd ended ?w"
  proof (cases "w_faults ?w = []")
    case True
    then show ?thesis using fine by (simp add: wp_def redis_SET_def State_Monad.update_def stored_def)
  next
    case False
    then show ?thesis
      by (intro wp_redis_exec) (auto intro!: fine failed simp: redis_SET_def State_Monad.update_def stored_def)
  qed
  then show "wp (cache_set_handler (r\<lparr>Rq_Ctx := c\<rparr>)) (replied (cache_write k v st)) x"
    using assms by (simp add: cache_set_handler_def answer_error_def ended_def Let_def)
qed

lemma cache_get_serves:
  assumes "Rq_Method r = ''GET''" "Rq_Query r ''key'' = k" "k \<noteq> ''''"
  shows "serves cache_get_handler r st (cache_read k st)"
proof (rule servesI)
  fix c :: ctx and x :: "http_state exchange"
  assume x: "unanswered st x"
  let ?w = "Hs_world (Ex_state x)"
  let ?cmd = "redis_exec (\<lambda>now. redis_GET now k)"
  define ended where "ended = (\<lambda>(found :: string option result) w. wp (case found of
        Inr (Some val) \<Rightarrow> answer_text 200 val
      | _ \<Rightarrow> do { _ \<leftarrow> write_error c CodeNotFound ''not found''; ret finished })
      (replied (cache_read k st)) (x\<lparr>Ex_state := (Ex_state x)\<lparr>Hs_world := w\<rparr>\<rparr>))"
  have st: "st = (w_kv ?w, w_faults ?w)" using x by (simp add: unanswered_def store_of_def)
  have found: "ended (Inr (Some val)) w" if "w_kv w = w_kv ?w" "\<And>v. w_kv ?w k = Some (RString v, None) \<Longrightarrow> val = v" for w val
    using x that by (auto simp: ended_def answer_text_def WriteHeader_def Write_def unanswered_def replied_def cache_read_def store_of_def st)
  have missing: "ended e w" if "w_kv w = w_kv ?w" "\<And>val. e \<noteq> Inr (Some val)" "w_faults ?w = [] \<Longrightarrow> \<forall>v. w_kv ?w k \<noteq> Some (RString v, None)"
    for w e
  proof -
    have "ended e w = wp (do { _ \<leftarrow> write_error c CodeNotFound ''not found''; ret finished })
        (replied (cache_read k st)) (x\<lparr>Ex_state := (Ex_state x)\<lparr>Hs_world := w\<rparr>\<rparr>)"
      using that(2) by (auto simp: ended_def simp del: wp_bind split: sum.split option.split)
    also have "\<dots>"
      using x that(1,3) by (auto simp: write_error_def ObserveError_def SetHeader_def WriteHeader_def Write_def unanswered_def
          replied_def cache_read_def store_of_def st split: if_splits)
    finally show ?thesis .
  qed
  have get: "\<exists>res. run_state (redis_GET now k) m = (res, m) \<and> (\<forall>v. m k = Some (RString v, None) \<longrightarrow> res = Inr (Some v))" for now m
    by (auto simp: redis_GET_def live_def split: option.split rval.split prod.split)
  have "wp ?cmd ended ?w"
  proof (cases "w_faults ?w = []")
    case True
    obtain res where res: "run_state (redis_GET (UnixMilli (w_now ?w)) k) (w_kv ?w) = (res, w_kv ?w)"
        "\<forall>v. w_kv ?w k = Some (RString v, None) \<longrightarrow> res = Inr (Some v)" using get by blast
    have "ended res ?w" using res(2) True by (cases "\<exists>val. res = Inr (Some val)") (auto intro!: found missing)
    then show ?thesis using True res(1) by (simp add: wp_def)
  next
    case False
    obtain res where res: "run_state (redis_GET (UnixMilli (w_now ?w)) k) (w_kv ?w) = (res, w_kv ?w)"
        "\<forall>v. w_kv ?w k = Some (RString v, None) \<longrightarrow> res = Inr (Some v)" using get by blast
    have "ended res w" if "w_kv w = w_kv ?w" for w
      using res(2) False that by (cases "\<exists>val. res = Inr (Some val)") (auto intro!: found missing)
    then show ?thesis using False by (intro wp_redis_exec) (auto simp: res(1) intro!: missing)
  qed
  then show "wp (cache_get_handler (r\<lparr>Rq_Ctx := c\<rparr>)) (replied (cache_read k st)) x"
    using assms by (simp add: cache_get_handler_def answer_error_def ended_def Let_def)
qed

definition plain_metric_path :: "HttpConfig \<Rightarrow> bool" where
  "plain_metric_path cfg \<longleftrightarrow> (case parse_pattern (Hc_MetricPath cfg) of None \<Rightarrow> True | Some p \<Rightarrow> plain_pattern p)"

lemma parse_cache_patterns:
  "parse_pattern ''/cache/set'' = Some \<lparr>Pat_text = ''/cache/set'', Pat_method = '''', Pat_segs = [Lit ''cache'', Lit ''set'']\<rparr>"
  "parse_pattern ''/cache/get'' = Some \<lparr>Pat_text = ''/cache/get'', Pat_method = '''', Pat_segs = [Lit ''cache'', Lit ''get'']\<rparr>"
  by code_simp+

lemma plain_example_patterns:
  "list_all (\<lambda>t. case parse_pattern t of None \<Rightarrow> False
     | Some p \<Rightarrow> Pat_method p = '''' \<and> list_all (\<lambda>s. case s of Lit _ \<Rightarrow> True | Wild _ \<Rightarrow> False) (Pat_segs p))
   [''/ping'', ''/slow'', ''/panic'', ''/api/users'', ''/cache/set'', ''/cache/get'', ''/jobs'']"
  by code_simp

lemma plain_iff: "plain_pattern p \<longleftrightarrow> Pat_method p = '''' \<and> list_all (\<lambda>s. case s of Lit _ \<Rightarrow> True | Wild _ \<Rightarrow> False) (Pat_segs p)"
proof -
  have "(\<exists>t. s = Lit t) \<longleftrightarrow> (case s of Lit _ \<Rightarrow> True | Wild _ \<Rightarrow> False)" for s by (cases s) simp_all
  then show ?thesis by (simp add: plain_pattern_def)
qed

lemma http_routes_plain:
  assumes "plain_metric_path cfg" "t \<in> fst ` set (http_routes cfg ports)" "parse_pattern t = Some p"
  shows "plain_pattern p"
proof -
  have "t \<in> set [''/ping'', ''/slow'', ''/panic'', ''/api/users'', ''/cache/set'', ''/cache/get'', ''/jobs''] \<or> t = Hc_MetricPath cfg"
    using assms(2) by (auto simp: http_routes_def split: if_splits)
  then show ?thesis
    using plain_example_patterns assms(1,3) unfolding list_all_iff plain_metric_path_def plain_iff by fastforce
qed

lemma http_route:
  assumes "mux_routes (http_routes cfg ports) [] = Some mux" "plain_metric_path cfg" "(t, h) \<in> set (http_routes cfg ports)"
    "parse_pattern t = Some p" "Pat_segs p = map Lit (path_segs r)"
  shows "best_match mux r = Some (p, h)"
proof -
  have "list_all (\<lambda>(p, _). plain_pattern p) mux \<and> distinct (map (\<lambda>x. Pat_segs (fst x)) mux) \<and>
      set mux = set [] \<union> (\<lambda>(t, h). (the (parse_pattern t), h)) ` set (http_routes cfg ports)"
    using http_routes_plain [OF assms(2)] by (intro plain_routes [OF assms(1)]) auto
  moreover from this have "(p, h) \<in> set mux" using assms(3,4) by force
  ultimately show ?thesis using assms(5) by (intro plain_best_match) auto
qed

lemma http_wire_mux:
  assumes "http_wire gr now ports cfg = Inr srv"
  shows "mux_routes (http_routes cfg ports) [] = Some (Web_mux srv)" "example_metrics ports cfg = Inr (Web_metrics srv)"
  using assms by (auto simp: http_wire_def http_build_def split: if_splits sum.splits option.splits)

lemma example_metrics_documented:
  assumes "labels_documented (Port_prom ports)" "example_metrics ports cfg = Inr m"
  shows "documented_metrics m"
  using assms metric_New_is
  by (fastforce simp: example_metrics_def documented_metrics_def map_sum_def split: if_splits sum.splits prod.splits)

lemma http_serves:
  assumes "http_wire gr now ports cfg = Inr srv" "plain_metric_path cfg" "(t, h) \<in> set (http_routes cfg ports)"
    "parse_pattern t = Some p" "Pat_segs p = map Lit (path_segs r)" "limiters_apart ports"
    and utf8: "labels_documented (Port_prom ports)" "ValidString (Pat_text p)" "ValidString (Rq_Method r)" "ValidString (Rq_Path r)"
    and "\<And>f. serves h (r\<lparr>Rq_PathValue := f\<rparr>) st Q"
  shows "serves (http_handler cfg ports rnd srv) r st (or_refused (limited cfg) st Q)"
proof -
  have "path_segs (r\<lparr>Rq_Ctx := c\<rparr>) = path_segs r" for c by (simp add: path_segs_def)
  then have "best_match (Web_mux srv) (r\<lparr>Rq_Ctx := c\<rparr>) = Some (p, h)" for c
    using http_route [OF http_wire_mux(1) [OF assms(1)] assms(2-4)] assms(5) by simp
  moreover have "documented_metrics (Web_metrics srv)"
    using example_metrics_documented [OF utf8(1) http_wire_mux(2) [OF assms(1)]] .
  ultimately show ?thesis unfolding http_handler_def using assms(6,11) utf8(2-) by (intro serves_Chain serves_mux)
qed

text \<open>
  C40. The cache gives back what was stored. Take a wired server with Redis enabled, a metric path without wildcards or method, and any other
  configuration: any middlewares, rate limiting and isolation on or off. Let the Prometheus client treat labels as documented and the
  operations of the isolation limiters leave Redis alone. A request \<^verbatim>\<open>POST /cache/set\<close> with a non-empty key \<open>k\<close> and any value \<open>v\<close> goes through the router
  and all middlewares. A 200 means that exactly \<open>v\<close> is stored under \<open>k\<close>, without expiry, and nothing else changed; a 429, which only a limiter
  gives, that nothing was stored; the only other answer is a 500 for a round trip that failed. After it \<^verbatim>\<open>GET /cache/get\<close> with \<open>k\<close> changes nothing and
  answers 200, 404 or 429, and if both answers are 200 then its body is exactly \<open>v\<close>. When no round trip fails, POST answers
  200 or 429, and after a 200 so does GET; without limiters neither answers 429.
\<close>

theorem cache_roundtrip:
  assumes "http_wire gr now ports cfg = Inr srv" "Redis_Enabled (Hc_Redis cfg)" "plain_metric_path cfg"
    "limiters_apart ports" "labels_documented (Port_prom ports)" "k \<noteq> ''''"
    and put: "Rq_Method r1 = ''POST''" "Rq_Path r1 = ''/cache/set''" "Rq_Query r1 ''key'' = k" "Rq_Query r1 ''val'' = v"
    and get: "Rq_Method r2 = ''GET''" "Rq_Path r2 = ''/cache/get''" "Rq_Query r2 ''key'' = k"
  shows "let (resp1, s1) = http_serve cfg ports rnd1 srv r1 s; (resp2, s2) = http_serve cfg ports rnd2 srv r2 s1;
             keys = (\<lambda>s. w_kv (Hs_world s)) in
    (Wr_status resp1 = Some 200 \<and> keys s1 = stored k v (keys s) \<or>
     Wr_status resp1 = Some 429 \<and> keys s1 = keys s \<and> limited cfg \<or>
     Wr_status resp1 = Some 500 \<and> keys s1 \<in> {keys s, stored k v (keys s)} \<and> w_faults (Hs_world s) \<noteq> []) \<and>
    keys s2 = keys s1 \<and> Wr_status resp2 \<in> {Some 200, Some 404, Some 429} \<and> (Wr_status resp2 = Some 429 \<longrightarrow> limited cfg) \<and>
    (Wr_status resp1 = Some 200 \<longrightarrow> Wr_status resp2 = Some 200 \<longrightarrow> Wr_body resp2 = [Text v]) \<and>
    (w_faults (Hs_world s) = [] \<longrightarrow> Wr_status resp1 = Some 200 \<longrightarrow> Wr_status resp2 \<in> {Some 200, Some 429})"
proof -
  have routes: "(''/cache/set'', cache_set_handler) \<in> set (http_routes cfg ports)" "(''/cache/get'', cache_get_handler) \<in> set (http_routes cfg ports)"
    using assms(2) by (simp_all add: http_routes_def)
  have segs: "path_segs r1 = [''cache'', ''set'']" "path_segs r2 = [''cache'', ''get'']"
    using put(2) get(2) by (simp_all add: path_segs_def)
  have utf8: "ValidString ''/cache/set''" "ValidString ''/cache/get''" "ValidString ''POST''" "ValidString ''GET''" by code_simp+
  have set_ok: "serves (http_handler cfg ports rnd1 srv) r1 st (or_refused (limited cfg) st (cache_write k v st))" for st
    by (rule http_serves [OF assms(1,3) routes(1) parse_cache_patterns(1) _ assms(4,5)])
      (auto simp: segs utf8 put assms intro!: cache_set_serves)
  have get_ok: "serves (http_handler cfg ports rnd2 srv) r2 st (or_refused (limited cfg) st (cache_read k st))" for st
    by (rule http_serves [OF assms(1,3) routes(2) parse_cache_patterns(2) _ assms(4,5)])
      (auto simp: segs utf8 get assms intro!: cache_get_serves)
  obtain resp1 s1 resp2 s2 where served: "http_serve cfg ports rnd1 srv r1 s = (resp1, s1)" "http_serve cfg ports rnd2 srv r2 s1 = (resp2, s2)"
    by fastforce
  obtain c1 where c1: "Wr_status resp1 = Some c1" "or_refused (limited cfg) (store_of s) (cache_write k v (store_of s)) c1 (Wr_body resp1) (store_of s1)"
    using serves_serve [OF set_ok served(1)] by blast
  obtain c2 where c2: "Wr_status resp2 = Some c2" "or_refused (limited cfg) (store_of s1) (cache_read k (store_of s1)) c2 (Wr_body resp2) (store_of s2)"
    using serves_serve [OF get_ok served(2)] by blast
  have "stored k v m k = Some (RString v, None)" for m by (simp add: stored_def)
  then show ?thesis using c1 c2
    unfolding served Let_def prod.case or_refused_def cache_write_def cache_read_def store_of_def by auto
qed

definition demo_http_config :: HttpConfig where
  "demo_http_config = \<lparr>Hc_Addr = '':8080'',
     Hc_Log = \<lparr>Log_Level = '''', Log_Encoding = '''', Log_OutputPaths = [], Log_ErrorOutputPaths = []\<rparr>,
     Hc_Metric = \<lparr>Metric_Enabled = True, Metric_Path = ''/metrics'', Metric_Namespace = ''mini_jupiter''\<rparr>,
     Hc_Redis = \<lparr>Redis_Enabled = True, Redis_Addr = '''', Redis_Password = '''', Redis_DB = 0, Redis_DialTimeout = 0\<rparr>,
     Hc_RateLimitEnabled = False, Hc_Rate = 1, Hc_Burst = 1,
     Hc_Isolation = \<lparr>Isolation_Enabled = False, Isolation_Routes = (\<lambda>_. None)\<rparr>,
     Hc_Recovery = True, Hc_TraceID = True, Hc_Logging = True\<rparr>"

definition demo_ports :: http_ports where
  "demo_ports = \<lparr>Port_Submit = \<lambda>_. ret (Returned (Inr ())),
     Port_Limiter = \<lambda>_ _. \<lparr>lp_Acquire = ret None, lp_release = ret ()\<rparr>, Port_exposition = \<lambda>_. '''', Port_prom = M_prom demo_http_metrics\<rparr>"

definition demo_http_state :: http_state where
  "demo_http_state = \<lparr>Hs_world = demo_shop [] [] [], Hs_bucket = limiter_New 1 1 0\<rparr>"

definition demo_cache_request :: "string \<Rightarrow> string \<Rightarrow> Request" where
  "demo_cache_request method path = \<lparr>Rq_Method = method, Rq_Path = path,
     Rq_Query = (\<lambda>k. if k = ''key'' then ''a'' else if k = ''val'' then ''1'' else ''''), Rq_Header = (\<lambda>_. ''''),
     Rq_PathValue = (\<lambda>_. ''''), Rq_Body = None, Rq_Ctx = Ctx None\<rparr>"

definition demo_wire :: "http_failure + http_server" where
  "demo_wire = http_wire \<lparr>gr_NewClient = \<lambda>_. (), gr_Ping = \<lambda>_. returnE (), gr_Close = returnE ()\<rparr> 0 demo_ports demo_http_config"

lemma demo_mux: "mux_routes (map (\<lambda>t. (t, ping :: http_state Handler)) (map fst (http_routes demo_http_config demo_ports))) [] \<noteq> None"
  by code_simp

theorem cache_roundtrip_witness:
  "\<exists>srv. demo_wire = Inr srv \<and>
     (let (resp1, s1) = http_serve demo_http_config demo_ports (Some [1]) srv (demo_cache_request ''POST'' ''/cache/set'') demo_http_state;
          (resp2, s2) = http_serve demo_http_config demo_ports None srv (demo_cache_request ''GET'' ''/cache/get'') s1
      in Wr_status resp1 = Some 200 \<and> Wr_status resp2 = Some 200 \<and> Wr_body resp2 = [Text ''1''])"
proof -
  obtain m where "mux_routes (http_routes demo_http_config demo_ports) [] = Some m"
    by (rule mux_registers [OF _ demo_mux]) (simp add: o_def)
  moreover have "\<exists>m. example_metrics demo_ports demo_http_config = Inr (Some m)"
    by (simp add: example_metrics_def demo_http_config_def demo_ports_def demo_http_metrics_def metric_New_def MustRegister_def Let_def)
  ultimately have "\<exists>srv. demo_wire = Inr srv"
    by (auto simp: demo_wire_def http_wire_def http_build_def redis_NewComponent_def redis_NewClient_def RedisConfig_withDefaults_def Let_def)
  then obtain srv where srv: "demo_wire = Inr srv" ..
  have plain: "plain_metric_path demo_http_config" unfolding plain_metric_path_def plain_iff by code_simp
  have cfg: "Redis_Enabled (Hc_Redis demo_http_config)" "\<not> limited demo_http_config" "w_faults (Hs_world demo_http_state) = []"
    by (simp_all add: demo_http_config_def demo_http_state_def demo_shop_def limited_def)
  have ports: "limiters_apart demo_ports" by (simp add: limiters_apart_def demo_ports_def)
  have prom: "labels_documented (Port_prom demo_ports)"
    using demo_http_metrics_documented by (simp add: documented_metrics_def demo_ports_def)
  have r: "Rq_Method (demo_cache_request m p) = m" "Rq_Path (demo_cache_request m p) = p"
    "Rq_Query (demo_cache_request m p) ''key'' = ''a''" "Rq_Query (demo_cache_request m p) ''val'' = ''1''" for m p
    by (simp_all add: demo_cache_request_def)
  note round = cache_roundtrip [OF srv [unfolded demo_wire_def] cfg(1) plain ports prom _ r(1) r(2) r(3) r(4) r(1) r(2) r(3)]
  show ?thesis using round [of "Some [1]" demo_http_state None] srv cfg by (auto simp: split_beta Let_def)
qed

end
