(* ===== verification/Spec2Isabelle.thy ===== *)
theory Spec2Isabelle
  imports QuanMain TableFrames QuanDelivery QuanThreads ExampleServer Observability
begin

text \<open>
  mini-jupiter is a small application framework in Go (pkg, internal) and two servers built with it: a coupon-claim
  service (examples/Quan) and an example HTTP server (examples/http-server). This library models both servers and the framework
  below them and proves what they promise. It is written against the sources under src/, whose file and function names it keeps; a
  prefix tells apart functions of the same name in different packages (\<open>task_MarkSuspended\<close>, \<open>outbox_MarkSuspended\<close>).

  \<^bold>\<open>The coupon service.\<close> \<^verbatim>\<open>POST /api/v1/coupons/{id}/claim\<close> reaches the handler, which calls the service. With Redis the adjudicator's
  Lua scripts decide first (stock, per-user count, idempotency key) and the repository then persists the claim; without Redis the
  repository decides alone. In both cases one MySQL transaction exchanges one unit of stock for one claim row and writes a notice task and an
  outbox event beside it. The relay turns due events into ids in a Redis ready list, workers pop ids and run the
  task's handler, failures are retried through a sorted set or end in a dead-letter list, a compensator picks up
  what got stuck, and an operator can replay dead letters over HTTP.

  \<^bold>\<open>How code is modelled.\<close> A Go function with effects is a value of \<open>('s, 'a) state\<close>, a function that can return an
  error yields a sum with \<open>Inl\<close> for the error, panics are outcomes of their own. All processes of the coupon service share one \<open>world\<close>: the
  tables, the open transaction, the Redis keyspace, the clock, and a script of faults. Each round trip to MySQL or Redis
  consumes one entry of the script and may be dropped before it takes effect or lose its answer after it; the theorems hold for every
  script and every movement of the clock. A Go interface that a component calls is a record of operations, and what the component relies on
  is a locale over it (\<open>relay_env\<close>, \<open>relay_loop\<close>, \<open>relay_live\<close>, \<open>consumer_env\<close>, \<open>consumer_loop\<close>, \<open>compensator_env\<close>,
  \<open>compensator_live\<close>, \<open>step_frame\<close>, \<open>rely\<close>, \<open>rounding\<close>), interpreted on the model of the code that provides it. Code that is shared by
  goroutines at the level of single operations is a step relation over the multiset of their program points.

  \<^bold>\<open>The theories.\<close>
  \<^item> Prelude, GoStd: sequencing, weakest preconditions, tables and \<open>int64\<close>; errors, strconv, strings, time and json of Go.
  \<^item> RedisStore, World, AppErrors: Redis commands; the shared world and pkg/mysql/tx.go; pkg/errors and trace ids.
  \<^item> CouponRepository, CouponAdjudicator, CouponService, CouponHandler: examples/Quan/internal/coupon. The transactions, the
    Lua scripts, both claim paths and the HTTP handlers. Shown: a claim happens completely or not at all and at most once per key, no
    unit is sold twice by Redis or MySQL, rollback undoes an admission, polling ends, and what the endpoint's answers mean.
  \<^item> OutboxRepository, OutboxRelay: examples/Quan/internal/outbox. Shown: events are published only after their task's id was pushed
    and are never dropped, and stale ones are recovered and delivered.
  \<^item> TaskRepository, TaskQueue, TaskConsumer, TaskCompensator, TaskService: examples/Quan/internal/task. Shown: the life cycle of a task under
    any schedule of workers, what consuming, compensating and replaying do in every fault case, and that each of them reaches its
    goal when nothing fails.
  \<^item> StepFrame, QuanSystem, TableFrames, QuanDelivery: what each process leaves alone, all processes as one transition system with its invariant,
    the part of the invariant that speaks of the tables alone and holds for any queue keys, and the delivery of notices.
  \<^item> Threads, QuanThreads: the same processes cut at their round trips. A thread is a finite or branching sequence of atomic steps
    (\<open>thread\<close>, \<open>bindT\<close>); \<open>solo_*\<close> equations say that a thread run alone is the code it was cut from. A pool of threads of any number of servers
    takes steps in any order and threads may die between two steps. The locale \<open>rely\<close> is rely-guarantee reasoning for such pools: every step of
    every thread keeps an invariant and stays within a guarantee under which the pending steps of the others remain safe. Shown: the invariants of
    QuanSystem hold at this granularity, and whole rounds are one of the interleavings.
  \<^item> MetricRegistry, Observability: the collectors of pkg/metric and examples/Quan/internal/observability, their registration and label
    sets over a Prometheus client that is a parameter; the counters, the fail rate and the classifications.
  \<^item> ConfigLoader, PkgClients, AppRuntime, WorkerPool, RateLimiter, IsolationLimiter, Migration: pkg/config; pkg/mysql and pkg/redis
    clients and pkg/log; pkg/runtime; pkg/pool; pkg/ratelimiter; pkg/isolation; pkg/mysql/migration.go. Shown: the last good configuration
    stays in force and loading binds exactly the leaf fields to the environment before it reads the file; connection limits; components start all or
    nothing and a server lives from its start to the signal that stops it (\<open>app_lifecycle\<close>); in a pool with workers each accepted job is done exactly once before Close returns; the rate is kept up to \<^verbatim>\<open>float64\<close> rounding;
    concurrency and queue limits hold and nothing leaks; the SQL splitter is a lexer and files are applied in order, once.
  \<^item> HttpMiddleware, HttpMux: internal/middleware and the operations of pkg/metric; the router of net/http. Shown: what the chain does to
    answers, panics, trace ids and gauges around handlers that keep to \<open>handler_step\<close>, including requests whose labels Prometheus refuses.
  \<^item> QuanMain, ExampleServer: the two main.go files. \<open>quan_wire\<close> and \<open>http_wire\<close> follow the wiring; \<open>server_step\<close> is what the coupon server
    then does, and it refines the transition system of QuanSystem; all routes of the coupon server are handlers of the kind that the
    middlewares rely on (\<open>middleware_chain\<close>). Shown for the example server: the cache endpoints give back what was stored. This theory draws the conclusion for the server as main starts it.

  \<^bold>\<open>Bounds and fuel.\<close> Loops that run until the process is stopped (relay, workers, retry scheduler, compensator) take the number of their
  rounds or a schedule as an argument over which the theorems quantify. The polling loop of the adjudicator has fuel computed
  from its deadline and its interval, and the theorem about it shows that this fuel suffices. Other loops are structural or have a
  termination proof. Durations and counters that can overflow wrap at 64 bits; the fail-rate counters are \<open>64 word\<close>. The exponent range of
  \<^verbatim>\<open>float64\<close> is not bounded in the rate limiter, whose rates are finite.

  \<^bold>\<open>Limits of the model.\<close> MySQL transactions are atomic steps, as the row locks of the claim path make them on one campaign. QuanSystem and
  QuanMain let the rounds of different processes and HTTP requests interleave as wholes; QuanThreads interleaves them at every round trip to
  MySQL and Redis, where a clock reading that stamps a statement belongs to the statement's step. Task ids are assumed to fit \<open>int64\<close> where a statement
  needs it. Columns do not overflow and RowsAffected and LastInsertId do not fail. JSON is a tree, not its bytes. Collation is a
  function of the database. Random numbers, printed times, hashes and the listing of the migration directory are arguments. The router
  knows literal and single-segment wildcard patterns.

  \<^bold>\<open>Not modelled.\<close> Log lines have no effect on what is modelled. Signals are modelled while a server waits for them, not the default action of one
  that arrives earlier. A context is its trace id or its deadline, whichever the
  definition reads. Prometheus and its exposition format,
  viper, zap, the MySQL driver and go-redis are third-party and appear as parameters.
\<close>

section \<open>The server that main starts\<close>

text \<open>
  C1. The server never oversells, from \<^verbatim>\<open>main\<close> on. Let \<^verbatim>\<open>main\<close> come up with any configuration at all on fresh tables: nothing claimed, every
  campaign listed once with its stock equal to its total, no tasks, no events and no open transaction; Redis may hold anything, and the configured queue keys may collide
  with each other or with the keys of the claim decisions. Then, whatever requests arrive at its HTTP handler, whatever rounds
  its relay, workers, retry scheduler and compensator make, whichever round trips to MySQL and Redis are lost and whichever keys
  Redis forgets: no stock is negative, stock left and claims granted add up to the total of every campaign, no user has more claims
  than the limit, and every claim has exactly one notice task, which an event of the outbox announces.
\<close>

theorem main_never_oversells:
  assumes "quan_main env load log_init parse_dsn gr pr0 en0 = Inr srv"
    and "w_tx w = None" "tables_fresh (w_db w)" "server_run pr srv w w'"
  shows "(\<forall>c \<in> set (db_campaigns (w_db w')). 0 \<le> cp_available_stock c \<and>
            cp_available_stock c + int (length (claims_of (cp_coupon_id c) (w_db w'))) = cp_total_stock c \<and>
            (\<forall>u. int (length (user_claims (cp_coupon_id c) u (w_db w'))) \<le> effective_limit (cp_per_user_limit c))) \<and>
         (\<forall>x \<in> set (db_claims (w_db w')). \<exists>t. notice_tasks (w_db w') x = [t] \<and> announced (w_db w') (tk_task_id t))"
proof -
  obtain cfg where "quan_wire parse_dsn gr pr0 en0 cfg = Inr srv" using quan_main_wired [OF assms(1)] by blast
  then have "quan_run (QueueConfig_withDefaults (Cfg_Queue cfg)) w w'" by (rule server_run_refines [OF _ refl assms(4)])
  then show ?thesis by (rule quan_never_oversells [OF assms(2,3)])
qed

lemma demo_main: "\<exists>srv. quan_main '''' (\<lambda>_. Inr demo_config) (\<lambda>_. Inr ()) (\<lambda>_. Inr ()) demo_goredis demo_printers demo_entropy = Inr srv"
  using demo_wired by (simp add: quan_main_def)

theorem main_never_oversells_witness:
  "\<exists>srv. quan_main '''' (\<lambda>_. Inr demo_config) (\<lambda>_. Inr ()) (\<lambda>_. Inr ()) demo_goredis demo_printers demo_entropy = Inr srv \<and>
     list_all (\<lambda>c. 0 \<le> cp_available_stock c \<and>
       cp_available_stock c + int (length (claims_of (cp_coupon_id c) (w_db (demo_served srv)))) = cp_total_stock c)
     (db_campaigns (w_db (demo_served srv)))"
proof -
  obtain srv where srv: "quan_main '''' (\<lambda>_. Inr demo_config) (\<lambda>_. Inr ()) (\<lambda>_. Inr ()) demo_goredis demo_printers demo_entropy = Inr srv"
    using demo_main by blast
  have "w_tx demo_dawn = None" "tables_fresh (w_db demo_dawn)" using demo_dawn_fresh by (simp_all add: quan_fresh_def)
  from main_never_oversells [OF srv this demo_server_run] srv show ?thesis unfolding list_all_iff by blast
qed

end
